(* ===== verification/Prelude.thy ===== *)
theory Prelude
imports Main "HOL-Library.Word"
begin

text \<open>
  Shared vocabulary of the development: Python exceptions as values, the result
  type of a function that may raise, Python slices over lists, and the generic
  list lemmas every component uses.

  An exception carries the constant part of its message (the values the source
  interpolates into the message are left out).  A function that may raise returns
  \<open>exn + 'a\<close>, with \<open>Inl\<close> for the exception, and is sequenced with \<open>bindE\<close>.
  The sequencing is polymorphic in the error: the browser's reader has errors of its own.
\<close>

section \<open>Exceptions and results\<close>

datatype exn =
    ValueError string
  | AssertionError string
  | KeyError string
  | IndexError
  | OverflowError
  | StructError
  | UnicodeError
  | OSError string
  | ProcessError string
  | SystemExit string

type_synonym 'a result = "exn + 'a"

type_synonym byte = "8 word"
type_synonym bytes = "byte list"

named_theorems result_simps
named_theorems slice_simps
named_theorems codec_simps

fun bindE :: "'e + 'a \<Rightarrow> ('a \<Rightarrow> 'e + 'b) \<Rightarrow> 'e + 'b" where
  "bindE (Inl e) f = Inl e"
| "bindE (Inr x) f = f x"

text \<open>\<open>if c: raise e\<close>, sequenced before the rest of the body.\<close>

definition raise_if :: "bool \<Rightarrow> 'e \<Rightarrow> 'e + unit" where
  "raise_if c e = (if c then Inl e else Inr ())"

fun mapE :: "('a \<Rightarrow> 'e + 'b) \<Rightarrow> 'a list \<Rightarrow> 'e + 'b list" where
  "mapE f [] = Inr []"
| "mapE f (x # xs) = bindE (f x) (\<lambda>y. bindE (mapE f xs) (\<lambda>ys. Inr (y # ys)))"

lemma bindE_Inr_iff [result_simps]: "bindE m f = Inr y \<longleftrightarrow> (\<exists>x. m = Inr x \<and> f x = Inr y)"
  by (cases m) auto

lemma bindE_Inl_iff:
  "bindE m f = Inl e \<longleftrightarrow> m = Inl e \<or> (\<exists>x. m = Inr x \<and> f x = Inl e)"
  by (cases m) auto

text \<open>Eliminations that take a sequence of steps apart one at a time, with one name per component.\<close>

lemma bindE_InrE:
  assumes "bindE m f = Inr y"
  obtains x where "m = Inr x" "f x = Inr y"
  using assms by (auto simp: bindE_Inr_iff)

lemma bindE_pairE:
  assumes "bindE m (\<lambda>(a, b). f a b) = Inr y"
  obtains a b where "m = Inr (a, b)" "f a b = Inr y"
  using assms by (auto simp: bindE_Inr_iff)

lemma bindE_tripleE:
  assumes "bindE m (\<lambda>(a, b, c). f a b c) = Inr y"
  obtains a b c where "m = Inr (a, b, c)" "f a b c = Inr y"
  using assms by (auto simp: bindE_Inr_iff)

lemma bindE_quadE:
  assumes "bindE m (\<lambda>(a, b, c, d). f a b c d) = Inr y"
  obtains a b c d where "m = Inr (a, b, c, d)" "f a b c d = Inr y"
  using assms by (auto simp: bindE_Inr_iff)

lemma raise_if_Inr_iff [simp, result_simps]: "raise_if c e = Inr u \<longleftrightarrow> \<not> c"
  by (auto simp: raise_if_def)

lemma raise_if_Inl_iff [simp]: "raise_if c e = Inl e' \<longleftrightarrow> c \<and> e' = e"
  by (auto simp: raise_if_def)

lemma raise_if_False [simp]: "raise_if False e = Inr ()"
  by (simp add: raise_if_def)

lemma raise_if_True [simp]: "raise_if True e = Inl e"
  by (simp add: raise_if_def)

lemma raise_if_cond_simps:
  "c \<Longrightarrow> raise_if c e = Inl e"
  "\<not> c \<Longrightarrow> raise_if c e = Inr ()"
  by simp_all

lemma mapE_Inr_iff: "mapE f xs = Inr ys \<longleftrightarrow> list_all2 (\<lambda>x y. f x = Inr y) xs ys"
proof (induction xs arbitrary: ys)
  case Nil
  show ?case by auto
next
  case (Cons x xs)
  show ?case by (cases ys) (auto simp: bindE_Inr_iff Cons.IH)
qed

lemma mapE_Inl_in: "mapE f xs = Inl e \<Longrightarrow> \<exists>x \<in> set xs. f x = Inl e"
  by (induction xs) (auto simp: bindE_Inl_iff)

lemma mapE_total: "(\<And>x. x \<in> set xs \<Longrightarrow> f x = Inr (g x)) \<Longrightarrow> mapE f xs = Inr (map g xs)"
  by (induction xs) auto

lemma mapE_length: "mapE f xs = Inr ys \<Longrightarrow> length ys = length xs"
  by (auto simp: mapE_Inr_iff dest: list_all2_lengthD)

section \<open>Python slices\<close>

text \<open>
  Python clips the bounds of a slice: a negative bound counts from the end, and
  both are then cut to \<open>0..len\<close>.
\<close>

definition py_bound :: "'a list \<Rightarrow> int \<Rightarrow> nat" where
  "py_bound xs i =
     (let n = int (length xs); j = (if i < 0 then n + i else i)
      in nat (min n (max 0 j)))"

text \<open>\<open>xs[a:b]\<close>\<close>

definition py_slice :: "'a list \<Rightarrow> int \<Rightarrow> int \<Rightarrow> 'a list" where
  "py_slice xs a b = take (py_bound xs b - py_bound xs a) (drop (py_bound xs a) xs)"

text \<open>\<open>xs[a:b] = ys\<close> on a mutable sequence\<close>

definition py_slice_assign :: "'a list \<Rightarrow> int \<Rightarrow> int \<Rightarrow> 'a list \<Rightarrow> 'a list" where
  "py_slice_assign xs a b ys =
     take (py_bound xs a) xs @ ys @ drop (max (py_bound xs a) (py_bound xs b)) xs"

lemma py_bound_in [simp]: "0 \<le> i \<Longrightarrow> i \<le> int (length xs) \<Longrightarrow> py_bound xs i = nat i"
  by (simp add: py_bound_def Let_def)

lemma py_bound_nat: "py_bound xs (int i) = min (length xs) i"
  by (simp add: py_bound_def Let_def min_def)

lemma py_slice_nat [slice_simps]: "py_slice xs (int a) (int b) = take (b - a) (drop a xs)"
proof (cases "a \<le> length xs")
  case True
  have "take (min (length xs) b - a) (drop a xs) = take (b - a) (drop a xs)"
    by (cases "b \<le> length xs") (simp_all add: min_def)
  with True show ?thesis by (simp add: py_slice_def py_bound_nat)
next
  case False
  then show ?thesis by (simp add: py_slice_def py_bound_nat)
qed

lemma py_slice_in:
  "0 \<le> a \<Longrightarrow> a \<le> b \<Longrightarrow> b \<le> int (length xs) \<Longrightarrow>
   py_slice xs a b = take (nat (b - a)) (drop (nat a) xs)"
  by (simp add: py_slice_def nat_diff_distrib)

lemma py_slice_assign_in:
  "0 \<le> a \<Longrightarrow> a \<le> b \<Longrightarrow> b \<le> int (length xs) \<Longrightarrow>
   py_slice_assign xs a b ys = take (nat a) xs @ ys @ drop (nat b) xs"
  by (simp add: py_slice_assign_def max_def)

lemma py_slice_assign_nat [slice_simps]:
  "a \<le> b \<Longrightarrow> b \<le> length xs \<Longrightarrow>
   py_slice_assign xs (int a) (int b) ys = take a xs @ ys @ drop b xs"
  by (simp add: py_slice_assign_in)

end
