(* ===== verification/PyText.thy ===== *)
theory PyText
imports Prelude
begin

text \<open>
  The part of Python's \<open>str\<close> the scripts use.  A \<open>str\<close> is a \<open>string\<close> whose
  characters are code points below 256; on these code points the definitions
  below are Python's, white space and decimal digits included.
\<close>

section \<open>Characters\<close>

definition code_point :: "char \<Rightarrow> nat" where
  "code_point c = of_char c"

lemma code_point_bound: "code_point c < 256"
  by (simp add: code_point_def)

lemma code_point_inject [simp]: "code_point c = code_point d \<longleftrightarrow> c = d"
  by (simp add: code_point_def)

definition in_range :: "nat \<Rightarrow> nat \<Rightarrow> char \<Rightarrow> bool" where
  "in_range a b c \<longleftrightarrow> a \<le> code_point c \<and> code_point c \<le> b"

definition py_isspace :: "char \<Rightarrow> bool" where
  "py_isspace c \<longleftrightarrow>
     in_range 9 13 c \<or> in_range 28 32 c \<or> code_point c = 133 \<or> code_point c = 160"

definition is_ascii_digit :: "char \<Rightarrow> bool" where "is_ascii_digit = in_range 48 57"
definition is_ascii_lower :: "char \<Rightarrow> bool" where "is_ascii_lower = in_range 97 122"
definition is_ascii_upper :: "char \<Rightarrow> bool" where "is_ascii_upper = in_range 65 90"

text \<open>The value of a hexadecimal digit, in either case.\<close>

definition hex_value :: "char \<Rightarrow> nat option" where
  "hex_value c =
     (if in_range 48 57 c then Some (code_point c - 48)
      else if in_range 97 102 c then Some (code_point c - 87)
      else if in_range 65 70 c then Some (code_point c - 55)
      else None)"

definition hex_digit :: "nat \<Rightarrow> char" where
  "hex_digit v = (if v < 10 then char_of (48 + v) else char_of (87 + v))"

lemma code_point_char_of: "n < 256 \<Longrightarrow> code_point (char_of n) = n"
  by (simp add: code_point_def)

lemma hex_value_bound: "hex_value c = Some v \<Longrightarrow> v < 16"
  by (auto simp: hex_value_def in_range_def split: if_splits)

lemma hex_value_hex_digit: "v < 16 \<Longrightarrow> hex_value (hex_digit v) = Some v"
  by (auto simp: hex_value_def hex_digit_def in_range_def code_point_char_of)

lemma hex_value_not_space: "hex_value c = Some v \<Longrightarrow> \<not> py_isspace c"
  by (auto simp: hex_value_def py_isspace_def in_range_def split: if_splits)

lemma hex_value_not_question: "hex_value c = Some v \<Longrightarrow> c \<noteq> CHR ''?''"
  by (auto simp: hex_value_def in_range_def code_point_def split: if_splits)

section \<open>Splitting\<close>

text \<open>\<open>s.split()\<close>: the maximal runs of characters that are not white space.\<close>

fun split_ws_acc :: "string \<Rightarrow> string \<Rightarrow> string list" where
  "split_ws_acc w [] = (if w = [] then [] else [w])"
| "split_ws_acc w (c # cs) =
     (if py_isspace c then (if w = [] then split_ws_acc [] cs else w # split_ws_acc [] cs)
      else split_ws_acc (w @ [c]) cs)"

definition py_split_ws :: "string \<Rightarrow> string list" where
  "py_split_ws s = split_ws_acc [] s"

text \<open>\<open>''''.join(s.split())\<close> drops the white space.\<close>

lemma concat_split_ws_acc: "concat (split_ws_acc w s) = w @ filter (\<lambda>c. \<not> py_isspace c) s"
  by (induction s arbitrary: w) auto

lemma concat_py_split_ws: "concat (py_split_ws s) = filter (\<lambda>c. \<not> py_isspace c) s"
  by (simp add: py_split_ws_def concat_split_ws_acc)

text \<open>\<open>s.split(sep)\<close> for a one-character separator: never empty.\<close>

fun split_on :: "char \<Rightarrow> string \<Rightarrow> string list" where
  "split_on sep [] = [[]]"
| "split_on sep (c # cs) =
     (if c = sep then [] # split_on sep cs
      else case split_on sep cs of [] \<Rightarrow> [[c]] | w # ws \<Rightarrow> (c # w) # ws)"

text \<open>\<open>sep.join(parts)\<close>\<close>

fun join_with :: "string \<Rightarrow> string list \<Rightarrow> string" where
  "join_with sep [] = []"
| "join_with sep [w] = w"
| "join_with sep (w # ws) = w @ sep @ join_with sep ws"

lemma split_on_nonempty [simp]: "split_on sep s \<noteq> []"
  by (induction s) (auto split: list.splits)

lemma join_split_on: "join_with [sep] (split_on sep s) = s"
proof (induction s)
  case Nil
  show ?case by simp
next
  case (Cons c cs)
  obtain w ws where w: "split_on sep cs = w # ws" by (cases "split_on sep cs") auto
  with Cons show ?case by (cases ws) auto
qed

lemma split_on_no_sep: "sep \<notin> set s \<Longrightarrow> split_on sep s = [s]"
  by (induction s) auto

lemma split_on_append_sep:
  "sep \<notin> set w \<Longrightarrow> split_on sep (w @ sep # s) = w # split_on sep s"
  by (induction w) auto

lemma split_on_join:
  "ws \<noteq> [] \<Longrightarrow> \<forall>w \<in> set ws. sep \<notin> set w \<Longrightarrow> split_on sep (join_with [sep] ws) = ws"
proof (induction ws)
  case Nil
  then show ?case by simp
next
  case (Cons w ws)
  then show ?case by (cases ws) (simp_all add: split_on_no_sep split_on_append_sep)
qed

lemma split_on_parts: "w \<in> set (split_on sep s) \<Longrightarrow> sep \<notin> set w \<and> set w \<subseteq> set s"
proof (induction s arbitrary: w)
  case Nil
  then show ?case by simp
next
  case (Cons c cs)
  obtain v vs where v: "split_on sep cs = v # vs" by (cases "split_on sep cs") auto
  have "sep \<notin> set u \<and> set u \<subseteq> set cs" if "u = v \<or> u \<in> set vs" for u
    using that v Cons.IH by auto
  with Cons.prems v show ?case by (fastforce split: if_splits)
qed

lemma split_on_append:
  "split_on sep (a @ sep # b) = split_on sep a @ split_on sep b"
  by (induction a) (auto split: list.splits)

text \<open>\<open>s.partition(sep)\<close>: the text before the first separator, whether there is one, the rest.\<close>

fun partition_on :: "char \<Rightarrow> string \<Rightarrow> string \<times> bool \<times> string" where
  "partition_on sep [] = ([], False, [])"
| "partition_on sep (c # cs) =
     (if c = sep then ([], True, cs)
      else case partition_on sep cs of (a, f, b) \<Rightarrow> (c # a, f, b))"

lemma partition_on_append:
  "sep \<notin> set a \<Longrightarrow> partition_on sep (a @ sep # b) = (a, True, b)"
  by (induction a) auto

lemma partition_on_True:
  "partition_on sep s = (a, True, b) \<Longrightarrow> s = a @ sep # b \<and> sep \<notin> set a"
  by (induction s arbitrary: a) (auto split: if_splits prod.splits)

text \<open>\<open>s.splitlines()\<close>: no empty last line after a final line break.\<close>

definition is_line_break :: "char \<Rightarrow> bool" where
  "is_line_break c \<longleftrightarrow> in_range 10 13 c \<or> in_range 28 30 c \<or> code_point c = 133"

fun lines_acc :: "string \<Rightarrow> string \<Rightarrow> string list" where
  "lines_acc w [] = (if w = [] then [] else [w])"
| "lines_acc w (c # cs) =
     (if code_point c = 13 then
        w # (case cs of d # ds \<Rightarrow> if code_point d = 10 then lines_acc [] ds else lines_acc [] cs
                      | [] \<Rightarrow> [])
      else if is_line_break c then w # lines_acc [] cs
      else lines_acc (w @ [c]) cs)"

definition splitlines :: "string \<Rightarrow> string list" where
  "splitlines s = lines_acc [] s"

lemma lines_acc_no_break:
  "\<forall>c \<in> set v. \<not> is_line_break c \<Longrightarrow> lines_acc w (v @ s) = lines_acc (w @ v) s"
proof (induction v arbitrary: w)
  case Nil
  then show ?case by simp
next
  case (Cons c cs)
  then have "code_point c \<noteq> 13" by (auto simp: is_line_break_def in_range_def)
  with Cons show ?case by auto
qed

lemma lines_acc_newline:
  assumes "\<forall>c \<in> set v. \<not> is_line_break c"
  shows "lines_acc [] (v @ CHR 0x0A # s) = v # lines_acc [] s"
  using lines_acc_no_break [OF assms, of "[]" "CHR 0x0A # s"]
  by (simp add: is_line_break_def in_range_def code_point_def)

lemma splitlines_newline:
  "\<forall>c \<in> set v. \<not> is_line_break c \<Longrightarrow> splitlines (v @ CHR 0x0A # s) = v # splitlines s"
  by (simp add: splitlines_def lines_acc_newline)

lemma splitlines_Nil [simp]: "splitlines [] = []"
  by (simp add: splitlines_def)

section \<open>int(s, 16)\<close>

text \<open>
  Python accepts surrounding white space, a sign, the prefix \<open>0x\<close> and single
  underscores between digits; the result may be negative.
\<close>

definition is_int_space :: "char \<Rightarrow> bool" where
  "is_int_space c \<longleftrightarrow>
     in_range 9 13 c \<or> code_point c = 32 \<or> code_point c = 133 \<or> code_point c = 160"

fun hex_digits :: "bool \<Rightarrow> int \<Rightarrow> string \<Rightarrow> int option" where
  "hex_digits pend acc [] = (if pend then None else Some acc)"
| "hex_digits pend acc (c # cs) =
     (if c = CHR ''_'' then (if pend then None else hex_digits True acc cs)
      else case hex_value c of
             None \<Rightarrow> None
           | Some d \<Rightarrow> hex_digits False (16 * acc + int d) cs)"

definition drop_hex_prefix :: "string \<Rightarrow> string" where
  "drop_hex_prefix s =
     (if take 2 s = ''0x'' \<or> take 2 s = ''0X''
      then (if take 1 (drop 2 s) = ''_'' then drop 3 s else drop 2 s)
      else s)"

definition strip_int_space :: "string \<Rightarrow> string" where
  "strip_int_space s = rev (dropWhile is_int_space (rev (dropWhile is_int_space s)))"

definition int_base16 :: "string \<Rightarrow> int option" where
  "int_base16 s =
     (case strip_int_space s of
        [] \<Rightarrow> None
      | c # cs \<Rightarrow>
          if c = CHR ''+'' then hex_digits True 0 (drop_hex_prefix cs)
          else if c = CHR ''-'' then map_option uminus (hex_digits True 0 (drop_hex_prefix cs))
          else hex_digits True 0 (drop_hex_prefix (c # cs)))"

lemma hex_value_not_int_space: "hex_value c = Some v \<Longrightarrow> \<not> is_int_space c"
  by (auto simp: hex_value_def is_int_space_def in_range_def split: if_splits)

lemma hex_value_special:
  "hex_value CHR ''_'' = None" "hex_value CHR ''+'' = None" "hex_value CHR ''-'' = None"
  "hex_value CHR ''x'' = None" "hex_value CHR ''X'' = None" "hex_value CHR ''?'' = None"
  "hex_value CHR '':'' = None"
  by (simp_all add: hex_value_def in_range_def code_point_def)

lemma int_base16_two_digits:
  assumes "hex_value a = Some x" "hex_value b = Some y"
  shows "int_base16 [a, b] = Some (16 * int x + int y)"
proof -
  from assms have ns: "\<not> is_int_space a" "\<not> is_int_space b"
    by (auto dest: hex_value_not_int_space)
  from assms have ne: "a \<noteq> CHR ''+''" "a \<noteq> CHR ''-''" "a \<noteq> CHR ''_''" "b \<noteq> CHR ''_''"
    "b \<noteq> CHR ''x''" "b \<noteq> CHR ''X''"
    by (auto simp: hex_value_special)
  from ns have s: "strip_int_space [a, b] = [a, b]" by (simp add: strip_int_space_def)
  from ne have p: "drop_hex_prefix [a, b] = [a, b]" by (simp add: drop_hex_prefix_def)
  show ?thesis using ne assms by (simp add: int_base16_def s p)
qed

section \<open>ASCII\<close>

text \<open>\<open>bytes.decode("ascii")\<close> and \<open>str.encode("ascii")\<close>; their errors are \<open>ValueError\<close>s in Python.\<close>

definition decode_ascii :: "bytes \<Rightarrow> string result" where
  "decode_ascii data =
     (if \<exists>b \<in> set data. b \<ge> 0x80 then Inl UnicodeError
      else Inr (map (\<lambda>b. char_of (unat b)) data))"

definition encode_ascii :: "string \<Rightarrow> bytes result" where
  "encode_ascii s =
     (if \<exists>c \<in> set s. code_point c \<ge> 128 then Inl UnicodeError
      else Inr (map (\<lambda>c. of_nat (code_point c)) s))"

lemma ascii_roundtrip:
  assumes "\<forall>c \<in> set s. code_point c < 128"
  shows "\<exists>data. encode_ascii s = Inr data \<and> decode_ascii data = Inr s"
proof -
  let ?data = "map (\<lambda>c. of_nat (code_point c) :: byte) s"
  have u: "unat (of_nat (code_point c) :: byte) = code_point c" if "c \<in> set s" for c
    using code_point_bound [of c] by (simp add: unat_of_nat)
  have "encode_ascii s = Inr ?data" using assms by (auto simp: encode_ascii_def not_le)
  moreover have "(of_nat (code_point c) :: byte) < 0x80" if "c \<in> set s" for c
    using u [OF that] assms that by (simp add: word_less_nat_alt)
  then have "\<not> (\<exists>b \<in> set ?data. b \<ge> 0x80)" by (auto simp: not_le)
  moreover have "map (\<lambda>b. char_of (unat b)) ?data = s"
    using u by (auto simp: o_def code_point_def intro!: map_idI)
  ultimately show ?thesis by (auto simp: decode_ascii_def)
qed

text \<open>\<open>str.encode()\<close>, UTF-8, on the code points a \<open>string\<close> holds.\<close>

definition utf8_char :: "char \<Rightarrow> bytes" where
  "utf8_char c =
     (let n = code_point c
      in if n < 128 then [of_nat n] else [of_nat (192 + n div 64), of_nat (128 + n mod 64)])"

definition encode_utf8 :: "string \<Rightarrow> bytes" where
  "encode_utf8 s = concat (map utf8_char s)"

lemma encode_utf8_ascii:
  "\<forall>c \<in> set s. code_point c < 128 \<Longrightarrow> encode_utf8 s = map (\<lambda>c. of_nat (code_point c)) s"
  by (induction s) (auto simp: encode_utf8_def utf8_char_def Let_def)

lemma decode_encode_utf8:
  assumes "\<forall>c \<in> set s. code_point c < 128"
  shows "decode_ascii (encode_utf8 s) = Inr s"
  using ascii_roundtrip [OF assms] assms by (auto simp: encode_ascii_def encode_utf8_ascii split: if_splits)

section \<open>Decimal numbers and line ends\<close>

text \<open>\<open>str(n)\<close> for a natural number.\<close>

fun decimal :: "nat \<Rightarrow> string" where
  "decimal n =
     (if n < 10 then [char_of (48 + n)] else decimal (n div 10) @ [char_of (48 + n mod 10)])"

declare decimal.simps [simp del]

definition is_digits :: "string \<Rightarrow> bool" where
  "is_digits s \<longleftrightarrow> s \<noteq> [] \<and> list_all is_ascii_digit s"

lemma digit_char: "(d::nat) < 10 \<Longrightarrow> is_ascii_digit (char_of (48 + d))"
  by (simp add: is_ascii_digit_def in_range_def code_point_char_of)

lemma decimal_digits: "is_digits (decimal n)"
proof (induction n rule: decimal.induct)
  case (1 n)
  then show ?case by (simp add: decimal.simps [of n] is_digits_def digit_char)
qed

text \<open>The inverse, Horner's rule over the digits.\<close>

definition decimal_value :: "string \<Rightarrow> nat" where
  "decimal_value s = foldl (\<lambda>v c. 10 * v + (code_point c - 48)) 0 s"

lemma decimal_value_decimal: "decimal_value (decimal n) = n"
proof (induction n rule: decimal.induct)
  case (1 n)
  then show ?case
    by (cases "n < 10") (simp_all add: decimal.simps [of n] decimal_value_def code_point_char_of)
qed

text \<open>Reading a text file translates each line end to a line feed.\<close>

fun universal_newlines :: "bool \<Rightarrow> string \<Rightarrow> string" where
  "universal_newlines after_cr [] = []"
| "universal_newlines after_cr (c # cs) =
     (if c = CHR 0x0D then CHR 0x0A # universal_newlines True cs
      else if c = CHR 0x0A \<and> after_cr then universal_newlines False cs
      else c # universal_newlines False cs)"

lemma universal_newlines_no_cr: "CHR 0x0D \<notin> set (universal_newlines b s)"
  by (induction b s rule: universal_newlines.induct) auto

lemma universal_newlines_id: "CHR 0x0D \<notin> set s \<Longrightarrow> universal_newlines False s = s"
  by (induction s) auto

lemma universal_newlines_set: "c \<in> set (universal_newlines b s) \<Longrightarrow> c \<in> set s \<or> c = CHR 0x0A"
  by (induction b s rule: universal_newlines.induct) (auto split: if_splits)

definition ends_with :: "string \<Rightarrow> string \<Rightarrow> bool" where
  "ends_with s suf \<longleftrightarrow> length suf \<le> length s \<and> drop (length s - length suf) s = suf"

end
