(* ===== verification/Json.thy ===== *)
theory Json
imports PyText
begin

text \<open>
  The values \<open>json.loads\<close> returns, and the accessors both loaders share: the key
  check of an object, the non-empty string field, and the identifier syntax.
  A dictionary is the list of its items in order, with distinct keys.
\<close>

datatype json =
    JNull
  | JBool bool
  | JInt int
  | JFloat string
  | JStr string
  | JArr "json list"
  | JObj "(string \<times> json) list"

type_synonym json_object = "(string \<times> json) list"

text \<open>\<open>d.get(key)\<close>; a missing key and a JSON \<open>null\<close> are both Python's \<open>None\<close>.\<close>

definition json_get :: "json_object \<Rightarrow> string \<Rightarrow> json" where
  "json_get d key = (case map_of d key of None \<Rightarrow> JNull | Some v \<Rightarrow> v)"

text \<open>\<open>isinstance(v, int)\<close> holds for booleans too, which count as 0 and 1.\<close>

fun int_instance :: "json \<Rightarrow> int option" where
  "int_instance (JInt n) = Some n"
| "int_instance (JBool b) = Some (if b then 1 else 0)"
| "int_instance _ = None"

fun str_instance :: "json \<Rightarrow> string option" where
  "str_instance (JStr s) = Some s"
| "str_instance _ = None"

fun json_strings :: "json list \<Rightarrow> string list option" where
  "json_strings [] = Some []"
| "json_strings (v # vs) =
     (case (str_instance v, json_strings vs) of
        (Some s, Some ss) \<Rightarrow> Some (s # ss)
      | _ \<Rightarrow> None)"

text \<open>A dictionary whose values are all strings (JSON keys always are).\<close>

fun string_map :: "json_object \<Rightarrow> (string \<times> string) list option" where
  "string_map [] = Some []"
| "string_map ((k, v) # rest) =
     (case (str_instance v, string_map rest) of
        (Some s, Some ss) \<Rightarrow> Some ((k, s) # ss)
      | _ \<Rightarrow> None)"

definition unknown_fields :: "json_object \<Rightarrow> string list \<Rightarrow> string list" where
  "unknown_fields item allowed = filter (\<lambda>k. k \<notin> set allowed) (map fst item)"

text \<open>\<open>re.compile(r"^[a-z][a-z0-9_]*$").fullmatch(s)\<close>\<close>

definition identifier_char :: "char \<Rightarrow> bool" where
  "identifier_char c \<longleftrightarrow> is_ascii_lower c \<or> is_ascii_digit c \<or> c = CHR ''_''"

definition is_identifier :: "string \<Rightarrow> bool" where
  "is_identifier s =
     (case s of [] \<Rightarrow> False | c # cs \<Rightarrow> is_ascii_lower c \<and> list_all identifier_char cs)"

lemma str_instance_Some_iff: "str_instance v = Some s \<longleftrightarrow> v = JStr s"
  by (cases v) auto

lemma json_strings_JStr: "json_strings (map JStr ss) = Some ss"
  by (induction ss) auto

lemma json_strings_Some_iff: "json_strings vs = Some ss \<longleftrightarrow> vs = map JStr ss"
proof
  show "json_strings vs = Some ss \<Longrightarrow> vs = map JStr ss"
    by (induction vs arbitrary: ss) (auto simp: str_instance_Some_iff split: option.splits)
qed (simp add: json_strings_JStr)

lemma string_map_JStr: "string_map (map (\<lambda>(k, s). (k, JStr s)) m) = Some m"
  by (induction m) auto

lemma string_map_Some_iff: "string_map d = Some m \<longleftrightarrow> d = map (\<lambda>(k, s). (k, JStr s)) m"
proof
  show "string_map d = Some m \<Longrightarrow> d = map (\<lambda>(k, s). (k, JStr s)) m"
    by (induction d arbitrary: m rule: string_map.induct)
       (auto simp: str_instance_Some_iff split: option.splits)
qed (simp add: string_map_JStr)

lemma is_identifier_nonempty: "is_identifier s \<Longrightarrow> s \<noteq> []"
  by (cases s) (auto simp: is_identifier_def)

end
