(* ===== verification/ByteCodec.thy ===== *)
theory ByteCodec
imports Prelude
begin

text \<open>
  Byte strings: slices with non-negative bounds, slice assignment on a
  \<open>bytearray\<close>, \<open>bytes.find\<close>, and the fixed-width integer formats of \<open>struct\<close>
  and \<open>int.to_bytes\<close>/\<open>int.from_bytes\<close>.  The locale \<open>fixed_codec\<close> is the contract of
  a fixed-width field (encode, decode, width); its clients read a field back after
  writing it into a buffer, and it is interpreted on the little- and big-endian
  formats the scripts use.
\<close>

section \<open>Slices and slice assignment with non-negative bounds\<close>

definition bslice :: "'a list \<Rightarrow> nat \<Rightarrow> nat \<Rightarrow> 'a list" where
  "bslice xs a b = take (b - a) (drop a xs)"

definition bassign :: "'a list \<Rightarrow> nat \<Rightarrow> nat \<Rightarrow> 'a list \<Rightarrow> 'a list" where
  "bassign xs a b ys = take a xs @ ys @ drop (max a b) xs"

lemma py_slice_bslice: "py_slice xs (int a) (int b) = bslice xs a b"
  by (simp add: py_slice_nat bslice_def)

lemma length_bslice [simp]: "length (bslice xs a b) = min (b - a) (length xs - a)"
  by (simp add: bslice_def min.commute)

lemma nth_bslice: "a + i < b \<Longrightarrow> b \<le> length xs \<Longrightarrow> bslice xs a b ! i = xs ! (a + i)"
  by (simp add: bslice_def)

lemma length_bassign:
  "a \<le> b \<Longrightarrow> b \<le> length xs \<Longrightarrow> length ys = b - a \<Longrightarrow> length (bassign xs a b ys) = length xs"
  by (simp add: bassign_def max_def)

lemma nth_bassign:
  assumes "a \<le> b" "b \<le> length xs" "length ys = b - a"
  shows "bassign xs a b ys ! i = (if a \<le> i \<and> i < b then ys ! (i - a) else xs ! i)"
proof -
  consider "i < a" | "a \<le> i" "i < b" | "b \<le> i" by linarith
  then show ?thesis
  proof cases
    case 1
    with assms show ?thesis by (simp add: bassign_def nth_append)
  next
    case 2
    with assms have "\<not> i < length (take a xs)" "i - length (take a xs) < length ys" by auto
    with 2 assms show ?thesis by (simp add: bassign_def nth_append min_def)
  next
    case 3
    have "bassign xs a b ys = (take a xs @ ys) @ drop b xs"
      using assms by (simp add: bassign_def max_def)
    moreover have "length (take a xs @ ys) = b" using assms by simp
    ultimately have "bassign xs a b ys ! i = drop b xs ! (i - b)"
      using 3 by (metis nth_append not_less)
    also have "\<dots> = xs ! i" using 3 assms by simp
    finally show ?thesis using 3 by simp
  qed
qed

lemma bslice_bassign_same:
  assumes "a \<le> b" "b \<le> length xs" "length ys = b - a"
  shows "bslice (bassign xs a b ys) a b = ys"
  using assms by (simp add: bslice_def bassign_def min_def)

lemma bslice_bassign_disjoint:
  assumes "a \<le> b" "b \<le> length xs" "length ys = b - a" "d \<le> a \<or> b \<le> c"
  shows "bslice (bassign xs a b ys) c d = bslice xs c d"
proof (rule nth_equalityI)
  from length_bassign [OF assms(1-3)]
  show "length (bslice (bassign xs a b ys) c d) = length (bslice xs c d)" by simp
next
  fix i assume "i < length (bslice (bassign xs a b ys) c d)"
  then have i: "i < d - c" "c + i < length xs"
    using length_bassign [OF assms(1-3)] by auto
  then have "bslice (bassign xs a b ys) c d ! i = bassign xs a b ys ! (c + i)"
    by (simp add: bslice_def length_bassign [OF assms(1-3)])
  also have "\<dots> = xs ! (c + i)"
    using nth_bassign [OF assms(1-3), of "c + i"] assms(4) i by auto
  also have "\<dots> = bslice xs c d ! i" using i by (simp add: bslice_def)
  finally show "bslice (bassign xs a b ys) c d ! i = bslice xs c d ! i" .
qed

lemma bassign_id: "a \<le> b \<Longrightarrow> b \<le> length xs \<Longrightarrow> bassign xs a b (bslice xs a b) = xs"
  by (auto simp: bassign_def bslice_def max_def)
     (metis append_take_drop_id drop_drop le_add_diff_inverse2 add.commute)

lemma bassign_bassign:
  assumes "a \<le> b" "b \<le> length xs" "length ys = b - a" "length zs = b - a"
  shows "bassign (bassign xs a b ys) a b zs = bassign xs a b zs"
  using assms by (simp add: bassign_def max_def min_def)

lemma bassign_commute:
  assumes "a \<le> b" "b \<le> c" "c \<le> d" "d \<le> length xs" "length ys = b - a" "length zs = d - c"
  shows "bassign (bassign xs a b ys) c d zs = bassign (bassign xs c d zs) a b ys"
proof (rule nth_equalityI)
  show "length (bassign (bassign xs a b ys) c d zs) = length (bassign (bassign xs c d zs) a b ys)"
    using assms by (simp add: length_bassign)
next
  fix i
  have 1: "b \<le> length xs" using assms by simp
  have 2: "d \<le> length (bassign xs a b ys)" "b \<le> length (bassign xs c d zs)"
    using assms by (simp_all add: length_bassign)
  show "bassign (bassign xs a b ys) c d zs ! i = bassign (bassign xs c d zs) a b ys ! i"
    using assms 1 2 by (auto simp: nth_bassign)
qed

section \<open>bytes.find\<close>

text \<open>
  \<open>data.find(sub, start)\<close>: the first position at or after \<open>start\<close> where \<open>sub\<close>
  occurs; \<open>None\<close> stands for the result \<open>-1\<close>.
\<close>

definition occurs_at :: "'a list \<Rightarrow> 'a list \<Rightarrow> nat \<Rightarrow> bool" where
  "occurs_at data sub i \<longleftrightarrow> take (length sub) (drop i data) = sub"

definition bytes_find :: "'a list \<Rightarrow> 'a list \<Rightarrow> nat \<Rightarrow> nat option" where
  "bytes_find data sub start =
     List.find (occurs_at data sub) [start ..< length data + 1 - length sub]"

lemma find_upt_Some_iff:
  "List.find P [a..<b] = Some i \<longleftrightarrow> a \<le> i \<and> i < b \<and> P i \<and> (\<forall>j. a \<le> j \<and> j < i \<longrightarrow> \<not> P j)"
proof -
  have "List.find P [a..<b] = Some i \<longleftrightarrow>
        (\<exists>k < b - a. P (a + k) \<and> i = a + k \<and> (\<forall>j < k. \<not> P (a + j)))"
    by (auto simp: find_Some_iff)
  also have "\<dots> \<longleftrightarrow> a \<le> i \<and> i < b \<and> P i \<and> (\<forall>j. a \<le> j \<and> j < i \<longrightarrow> \<not> P j)"
  proof (intro iffI)
    assume "\<exists>k < b - a. P (a + k) \<and> i = a + k \<and> (\<forall>j < k. \<not> P (a + j))"
    then obtain k where k: "k < b - a" "P (a + k)" "i = a + k" "\<forall>j < k. \<not> P (a + j)" by blast
    have "\<not> P j" if "a \<le> j" "j < i" for j
      using k(4) [rule_format, of "j - a"] that k(3) by auto
    with k show "a \<le> i \<and> i < b \<and> P i \<and> (\<forall>j. a \<le> j \<and> j < i \<longrightarrow> \<not> P j)" by auto
  next
    assume "a \<le> i \<and> i < b \<and> P i \<and> (\<forall>j. a \<le> j \<and> j < i \<longrightarrow> \<not> P j)"
    then show "\<exists>k < b - a. P (a + k) \<and> i = a + k \<and> (\<forall>j < k. \<not> P (a + j))"
      by (intro exI [of _ "i - a"]) auto
  qed
  finally show ?thesis .
qed

lemma bytes_find_Some_iff:
  "bytes_find data sub start = Some i \<longleftrightarrow>
     start \<le> i \<and> i + length sub \<le> length data \<and> occurs_at data sub i \<and>
     (\<forall>j. start \<le> j \<and> j < i \<longrightarrow> \<not> occurs_at data sub j)"
  by (auto simp: bytes_find_def find_upt_Some_iff)

lemma bytes_find_None_iff:
  "bytes_find data sub start = None \<longleftrightarrow>
     (\<forall>i. start \<le> i \<and> i + length sub \<le> length data \<longrightarrow> \<not> occurs_at data sub i)"
  by (auto simp: bytes_find_def find_None_iff)

lemma occurs_at_nth:
  "i + length sub \<le> length data \<Longrightarrow>
   occurs_at data sub i \<longleftrightarrow> (\<forall>k < length sub. data ! (i + k) = sub ! k)"
  by (auto simp: occurs_at_def list_eq_iff_nth_eq)

section \<open>Bytes from integers\<close>

text \<open>\<open>bytes(...)\<close> and \<open>bytearray.append\<close> raise for a value outside \<open>0..255\<close>.\<close>

definition byte_of_int :: "int \<Rightarrow> byte result" where
  "byte_of_int v =
     (if 0 \<le> v \<and> v < 256 then Inr (word_of_int v)
      else Inl (ValueError ''byte must be in range(0, 256)''))"

section \<open>Fixed-width integers\<close>

text \<open>
  \<open>le_bytes n v\<close> are the \<open>n\<close> little-endian bytes of \<open>v\<close>, \<open>le_int\<close> reads them
  back; \<open>be_bytes\<close> and \<open>be_int\<close> are the big-endian ones.  \<open>struct.pack\<close> raises
  \<open>struct.error\<close> for a value that does not fit, which \<open>pack_le\<close> and \<open>pack_be\<close> model.
\<close>

fun le_bytes :: "nat \<Rightarrow> int \<Rightarrow> bytes" where
  "le_bytes 0 v = []"
| "le_bytes (Suc n) v = word_of_int v # le_bytes n (v div 256)"

fun le_int :: "bytes \<Rightarrow> int" where
  "le_int [] = 0"
| "le_int (b # bs) = uint b + 256 * le_int bs"

definition be_bytes :: "nat \<Rightarrow> int \<Rightarrow> bytes" where
  "be_bytes n v = rev (le_bytes n v)"

definition be_int :: "bytes \<Rightarrow> int" where
  "be_int bs = le_int (rev bs)"

definition pack_le :: "nat \<Rightarrow> int \<Rightarrow> bytes result" where
  "pack_le n v = (if 0 \<le> v \<and> v < 256 ^ n then Inr (le_bytes n v) else Inl StructError)"

definition pack_be :: "nat \<Rightarrow> int \<Rightarrow> bytes result" where
  "pack_be n v = (if 0 \<le> v \<and> v < 256 ^ n then Inr (be_bytes n v) else Inl StructError)"

lemma length_le_bytes [simp]: "length (le_bytes n v) = n"
  by (induction n arbitrary: v) auto

lemma length_be_bytes [simp]: "length (be_bytes n v) = n"
  by (simp add: be_bytes_def)

lemma uint_byte_bound: "0 \<le> uint (b :: byte) \<and> uint b < 256"
  using uint_lt2p [of b] by simp

lemma le_int_bounds: "0 \<le> le_int bs \<and> le_int bs < 256 ^ length bs"
proof (induction bs)
  case Nil
  show ?case by simp
next
  case (Cons b bs)
  have b: "0 \<le> uint b" "uint b < 256" using uint_byte_bound by auto
  have "uint b + 256 * le_int bs < 256 * 256 ^ length bs"
    using b Cons.IH by linarith
  with b Cons.IH show ?case by simp
qed

lemma be_int_bounds: "0 \<le> be_int bs \<and> be_int bs < 256 ^ length bs"
  using le_int_bounds [of "rev bs"] by (simp add: be_int_def)

lemma uint_word_of_int_byte: "uint (word_of_int v :: byte) = v mod 256"
  by (simp add: uint_word_of_int)

lemma le_int_le_bytes: "le_int (le_bytes n v) = v mod 256 ^ n"
proof (induction n arbitrary: v)
  case 0
  show ?case by simp
next
  case (Suc n)
  have "v mod (256 * 256 ^ n) = 256 * (v div 256 mod 256 ^ n) + v mod 256"
    by (rule mod_mult2_eq' [of v 256 "256 ^ n", simplified])
  then show ?case by (simp add: Suc.IH uint_word_of_int_byte)
qed

lemma le_bytes_le_int: "length bs = n \<Longrightarrow> le_bytes n (le_int bs) = bs"
proof (induction bs arbitrary: n)
  case Nil
  then show ?case by simp
next
  case (Cons b bs)
  have b: "0 \<le> uint b" "uint b < 256" using uint_byte_bound by auto
  have d: "(uint b + 256 * le_int bs) div 256 = le_int bs" using b by simp
  have m: "(uint b + 256 * le_int bs) mod 256 = uint b" using b by simp
  have "word_of_int (uint b + 256 * le_int bs) = b"
    by (rule word_uint_eqI) (simp only: uint_word_of_int_byte m)
  with Cons d show ?case by (cases n) auto
qed

lemma be_int_be_bytes: "be_int (be_bytes n v) = v mod 256 ^ n"
  by (simp add: be_int_def be_bytes_def le_int_le_bytes)

lemma be_bytes_be_int: "length bs = n \<Longrightarrow> be_bytes n (be_int bs) = bs"
  by (simp add: be_int_def be_bytes_def le_bytes_le_int)

lemma pack_le_Inr_iff: "pack_le n v = Inr bs \<longleftrightarrow> 0 \<le> v \<and> v < 256 ^ n \<and> bs = le_bytes n v"
  by (auto simp: pack_le_def)

lemma pack_be_Inr_iff: "pack_be n v = Inr bs \<longleftrightarrow> 0 \<le> v \<and> v < 256 ^ n \<and> bs = be_bytes n v"
  by (auto simp: pack_be_def)

section \<open>The contract of a fixed-width field\<close>

locale fixed_codec =
  fixes enc :: "'a \<Rightarrow> bytes" and dec :: "bytes \<Rightarrow> 'a" and width :: nat and fits :: "'a \<Rightarrow> bool"
  assumes enc_length: "length (enc v) = width"
    and dec_enc: "fits v \<Longrightarrow> dec (enc v) = v"
    and enc_dec: "length bs = width \<Longrightarrow> enc (dec bs) = bs"
    and fits_dec: "length bs = width \<Longrightarrow> fits (dec bs)"
begin

lemma read_after_write:
  assumes "off + width \<le> length buf" "fits v"
  shows "dec (bslice (bassign buf off (off + width) (enc v)) off (off + width)) = v"
  using assms by (simp add: bslice_bassign_same enc_length dec_enc)

lemma read_other_field:
  assumes "off + width \<le> length buf" "d \<le> off \<or> off + width \<le> c"
  shows "bslice (bassign buf off (off + width) (enc v)) c d = bslice buf c d"
  using assms by (simp add: bslice_bassign_disjoint enc_length)

lemma write_length:
  "off + width \<le> length buf \<Longrightarrow> length (bassign buf off (off + width) (enc v)) = length buf"
  by (simp add: length_bassign enc_length)

lemma write_back:
  assumes "off + width \<le> length buf"
  shows "bassign buf off (off + width) (enc (dec (bslice buf off (off + width)))) = buf"
proof -
  have "length (bslice buf off (off + width)) = width" using assms by simp
  then have "enc (dec (bslice buf off (off + width))) = bslice buf off (off + width)"
    by (rule enc_dec)
  with assms show ?thesis by (simp add: bassign_id)
qed

lemma enc_inject: "fits v \<Longrightarrow> fits w \<Longrightarrow> enc v = enc w \<longleftrightarrow> v = w"
  by (metis dec_enc)

lemma dec_inject: "length bs = width \<Longrightarrow> length cs = width \<Longrightarrow> dec bs = dec cs \<longleftrightarrow> bs = cs"
  by (metis enc_dec)

end

definition fits_bytes :: "nat \<Rightarrow> int \<Rightarrow> bool" where
  "fits_bytes n v \<longleftrightarrow> 0 \<le> v \<and> v < 256 ^ n"

interpretation le_codec: fixed_codec "le_bytes n" le_int n "fits_bytes n" for n
  by unfold_locales
     (auto simp: fits_bytes_def le_int_le_bytes le_bytes_le_int le_int_bounds)

interpretation be_codec: fixed_codec "be_bytes n" be_int n "fits_bytes n" for n
  by unfold_locales
     (auto simp: fits_bytes_def be_int_be_bytes be_bytes_be_int be_int_bounds)

lemmas field_simps_codec [codec_simps] =
  bslice_bassign_same bslice_bassign_disjoint length_bassign

end
