(* ===== verification/MaskedPattern.thy ===== *)
theory MaskedPattern
imports ByteCodec PyText
begin

text \<open>
  The masked byte patterns of \<open>patch_binary_artifact.py\<close>: the parser of the
  pattern syntax, the comparison at one offset, the search anchored on the longest
  exact run, the overlay of a replacement on a signature, and its rendering over the
  original bytes.  The locale \<open>occurrence_search\<close> is the contract the patch engine
  needs of the search; \<open>find_masked\<close> is its interpretation.
\<close>

section \<open>Definitions\<close>

record masked_bytes =
  mb_values :: bytes
  mb_exact :: bytes

definition mb_len :: "masked_bytes \<Rightarrow> nat" where
  "mb_len p = length (mb_values p)"

text \<open>The loop over the two-character tokens of the compact text.\<close>

fun parse_tokens :: "string \<Rightarrow> bytes \<Rightarrow> bytes \<Rightarrow> masked_bytes result" where
  "parse_tokens (a # b # rest) vals ex =
     (if [a, b] = ''??'' then parse_tokens rest (vals @ [0]) (ex @ [0])
      else case int_base16 [a, b] of
             None \<Rightarrow> Inl (ValueError ''invalid byte token'')
           | Some v \<Rightarrow>
               bindE (byte_of_int v) (\<lambda>w. parse_tokens rest (vals @ [w]) (ex @ [1])))"
| "parse_tokens [a] vals ex = Inl (ValueError ''invalid byte token'')"
| "parse_tokens [] vals ex = Inr \<lparr>mb_values = vals, mb_exact = ex\<rparr>"

definition parse_masked_hex :: "string \<Rightarrow> masked_bytes result" where
  "parse_masked_hex text =
     (let compact = concat (py_split_ws text)
      in if compact = [] then Inl (ValueError ''empty byte pattern'')
         else if odd (length compact) then
           Inl (ValueError ''byte pattern has an odd number of characters'')
         else parse_tokens compact [] [])"

definition matches_at :: "bytes \<Rightarrow> int \<Rightarrow> masked_bytes \<Rightarrow> bool" where
  "matches_at data off p =
     (if off < 0 \<or> off + int (mb_len p) > int (length data) then False
      else list_all (\<lambda>(got, want, required). required = 0 \<or> got = want)
             (zip (py_slice data off (off + int (mb_len p))) (zip (mb_values p) (mb_exact p))))"

text \<open>
  \<open>_longest_exact_anchor\<close>: \<open>skip_inexact\<close> and \<open>skip_exact\<close> are its two inner
  loops, which advance an index over the exactness bytes.
\<close>

definition skip_inexact :: "bytes \<Rightarrow> nat \<Rightarrow> nat" where
  "skip_inexact ex s = s + length (takeWhile (\<lambda>e. e = 0) (drop s ex))"

definition skip_exact :: "bytes \<Rightarrow> nat \<Rightarrow> nat" where
  "skip_exact ex s = s + length (takeWhile (\<lambda>e. e \<noteq> 0) (drop s ex))"

lemma skip_inexact_ge: "s \<le> skip_inexact ex s"
  by (simp add: skip_inexact_def)

lemma skip_exact_ge: "s \<le> skip_exact ex s"
  by (simp add: skip_exact_def)

function anchor_loop ::
  "masked_bytes \<Rightarrow> nat \<Rightarrow> nat \<Rightarrow> bytes \<Rightarrow> nat \<times> bytes" where
  "anchor_loop p start best_start best =
     (if start < mb_len p then
        let s = skip_inexact (mb_exact p) start;
            e = skip_exact (mb_exact p) s
        in if e - s > length best
           then anchor_loop p (e + 1) s (bslice (mb_values p) s e)
           else anchor_loop p (e + 1) best_start best
      else (best_start, best))"
  by pat_completeness auto
termination
proof (relation "measure (\<lambda>(p, start, _, _). mb_len p - start)", goal_cases)
  case 1
  show ?case by simp
next
  case (2 p start best_start best s e)
  then show ?case
    using skip_inexact_ge [of start "mb_exact p"] skip_exact_ge [of s "mb_exact p"] by simp
next
  case (3 p start best_start best s e)
  then show ?case
    using skip_inexact_ge [of start "mb_exact p"] skip_exact_ge [of s "mb_exact p"] by simp
qed

definition longest_exact_anchor :: "masked_bytes \<Rightarrow> nat \<times> bytes" where
  "longest_exact_anchor p = anchor_loop p 0 0 []"

text \<open>The search loop of \<open>find_masked\<close>, which resumes one byte after each anchor hit.\<close>

function scan_anchor ::
  "bytes \<Rightarrow> masked_bytes \<Rightarrow> nat \<Rightarrow> bytes \<Rightarrow> nat \<Rightarrow> int list \<Rightarrow> int list" where
  "scan_anchor data p anchor_offset anchor search_from found =
     (case bytes_find data anchor search_from of
        None \<Rightarrow> found
      | Some anchor_hit \<Rightarrow>
          (let candidate = int anchor_hit - int anchor_offset
           in scan_anchor data p anchor_offset anchor (anchor_hit + 1)
                (if matches_at data candidate p then found @ [candidate] else found)))"
  by pat_completeness auto
termination
  by (relation "measure (\<lambda>(data, _, _, _, search_from, _). length data + 1 - search_from)")
     (auto simp: bytes_find_Some_iff)

definition find_masked :: "bytes \<Rightarrow> masked_bytes \<Rightarrow> int list" where
  "find_masked data p =
     (let (anchor_offset, anchor) = longest_exact_anchor p
      in if anchor = [] then [0 .. int (length data) - int (mb_len p)]
         else scan_anchor data p anchor_offset anchor 0 [])"

fun overlay_loop ::
  "bool \<Rightarrow> (byte \<times> byte) list \<Rightarrow> nat \<Rightarrow> bytes \<Rightarrow> bytes \<Rightarrow> masked_bytes" where
  "overlay_loop keep [] i vals ex = \<lparr>mb_values = vals, mb_exact = ex\<rparr>"
| "overlay_loop keep ((v, required) # rest) i vals ex =
     (if required \<noteq> 0 then overlay_loop keep rest (Suc i) (vals[i := v]) (ex[i := 1])
      else if \<not> keep then overlay_loop keep rest (Suc i) vals (ex[i := 0])
      else overlay_loop keep rest (Suc i) vals ex)"

definition overlay_pattern ::
  "masked_bytes \<Rightarrow> int \<Rightarrow> masked_bytes \<Rightarrow> bool \<Rightarrow> masked_bytes result" where
  "overlay_pattern sig patch_offset repl preserve_wildcards =
     (if patch_offset < 0 \<or> patch_offset + int (mb_len repl) > int (mb_len sig)
      then Inl (ValueError ''replacement lies outside signature'')
      else Inr (overlay_loop preserve_wildcards (zip (mb_values repl) (mb_exact repl))
                  (nat patch_offset) (mb_values sig) (mb_exact sig)))"

definition render_replacement :: "bytes \<Rightarrow> masked_bytes \<Rightarrow> bytes result" where
  "render_replacement original repl =
     (if length original \<noteq> mb_len repl then Inl (ValueError ''replacement length mismatch'')
      else Inr (map (\<lambda>(old, value, required). if required \<noteq> 0 then value else old)
                  (zip original (zip (mb_values repl) (mb_exact repl)))))"

declare anchor_loop.simps [simp del]
declare scan_anchor.simps [simp del]

section \<open>Well-formed patterns and the pointwise reading of a match\<close>

definition wf_masked :: "masked_bytes \<Rightarrow> bool" where
  "wf_masked p \<longleftrightarrow> length (mb_exact p) = mb_len p \<and> 0 < mb_len p"

lemma matches_at_iff:
  assumes "length (mb_exact p) = mb_len p"
  shows "matches_at data off p \<longleftrightarrow>
    0 \<le> off \<and> off + int (mb_len p) \<le> int (length data) \<and>
    (\<forall>i < mb_len p. mb_exact p ! i \<noteq> 0 \<longrightarrow> data ! (nat off + i) = mb_values p ! i)"
proof (cases "0 \<le> off \<and> off + int (mb_len p) \<le> int (length data)")
  case True
  then have "py_slice data off (off + int (mb_len p)) = take (mb_len p) (drop (nat off) data)"
    by (subst py_slice_in) auto
  moreover from True have "nat off + mb_len p \<le> length data" by linarith
  ultimately show ?thesis
    using True assms by (auto simp: matches_at_def list_all_length mb_len_def)
next
  case False
  then show ?thesis by (auto simp: matches_at_def)
qed

lemma parse_tokens_wf:
  "parse_tokens s vals ex = Inr p \<Longrightarrow>
   mb_len p = length vals + length s div 2 \<and>
   length (mb_exact p) = length ex + length s div 2"
  by (induction s vals ex rule: parse_tokens.induct)
     (auto simp: mb_len_def bindE_Inr_iff split: if_splits option.splits)

lemma parse_masked_hex_wf:
  assumes "parse_masked_hex text = Inr p"
  shows "wf_masked p" "2 * mb_len p = length (concat (py_split_ws text))"
proof -
  from assms have c: "concat (py_split_ws text) \<noteq> []" "even (length (concat (py_split_ws text)))"
    and "parse_tokens (concat (py_split_ws text)) [] [] = Inr p"
    by (auto simp: parse_masked_hex_def Let_def split: if_splits)
  from parse_tokens_wf [OF this(3)]
  have l: "mb_len p = length (concat (py_split_ws text)) div 2" "length (mb_exact p) = mb_len p"
    by auto
  from c l(1) show two: "2 * mb_len p = length (concat (py_split_ws text))" by simp
  with c(1) have "0 < mb_len p" by (cases "mb_len p") auto
  with l(2) show "wf_masked p" by (simp add: wf_masked_def)
qed

section \<open>The anchor is a longest exact run\<close>

definition exact_run :: "masked_bytes \<Rightarrow> nat \<Rightarrow> nat \<Rightarrow> bool" where
  "exact_run p i j \<longleftrightarrow> i \<le> j \<and> j \<le> mb_len p \<and> (\<forall>k. i \<le> k \<and> k < j \<longrightarrow> mb_exact p ! k \<noteq> 0)"

lemma takeWhile_drop_prefix:
  "k < length (takeWhile P (drop s xs)) \<Longrightarrow> s + k < length xs \<and> P (xs ! (s + k))"
proof -
  assume k: "k < length (takeWhile P (drop s xs))"
  then have "k < length (drop s xs)" by (metis length_takeWhile_le less_le_trans)
  moreover have "P (takeWhile P (drop s xs) ! k)"
    using k by (meson nth_mem set_takeWhileD)
  ultimately show ?thesis using k by (simp add: takeWhile_nth)
qed

lemma takeWhile_drop_stop:
  "s + length (takeWhile P (drop s xs)) < length xs \<Longrightarrow>
   \<not> P (xs ! (s + length (takeWhile P (drop s xs))))"
  using nth_length_takeWhile [of P "drop s xs"] by (cases "s \<le> length xs") auto

lemma skip_bounds:
  "length (mb_exact p) = mb_len p \<Longrightarrow> s \<le> mb_len p \<Longrightarrow>
   skip_exact (mb_exact p) s \<le> mb_len p \<and> skip_inexact (mb_exact p) s \<le> mb_len p"
  using length_takeWhile_le [of _ "drop s (mb_exact p)"]
  by (auto simp: skip_exact_def skip_inexact_def) (metis (no_types, lifting) add_le_cancel_left le_add_diff_inverse length_drop)+

lemma skip_inexact_zero:
  "start \<le> k \<Longrightarrow> k < skip_inexact ex start \<Longrightarrow> ex ! k = 0"
  using takeWhile_drop_prefix [of "k - start" "\<lambda>e. e = 0" start ex]
  by (auto simp: skip_inexact_def)

lemma skip_exact_run:
  assumes "length (mb_exact p) = mb_len p" "s \<le> mb_len p"
  shows "exact_run p s (skip_exact (mb_exact p) s)"
proof -
  have "mb_exact p ! k \<noteq> 0" if "s \<le> k" "k < skip_exact (mb_exact p) s" for k
    using takeWhile_drop_prefix [of "k - s" "\<lambda>e. e \<noteq> 0" s "mb_exact p"] that
    by (auto simp: skip_exact_def)
  with assms show ?thesis
    using skip_bounds skip_exact_ge by (auto simp: exact_run_def)
qed

lemma skip_exact_stop:
  "length (mb_exact p) = mb_len p \<Longrightarrow> skip_exact (mb_exact p) s < mb_len p \<Longrightarrow>
   mb_exact p ! skip_exact (mb_exact p) s = 0"
  using takeWhile_drop_stop [of s "\<lambda>e. e \<noteq> 0" "mb_exact p"] by (auto simp: skip_exact_def)

text \<open>What the loop keeps of its best run, and that no later run is longer.\<close>

definition anchor_ok :: "masked_bytes \<Rightarrow> nat \<Rightarrow> bytes \<Rightarrow> bool" where
  "anchor_ok p s a \<longleftrightarrow> exact_run p s (s + length a) \<and> a = bslice (mb_values p) s (s + length a)"

lemma anchor_loop_ok:
  assumes "length (mb_exact p) = mb_len p" "anchor_ok p bs best"
    and "anchor_loop p start bs best = (s', a)"
  shows "anchor_ok p s' a \<and> length best \<le> length a \<and>
    (\<forall>i j. start \<le> i \<longrightarrow> exact_run p i j \<longrightarrow> j - i \<le> length a)"
  using assms
proof (induction p start bs best rule: anchor_loop.induct)
  case (1 p start bs best)
  note wf = "1.prems"(1) and ok = "1.prems"(2)
  define s where "s = skip_inexact (mb_exact p) start"
  define e where "e = skip_exact (mb_exact p) s"
  show ?case
  proof (cases "start < mb_len p")
    case False
    with "1.prems"(3) have "s' = bs" "a = best" by (auto simp: anchor_loop.simps [of p start])
    with ok False show ?thesis by (auto simp: exact_run_def)
  next
    case True
    define best' where "best' = (if e - s > length best then bslice (mb_values p) s e else best)"
    define bs' where "bs' = (if e - s > length best then s else bs)"
    have s: "start \<le> s" "s \<le> mb_len p"
      using skip_inexact_ge skip_bounds [OF wf, of start] True by (auto simp: s_def)
    have run: "exact_run p s e" using skip_exact_run [OF wf s(2)] by (simp add: e_def)
    then have e: "s \<le> e" "e \<le> mb_len p" by (auto simp: exact_run_def)
    have len': "length (bslice (mb_values p) s e) = e - s"
      using e by (simp add: mb_len_def)
    have ok': "anchor_ok p bs' best'"
      using ok run e len' by (auto simp: anchor_ok_def best'_def bs'_def)
    have loop: "anchor_loop p (e + 1) bs' best' = (s', a)"
      using "1.prems"(3) True
      by (auto simp: anchor_loop.simps [of p start] Let_def bs'_def best'_def s_def e_def)
    have IH: "anchor_ok p s' a \<and> length best' \<le> length a \<and>
      (\<forall>i j. e + 1 \<le> i \<longrightarrow> exact_run p i j \<longrightarrow> j - i \<le> length a)"
    proof (cases "e - s > length best")
      case True
      then show ?thesis
        using "1.IH"(1) [OF \<open>start < mb_len p\<close> s_def e_def] wf ok' loop
        by (simp add: bs'_def best'_def)
    next
      case False
      then show ?thesis
        using "1.IH"(2) [OF \<open>start < mb_len p\<close> s_def e_def] wf ok' loop
        by (simp add: bs'_def best'_def)
    qed
    have "j - i \<le> length a" if "start \<le> i" "exact_run p i j" for i j
    proof -
      consider "i < s" | "s \<le> i" "i \<le> e" | "e < i" by linarith
      then show ?thesis
      proof cases
        case 1
        then have "mb_exact p ! i = 0" using skip_inexact_zero that(1) by (auto simp: s_def)
        with that(2) have "j \<le> i" by (auto simp: exact_run_def)
        then show ?thesis by simp
      next
        case 2
        have "j \<le> e"
        proof (rule ccontr)
          assume "\<not> j \<le> e"
          with that(2) 2 have "e < mb_len p" "mb_exact p ! e \<noteq> 0" by (auto simp: exact_run_def)
          with skip_exact_stop [OF wf, of s] show False by (simp add: e_def)
        qed
        with 2 have "j - i \<le> e - s" by linarith
        also have "\<dots> \<le> length best'" using len' by (simp add: best'_def)
        finally show ?thesis using IH by linarith
      next
        case 3
        with IH that(2) show ?thesis by auto
      qed
    qed
    moreover have "length best \<le> length best'" using len' by (simp add: best'_def)
    ultimately show ?thesis using IH by auto
  qed
qed

lemma longest_exact_anchor_ok:
  assumes "length (mb_exact p) = mb_len p" "longest_exact_anchor p = (s, a)"
  shows "anchor_ok p s a" "\<And>i j. exact_run p i j \<Longrightarrow> j - i \<le> length a"
proof -
  have "anchor_ok p 0 []" by (simp add: anchor_ok_def exact_run_def bslice_def)
  from anchor_loop_ok [OF assms(1) this, of 0 s a] assms(2)
  show "anchor_ok p s a" "\<And>i j. exact_run p i j \<Longrightarrow> j - i \<le> length a"
    by (auto simp: longest_exact_anchor_def)
qed

section \<open>The anchored search finds exactly the matches, in order\<close>

text \<open>The specification: every offset compared in turn.\<close>

definition all_matches :: "bytes \<Rightarrow> masked_bytes \<Rightarrow> int list" where
  "all_matches data p =
     filter (\<lambda>i. matches_at data i p) [0 .. int (length data) - int (mb_len p)]"

lemma matches_at_range:
  "matches_at data i p \<Longrightarrow> 0 \<le> i \<and> i \<le> int (length data) - int (mb_len p)"
  by (auto simp: matches_at_def split: if_splits)

lemma set_all_matches: "set (all_matches data p) = {i. matches_at data i p}"
  by (auto simp: all_matches_def dest: matches_at_range)

lemma sorted_wrt_upto: "sorted_wrt (<) [a..b::int]"
  by (simp add: strict_sorted_iff)

lemma sorted_all_matches: "sorted_wrt (<) (all_matches data p)"
  by (simp add: all_matches_def sorted_wrt_filter sorted_wrt_upto)

lemma bytes_find_filter:
  assumes "bytes_find data a from = Some h"
  shows "filter (\<lambda>i. occurs_at data a i \<and> Q i) [from ..< Suc (length data) - length a] =
    (if Q h then [h] else []) @
    filter (\<lambda>i. occurs_at data a i \<and> Q i) [Suc h ..< Suc (length data) - length a]"
proof -
  from assms have h: "from \<le> h" "h + length a \<le> length data" "occurs_at data a h"
    "\<And>j. from \<le> j \<Longrightarrow> j < h \<Longrightarrow> \<not> occurs_at data a j"
    by (auto simp: bytes_find_Some_iff)
  define n where "n = Suc (length data) - length a"
  from h have "h < n" by (simp add: n_def)
  then have "[from ..< n] = [from ..< h] @ [h ..< n]"
    using h(1) upt_add_eq_append [of "from" h "n - h"] by simp
  then have "[from ..< Suc (length data) - length a] =
      [from ..< h] @ h # [Suc h ..< Suc (length data) - length a]"
    using \<open>h < n\<close> by (simp add: upt_conv_Cons n_def)
  moreover have "filter (\<lambda>i. occurs_at data a i \<and> Q i) [from ..< h] = []"
    using h(4) by (auto simp: filter_empty_conv)
  ultimately show ?thesis using h(3) by simp
qed

lemma scan_anchor_eq:
  "scan_anchor data p off a from found = found @
     map (\<lambda>h. int h - int off)
       (filter (\<lambda>h. occurs_at data a h \<and> matches_at data (int h - int off) p)
         [from ..< Suc (length data) - length a])"
proof (induction data p off a "from" found rule: scan_anchor.induct)
  case (1 data p off a "from" found)
  show ?case
  proof (cases "bytes_find data a from")
    case None
    then have "filter (\<lambda>h. occurs_at data a h \<and> matches_at data (int h - int off) p)
         [from ..< Suc (length data) - length a] = []"
      by (auto simp: bytes_find_None_iff filter_empty_conv)
    with None show ?thesis by (simp add: scan_anchor.simps [of data p off a "from"])
  next
    case (Some h)
    from "1.IH" [OF Some refl] show ?thesis
      by (simp add: scan_anchor.simps [of data p off a "from"] Some Let_def
          bytes_find_filter [OF Some])
  qed
qed

lemma anchor_covers_match:
  assumes wf: "length (mb_exact p) = mb_len p" and ok: "anchor_ok p s a"
    and m: "matches_at data i p"
  shows "occurs_at data a (nat i + s) \<and> nat i + s + length a \<le> length data"
proof -
  from m wf have i: "0 \<le> i" "i + int (mb_len p) \<le> int (length data)"
    and eq: "\<And>k. k < mb_len p \<Longrightarrow> mb_exact p ! k \<noteq> 0 \<Longrightarrow> data ! (nat i + k) = mb_values p ! k"
    by (auto simp: matches_at_iff)
  from ok have run: "exact_run p s (s + length a)" and a: "a = bslice (mb_values p) s (s + length a)"
    by (auto simp: anchor_ok_def)
  from run have sl: "s + length a \<le> mb_len p" by (simp add: exact_run_def)
  have nth: "a ! k = mb_values p ! (s + k)" if "k < length a" for k
    using that sl nth_bslice [of s k "s + length a" "mb_values p"] a by (simp add: mb_len_def)
  have "data ! (nat i + s + k) = a ! k" if "k < length a" for k
    using eq [of "s + k"] run that sl nth [OF that] by (simp add: exact_run_def add.assoc)
  moreover have "nat i + s + length a \<le> length data" using i sl by linarith
  ultimately show ?thesis by (simp add: occurs_at_nth)
qed

lemma no_exact_byte:
  assumes "length (mb_exact p) = mb_len p" "longest_exact_anchor p = (s, [])" "k < mb_len p"
  shows "mb_exact p ! k = 0"
proof (rule ccontr)
  assume "mb_exact p ! k \<noteq> 0"
  with assms(3) have "exact_run p k (Suc k)"
    by (auto simp: exact_run_def le_Suc_eq less_Suc_eq_le)
  from longest_exact_anchor_ok(2) [OF assms(1,2) this] show False by simp
qed

lemma find_masked_all_matches:
  assumes wf: "length (mb_exact p) = mb_len p"
  shows "find_masked data p = all_matches data p"
proof -
  obtain s a where anchor: "longest_exact_anchor p = (s, a)" by (cases "longest_exact_anchor p")
  show ?thesis
  proof (cases "a = []")
    case True
    have "matches_at data i p" if "i \<in> set [0 .. int (length data) - int (mb_len p)]" for i
      using that no_exact_byte [OF wf] anchor True by (auto simp: matches_at_iff [OF wf])
    then have "all_matches data p = [0 .. int (length data) - int (mb_len p)]"
      by (auto simp: all_matches_def intro: filter_True)
    with True anchor show ?thesis by (simp add: find_masked_def)
  next
    case False
    note ok = longest_exact_anchor_ok(1) [OF wf anchor]
    define hs where "hs = filter (\<lambda>h. occurs_at data a h \<and> matches_at data (int h - int s) p)
         [0 ..< Suc (length data) - length a]"
    have fm: "find_masked data p = map (\<lambda>h. int h - int s) hs"
      using False anchor by (simp add: find_masked_def scan_anchor_eq hs_def)
    have srt: "sorted_wrt (<) (map (\<lambda>h. int h - int s) hs)"
      unfolding sorted_wrt_map hs_def
      by (rule sorted_wrt_mono_rel [OF _ sorted_wrt_filter [OF sorted_wrt_upt]]) simp
    have "i \<in> set (map (\<lambda>h. int h - int s) hs) \<longleftrightarrow> matches_at data i p" for i
    proof
      assume "matches_at data i p"
      with anchor_covers_match [OF wf ok this] matches_at_range [OF this]
      show "i \<in> set (map (\<lambda>h. int h - int s) hs)"
        by (auto simp: hs_def image_iff intro!: exI [of _ "nat i + s"])
    qed (auto simp: hs_def)
    then have "set (find_masked data p) = set (all_matches data p)"
      by (auto simp: fm set_all_matches)
    with srt sorted_all_matches show ?thesis
      by (metis fm strict_sorted_equal)
  qed
qed

section \<open>The search contract of the patch engine\<close>

locale occurrence_search =
  fixes search :: "bytes \<Rightarrow> masked_bytes \<Rightarrow> int list"
  assumes search_set: "wf_masked p \<Longrightarrow> set (search data p) = {i. matches_at data i p}"
    and search_distinct: "wf_masked p \<Longrightarrow> distinct (search data p)"
begin

lemma unique_hit_iff:
  assumes "wf_masked p"
  shows "length (search data p) = 1 \<longleftrightarrow> (\<exists>!i. matches_at data i p)"
proof
  assume "length (search data p) = 1"
  then obtain i where "search data p = [i]" by (auto simp: length_Suc_conv)
  with search_set [OF assms, of data] have "\<And>j. matches_at data j p \<longleftrightarrow> j = i" by auto
  then show "\<exists>!i. matches_at data i p" by auto
next
  assume "\<exists>!i. matches_at data i p"
  then obtain i where "{j. matches_at data j p} = {i}" by auto
  with search_set [OF assms, of data] have "set (search data p) = {i}" by simp
  with search_distinct [OF assms, of data] show "length (search data p) = 1"
    by (metis One_nat_def card.empty card.insert distinct_card empty_iff finite.emptyI)
qed

lemma no_hit_iff: "wf_masked p \<Longrightarrow> search data p = [] \<longleftrightarrow> (\<forall>i. \<not> matches_at data i p)"
  using search_set [of p data] by auto

lemma hd_hit: "wf_masked p \<Longrightarrow> length (search data p) = 1 \<Longrightarrow> matches_at data (hd (search data p)) p"
  using search_set [of p data] by (cases "search data p") auto

end

lemma wf_maskedD: "wf_masked p \<Longrightarrow> length (mb_exact p) = mb_len p"
  by (simp add: wf_masked_def)

interpretation masked: occurrence_search find_masked
proof
  fix p data assume "wf_masked p"
  then have eq: "find_masked data p = all_matches data p"
    by (simp add: find_masked_all_matches wf_maskedD)
  show "set (find_masked data p) = {i. matches_at data i p}" by (simp add: eq set_all_matches)
  show "distinct (find_masked data p)"
    using sorted_all_matches [of data p] by (simp add: eq strict_sorted_iff)
qed

section \<open>Overlay and rendering\<close>

lemma overlay_loop_length [simp]:
  "mb_len (overlay_loop keep rs i vals ex) = length vals"
  "length (mb_exact (overlay_loop keep rs i vals ex)) = length ex"
  by (induction keep rs i vals ex rule: overlay_loop.induct) (auto simp: mb_len_def)

lemma overlay_loop_values:
  "j < length vals \<Longrightarrow> mb_values (overlay_loop keep rs i vals ex) ! j =
   (if i \<le> j \<and> j < i + length rs \<and> snd (rs ! (j - i)) \<noteq> 0 then fst (rs ! (j - i)) else vals ! j)"
proof (induction keep rs i vals ex rule: overlay_loop.induct)
  case (2 keep v required rest i vals ex)
  then show ?case by (auto simp: nth_Cons' nth_list_update)
qed auto

lemma overlay_loop_exact:
  "j < length ex \<Longrightarrow> mb_exact (overlay_loop keep rs i vals ex) ! j =
   (if i \<le> j \<and> j < i + length rs
    then (if snd (rs ! (j - i)) \<noteq> 0 then 1 else if keep then ex ! j else 0) else ex ! j)"
proof (induction keep rs i vals ex rule: overlay_loop.induct)
  case (2 keep v required rest i vals ex)
  then show ?case by (auto simp: nth_Cons' nth_list_update)
qed auto

lemma overlay_pattern_wf:
  assumes "overlay_pattern sig off repl keep = Inr q" "wf_masked sig"
  shows "wf_masked q" "mb_len q = mb_len sig"
proof -
  from assms(1) have q: "q = overlay_loop keep (zip (mb_values repl) (mb_exact repl))
      (nat off) (mb_values sig) (mb_exact sig)"
    by (auto simp: overlay_pattern_def split: if_splits)
  from q show l: "mb_len q = mb_len sig" by (simp add: mb_len_def [of sig])
  from q have "length (mb_exact q) = length (mb_exact sig)" by simp
  with assms(2) l show "wf_masked q" by (simp add: wf_masked_def)
qed

lemma render_length: "render_replacement old repl = Inr new \<Longrightarrow> length (mb_exact repl) = mb_len repl \<Longrightarrow>
    length new = mb_len repl \<and> length old = mb_len repl"
  by (auto simp: render_replacement_def mb_len_def split: if_splits)

lemma render_nth:
  assumes "render_replacement old repl = Inr new" "length (mb_exact repl) = mb_len repl" "k < mb_len repl"
  shows "new ! k = (if mb_exact repl ! k \<noteq> 0 then mb_values repl ! k else old ! k)"
  using assms by (auto simp: render_replacement_def mb_len_def split: if_splits)

text \<open>
  Writing the rendered replacement over a match of the signature gives a match of the
  overlaid signature at the same offset: the state the engine checks for afterwards.
\<close>

lemma overlay_matches_after_write:
  assumes sig: "wf_masked sig" and repl: "length (mb_exact repl) = mb_len repl"
    and ov: "overlay_pattern sig off repl keep = Inr q"
    and m: "matches_at data i sig"
    and nw: "length new = mb_len repl"
      "\<And>k. k < mb_len repl \<Longrightarrow> mb_exact repl ! k \<noteq> 0 \<Longrightarrow> new ! k = mb_values repl ! k"
    and keep: "keep \<Longrightarrow> \<forall>k < mb_len repl. mb_exact repl ! k = 0 \<longrightarrow> new ! k = data ! (nat (i + off) + k)"
  shows "matches_at (bassign data (nat (i + off)) (nat (i + off) + mb_len repl) new) i q"
proof -
  define site where "site = nat (i + off)"
  from ov have off: "0 \<le> off" "off + int (mb_len repl) \<le> int (mb_len sig)"
    and q: "q = overlay_loop keep (zip (mb_values repl) (mb_exact repl)) (nat off) (mb_values sig) (mb_exact sig)"
    by (auto simp: overlay_pattern_def split: if_splits)
  from m sig have i: "0 \<le> i" "i + int (mb_len sig) \<le> int (length data)"
    and eq: "\<And>k. k < mb_len sig \<Longrightarrow> mb_exact sig ! k \<noteq> 0 \<Longrightarrow> data ! (nat i + k) = mb_values sig ! k"
    by (auto simp: matches_at_iff wf_masked_def)
  from i off have site: "site = nat i + nat off" "site + mb_len repl \<le> length data"
    by (auto simp: site_def)
  have lens: "length (mb_exact sig) = mb_len sig" "length (mb_values sig) = mb_len sig"
    "length (zip (mb_values repl) (mb_exact repl)) = mb_len repl"
    using sig repl by (auto simp: wf_masked_def mb_len_def)
  have "bassign data site (site + mb_len repl) new ! (nat i + k) = mb_values q ! k"
    if k: "k < mb_len sig" and ex: "mb_exact q ! k \<noteq> 0" for k
  proof (cases "nat off \<le> k \<and> k < nat off + mb_len repl")
    case True
    define j where "j = k - nat off"
    from True have j: "j < mb_len repl" "k = nat off + j" "nat i + k = site + j"
      by (auto simp: j_def site)
    have "bassign data site (site + mb_len repl) new ! (nat i + k) = new ! j"
      using nth_bassign [of site "site + mb_len repl" data new "site + j"] site(2) nw(1) j(1)
      by (simp add: j(3))
    note new = this
    have z: "zip (mb_values repl) (mb_exact repl) ! (k - nat off) = (mb_values repl ! j, mb_exact repl ! j)"
      using j repl by (simp add: mb_len_def)
    have vq: "mb_values q ! k =
        (if mb_exact repl ! j \<noteq> 0 then mb_values repl ! j else mb_values sig ! k)"
      using True k lens by (simp add: q overlay_loop_values z)
    have xq: "mb_exact q ! k =
        (if mb_exact repl ! j \<noteq> 0 then 1 else if keep then mb_exact sig ! k else 0)"
      using True k lens by (simp add: q overlay_loop_exact z)
    show ?thesis
    proof (cases "mb_exact repl ! j = 0")
      case True
      with xq ex have "keep" "mb_exact sig ! k \<noteq> 0" by (auto split: if_splits)
      with keep j(1) True have "new ! j = data ! (nat (i + off) + j)" by blast
      then have "new ! j = data ! (nat i + k)" by (simp only: site_def [symmetric] j(3))
      with new eq [OF k] \<open>mb_exact sig ! k \<noteq> 0\<close> vq True show ?thesis by simp
    next
      case False
      with new nw(2) [OF j(1)] vq show ?thesis by simp
    qed
  next
    case False
    then have "bassign data site (site + mb_len repl) new ! (nat i + k) = data ! (nat i + k)"
      using nth_bassign [of site "site + mb_len repl" data new "nat i + k"] site nw(1) by auto
    then show ?thesis
      using False ex k lens eq [of k]
      by (auto simp: q overlay_loop_values overlay_loop_exact split: if_splits)
  qed
  moreover have "mb_len q = mb_len sig" "length (mb_exact q) = mb_len q"
    using overlay_pattern_wf [OF ov sig] by (auto simp: wf_masked_def)
  moreover have "length (bassign data site (site + mb_len repl) new) = length data"
    using site nw(1) by (simp add: length_bassign)
  ultimately show ?thesis using i by (simp add: matches_at_iff site_def [symmetric])
qed

end
