(* ===== verification/PatchCatalog.thy ===== *)
theory PatchCatalog
imports Json MaskedPattern
begin

text \<open>
  \<open>binary_patch_catalog.py\<close>: the two dataclasses and the loader that validates
  the JSON catalog before a vendor artifact is read.  The file is the argument of
  \<open>load_catalog\<close>, already parsed (\<open>None\<close> when it cannot be read or is not JSON).
\<close>

section \<open>Data\<close>

record artifact =
  ar_artifact_id :: string
  ar_description :: string
  ar_handler :: string

record patch_rule =
  pr_artifact_id :: string
  pr_name :: string
  pr_signature_hex :: string
  pr_patch_offset :: int
  pr_expected_hex :: string
  pr_replacement_hex :: "string option"
  pr_description :: string
  pr_rel32_exit :: int

record catalog =
  cat_artifacts :: "(string \<times> artifact) list"
  cat_patches :: "patch_rule list"

definition SUPPORTED_HANDLERS :: "string list" where
  "SUPPORTED_HANDLERS = [''raw'', ''zd1200_bzimage_gzip_elf'']"

definition TOP_LEVEL_FIELDS :: "string list" where
  "TOP_LEVEL_FIELDS = [''catalog_version'', ''artifacts'', ''patches'']"

definition ARTIFACT_FIELDS :: "string list" where
  "ARTIFACT_FIELDS = [''artifact_id'', ''description'', ''handler'']"

definition PATCH_FIELDS :: "string list" where
  "PATCH_FIELDS = [''artifact_id'', ''name'', ''signature_hex'', ''patch_offset'',
     ''expected_hex'', ''replacement_hex'', ''description'', ''rel32_exit'']"

section \<open>Field checks\<close>

definition required_string :: "json_object \<Rightarrow> string \<Rightarrow> string result" where
  "required_string item field =
     (case str_instance (json_get item field) of
        None \<Rightarrow> Inl (ValueError ''catalog field must be a non-empty string'')
      | Some s \<Rightarrow>
          if s = [] then Inl (ValueError ''catalog field must be a non-empty string'') else Inr s)"

definition check_fields :: "json_object \<Rightarrow> string list \<Rightarrow> unit result" where
  "check_fields item allowed =
     raise_if (unknown_fields item allowed \<noteq> []) (ValueError ''catalog has unknown fields'')"

text \<open>\<open>_validate_masked_hex\<close>: the grammar of a byte pattern, and its length in bytes.\<close>

fun valid_tokens :: "string \<Rightarrow> bool" where
  "valid_tokens (a # b # rest) =
     (if [a, b] \<noteq> ''??'' \<and> (hex_value a = None \<or> hex_value b = None) then False
      else valid_tokens rest)"
| "valid_tokens _ = True"

definition validate_masked_hex :: "string \<Rightarrow> int result" where
  "validate_masked_hex value =
     (let compact = concat (py_split_ws value)
      in if compact = [] \<or> odd (length compact) then
           Inl (ValueError ''catalog field is not a byte pattern'')
         else if \<not> valid_tokens compact then
           Inl (ValueError ''catalog field has invalid byte token'')
         else Inr (int (length compact div 2)))"

section \<open>The loader\<close>

definition load_artifact :: "(string \<times> artifact) list \<Rightarrow> json \<Rightarrow> artifact result" where
  "load_artifact artifacts item =
     (case item of
        JObj entries \<Rightarrow>
          bindE (check_fields entries ARTIFACT_FIELDS) (\<lambda>_.
          bindE (required_string entries ''artifact_id'') (\<lambda>aid.
          bindE (required_string entries ''description'') (\<lambda>description.
          bindE (required_string entries ''handler'') (\<lambda>handler.
          bindE (raise_if (\<not> is_identifier aid) (ValueError ''invalid artifact id'')) (\<lambda>_.
          bindE (raise_if (handler \<notin> set SUPPORTED_HANDLERS) (ValueError ''unknown handler'')) (\<lambda>_.
          bindE (raise_if (map_of artifacts aid \<noteq> None) (ValueError ''duplicate artifact id'')) (\<lambda>_.
            Inr \<lparr>ar_artifact_id = aid, ar_description = description, ar_handler = handler\<rparr>)))))))
      | _ \<Rightarrow> Inl (ValueError ''catalog artifact must be an object''))"

fun load_artifacts ::
  "(string \<times> artifact) list \<Rightarrow> json list \<Rightarrow> (string \<times> artifact) list result" where
  "load_artifacts artifacts [] = Inr artifacts"
| "load_artifacts artifacts (item # items) =
     bindE (load_artifact artifacts item) (\<lambda>a.
       load_artifacts (artifacts @ [(ar_artifact_id a, a)]) items)"

definition required_int :: "json \<Rightarrow> string \<Rightarrow> int result" where
  "required_int v message =
     (case int_instance v of
        None \<Rightarrow> Inl (ValueError message)
      | Some n \<Rightarrow> if n < 0 then Inl (ValueError message) else Inr n)"

definition optional_string :: "json \<Rightarrow> string option result" where
  "optional_string v =
     (case v of
        JNull \<Rightarrow> Inr None
      | JStr s \<Rightarrow> Inr (Some s)
      | _ \<Rightarrow> Inl (ValueError ''catalog replacement_hex must be a string or null''))"

text \<open>The length and bounds checks of one rule, after its fields are read.\<close>

definition check_rule_patterns :: "patch_rule \<Rightarrow> unit result" where
  "check_rule_patterns rule =
     bindE (validate_masked_hex (pr_signature_hex rule)) (\<lambda>signature_length.
     bindE (validate_masked_hex (pr_expected_hex rule)) (\<lambda>expected_length.
     bindE (raise_if (pr_patch_offset rule + expected_length > signature_length)
              (ValueError ''catalog expected_hex lies outside signature_hex'')) (\<lambda>_.
       case pr_replacement_hex rule of
         None \<Rightarrow> Inr ()
       | Some r \<Rightarrow>
           bindE (validate_masked_hex r) (\<lambda>replacement_length.
             raise_if (replacement_length \<noteq> expected_length)
               (ValueError ''catalog replacement_hex length differs from expected_hex'')))))"

definition load_patch ::
  "(string \<times> artifact) list \<Rightarrow> string list \<Rightarrow> json \<Rightarrow> patch_rule result" where
  "load_patch artifacts names item =
     (case item of
        JObj entries \<Rightarrow>
          bindE (check_fields entries PATCH_FIELDS) (\<lambda>_.
          bindE (required_string entries ''artifact_id'') (\<lambda>aid.
          bindE (raise_if (map_of artifacts aid = None)
                   (ValueError ''patch references unknown artifact'')) (\<lambda>_.
          bindE (required_int (json_get entries ''patch_offset'')
                   ''catalog patch_offset must be a non-negative integer'') (\<lambda>patch_offset.
          bindE (required_int
                   (case map_of entries ''rel32_exit'' of None \<Rightarrow> JInt 0 | Some v \<Rightarrow> v)
                   ''catalog rel32_exit must be a non-negative integer'') (\<lambda>rel32_exit.
          bindE (optional_string (json_get entries ''replacement_hex'')) (\<lambda>replacement.
          bindE (required_string entries ''name'') (\<lambda>name.
          bindE (required_string entries ''signature_hex'') (\<lambda>signature.
          bindE (required_string entries ''expected_hex'') (\<lambda>expected.
          bindE (required_string entries ''description'') (\<lambda>description.
            let rule = \<lparr>pr_artifact_id = aid, pr_name = name, pr_signature_hex = signature,
                  pr_patch_offset = patch_offset, pr_expected_hex = expected,
                  pr_replacement_hex = replacement, pr_description = description,
                  pr_rel32_exit = rel32_exit\<rparr>
            in bindE (raise_if (\<not> is_identifier name) (ValueError ''invalid patch name'')) (\<lambda>_.
               bindE (check_rule_patterns rule) (\<lambda>_.
               bindE (raise_if (name \<in> set names) (ValueError ''duplicate patch name'')) (\<lambda>_.
                 Inr rule)))))))))))))
      | _ \<Rightarrow> Inl (ValueError ''catalog patch must be an object''))"

fun load_patches ::
  "(string \<times> artifact) list \<Rightarrow> patch_rule list \<Rightarrow> json list \<Rightarrow> patch_rule list result" where
  "load_patches artifacts patches [] = Inr patches"
| "load_patches artifacts patches (item # items) =
     bindE (load_patch artifacts (map pr_name patches) item) (\<lambda>rule.
       load_patches artifacts (patches @ [rule]) items)"

definition load_catalog :: "json option \<Rightarrow> catalog result" where
  "load_catalog file =
     (case file of
        None \<Rightarrow> Inl (ValueError ''cannot load patch catalog'')
      | Some (JObj source) \<Rightarrow>
          bindE (check_fields source TOP_LEVEL_FIELDS) (\<lambda>_.
          bindE (raise_if (json_get source ''catalog_version'' \<noteq> JInt 1)
                   (ValueError ''unsupported or missing catalog_version'')) (\<lambda>_.
            (case (json_get source ''artifacts'', json_get source ''patches'') of
               (JArr artifact_items, JArr patch_items) \<Rightarrow>
                 bindE (load_artifacts [] artifact_items) (\<lambda>artifacts.
                 bindE (load_patches artifacts [] patch_items) (\<lambda>patches.
                 bindE (raise_if (artifacts = [] \<or> patches = [])
                          (ValueError ''catalog must contain artifacts and patches'')) (\<lambda>_.
                   Inr \<lparr>cat_artifacts = artifacts, cat_patches = patches\<rparr>)))
             | _ \<Rightarrow> Inl (ValueError ''catalog artifacts and patches must be arrays''))))
      | Some _ \<Rightarrow> Inl (ValueError ''catalog root must be an object''))"

section \<open>What the pattern check guarantees the parser\<close>

lemma parse_tokens_valid:
  "valid_tokens s \<Longrightarrow> even (length s) \<Longrightarrow> \<exists>p. parse_tokens s vals ex = Inr p"
proof (induction s vals ex rule: parse_tokens.induct)
  case (1 a b rest vals ex)
  show ?case
  proof (cases "[a, b] = ''??''")
    case True
    with 1 show ?thesis by simp
  next
    case False
    with "1.prems" obtain x y where xy: "hex_value a = Some x" "hex_value b = Some y"
      by (cases "hex_value a"; cases "hex_value b") auto
    then have v: "int_base16 [a, b] = Some (16 * int x + int y)"
      by (rule int_base16_two_digits)
    from xy have "x < 16" "y < 16" by (auto dest: hex_value_bound)
    then have w: "byte_of_int (16 * int x + int y) = Inr (word_of_int (16 * int x + int y))"
      by (simp add: byte_of_int_def)
    from "1.prems" False xy have "valid_tokens rest" "even (length rest)" by auto
    with "1.IH"(2) [OF False v] False v w show ?thesis by auto
  qed
qed simp_all

lemma validate_masked_hex_parses:
  assumes "validate_masked_hex s = Inr n"
  obtains p where "parse_masked_hex s = Inr p" "wf_masked p" "int (mb_len p) = n"
proof -
  let ?c = "concat (py_split_ws s)"
  from assms have c: "?c \<noteq> []" "even (length ?c)" "valid_tokens ?c" "n = int (length ?c div 2)"
    by (auto simp: validate_masked_hex_def Let_def split: if_splits)
  then obtain p where "parse_tokens ?c [] [] = Inr p" using parse_tokens_valid by blast
  with c have p: "parse_masked_hex s = Inr p" by (simp add: parse_masked_hex_def Let_def)
  from parse_masked_hex_wf [OF p] c(4) have "int (mb_len p) = n" by simp
  with p parse_masked_hex_wf(1) [OF p] show ?thesis by (rule that)
qed

section \<open>The invariant of a loaded catalog\<close>

text \<open>The three patterns of a rule parse, and the write window lies inside the signature.\<close>

definition rule_patterns_ok :: "patch_rule \<Rightarrow> bool" where
  "rule_patterns_ok r \<longleftrightarrow>
     (\<exists>sig ex. parse_masked_hex (pr_signature_hex r) = Inr sig \<and>
        parse_masked_hex (pr_expected_hex r) = Inr ex \<and>
        0 \<le> pr_patch_offset r \<and>
        pr_patch_offset r + int (mb_len ex) \<le> int (mb_len sig) \<and>
        (\<forall>h. pr_replacement_hex r = Some h \<longrightarrow>
           (\<exists>q. parse_masked_hex h = Inr q \<and> mb_len q = mb_len ex)))"

definition wf_artifact :: "artifact \<Rightarrow> bool" where
  "wf_artifact a \<longleftrightarrow>
     is_identifier (ar_artifact_id a) \<and> ar_handler a \<in> set SUPPORTED_HANDLERS"

definition wf_rule :: "(string \<times> artifact) list \<Rightarrow> patch_rule \<Rightarrow> bool" where
  "wf_rule artifacts r \<longleftrightarrow>
     pr_artifact_id r \<in> fst ` set artifacts \<and> is_identifier (pr_name r) \<and>
     0 \<le> pr_rel32_exit r \<and> rule_patterns_ok r"

definition wf_catalog :: "catalog \<Rightarrow> bool" where
  "wf_catalog c \<longleftrightarrow>
     cat_artifacts c \<noteq> [] \<and> cat_patches c \<noteq> [] \<and>
     distinct (map fst (cat_artifacts c)) \<and>
     (\<forall>(k, a) \<in> set (cat_artifacts c). k = ar_artifact_id a \<and> wf_artifact a) \<and>
     distinct (map pr_name (cat_patches c)) \<and>
     (\<forall>r \<in> set (cat_patches c). wf_rule (cat_artifacts c) r)"

lemma load_artifact_wf:
  "load_artifact artifacts item = Inr a \<Longrightarrow>
   wf_artifact a \<and> ar_artifact_id a \<notin> fst ` set artifacts"
  by (cases item) (force simp: load_artifact_def bindE_Inr_iff wf_artifact_def map_of_eq_None_iff)+

lemma load_artifacts_wf:
  assumes "load_artifacts artifacts items = Inr result"
    and "distinct (map fst artifacts)" "\<forall>(k, a) \<in> set artifacts. k = ar_artifact_id a \<and> wf_artifact a"
  shows "distinct (map fst result) \<and> (\<forall>(k, a) \<in> set result. k = ar_artifact_id a \<and> wf_artifact a)"
  using assms
proof (induction artifacts items rule: load_artifacts.induct)
  case (2 artifacts item items)
  from "2.prems"(1) obtain a where a: "load_artifact artifacts item = Inr a"
    and rest: "load_artifacts (artifacts @ [(ar_artifact_id a, a)]) items = Inr result"
    by (auto simp: bindE_Inr_iff)
  from load_artifact_wf [OF a] "2.prems"(2,3) show ?case
    by (intro "2.IH" [OF rest]) auto
qed simp

lemma required_int_Inr: "required_int v m = Inr n \<Longrightarrow> 0 \<le> n"
  by (auto simp: required_int_def split: option.splits if_splits)

lemma check_rule_patterns_ok:
  assumes "check_rule_patterns r = Inr ()" "0 \<le> pr_patch_offset r"
  shows "rule_patterns_ok r"
proof -
  from assms(1) obtain sl el
    where s: "validate_masked_hex (pr_signature_hex r) = Inr sl"
      and e: "validate_masked_hex (pr_expected_hex r) = Inr el"
      and b: "pr_patch_offset r + el \<le> sl"
      and q: "\<And>h. pr_replacement_hex r = Some h \<Longrightarrow> validate_masked_hex h = Inr el"
    by (auto simp: check_rule_patterns_def bindE_Inr_iff split: option.splits)
  from s obtain sig where sig: "parse_masked_hex (pr_signature_hex r) = Inr sig" "int (mb_len sig) = sl"
    by (rule validate_masked_hex_parses)
  from e obtain ex where ex: "parse_masked_hex (pr_expected_hex r) = Inr ex" "int (mb_len ex) = el"
    by (rule validate_masked_hex_parses)
  have "\<exists>q. parse_masked_hex h = Inr q \<and> mb_len q = mb_len ex"
    if h: "pr_replacement_hex r = Some h" for h
    using validate_masked_hex_parses [OF q [OF h]] ex(2) by (metis of_nat_eq_iff)
  with sig ex b assms(2) show ?thesis by (auto simp: rule_patterns_ok_def)
qed

lemma load_patch_wf:
  assumes "load_patch artifacts names item = Inr r"
  shows "wf_rule artifacts r \<and> pr_name r \<notin> set names"
proof -
  from assms obtain entries where item: "item = JObj entries"
    by (auto simp: load_patch_def split: json.splits)
  from assms have "map_of artifacts (pr_artifact_id r) \<noteq> None"
    and "is_identifier (pr_name r)" "pr_name r \<notin> set names" "check_rule_patterns r = Inr ()"
    and "0 \<le> pr_patch_offset r" "0 \<le> pr_rel32_exit r"
    by (auto simp: item load_patch_def bindE_Inr_iff Let_def dest: required_int_Inr)
  then show ?thesis
    using check_rule_patterns_ok by (auto simp: wf_rule_def map_of_eq_None_iff)
qed

lemma load_patches_wf:
  assumes "load_patches artifacts patches items = Inr result"
    and "distinct (map pr_name patches)" "\<forall>r \<in> set patches. wf_rule artifacts r"
  shows "distinct (map pr_name result) \<and> (\<forall>r \<in> set result. wf_rule artifacts r)"
  using assms
proof (induction artifacts patches items rule: load_patches.induct)
  case (2 artifacts patches item items)
  from "2.prems"(1) obtain r where r: "load_patch artifacts (map pr_name patches) item = Inr r"
    and rest: "load_patches artifacts (patches @ [r]) items = Inr result"
    by (auto simp: bindE_Inr_iff)
  from load_patch_wf [OF r] "2.prems"(2,3) show ?case
    by (intro "2.IH" [OF rest]) auto
qed simp

lemma load_catalog_Inr:
  assumes "load_catalog file = Inr c"
  obtains source ai pi where "file = Some (JObj source)"
    "unknown_fields source TOP_LEVEL_FIELDS = []" "json_get source ''catalog_version'' = JInt 1"
    "json_get source ''artifacts'' = JArr ai" "json_get source ''patches'' = JArr pi"
    "load_artifacts [] ai = Inr (cat_artifacts c)"
    "load_patches (cat_artifacts c) [] pi = Inr (cat_patches c)"
    "cat_artifacts c \<noteq> []" "cat_patches c \<noteq> []"
  using assms
  by (auto simp: load_catalog_def bindE_Inr_iff check_fields_def split: option.splits json.splits)

lemma wf_catalog_loaded: "load_catalog file = Inr c \<Longrightarrow> wf_catalog c"
proof (erule load_catalog_Inr)
  fix ai pi
  assume a: "load_artifacts [] ai = Inr (cat_artifacts c)"
    and p: "load_patches (cat_artifacts c) [] pi = Inr (cat_patches c)"
    and ne: "cat_artifacts c \<noteq> []" "cat_patches c \<noteq> []"
  from load_artifacts_wf [OF a] load_patches_wf [OF p] ne
  show "wf_catalog c" by (auto simp: wf_catalog_def)
qed

end
