(* ===== verification/PatchEngine.thy ===== *)
theory PatchEngine
imports PatchCatalog
begin

text \<open>
  \<open>apply_rules\<close> of \<open>patch_binary_artifact.py\<close>: every rule is resolved against the
  pristine input (its signature must match once, or its patched form must), the
  write windows must not overlap, the writes are applied, and the final bytes are
  verified rule by rule.  The report callback is a log of its calls.
\<close>

section \<open>Resolving one rule\<close>

datatype rule_state = Patch | Already | Validated

record resolved_rule =
  rr_rule :: patch_rule
  rr_match_offset :: int
  rr_expected :: masked_bytes
  rr_replacement :: "masked_bytes option"
  rr_state :: rule_state

text \<open>\<open>struct.unpack_from("<i", data, pos)\<close>\<close>

definition unpack_i32 :: "bytes \<Rightarrow> nat \<Rightarrow> int" where
  "unpack_i32 data pos = sint (word_of_int (le_int (bslice data pos (pos + 4))) :: 32 word)"

text \<open>
  A \<open>rel32_exit\<close> rule replaces an instruction by a copy of the jump at the rule's exit,
  with the displacement recomputed for the new place.
\<close>

definition retarget_jump ::
  "bytes \<Rightarrow> patch_rule \<Rightarrow> masked_bytes \<Rightarrow> masked_bytes \<Rightarrow> int \<Rightarrow> masked_bytes result" where
  "retarget_jump src rule sig repl match_offset =
     (let site = match_offset + pr_patch_offset rule;
          exit_site = match_offset + pr_rel32_exit rule;
          signature_end = match_offset + int (mb_len sig)
      in if mb_len repl \<noteq> 5 \<or> mb_values repl ! 0 \<noteq> 0xE9 then
           Inl (ValueError ''rel32 patch must be a five-byte e9 jump'')
         else if exit_site < match_offset \<or> exit_site + 5 > signature_end then
           Inl (ValueError ''rel32 exit lies outside signature'')
         else if src ! nat exit_site \<noteq> 0xE9 then
           Inl (ValueError ''rel32 exit is not an e9 jump'')
         else
           let exit_disp = unpack_i32 src (nat (exit_site + 1));
               target = exit_site + 5 + exit_disp;
               new_disp = (target - (site + 5)) mod 0x100000000
           in Inr \<lparr>mb_values = 0xE9 # le_bytes 4 new_disp, mb_exact = replicate 5 1\<rparr>)"

definition patched_signature :: "patch_rule \<Rightarrow> masked_bytes \<Rightarrow> masked_bytes \<Rightarrow> masked_bytes result" where
  "patched_signature rule sig repl =
     overlay_pattern sig (pr_patch_offset rule) repl (pr_rel32_exit rule = 0)"

definition resolve_validation ::
  "bytes \<Rightarrow> patch_rule \<Rightarrow> masked_bytes \<Rightarrow> masked_bytes \<Rightarrow> resolved_rule result" where
  "resolve_validation src rule sig ex =
     (case find_masked src sig of
        [match_offset] \<Rightarrow>
          if matches_at src (match_offset + pr_patch_offset rule) ex
          then Inr \<lparr>rr_rule = rule, rr_match_offset = match_offset, rr_expected = ex,
                    rr_replacement = None, rr_state = Validated\<rparr>
          else Inl (ValueError ''validation bytes mismatch'')
      | _ \<Rightarrow> Inl (ValueError ''validation pattern matched (expected exactly one)''))"

definition resolve_replacement ::
  "bytes \<Rightarrow> patch_rule \<Rightarrow> masked_bytes \<Rightarrow> masked_bytes \<Rightarrow> masked_bytes \<Rightarrow> resolved_rule result" where
  "resolve_replacement src rule sig ex repl =
     bindE (raise_if (mb_len ex \<noteq> mb_len repl)
              (ValueError ''expected/replacement length mismatch'')) (\<lambda>_.
     bindE (patched_signature rule sig repl) (\<lambda>psig.
       case (find_masked src sig, find_masked src psig) of
         ([match_offset], []) \<Rightarrow>
           bindE (raise_if (\<not> matches_at src (match_offset + pr_patch_offset rule) ex)
                    (ValueError ''expected instruction mismatch'')) (\<lambda>_.
           bindE (if pr_rel32_exit rule \<noteq> 0 then retarget_jump src rule sig repl match_offset
                  else Inr repl) (\<lambda>final_repl.
             Inr \<lparr>rr_rule = rule, rr_match_offset = match_offset, rr_expected = ex,
                  rr_replacement = Some final_repl, rr_state = Patch\<rparr>))
       | ([], [match_offset]) \<Rightarrow>
           Inr \<lparr>rr_rule = rule, rr_match_offset = match_offset, rr_expected = ex,
                rr_replacement = Some repl, rr_state = Already\<rparr>
       | _ \<Rightarrow> Inl (ValueError ''refusing ambiguous or unknown input'')))"

definition resolve_rule :: "bytes \<Rightarrow> patch_rule \<Rightarrow> resolved_rule result" where
  "resolve_rule src rule =
     bindE (parse_masked_hex (pr_signature_hex rule)) (\<lambda>sig.
     bindE (parse_masked_hex (pr_expected_hex rule)) (\<lambda>ex.
     bindE (raise_if (pr_patch_offset rule + int (mb_len ex) > int (mb_len sig))
              (ValueError ''expected bytes lie outside signature'')) (\<lambda>_.
       case pr_replacement_hex rule of
         None \<Rightarrow> resolve_validation src rule sig ex
       | Some h \<Rightarrow> bindE (parse_masked_hex h) (resolve_replacement src rule sig ex))))"

section \<open>Overlap check, writes and final verification\<close>

definition rr_site :: "resolved_rule \<Rightarrow> int" where
  "rr_site rr = rr_match_offset rr + pr_patch_offset (rr_rule rr)"

fun check_overlaps :: "(int \<times> int) list \<Rightarrow> resolved_rule list \<Rightarrow> unit result" where
  "check_overlaps ranges [] = Inr ()"
| "check_overlaps ranges (rr # rrs) =
     (case rr_replacement rr of
        None \<Rightarrow> check_overlaps ranges rrs
      | Some q \<Rightarrow>
          if rr_state rr \<noteq> Patch then check_overlaps ranges rrs
          else
            let start = rr_site rr; stop = start + int (mb_len q)
            in if \<exists>(other_start, other_stop) \<in> set ranges. start < other_stop \<and> other_start < stop
               then Inl (ValueError ''patch overlaps another patch'')
               else check_overlaps (ranges @ [(start, stop)]) rrs)"

datatype report =
    ReportValidated string int
  | ReportAlready string int
  | ReportPatched string int bytes bytes
  | ReportDescription string

fun write_resolved ::
  "resolved_rule list \<Rightarrow> bytes \<Rightarrow> bool \<Rightarrow> report list \<Rightarrow> (bytes \<times> bool \<times> report list) result" where
  "write_resolved [] buf changed log = Inr (buf, changed, log)"
| "write_resolved (rr # rrs) buf changed log =
     (case rr_replacement rr of
        None \<Rightarrow>
          write_resolved rrs buf changed
            (log @ [ReportValidated (pr_name (rr_rule rr)) (rr_match_offset rr)])
      | Some q \<Rightarrow>
          if rr_state rr = Already then
            write_resolved rrs buf changed (log @ [ReportAlready (pr_name (rr_rule rr)) (rr_site rr)])
          else
            let site = rr_site rr; old = py_slice buf site (site + int (mb_len q))
            in bindE (render_replacement old q) (\<lambda>new.
                 write_resolved rrs
                   (py_slice_assign buf site (site + int (length new)) new)
                   (changed \<or> old \<noteq> new)
                   (log @ [ReportPatched (pr_name (rr_rule rr)) site old new,
                           ReportDescription (pr_description (rr_rule rr))])))"

definition verify_rule :: "bytes \<Rightarrow> patch_rule \<Rightarrow> unit result" where
  "verify_rule fin rule =
     bindE (parse_masked_hex (pr_signature_hex rule)) (\<lambda>sig.
       case pr_replacement_hex rule of
         None \<Rightarrow>
           raise_if (length (find_masked fin sig) \<noteq> 1) (AssertionError ''validation signature lost'')
       | Some h \<Rightarrow>
           bindE (parse_masked_hex h) (\<lambda>repl.
           bindE (patched_signature rule sig repl) (\<lambda>psig.
           bindE (raise_if (find_masked fin sig \<noteq> [])
                    (AssertionError ''original signature remains'')) (\<lambda>_.
             raise_if (length (find_masked fin psig) \<noteq> 1)
               (AssertionError ''patched signature not unique'')))))"

definition apply_rules ::
  "bytes \<Rightarrow> patch_rule list \<Rightarrow> (bytes \<times> bool \<times> report list) result" where
  "apply_rules source rules =
     bindE (raise_if (length (remdups (map pr_artifact_id rules)) > 1)
              (ValueError ''apply_rules received patches for multiple artifacts'')) (\<lambda>_.
     bindE (mapE (resolve_rule source) rules) (\<lambda>resolved.
     bindE (check_overlaps [] resolved) (\<lambda>_.
     bindE (write_resolved resolved source False []) (\<lambda>(fin, changed, log).
     bindE (mapE (verify_rule fin) rules) (\<lambda>_.
       Inr (fin, changed, log))))))"

section \<open>Selecting rules by artifact\<close>

definition rules_for_artifact :: "catalog \<Rightarrow> string \<Rightarrow> patch_rule list result" where
  "rules_for_artifact cat aid =
     (if map_of (cat_artifacts cat) aid = None then Inl (ValueError ''unknown artifact id'')
      else let rules = filter (\<lambda>r. pr_artifact_id r = aid) (cat_patches cat)
           in if rules = [] then Inl (ValueError ''artifact has no patches'') else Inr rules)"

text \<open>The call without rules keeps the behaviour for the shared AP platform.\<close>

definition apply_default_rules :: "catalog \<Rightarrow> bytes \<Rightarrow> (bytes \<times> bool \<times> report list) result" where
  "apply_default_rules cat source =
     bindE (rules_for_artifact cat ''ap_11n_scorpion_wlan_ko'') (apply_rules source)"

definition apply_artifact :: "catalog \<Rightarrow> bytes \<Rightarrow> string \<Rightarrow> (bytes \<times> bool \<times> report list) result" where
  "apply_artifact cat source aid = bindE (rules_for_artifact cat aid) (apply_rules source)"

section \<open>What a resolved rule guarantees\<close>

text \<open>The bytes a resolved rule will overwrite, and with what.\<close>

definition rr_window :: "resolved_rule \<Rightarrow> (nat \<times> masked_bytes) option" where
  "rr_window rr =
     (case (rr_state rr, rr_replacement rr) of
        (Patch, Some q) \<Rightarrow> Some (nat (rr_site rr), q)
      | _ \<Rightarrow> None)"

definition window_in :: "nat \<Rightarrow> resolved_rule \<Rightarrow> bool" where
  "window_in n rr \<longleftrightarrow>
     (case rr_state rr of
        Validated \<Rightarrow> rr_replacement rr = None
      | Already \<Rightarrow> rr_replacement rr \<noteq> None
      | Patch \<Rightarrow> (\<exists>q. rr_replacement rr = Some q \<and> length (mb_exact q) = mb_len q \<and>
                    0 \<le> rr_site rr \<and> rr_site rr + int (mb_len q) \<le> int n))"

lemma rule_state_cases [case_names Patch Already Validated]:
  "(s = Patch \<Longrightarrow> P) \<Longrightarrow> (s = Already \<Longrightarrow> P) \<Longrightarrow> (s = Validated \<Longrightarrow> P) \<Longrightarrow> P"
  by (cases s) auto

lemma retarget_jump_len:
  "retarget_jump src rule sig repl m = Inr q \<Longrightarrow>
   mb_len repl = 5 \<and> mb_len q = 5 \<and> length (mb_exact q) = mb_len q"
  by (auto simp: retarget_jump_def Let_def mb_len_def split: if_splits)

lemma resolve_replacement_Inr:
  assumes "resolve_replacement src rule sig ex repl = Inr rr"
  obtains (patch) psig m q where "mb_len ex = mb_len repl" "patched_signature rule sig repl = Inr psig"
      "find_masked src sig = [m]" "find_masked src psig = []"
      "matches_at src (m + pr_patch_offset rule) ex"
      "(if pr_rel32_exit rule \<noteq> 0 then retarget_jump src rule sig repl m else Inr repl) = Inr q"
      "rr = \<lparr>rr_rule = rule, rr_match_offset = m, rr_expected = ex, rr_replacement = Some q,
             rr_state = Patch\<rparr>"
    | (already) psig m where "mb_len ex = mb_len repl" "patched_signature rule sig repl = Inr psig"
      "find_masked src sig = []" "find_masked src psig = [m]"
      "rr = \<lparr>rr_rule = rule, rr_match_offset = m, rr_expected = ex, rr_replacement = Some repl,
             rr_state = Already\<rparr>"
proof -
  from assms obtain psig where len: "mb_len ex = mb_len repl"
    and ps: "patched_signature rule sig repl = Inr psig"
    by (auto simp: resolve_replacement_def bindE_Inr_iff)
  from assms len ps patch [OF len ps] already [OF len ps] show thesis
    by (auto simp: resolve_replacement_def bindE_Inr_iff split: list.splits)
qed

lemma resolve_validation_Inr:
  assumes "resolve_validation src rule sig ex = Inr rr"
  obtains m where "find_masked src sig = [m]" "matches_at src (m + pr_patch_offset rule) ex"
    "rr = \<lparr>rr_rule = rule, rr_match_offset = m, rr_expected = ex, rr_replacement = None,
           rr_state = Validated\<rparr>"
  using assms by (auto simp: resolve_validation_def split: list.splits if_splits)

lemma resolve_rule_Inr:
  assumes "resolve_rule src rule = Inr rr"
  obtains sig ex where "parse_masked_hex (pr_signature_hex rule) = Inr sig"
    "parse_masked_hex (pr_expected_hex rule) = Inr ex"
    "pr_patch_offset rule + int (mb_len ex) \<le> int (mb_len sig)"
    "pr_replacement_hex rule = None \<longrightarrow> resolve_validation src rule sig ex = Inr rr"
    "\<forall>h. pr_replacement_hex rule = Some h \<longrightarrow>
       (\<exists>repl. parse_masked_hex h = Inr repl \<and> resolve_replacement src rule sig ex repl = Inr rr)"
  using assms by (auto simp: resolve_rule_def bindE_Inr_iff split: option.splits)

lemma matches_at_bounds: "matches_at data i p \<Longrightarrow> 0 \<le> i \<and> i + int (mb_len p) \<le> int (length data)"
  by (auto simp: matches_at_def split: if_splits)

lemma resolve_rule_window:
  assumes "resolve_rule src rule = Inr rr"
  shows "rr_rule rr = rule \<and> window_in (length src) rr"
proof -
  from assms obtain sig ex where
    val: "pr_replacement_hex rule = None \<longrightarrow> resolve_validation src rule sig ex = Inr rr"
    and rep: "\<forall>h. pr_replacement_hex rule = Some h \<longrightarrow>
       (\<exists>repl. parse_masked_hex h = Inr repl \<and> resolve_replacement src rule sig ex repl = Inr rr)"
    by (rule resolve_rule_Inr)
  show ?thesis
  proof (cases "pr_replacement_hex rule")
    case None
    from val [rule_format, OF None] show ?thesis by (rule resolve_validation_Inr) (simp add: window_in_def)
  next
    case (Some h)
    from rep [rule_format, OF Some] obtain repl where "parse_masked_hex h = Inr repl"
      and res: "resolve_replacement src rule sig ex repl = Inr rr" by blast
    then have wf: "length (mb_exact repl) = mb_len repl"
      using parse_masked_hex_wf(1) by (auto simp: wf_masked_def)
    from res show ?thesis
    proof (cases rule: resolve_replacement_Inr)
      case (patch psig m q)
      then have "mb_len q = mb_len ex \<and> length (mb_exact q) = mb_len q"
        using wf retarget_jump_len [of src rule sig repl m q] by (auto split: if_splits)
      with patch matches_at_bounds [OF patch(5)] show ?thesis
        by (simp add: window_in_def rr_site_def)
    next
      case already
      then show ?thesis by (simp add: window_in_def)
    qed
  qed
qed

lemma resolve_all_windows:
  assumes "mapE (resolve_rule src) rules = Inr rrs"
  shows "\<forall>rr \<in> set rrs. window_in (length src) rr" "map rr_rule rrs = rules"
proof -
  from assms have l2: "list_all2 (\<lambda>r rr. resolve_rule src r = Inr rr) rules rrs"
    by (simp add: mapE_Inr_iff)
  then show "\<forall>rr \<in> set rrs. window_in (length src) rr"
    by (induction rule: list_all2_induct) (auto dest: resolve_rule_window)
  from l2 show "map rr_rule rrs = rules"
    by (induction rule: list_all2_induct) (auto dest: resolve_rule_window)
qed

section \<open>The overlap check\<close>

definition win_disjoint :: "resolved_rule \<Rightarrow> resolved_rule \<Rightarrow> bool" where
  "win_disjoint a b \<longleftrightarrow>
     (case (rr_window a, rr_window b) of
        (Some (s, q), Some (s', q')) \<Rightarrow> s + mb_len q \<le> s' \<or> s' + mb_len q' \<le> s
      | _ \<Rightarrow> True)"

lemma check_overlaps_ok:
  assumes "check_overlaps ranges rrs = Inr ()" "\<forall>rr \<in> set rrs. window_in n rr"
  shows "sorted_wrt win_disjoint rrs \<and>
    (\<forall>rr \<in> set rrs. \<forall>s q. rr_window rr = Some (s, q) \<longrightarrow>
       (\<forall>(a, b) \<in> set ranges. int (s + mb_len q) \<le> a \<or> b \<le> int s))"
  using assms
proof (induction ranges rrs rule: check_overlaps.induct)
  case (1 ranges)
  then show ?case by simp
next
  case (2 ranges rr rrs)
  have win: "window_in n rr" "\<forall>r \<in> set rrs. window_in n r" using "2.prems"(2) by auto
  show ?case
  proof (cases "rr_state rr" rule: rule_state_cases)
    case Validated
    with win(1) have "rr_replacement rr = None" "rr_window rr = None"
      by (auto simp: window_in_def rr_window_def)
    with "2.IH"(1) "2.prems" win show ?thesis by (auto simp: win_disjoint_def)
  next
    case Already
    with win(1) obtain q where q: "rr_replacement rr = Some q" "rr_window rr = None"
      by (auto simp: window_in_def rr_window_def)
    with "2.IH"(2) [OF q(1)] Already "2.prems" win show ?thesis by (auto simp: win_disjoint_def)
  next
    case Patch
    with win(1) obtain q where q: "rr_replacement rr = Some q" "0 \<le> rr_site rr"
      by (auto simp: window_in_def)
    define start where "start = rr_site rr"
    define stop where "stop = start + int (mb_len q)"
    have w: "rr_window rr = Some (nat start, q)" and st: "int (nat start) = start"
      using Patch q by (auto simp: rr_window_def start_def)
    from "2.prems"(1) q Patch
    have free: "\<not> (\<exists>(a, b) \<in> set ranges. start < b \<and> a < stop)"
      and rest: "check_overlaps (ranges @ [(start, stop)]) rrs = Inr ()"
      by (auto simp: Let_def start_def stop_def split: if_splits)
    have IH: "sorted_wrt win_disjoint rrs \<and>
      (\<forall>rr \<in> set rrs. \<forall>s q. rr_window rr = Some (s, q) \<longrightarrow>
         (\<forall>(a, b) \<in> set (ranges @ [(start, stop)]). int (s + mb_len q) \<le> a \<or> b \<le> int s))"
      using "2.IH"(3) [OF q(1) _ start_def, of stop] Patch free rest win(2)
      by (auto simp: stop_def)
    have "win_disjoint rr r" if "r \<in> set rrs" for r
    proof (cases "rr_window r")
      case None
      then show ?thesis by (simp add: win_disjoint_def split: option.splits)
    next
      case (Some sq)
      obtain s q' where sq: "sq = (s, q')" by (cases sq)
      with IH that Some have "int (s + mb_len q') \<le> start \<or> stop \<le> int s" by fastforce
      then have "nat start + mb_len q \<le> s \<or> s + mb_len q' \<le> nat start"
        using st unfolding stop_def by linarith
      with Some sq w show ?thesis by (simp add: win_disjoint_def)
    qed
    moreover have "\<forall>(a, b) \<in> set ranges. int (nat start + mb_len q) \<le> a \<or> b \<le> int (nat start)"
      using free st by (fastforce simp: stop_def)
    moreover have "\<forall>r \<in> set rrs. \<forall>s q. rr_window r = Some (s, q) \<longrightarrow>
         (\<forall>(a, b) \<in> set ranges. int (s + mb_len q) \<le> a \<or> b \<le> int s)"
      using IH by auto
    ultimately show ?thesis using IH w by simp
  qed
qed

section \<open>The writes, byte by byte\<close>

text \<open>
  The specification of the write loop: each byte is decided by the window that
  covers it, and bytes outside every window are kept.
\<close>

fun patched_byte :: "resolved_rule list \<Rightarrow> byte \<Rightarrow> nat \<Rightarrow> byte" where
  "patched_byte [] old j = old"
| "patched_byte (rr # rrs) old j =
     (case rr_window rr of
        None \<Rightarrow> patched_byte rrs old j
      | Some (s, q) \<Rightarrow>
          if s \<le> j \<and> j < s + mb_len q
          then (if mb_exact q ! (j - s) \<noteq> 0 then mb_values q ! (j - s) else old)
          else patched_byte rrs old j)"

definition in_window :: "resolved_rule \<Rightarrow> nat \<Rightarrow> bool" where
  "in_window rr j \<longleftrightarrow> (\<exists>s q. rr_window rr = Some (s, q) \<and> s \<le> j \<and> j < s + mb_len q)"

lemma patched_byte_outside: "\<forall>rr \<in> set rrs. \<not> in_window rr j \<Longrightarrow> patched_byte rrs old j = old"
  by (induction rrs) (auto simp: in_window_def split: option.splits)

lemma disjoint_not_in_window:
  "win_disjoint a b \<Longrightarrow> in_window a j \<Longrightarrow> \<not> in_window b j"
  by (auto simp: win_disjoint_def in_window_def split: option.splits)

lemma render_ok:
  "length old = mb_len q \<Longrightarrow> \<exists>new. render_replacement old q = Inr new"
  by (simp add: render_replacement_def)

text \<open>One write: a rendered replacement over its window.\<close>

lemma write_window:
  assumes win: "rr_window rr = Some (s, q)" and ok: "window_in (length buf) rr"
  obtains new where "render_replacement (bslice buf s (s + mb_len q)) q = Inr new"
    "length new = mb_len q"
    "length (bassign buf s (s + mb_len q) new) = length buf"
    "\<And>j. j < length buf \<Longrightarrow> bassign buf s (s + mb_len q) new ! j =
       (if in_window rr j
        then (if mb_exact q ! (j - s) \<noteq> 0 then mb_values q ! (j - s) else buf ! j) else buf ! j)"
    "py_slice buf (rr_site rr) (rr_site rr + int (mb_len q)) = bslice buf s (s + mb_len q)"
    "py_slice_assign buf (rr_site rr) (rr_site rr + int (mb_len q)) new =
       bassign buf s (s + mb_len q) new"
proof -
  from win ok have st: "rr_state rr = Patch" "rr_replacement rr = Some q" "s = nat (rr_site rr)"
    and q: "length (mb_exact q) = mb_len q" "0 \<le> rr_site rr" "rr_site rr + int (mb_len q) \<le> int (length buf)"
    by (auto simp: rr_window_def window_in_def split: rule_state.splits option.splits)
  then have b: "s + mb_len q \<le> length buf" and site: "rr_site rr = int s" by auto
  then have len: "length (bslice buf s (s + mb_len q)) = mb_len q" by simp
  then obtain new where new: "render_replacement (bslice buf s (s + mb_len q)) q = Inr new"
    using render_ok by blast
  with q(1) have nl: "length new = mb_len q" by (simp add: render_length)
  have nth: "bassign buf s (s + mb_len q) new ! j =
       (if in_window rr j
        then (if mb_exact q ! (j - s) \<noteq> 0 then mb_values q ! (j - s) else buf ! j) else buf ! j)" for j
  proof (cases "s \<le> j \<and> j < s + mb_len q")
    case True
    then have "j - s < mb_len q" by auto
    from render_nth [OF new q(1) this] True b nl win show ?thesis
      using nth_bslice [of s "j - s" "s + mb_len q" buf]
      by (auto simp: nth_bassign in_window_def)
  next
    case False
    with b nl win show ?thesis by (auto simp: nth_bassign in_window_def)
  qed
  have "py_slice_assign buf (rr_site rr) (rr_site rr + int (mb_len q)) new =
      bassign buf s (s + mb_len q) new"
    using b by (simp add: site py_slice_assign_in bassign_def max_def nat_int_add)
  moreover have "py_slice buf (rr_site rr) (rr_site rr + int (mb_len q)) = bslice buf s (s + mb_len q)"
    by (metis site py_slice_bslice of_nat_add)
  ultimately show thesis
    using that new nl nth b by (simp add: length_bassign)
qed

lemma write_resolved_spec:
  assumes "\<forall>rr \<in> set rrs. window_in (length buf) rr" "sorted_wrt win_disjoint rrs"
  shows "\<exists>out log'. write_resolved rrs buf c log = Inr (out, c \<or> out \<noteq> buf, log') \<and>
    length out = length buf \<and> (\<forall>j < length buf. out ! j = patched_byte rrs (buf ! j) j)"
  using assms
proof (induction rrs buf c log rule: write_resolved.induct)
  case (1 buf c log)
  then show ?case by simp
next
  case (2 rr rrs buf c log)
  have win: "window_in (length buf) rr" and wins: "\<forall>r \<in> set rrs. window_in (length buf) r"
    and dis: "sorted_wrt win_disjoint rrs" "\<forall>r \<in> set rrs. win_disjoint rr r"
    using "2.prems" by auto
  show ?case
  proof (cases "rr_state rr" rule: rule_state_cases)
    case Validated
    with win have "rr_replacement rr = None" "rr_window rr = None"
      by (auto simp: window_in_def rr_window_def)
    with "2.IH"(1) wins dis show ?thesis by simp
  next
    case Already
    with win obtain q where q: "rr_replacement rr = Some q" "rr_window rr = None"
      by (auto simp: window_in_def rr_window_def)
    with "2.IH"(2) [OF q(1)] Already wins dis show ?thesis by simp
  next
    case Patch
    with win obtain s q where q: "rr_replacement rr = Some q" "rr_window rr = Some (s, q)"
      by (auto simp: window_in_def rr_window_def)
    from q(2) win obtain new where new: "render_replacement (bslice buf s (s + mb_len q)) q = Inr new"
      "length new = mb_len q" and len: "length (bassign buf s (s + mb_len q) new) = length buf"
      and nth: "\<And>j. j < length buf \<Longrightarrow> bassign buf s (s + mb_len q) new ! j =
       (if in_window rr j
        then (if mb_exact q ! (j - s) \<noteq> 0 then mb_values q ! (j - s) else buf ! j) else buf ! j)"
      and sl: "py_slice buf (rr_site rr) (rr_site rr + int (mb_len q)) = bslice buf s (s + mb_len q)"
      and as: "py_slice_assign buf (rr_site rr) (rr_site rr + int (mb_len q)) new =
       bassign buf s (s + mb_len q) new"
      by (rule write_window) blast
    define buf' where "buf' = bassign buf s (s + mb_len q) new"
    define old where "old = bslice buf s (s + mb_len q)"
    obtain out log' where out: "write_resolved rrs buf' (c \<or> old \<noteq> new)
        (log @ [ReportPatched (pr_name (rr_rule rr)) (rr_site rr) old new,
                ReportDescription (pr_description (rr_rule rr))]) =
        Inr (out, (c \<or> old \<noteq> new) \<or> out \<noteq> buf', log')"
      and ol: "length out = length buf'" and on: "\<forall>j < length buf'. out ! j = patched_byte rrs (buf' ! j) j"
      using "2.IH"(3) [OF q(1) _ refl, of old new] Patch new wins dis len
      by (auto simp: buf'_def old_def sl as)
    have keep: "out ! j = buf' ! j" if "in_window rr j" "j < length buf" for j
    proof -
      have "\<forall>r \<in> set rrs. \<not> in_window r j"
        using that(1) dis(2) disjoint_not_in_window by blast
      then have "patched_byte rrs (buf' ! j) j = buf' ! j" by (rule patched_byte_outside)
      with on that(2) len show ?thesis by (simp add: buf'_def)
    qed
    have sb: "s + mb_len q \<le> length buf"
      using win q by (auto simp: window_in_def rr_window_def split: rule_state.splits option.splits)
    have ch: "(old \<noteq> new \<or> out \<noteq> buf') \<longleftrightarrow> out \<noteq> buf"
    proof (cases "old = new")
      case True
      then have "new = bslice buf s (s + mb_len q)" by (simp add: old_def)
      then have "buf' = buf" using sb by (simp add: buf'_def bassign_id)
      with True show ?thesis by simp
    next
      case False
      have "out \<noteq> buf"
      proof
        assume "out = buf"
        have "old ! k = new ! k" if k: "k < mb_len q" for k
        proof -
          have "in_window rr (s + k)" "s + k < length buf"
            using q(2) k sb by (auto simp: in_window_def)
          then have "out ! (s + k) = buf' ! (s + k)" by (rule keep)
          also have "\<dots> = new ! k"
            using sb new(2) k by (simp add: buf'_def nth_bassign)
          finally show ?thesis
            using \<open>out = buf\<close> sb k by (simp add: old_def nth_bslice)
        qed
        moreover have "length old = mb_len q" using sb by (simp add: old_def)
        ultimately have "old = new" using new(2) by (simp add: list_eq_iff_nth_eq)
        with False show False by simp
      qed
      with False show ?thesis by simp
    qed
    have "out ! j = patched_byte (rr # rrs) (buf ! j) j" if j: "j < length buf" for j
    proof (cases "in_window rr j")
      case True
      with keep j nth [OF j] q(2) show ?thesis by (auto simp: buf'_def in_window_def)
    next
      case False
      with on j len nth [OF j] q(2) show ?thesis by (auto simp: buf'_def in_window_def)
    qed
    moreover have "write_resolved (rr # rrs) buf c log = Inr (out, c \<or> out \<noteq> buf, log')"
    proof -
      have ch': "((c \<or> old \<noteq> new) \<or> out \<noteq> buf') = (c \<or> out \<noteq> buf)" using ch by blast
      show ?thesis
        using Patch q(1) new out [unfolded ch'] by (simp add: sl as buf'_def old_def)
    qed
    ultimately show ?thesis using ol len by (auto simp: buf'_def)
  qed
qed

section \<open>The run as a whole\<close>

lemma apply_rules_Inr:
  assumes "apply_rules src rules = Inr (fin, changed, log)"
  obtains rrs where "length (remdups (map pr_artifact_id rules)) \<le> 1"
    "mapE (resolve_rule src) rules = Inr rrs" "check_overlaps [] rrs = Inr ()"
    "write_resolved rrs src False [] = Inr (fin, changed, log)"
    "\<forall>r \<in> set rules. verify_rule fin r = Inr ()"
proof -
  from assms obtain rrs us where 1: "length (remdups (map pr_artifact_id rules)) \<le> 1"
    "mapE (resolve_rule src) rules = Inr rrs" "check_overlaps [] rrs = Inr ()"
    "write_resolved rrs src False [] = Inr (fin, changed, log)"
    and 2: "mapE (verify_rule fin) rules = Inr us"
    by (auto simp: apply_rules_def bindE_Inr_iff not_less)
  from 2 have "\<forall>r \<in> set rules. verify_rule fin r = Inr ()"
    by (auto simp: mapE_Inr_iff list_all2_conv_all_nth in_set_conv_nth)
  with 1 show thesis by (rule that)
qed

lemma apply_rules_writes:
  assumes "mapE (resolve_rule src) rules = Inr rrs" "check_overlaps [] rrs = Inr ()"
    and "write_resolved rrs src False [] = Inr (fin, changed, log)"
  shows "sorted_wrt win_disjoint rrs" "length fin = length src" "changed \<longleftrightarrow> fin \<noteq> src"
    "\<And>j. j < length src \<Longrightarrow> fin ! j = patched_byte rrs (src ! j) j"
proof -
  note win = resolve_all_windows(1) [OF assms(1)]
  from check_overlaps_ok [OF assms(2) win] show dis: "sorted_wrt win_disjoint rrs" by simp
  from write_resolved_spec [OF win dis, of False "[]"] assms(3)
  show "length fin = length src" "changed \<longleftrightarrow> fin \<noteq> src"
    "\<And>j. j < length src \<Longrightarrow> fin ! j = patched_byte rrs (src ! j) j"
    by auto
qed

lemma patched_byte_changed:
  "patched_byte rrs old j \<noteq> old \<Longrightarrow> \<exists>rr \<in> set rrs. in_window rr j"
  using patched_byte_outside by blast

lemma mapE_member: "mapE f xs = Inr ys \<Longrightarrow> y \<in> set ys \<Longrightarrow> \<exists>x \<in> set xs. f x = Inr y"
  by (auto simp: mapE_Inr_iff list_all2_conv_all_nth in_set_conv_nth [of y]) (metis nth_mem)

text \<open>Where a rule that writes was found, and over which expected bytes.\<close>

lemma resolve_rule_Patch:
  assumes "resolve_rule src rule = Inr rr" "rr_window rr = Some (s, q)"
  obtains sig ex h repl where "parse_masked_hex (pr_signature_hex rule) = Inr sig"
    "parse_masked_hex (pr_expected_hex rule) = Inr ex" "pr_replacement_hex rule = Some h"
    "parse_masked_hex h = Inr repl" "find_masked src sig = [rr_match_offset rr]"
    "matches_at src (int s) ex" "mb_len q = mb_len ex" "mb_len ex = mb_len repl"
    "int s = rr_match_offset rr + pr_patch_offset rule" "rr_rule rr = rule"
    "(if pr_rel32_exit rule \<noteq> 0 then retarget_jump src rule sig repl (rr_match_offset rr)
      else Inr repl) = Inr q"
    "0 \<le> pr_patch_offset rule"
proof -
  from assms(2) have st: "rr_state rr = Patch" "rr_replacement rr = Some q" "s = nat (rr_site rr)"
    by (auto simp: rr_window_def split: rule_state.splits option.splits)
  from assms(1) obtain sig ex where p: "parse_masked_hex (pr_signature_hex rule) = Inr sig"
    "parse_masked_hex (pr_expected_hex rule) = Inr ex"
    and val: "pr_replacement_hex rule = None \<longrightarrow> resolve_validation src rule sig ex = Inr rr"
    and rep: "\<forall>h. pr_replacement_hex rule = Some h \<longrightarrow>
       (\<exists>repl. parse_masked_hex h = Inr repl \<and> resolve_replacement src rule sig ex repl = Inr rr)"
    by (rule resolve_rule_Inr)
  from val st(1) obtain h where h: "pr_replacement_hex rule = Some h"
    by (cases "pr_replacement_hex rule") (auto elim: resolve_validation_Inr)
  with rep obtain repl where r: "parse_masked_hex h = Inr repl"
    and res: "resolve_replacement src rule sig ex repl = Inr rr" by blast
  from res show thesis
  proof (cases rule: resolve_replacement_Inr)
    case (patch psig m q')
    with st have q: "q' = q" "s = nat (m + pr_patch_offset rule)" "rr_match_offset rr = m"
      by (auto simp: rr_site_def)
    from matches_at_bounds [OF patch(5)] have s: "int s = m + pr_patch_offset rule" using q by simp
    have "mb_len q = mb_len ex"
      using patch(1,6) q retarget_jump_len [of src rule sig repl m q] by (auto split: if_splits)
    moreover have "0 \<le> pr_patch_offset rule"
      using patch(2) by (auto simp: patched_signature_def overlay_pattern_def split: if_splits)
    moreover have "find_masked src sig = [rr_match_offset rr]" "rr_rule rr = rule"
      "int s = rr_match_offset rr + pr_patch_offset rule" "matches_at src (int s) ex"
      "(if pr_rel32_exit rule \<noteq> 0 then retarget_jump src rule sig repl (rr_match_offset rr)
        else Inr repl) = Inr q"
      using patch q s by (simp_all split: if_splits)
    ultimately show thesis
      using that [OF p h r] patch(1) by blast
  next
    case (already psig m)
    with st show thesis by simp
  qed
qed

text \<open>The final verification, read through the search contract.\<close>

lemma verify_rule_replacement:
  assumes "verify_rule fin r = Inr ()" "pr_replacement_hex r = Some h"
    and "parse_masked_hex (pr_signature_hex r) = Inr sig" "parse_masked_hex h = Inr repl"
  obtains psig where "patched_signature r sig repl = Inr psig" "wf_masked psig"
    "find_masked fin sig = []" "length (find_masked fin psig) = 1"
proof -
  from assms obtain psig where "patched_signature r sig repl = Inr psig"
    "find_masked fin sig = []" "length (find_masked fin psig) = 1"
    by (auto simp: verify_rule_def bindE_Inr_iff)
  moreover from this(1) have "wf_masked psig"
    using overlay_pattern_wf(1) parse_masked_hex_wf(1) [OF assms(3)]
    by (auto simp: patched_signature_def)
  ultimately show thesis using that by blast
qed

section \<open>Running the engine on its own output\<close>

text \<open>
  \<open>covers sig off ex\<close>: the expected bytes at \<open>off\<close> follow from the signature, so a
  match of the signature is a match of the expected bytes.
\<close>

definition covers :: "masked_bytes \<Rightarrow> int \<Rightarrow> masked_bytes \<Rightarrow> bool" where
  "covers sig off ex \<longleftrightarrow> 0 \<le> off \<and>
     (\<forall>k < mb_len ex. mb_exact ex ! k \<noteq> 0 \<longrightarrow>
        mb_exact sig ! (nat off + k) \<noteq> 0 \<and> mb_values sig ! (nat off + k) = mb_values ex ! k)"

definition validation_stable :: "patch_rule \<Rightarrow> bool" where
  "validation_stable r \<longleftrightarrow>
     (case pr_replacement_hex r of
        Some _ \<Rightarrow> True
      | None \<Rightarrow>
          (case (parse_masked_hex (pr_signature_hex r), parse_masked_hex (pr_expected_hex r)) of
             (Inr sig, Inr ex) \<Rightarrow> covers sig (pr_patch_offset r) ex
           | _ \<Rightarrow> False))"

lemma covers_match:
  assumes "covers sig off ex" "wf_masked sig" "wf_masked ex"
    and "off + int (mb_len ex) \<le> int (mb_len sig)" "matches_at data m sig"
  shows "matches_at data (m + off) ex"
proof -
  from assms have o: "0 \<le> off" and m: "0 \<le> m" "m + int (mb_len sig) \<le> int (length data)"
    and eq: "\<And>k. k < mb_len sig \<Longrightarrow> mb_exact sig ! k \<noteq> 0 \<Longrightarrow> data ! (nat m + k) = mb_values sig ! k"
    by (auto simp: covers_def matches_at_iff wf_masked_def)
  have "data ! (nat (m + off) + k) = mb_values ex ! k"
    if k: "k < mb_len ex" "mb_exact ex ! k \<noteq> 0" for k
  proof -
    from k assms(1) have s: "mb_exact sig ! (nat off + k) \<noteq> 0"
      "mb_values sig ! (nat off + k) = mb_values ex ! k" by (auto simp: covers_def)
    have "nat off + k < mb_len sig" using k(1) o assms(4) by linarith
    from eq [OF this s(1)] s(2) o m(1) show ?thesis by (simp add: nat_add_distrib add.assoc)
  qed
  with o m assms(3,4) show ?thesis by (simp add: matches_at_iff wf_masked_def)
qed

lemma resolve_again:
  assumes res: "resolve_rule src r = Inr rr" and ver: "verify_rule fin r = Inr ()"
    and stable: "validation_stable r"
  shows "\<exists>rr'. resolve_rule fin r = Inr rr' \<and> rr_window rr' = None"
proof -
  from res obtain sig ex where sig: "parse_masked_hex (pr_signature_hex r) = Inr sig"
    and ex: "parse_masked_hex (pr_expected_hex r) = Inr ex"
    and len: "pr_patch_offset r + int (mb_len ex) \<le> int (mb_len sig)"
    and rep: "\<forall>h. pr_replacement_hex r = Some h \<longrightarrow>
       (\<exists>repl. parse_masked_hex h = Inr repl \<and> resolve_replacement src r sig ex repl = Inr rr)"
    by (rule resolve_rule_Inr)
  note wf = parse_masked_hex_wf(1) [OF sig] parse_masked_hex_wf(1) [OF ex]
  show ?thesis
  proof (cases "pr_replacement_hex r")
    case None
    with ver sig have one: "length (find_masked fin sig) = 1" by (simp add: verify_rule_def)
    then obtain m where m: "find_masked fin sig = [m]" by (auto simp: length_Suc_conv)
    with masked.hd_hit [OF wf(1) one] have "matches_at fin m sig" by simp
    moreover from stable None sig ex have "covers sig (pr_patch_offset r) ex"
      by (simp add: validation_stable_def)
    ultimately have "matches_at fin (m + pr_patch_offset r) ex"
      using covers_match wf len by blast
    with None sig ex len m show ?thesis
      by (simp add: resolve_rule_def resolve_validation_def rr_window_def)
  next
    case (Some h)
    with rep obtain repl where r: "parse_masked_hex h = Inr repl"
      and rr: "resolve_replacement src r sig ex repl = Inr rr" by blast
    from ver Some sig r obtain psig where ps: "patched_signature r sig repl = Inr psig"
      "find_masked fin sig = []" "length (find_masked fin psig) = 1"
      by (rule verify_rule_replacement)
    from ps(3) obtain m where "find_masked fin psig = [m]" by (auto simp: length_Suc_conv)
    moreover from rr have "mb_len ex = mb_len repl" by (cases rule: resolve_replacement_Inr) auto
    ultimately show ?thesis
      using Some sig ex len r ps by (simp add: resolve_rule_def resolve_replacement_def rr_window_def)
  qed
qed

lemma mapE_resolve_again:
  assumes "mapE (resolve_rule src) rules = Inr rrs"
    and "\<forall>r \<in> set rules. verify_rule fin r = Inr ()" "\<forall>r \<in> set rules. validation_stable r"
  shows "\<exists>rrs'. mapE (resolve_rule fin) rules = Inr rrs' \<and> (\<forall>rr \<in> set rrs'. rr_window rr = None)"
  using assms
proof (induction rules arbitrary: rrs)
  case Nil
  then show ?case by simp
next
  case (Cons r rules)
  from Cons.prems(1) obtain rr rest where "resolve_rule src r = Inr rr"
    "mapE (resolve_rule src) rules = Inr rest" by (auto simp: bindE_Inr_iff)
  with Cons.IH Cons.prems resolve_again [of src r rr fin] show ?case by fastforce
qed

lemma check_overlaps_no_window:
  assumes "\<forall>rr \<in> set rrs. rr_window rr = None" "\<forall>rr \<in> set rrs. window_in n rr"
  shows "check_overlaps ranges rrs = Inr ()"
  using assms
proof (induction rrs)
  case (Cons rr rrs)
  then show ?case
    by (cases "rr_state rr" rule: rule_state_cases) (auto simp: window_in_def rr_window_def)
qed simp

lemma patched_byte_no_window: "\<forall>rr \<in> set rrs. rr_window rr = None \<Longrightarrow> patched_byte rrs old j = old"
  by (intro patched_byte_outside) (auto simp: in_window_def)

end
