(* ===== verification/PatchProperties.thy ===== *)
theory PatchProperties
imports PatchEngine
begin

text \<open>
  The properties of the pattern search, the catalog loader and the patch engine,
  each with a concrete run as its witness.
\<close>

section \<open>Lemmas on the written windows and the retargeted jump\<close>

lemma patched_byte_window:
  assumes "sorted_wrt win_disjoint rrs" "rr \<in> set rrs" "rr_window rr = Some (s, q)"
    and "s \<le> j" "j < s + mb_len q"
  shows "patched_byte rrs old j =
    (if mb_exact q ! (j - s) \<noteq> 0 then mb_values q ! (j - s) else old)"
  using assms
proof (induction rrs)
  case (Cons r rrs)
  show ?case
  proof (cases "r = rr")
    case True
    with Cons.prems show ?thesis by simp
  next
    case False
    with Cons.prems have rr: "rr \<in> set rrs" "win_disjoint r rr" by auto
    moreover have "in_window rr j" using Cons.prems by (auto simp: in_window_def)
    ultimately have "\<not> in_window r j"
      using disjoint_not_in_window by blast
    with Cons rr(1) show ?thesis by (auto simp: in_window_def split: option.splits)
  qed
qed simp

text \<open>Where a near jump at \<open>pos\<close> goes, as the processor adds the displacement (modulo \<open>2^32\<close>).\<close>

definition jump_target :: "bytes \<Rightarrow> nat \<Rightarrow> int" where
  "jump_target data pos = (int pos + 5 + unpack_i32 data (pos + 1)) mod 2 ^ 32"

lemma sint_mod: "sint (w :: 32 word) mod 2 ^ 32 = uint w"
proof -
  have "take_bit 32 (sint w) = take_bit 32 (uint w)"
    by (simp add: sint_uint take_bit_signed_take_bit)
  also have "\<dots> = uint w"
    using uint_lt2p [of w] by (simp add: take_bit_int_eq_self_iff)
  finally show ?thesis by (simp add: take_bit_eq_mod)
qed

lemma unpack_le_bytes:
  assumes "bslice data (pos + 1) (pos + 1 + 4) = le_bytes 4 v" "0 \<le> v" "v < 2 ^ 32"
  shows "unpack_i32 data (pos + 1) mod 2 ^ 32 = v"
proof -
  have "le_int (le_bytes 4 v) = v" using assms(2,3) by (simp add: le_int_le_bytes)
  then have "unpack_i32 data (pos + 1) mod 2 ^ 32 = uint (word_of_int v :: 32 word)"
    unfolding unpack_i32_def assms(1) by (simp only: sint_mod)
  also have "\<dots> = v" using assms(2,3) by (simp add: uint_word_of_int)
  finally show ?thesis .
qed

lemma retarget_jump_target:
  assumes rj: "retarget_jump src rule sig repl m = Inr q" and site: "0 \<le> m + pr_patch_offset rule"
    and fin: "bslice fin (nat (m + pr_patch_offset rule)) (nat (m + pr_patch_offset rule) + 5) = mb_values q"
    and len: "nat (m + pr_patch_offset rule) + 5 \<le> length fin" and m: "0 \<le> m"
  defines "st \<equiv> nat (m + pr_patch_offset rule)" and "ex \<equiv> nat (m + pr_rel32_exit rule)"
  shows "fin ! st = 0xE9 \<and> src ! ex = 0xE9 \<and> jump_target fin st = jump_target src ex"
proof -
  from rj have ge: "m + pr_rel32_exit rule \<ge> m" "src ! ex = 0xE9"
    and q: "mb_values q = 0xE9 # le_bytes 4
      ((m + pr_rel32_exit rule + 5 + unpack_i32 src (nat (m + pr_rel32_exit rule + 1))
        - (m + pr_patch_offset rule + 5)) mod 0x100000000)"
    by (auto simp: retarget_jump_def Let_def ex_def split: if_splits)
  define d where "d = (m + pr_rel32_exit rule + 5 + unpack_i32 src (nat (m + pr_rel32_exit rule + 1))
        - (m + pr_patch_offset rule + 5)) mod 0x100000000"
  have fin': "bslice fin st (st + 5) = 0xE9 # le_bytes 4 d"
    using fin q by (simp add: st_def d_def)
  have "bslice fin st (st + 5) ! 0 = fin ! st"
    using nth_bslice [of st 0 "st + 5" fin] len by (simp add: st_def)
  with fin' have first: "fin ! st = 0xE9" by simp
  have "bslice fin (st + 1) (st + 1 + 4) = tl (bslice fin st (st + 5))"
    by (simp add: bslice_def drop_Suc tl_take tl_drop)
  then have "bslice fin (st + 1) (st + 1 + 4) = le_bytes 4 d" by (simp add: fin')
  then have u: "unpack_i32 fin (st + 1) mod 2 ^ 32 = d"
    by (rule unpack_le_bytes) (simp_all add: d_def)
  have st: "int st = m + pr_patch_offset rule" and ex: "int ex = m + pr_rel32_exit rule"
    using site m ge by (auto simp: st_def ex_def)
  have ex1: "nat (m + pr_rel32_exit rule + 1) = ex + 1" using m ge by (simp add: ex_def nat_add_distrib)
  have "jump_target fin st = (int st + 5 + d) mod 2 ^ 32"
    unfolding jump_target_def u [symmetric] by (simp add: mod_add_right_eq)
  also have "\<dots> = (int st + 5 + (int ex + 5 + unpack_i32 src (ex + 1) - (int st + 5))) mod 2 ^ 32"
    unfolding d_def ex1 st ex by (simp add: mod_add_right_eq)
  also have "\<dots> = jump_target src ex" by (simp add: jump_target_def algebra_simps)
  finally show ?thesis using first ge(2) by simp
qed


section \<open>The sample inputs of the witnesses\<close>

text \<open>
  \<open>sample_rule\<close> builds a rule for one synthetic artifact; the sample runs below use a
  replacement rule, a validation-only rule and a retargeted jump.
\<close>

definition sample_rule ::
  "string \<Rightarrow> string \<Rightarrow> int \<Rightarrow> string \<Rightarrow> string option \<Rightarrow> int \<Rightarrow> patch_rule" where
  "sample_rule name sig off ex repl exit =
     \<lparr>pr_artifact_id = ''synthetic'', pr_name = name, pr_signature_hex = sig,
      pr_patch_offset = off, pr_expected_hex = ex, pr_replacement_hex = repl,
      pr_description = ''synthetic test rule'', pr_rel32_exit = exit\<rparr>"

definition sample_rules :: "patch_rule list" where
  "sample_rules =
     [sample_rule ''first'' ''aa ?? bb'' 0 ''aa'' (Some ''cc'') 0,
      sample_rule ''check'' ''11 22'' 0 ''11'' None 0]"

definition sample_src :: bytes where "sample_src = [0, 0xAA, 5, 0xBB, 0x11, 0x22]"

definition sample_out :: bytes where "sample_out = [0, 0xCC, 5, 0xBB, 0x11, 0x22]"

definition sample_log :: "report list" where
  "sample_log = [ReportPatched ''first'' 1 [0xAA] [0xCC], ReportDescription ''synthetic test rule'',
                 ReportValidated ''check'' 4]"

lemma sample_run: "apply_rules sample_src sample_rules = Inr (sample_out, True, sample_log)"
  by code_simp

lemma sample_stable: "\<forall>r \<in> set sample_rules. validation_stable r"
  by code_simp

definition jump_rule :: patch_rule where
  "jump_rule = sample_rule ''jump'' ''c7 04 24 ?? ?? e9 ?? ?? ?? ??'' 0 ''c7 04 24 ?? ??''
     (Some ''e9 ?? ?? ?? ??'') 5"

definition jump_src :: bytes where
  "jump_src = [0x90, 0xC7, 4, 0x24, 1, 2, 0xE9, 0x10, 0, 0, 0]"

lemma jump_run: "\<exists>log. apply_rules jump_src [jump_rule] =
    Inr ([0x90, 0xE9, 0x15, 0, 0, 0, 0xE9, 0x10, 0, 0, 0], True, log)"
  by (rule exI [of _ "[ReportPatched ''jump'' 1 [0xC7, 4, 0x24, 1, 2] [0xE9, 0x15, 0, 0, 0], ReportDescription ''synthetic test rule'']"]) code_simp

definition clobber_rules :: "patch_rule list" where
  "clobber_rules =
     [sample_rule ''check'' ''aa ?? bb'' 1 ''01'' None 0,
      sample_rule ''write'' ''01 bb cc'' 0 ''01'' (Some ''02'') 0]"

definition sample_catalog_json :: "json option" where
  "sample_catalog_json = Some (JObj
     [(''catalog_version'', JInt 1),
      (''artifacts'', JArr [JObj [(''artifact_id'', JStr ''synthetic''),
         (''description'', JStr ''a test image''), (''handler'', JStr ''raw'')]]),
      (''patches'', JArr [JObj [(''artifact_id'', JStr ''synthetic''), (''name'', JStr ''first''),
         (''signature_hex'', JStr ''aa ?? bb''), (''patch_offset'', JInt 0),
         (''expected_hex'', JStr ''aa''), (''replacement_hex'', JStr ''cc''),
         (''description'', JStr ''synthetic test rule'')]])])"

definition sample_catalog :: catalog where
  "sample_catalog = \<lparr>cat_artifacts = [(''synthetic'', \<lparr>ar_artifact_id = ''synthetic'',
       ar_description = ''a test image'', ar_handler = ''raw''\<rparr>)],
     cat_patches = [sample_rule ''first'' ''aa ?? bb'' 0 ''aa'' (Some ''cc'') 0]\<rparr>"

lemma sample_catalog_load: "load_catalog sample_catalog_json = Inr sample_catalog"
  by code_simp

section \<open>The errors the engine can raise\<close>

definition resolve_errors :: "exn list" where
  "resolve_errors =
     [ValueError ''validation pattern matched (expected exactly one)'',
      ValueError ''validation bytes mismatch'',
      ValueError ''refusing ambiguous or unknown input'',
      ValueError ''expected instruction mismatch'',
      ValueError ''rel32 patch must be a five-byte e9 jump'',
      ValueError ''rel32 exit lies outside signature'',
      ValueError ''rel32 exit is not an e9 jump'']"

definition verify_errors :: "exn list" where
  "verify_errors =
     [AssertionError ''validation signature lost'',
      AssertionError ''original signature remains'',
      AssertionError ''patched signature not unique'']"

lemma patched_signature_ok:
  assumes "rule_patterns_ok r" "parse_masked_hex (pr_signature_hex r) = Inr sig"
    and "pr_replacement_hex r = Some h" "parse_masked_hex h = Inr repl"
  shows "\<exists>psig. patched_signature r sig repl = Inr psig"
  using assms by (auto simp: rule_patterns_ok_def patched_signature_def overlay_pattern_def)

lemma resolve_rule_errors:
  assumes ok: "rule_patterns_ok r" and err: "resolve_rule src r = Inl e"
  shows "e \<in> set resolve_errors"
proof -
  from ok obtain sig ex where p: "parse_masked_hex (pr_signature_hex r) = Inr sig"
    "parse_masked_hex (pr_expected_hex r) = Inr ex" "0 \<le> pr_patch_offset r"
    "pr_patch_offset r + int (mb_len ex) \<le> int (mb_len sig)"
    and rep: "\<forall>h. pr_replacement_hex r = Some h \<longrightarrow>
       (\<exists>q. parse_masked_hex h = Inr q \<and> mb_len q = mb_len ex)"
    unfolding rule_patterns_ok_def by blast
  show ?thesis
  proof (cases "pr_replacement_hex r")
    case None
    with err p have "resolve_validation src r sig ex = Inl e" by (simp add: resolve_rule_def)
    then show ?thesis
      by (auto simp: resolve_validation_def resolve_errors_def split: list.splits if_splits)
  next
    case (Some h)
    with rep obtain q where q: "parse_masked_hex h = Inr q" "mb_len q = mb_len ex" by blast
    with err p Some have err': "resolve_replacement src r sig ex q = Inl e"
      by (simp add: resolve_rule_def)
    from patched_signature_ok [OF ok p(1) Some q(1)] obtain psig
      where ps: "patched_signature r sig q = Inr psig" by blast
    have rj: "retarget_jump src r sig q m = Inl e \<Longrightarrow> e \<in> set resolve_errors" for m
      by (auto simp: retarget_jump_def Let_def resolve_errors_def split: if_splits)
    from err' ps q(2) show ?thesis
      by (auto simp: resolve_replacement_def bindE_Inl_iff resolve_errors_def
          split: list.splits if_splits dest!: rj)
  qed
qed

lemma check_overlaps_error:
  "check_overlaps ranges rrs = Inl e \<Longrightarrow> e = ValueError ''patch overlaps another patch''"
  by (induction ranges rrs rule: check_overlaps.induct)
     (auto simp: Let_def split: option.splits if_splits)

lemma verify_rule_errors:
  assumes ok: "rule_patterns_ok r" and err: "verify_rule fin r = Inl e"
  shows "e \<in> set verify_errors"
proof -
  from ok obtain sig where sig: "parse_masked_hex (pr_signature_hex r) = Inr sig"
    by (auto simp: rule_patterns_ok_def)
  show ?thesis
  proof (cases "pr_replacement_hex r")
    case None
    with err sig show ?thesis by (simp add: verify_rule_def verify_errors_def)
  next
    case (Some h)
    with ok obtain q where q: "parse_masked_hex h = Inr q" by (auto simp: rule_patterns_ok_def)
    from patched_signature_ok [OF ok sig Some q] obtain psig
      where "patched_signature r sig q = Inr psig" by blast
    with err sig Some q show ?thesis
      by (auto simp: verify_rule_def bindE_Inl_iff verify_errors_def)
  qed
qed

lemma apply_rules_errors:
  assumes one: "length (remdups (map pr_artifact_id rules)) \<le> 1"
    and ok: "\<forall>r \<in> set rules. rule_patterns_ok r" and err: "apply_rules src rules = Inl e"
  shows "e = ValueError ''patch overlaps another patch'' \<or> e \<in> set (resolve_errors @ verify_errors)"
proof -
  from one err consider
      (resolve) "mapE (resolve_rule src) rules = Inl e"
    | (overlap) rrs where "check_overlaps [] rrs = Inl e"
    | (writing) rrs where "mapE (resolve_rule src) rules = Inr rrs" "check_overlaps [] rrs = Inr ()"
        "write_resolved rrs src False [] = Inl e"
    | (verify) fin where "mapE (verify_rule fin) rules = Inl e"
    by (auto simp: apply_rules_def bindE_Inl_iff split: prod.splits)
  then show ?thesis
  proof cases
    case resolve
    then show ?thesis using mapE_Inl_in [OF resolve] ok resolve_rule_errors by auto
  next
    case overlap
    then show ?thesis using check_overlaps_error by blast
  next
    case writing
    note win = resolve_all_windows(1) [OF writing(1)]
    from write_resolved_spec [OF win, of False "[]"] check_overlaps_ok [OF writing(2) win] writing(3)
    show ?thesis by auto
  next
    case verify
    then show ?thesis using mapE_Inl_in [OF verify] ok verify_rule_errors by auto
  qed
qed

lemma remdups_same: "(\<And>x. x \<in> set xs \<Longrightarrow> x = a) \<Longrightarrow> length (remdups xs) \<le> 1"
  using card_mono [of "{a}" "set xs"] by (auto simp: length_remdups_card_conv)

lemma apply_artifact_errors:
  assumes "load_catalog file = Inr cat" "apply_artifact cat src aid = Inl e"
  shows "e \<in> {ValueError ''unknown artifact id'', ValueError ''artifact has no patches'',
     ValueError ''patch overlaps another patch''} \<union> set resolve_errors \<union> set verify_errors"
proof -
  have "wf_catalog cat" using assms(1) by (rule wf_catalog_loaded)
  then have wf: "\<forall>r \<in> set (cat_patches cat). rule_patterns_ok r"
    by (auto simp: wf_catalog_def wf_rule_def)
  from assms(2) consider (sel) "rules_for_artifact cat aid = Inl e"
    | (run) rules where "rules_for_artifact cat aid = Inr rules" "apply_rules src rules = Inl e"
    by (auto simp: apply_artifact_def bindE_Inl_iff)
  then show ?thesis
  proof cases
    case sel
    then show ?thesis by (auto simp: rules_for_artifact_def Let_def split: if_splits)
  next
    case run
    then have rules: "rules = filter (\<lambda>r. pr_artifact_id r = aid) (cat_patches cat)"
      by (auto simp: rules_for_artifact_def Let_def split: if_splits)
    have "length (remdups (map pr_artifact_id rules)) \<le> 1"
      by (rule remdups_same [of _ aid]) (auto simp: rules)
    moreover have "\<forall>r \<in> set rules. rule_patterns_ok r" using wf by (auto simp: rules)
    ultimately show ?thesis using apply_rules_errors [OF _ _ run(2)] by auto
  qed
qed

section \<open>The pattern search and the parsers\<close>

text \<open>
  C6. For every pattern the parser accepts, the anchored search returns, in
  increasing order, exactly the offsets at which every required byte of the pattern
  is found: overlapping matches included, none missed, none repeated.
\<close>

theorem find_masked_correct:
  assumes "parse_masked_hex text = Inr p"
  shows "sorted_wrt (<) (find_masked data p) \<and> set (find_masked data p) =
      {i. 0 \<le> i \<and> i + int (mb_len p) \<le> int (length data) \<and>
          (\<forall>k < mb_len p. mb_exact p ! k \<noteq> 0 \<longrightarrow> data ! (nat i + k) = mb_values p ! k)}"
proof -
  from assms have wf: "length (mb_exact p) = mb_len p"
    using parse_masked_hex_wf(1) by (auto simp: wf_masked_def)
  show ?thesis
    by (simp add: find_masked_all_matches [OF wf] sorted_all_matches set_all_matches matches_at_iff [OF wf])
qed

theorem find_masked_correct_witness:
  "parse_masked_hex ''aa ?? AA'' = Inr \<lparr>mb_values = [0xAA, 0, 0xAA], mb_exact = [1, 0, 1]\<rparr> \<and>
   find_masked [0xAA, 1, 0xAA, 0xAA, 2, 0xAA] \<lparr>mb_values = [0xAA, 0, 0xAA], mb_exact = [1, 0, 1]\<rparr> = [0, 3] \<and>
   sorted_wrt (<) (find_masked [0xAA, 1, 0xAA, 0xAA, 2, 0xAA] \<lparr>mb_values = [0xAA, 0, 0xAA], mb_exact = [1, 0, 1]\<rparr>)"
proof -
  have h: "parse_masked_hex ''aa ?? AA'' = Inr \<lparr>mb_values = [0xAA, 0, 0xAA], mb_exact = [1, 0, 1]\<rparr>"
    by code_simp
  moreover have "find_masked [0xAA, 1, 0xAA, 0xAA, 2, 0xAA]
      \<lparr>mb_values = [0xAA, 0, 0xAA], mb_exact = [1, 0, 1]\<rparr> = [0, 3]"
    by code_simp
  ultimately show ?thesis
    using find_masked_correct [OF h, of "[0xAA, 1, 0xAA, 0xAA, 2, 0xAA]"] by blast
qed

text \<open>
  The anchor the search scans for is a run of required bytes of the
  pattern, taken from its values, and no run of required bytes is longer.
\<close>

theorem longest_exact_anchor_longest:
  assumes "parse_masked_hex text = Inr p" "longest_exact_anchor p = (s, a)"
  shows "exact_run p s (s + length a) \<and> a = bslice (mb_values p) s (s + length a) \<and>
    (\<forall>i j. exact_run p i j \<longrightarrow> j - i \<le> length a)"
proof -
  from assms(1) have wf: "length (mb_exact p) = mb_len p"
    using parse_masked_hex_wf(1) by (auto simp: wf_masked_def)
  show ?thesis
    using longest_exact_anchor_ok [OF wf assms(2)] by (auto simp: anchor_ok_def)
qed

theorem longest_exact_anchor_witness:
  "longest_exact_anchor \<lparr>mb_values = [1, 0, 2, 3, 0], mb_exact = [1, 0, 1, 1, 0]\<rparr> = (2, [2, 3]) \<and>
   exact_run \<lparr>mb_values = [1, 0, 2, 3, 0], mb_exact = [1, 0, 1, 1, 0]\<rparr> 2 4"
proof -
  have p: "parse_masked_hex ''01 ?? 02 03 ??'' =
      Inr \<lparr>mb_values = [1, 0, 2, 3, 0], mb_exact = [1, 0, 1, 1, 0]\<rparr>" by code_simp
  have a: "longest_exact_anchor \<lparr>mb_values = [1, 0, 2, 3, 0], mb_exact = [1, 0, 1, 1, 0]\<rparr> = (2, [2, 3])"
    by code_simp
  from longest_exact_anchor_longest [OF p a] a show ?thesis by simp
qed

text \<open>
  Every pattern the catalog loader validates is one the engine's parser
  accepts, with the same nonzero number of byte tokens: the two routines cannot disagree on a
  loaded catalog.
\<close>

theorem catalog_patterns_parse:
  assumes "validate_masked_hex s = Inr n"
  shows "\<exists>p. parse_masked_hex s = Inr p \<and> int (mb_len p) = n \<and> 0 < n"
proof -
  obtain p where "parse_masked_hex s = Inr p" "wf_masked p" "int (mb_len p) = n"
    using validate_masked_hex_parses [OF assms] .
  then show ?thesis by (auto simp: wf_masked_def)
qed

theorem catalog_patterns_parse_witness:
  "validate_masked_hex ''b8 ?? FF'' = Inr 3 \<and>
   (\<exists>p. parse_masked_hex ''b8 ?? FF'' = Inr p \<and> int (mb_len p) = 3)"
proof -
  have h: "validate_masked_hex ''b8 ?? FF'' = Inr 3" by code_simp
  from catalog_patterns_parse [OF h] h show ?thesis by auto
qed

text \<open>
  The converse fails: \<open>int(token, 16)\<close> takes a sign, so the engine's parser accepts a
  two-character token that the catalog's regular expression refuses.
\<close>

theorem parser_accepts_signed_token:
  "parse_masked_hex ''+a'' = Inr \<lparr>mb_values = [10], mb_exact = [1]\<rparr> \<and>
   validate_masked_hex ''+a'' = Inl (ValueError ''catalog field has invalid byte token'')"
  by code_simp

section \<open>What a run of the engine guarantees\<close>

text \<open>
  C2. A byte of the output differs from the input only inside the patch window of one of
  the rules: a rule that writes, whose signature matched at exactly one offset of the input, and
  whose expected bytes stood in that window.
\<close>

theorem apply_rules_changes_only_expected:
  assumes "apply_rules src rules = Inr (fin, changed, log)" "j < length src" "fin ! j \<noteq> src ! j"
  shows "\<exists>r \<in> set rules. \<exists>sig ex m.
    parse_masked_hex (pr_signature_hex r) = Inr sig \<and> parse_masked_hex (pr_expected_hex r) = Inr ex \<and>
    pr_replacement_hex r \<noteq> None \<and>
    (\<forall>i. matches_at src i sig \<longleftrightarrow> i = m) \<and> matches_at src (m + pr_patch_offset r) ex \<and>
    m + pr_patch_offset r \<le> int j \<and> int j < m + pr_patch_offset r + int (mb_len ex)"
proof -
  from assms(1) obtain rrs where rrs: "mapE (resolve_rule src) rules = Inr rrs"
    "check_overlaps [] rrs = Inr ()" "write_resolved rrs src False [] = Inr (fin, changed, log)"
    by (rule apply_rules_Inr)
  from apply_rules_writes(4) [OF rrs assms(2)] assms(3)
  have "patched_byte rrs (src ! j) j \<noteq> src ! j" by simp
  then obtain rr where rr: "rr \<in> set rrs" "in_window rr j" using patched_byte_changed by blast
  then obtain s q where w: "rr_window rr = Some (s, q)" "s \<le> j" "j < s + mb_len q"
    by (auto simp: in_window_def)
  from mapE_member [OF rrs(1) rr(1)] obtain r where r: "r \<in> set rules" "resolve_rule src r = Inr rr"
    by blast
  from r(2) w(1) obtain sig ex where sig: "parse_masked_hex (pr_signature_hex r) = Inr sig"
    and ex: "parse_masked_hex (pr_expected_hex r) = Inr ex" "pr_replacement_hex r \<noteq> None"
    and hit: "find_masked src sig = [rr_match_offset rr]" and m: "matches_at src (int s) ex"
    and len: "mb_len q = mb_len ex" and s: "int s = rr_match_offset rr + pr_patch_offset r"
    by (rule resolve_rule_Patch) auto
  have uniq: "\<forall>i. matches_at src i sig \<longleftrightarrow> i = rr_match_offset rr"
    using masked.search_set [OF parse_masked_hex_wf(1) [OF sig], of src] hit by auto
  have "int s \<le> int j \<and> int j < int s + int (mb_len ex)" using w len by auto
  with r(1) sig ex m uniq show ?thesis unfolding s by blast
qed

theorem apply_rules_changes_only_expected_witness:
  "sample_out ! 1 \<noteq> sample_src ! 1 \<and>
   (\<exists>r \<in> set sample_rules. pr_replacement_hex r \<noteq> None)"
proof -
  have j: "1 < length sample_src" "sample_out ! 1 \<noteq> sample_src ! 1" by code_simp+
  from apply_rules_changes_only_expected [OF sample_run j] j(2) show ?thesis by blast
qed

text \<open>
  Every rule resolved as needing its patch has its whole replacement in the output:
  each required byte of the (possibly retargeted) replacement is there, and each position the
  replacement leaves open keeps the input's byte, whatever the other rules wrote.
\<close>

theorem apply_rules_writes_replacement:
  assumes "apply_rules src rules = Inr (fin, changed, log)" "r \<in> set rules"
    and "resolve_rule src r = Inr rr" "rr_window rr = Some (s, q)" "k < mb_len q"
  shows "fin ! (s + k) = (if mb_exact q ! k \<noteq> 0 then mb_values q ! k else src ! (s + k))"
proof -
  from assms(1) obtain rrs where rrs: "mapE (resolve_rule src) rules = Inr rrs"
    "check_overlaps [] rrs = Inr ()" "write_resolved rrs src False [] = Inr (fin, changed, log)"
    by (rule apply_rules_Inr)
  from rrs(1) assms(2,3) have rr: "rr \<in> set rrs"
    by (force simp: mapE_Inr_iff list_all2_conv_all_nth in_set_conv_nth)
  have "window_in (length src) rr" using resolve_all_windows(1) [OF rrs(1)] rr by blast
  with assms(4,5) have "s + k < length src"
    by (auto simp: window_in_def rr_window_def split: rule_state.splits option.splits)
  from apply_rules_writes(4) [OF rrs this]
    patched_byte_window [OF apply_rules_writes(1) [OF rrs] rr assms(4), of "s + k"] assms(5)
  show ?thesis by simp
qed

theorem apply_rules_writes_replacement_witness:
  "\<exists>rr q. resolve_rule sample_src (sample_rules ! 0) = Inr rr \<and> rr_window rr = Some (1, q) \<and>
     mb_exact q ! 0 \<noteq> 0 \<and> sample_out ! (1 + 0) = mb_values q ! 0"
proof -
  let ?r = "sample_rules ! 0"
  have r: "?r \<in> set sample_rules" by (simp add: sample_rules_def)
  have w: "map_sum (\<lambda>_. ()) rr_window (resolve_rule sample_src ?r) =
      Inr (Some (1, \<lparr>mb_values = [0xCC], mb_exact = [1]\<rparr>))" by code_simp
  then obtain rr where rr: "resolve_rule sample_src ?r = Inr rr"
    "rr_window rr = Some (1, \<lparr>mb_values = [0xCC], mb_exact = [1]\<rparr>)"
    by (cases "resolve_rule sample_src ?r") auto
  from apply_rules_writes_replacement [OF sample_run r rr, of 0] rr show ?thesis
    by (auto simp: mb_len_def)
qed

lemma apply_rules_post:
  assumes "apply_rules src rules = Inr (fin, changed, log)" "r \<in> set rules"
    and "parse_masked_hex (pr_signature_hex r) = Inr sig"
  shows "case pr_replacement_hex r of
      None \<Rightarrow> \<exists>!i. matches_at fin i sig
    | Some h \<Rightarrow> (\<forall>i. \<not> matches_at fin i sig) \<and>
        (\<exists>repl psig. parse_masked_hex h = Inr repl \<and> patched_signature r sig repl = Inr psig \<and>
           (\<exists>!i. matches_at fin i psig))"
proof -
  from assms(1,2) have ver: "verify_rule fin r = Inr ()" by (auto elim: apply_rules_Inr)
  note wf = parse_masked_hex_wf(1) [OF assms(3)]
  show ?thesis
  proof (cases "pr_replacement_hex r")
    case None
    with ver assms(3) have "length (find_masked fin sig) = 1" by (simp add: verify_rule_def)
    with None show ?thesis using masked.unique_hit_iff [OF wf, of fin] by simp
  next
    case (Some h)
    with ver assms(3) obtain repl where repl: "parse_masked_hex h = Inr repl"
      by (auto simp: verify_rule_def bindE_Inr_iff)
    from ver Some assms(3) repl obtain psig where "patched_signature r sig repl = Inr psig"
      "wf_masked psig" "find_masked fin sig = []" "length (find_masked fin psig) = 1"
      by (rule verify_rule_replacement)
    with Some repl masked.no_hit_iff [OF wf, of fin] masked.unique_hit_iff [of psig fin]
    show ?thesis by auto
  qed
qed

text \<open>
  C3. After a run that returns, every validation rule's signature matches the output
  exactly once; every writing rule's signature matches nowhere, and its patched form matches
  exactly once.
\<close>

theorem apply_rules_postcondition:
  assumes "apply_rules src rules = Inr (fin, changed, log)" "r \<in> set rules"
    and "parse_masked_hex (pr_signature_hex r) = Inr sig"
  shows "case pr_replacement_hex r of
      None \<Rightarrow> \<exists>!i. matches_at fin i sig
    | Some h \<Rightarrow> (\<forall>i. \<not> matches_at fin i sig) \<and>
        (\<exists>repl psig. parse_masked_hex h = Inr repl \<and> patched_signature r sig repl = Inr psig \<and>
           (\<exists>!i. matches_at fin i psig))"
  using assms by (rule apply_rules_post)

theorem apply_rules_postcondition_witness:
  "\<exists>sig. parse_masked_hex ''aa ?? bb'' = Inr sig \<and> (\<forall>i. \<not> matches_at sample_out i sig) \<and>
     sample_rules ! 0 \<in> set sample_rules"
proof -
  let ?r = "sample_rules ! 0"
  have r: "?r \<in> set sample_rules" by (simp add: sample_rules_def)
  have s: "pr_signature_hex ?r = ''aa ?? bb''" "pr_replacement_hex ?r = Some ''cc''"
    by (simp_all add: sample_rules_def sample_rule_def)
  have p: "parse_masked_hex (pr_signature_hex ?r) =
      Inr \<lparr>mb_values = [0xAA, 0, 0xBB], mb_exact = [1, 0, 1]\<rparr>" unfolding s by code_simp
  from apply_rules_postcondition [OF sample_run r p] p s r show ?thesis by auto
qed

lemma apply_rules_again:
  assumes "apply_rules src rules = Inr (fin, changed, log)" "\<forall>r \<in> set rules. validation_stable r"
  shows "\<exists>log'. apply_rules fin rules = Inr (fin, False, log')"
proof -
  from assms(1) obtain rrs where one: "length (remdups (map pr_artifact_id rules)) \<le> 1"
    and rrs: "mapE (resolve_rule src) rules = Inr rrs"
    and ver: "\<forall>r \<in> set rules. verify_rule fin r = Inr ()"
    by (rule apply_rules_Inr)
  from mapE_resolve_again [OF rrs ver assms(2)] obtain rrs'
    where rrs': "mapE (resolve_rule fin) rules = Inr rrs'" and nw: "\<forall>rr \<in> set rrs'. rr_window rr = None"
    by blast
  note win = resolve_all_windows(1) [OF rrs']
  have co: "check_overlaps [] rrs' = Inr ()" by (rule check_overlaps_no_window [OF nw win])
  from write_resolved_spec [OF win, of False "[]"] check_overlaps_ok [OF co win]
  obtain out log' where out: "write_resolved rrs' fin False [] = Inr (out, out \<noteq> fin, log')"
    "length out = length fin" "\<forall>j < length fin. out ! j = patched_byte rrs' (fin ! j) j" by auto
  then have "out = fin" using patched_byte_no_window [OF nw] by (simp add: list_eq_iff_nth_eq)
  moreover have "\<exists>us. mapE (verify_rule fin) rules = Inr us"
    using ver mapE_total [of rules "verify_rule fin" "\<lambda>_. ()"] by auto
  ultimately show ?thesis
    using one rrs' co out(1) by (auto simp: apply_rules_def)
qed

text \<open>
  Running the rules again on their own output succeeds, reports no change and returns
  the same bytes, when the bytes each validation-only rule expects are part of its signature.
\<close>

theorem apply_rules_idempotent:
  assumes "apply_rules src rules = Inr (fin, changed, log)" "\<forall>r \<in> set rules. validation_stable r"
  shows "\<exists>log'. apply_rules fin rules = Inr (fin, False, log')"
  using assms by (rule apply_rules_again)

theorem apply_rules_idempotent_witness:
  "\<exists>log. apply_rules sample_out sample_rules = Inr (sample_out, False, log)"
  using apply_rules_idempotent [OF sample_run sample_stable] .

text \<open>
  Without that condition it fails: the closing verification checks a validation rule's signature but
  not its expected bytes, so a later write may change a byte that the signature leaves open, and the
  next run refuses its own output.
\<close>

theorem validation_bytes_can_be_lost:
  "\<exists>fin log. apply_rules [0xAA, 1, 0xBB, 0xCC] clobber_rules = Inr (fin, True, log) \<and>
     apply_rules fin clobber_rules = Inl (ValueError ''validation bytes mismatch'')"
proof -
  have "apply_rules [0xAA, 1, 0xBB, 0xCC] clobber_rules = Inr ([0xAA, 2, 0xBB, 0xCC], True,
     [ReportValidated ''check'' 0, ReportPatched ''write'' 1 [1] [2], ReportDescription ''synthetic test rule''])"
    by code_simp
  moreover have "apply_rules [0xAA, 2, 0xBB, 0xCC] clobber_rules = Inl (ValueError ''validation bytes mismatch'')"
    by code_simp
  ultimately show ?thesis by blast
qed

text \<open>
  C7. A patched near jump goes where the jump it replaces went: both sites hold the opcode
  E9 and the two displacements, read as signed 32-bit words from their own sites, give the same
  address modulo \<open>2^32\<close>.
\<close>

theorem retargeted_jump_keeps_target:
  assumes "apply_rules src rules = Inr (fin, changed, log)" "r \<in> set rules"
    and "pr_rel32_exit r \<noteq> 0" "resolve_rule src r = Inr rr" "rr_state rr = Patch"
  shows "fin ! nat (rr_site rr) = 0xE9 \<and>
    src ! nat (rr_match_offset rr + pr_rel32_exit r) = 0xE9 \<and>
    jump_target fin (nat (rr_site rr)) = jump_target src (nat (rr_match_offset rr + pr_rel32_exit r))"
proof -
  from assms(1) obtain rrs where rrs: "mapE (resolve_rule src) rules = Inr rrs"
    "check_overlaps [] rrs = Inr ()" "write_resolved rrs src False [] = Inr (fin, changed, log)"
    by (rule apply_rules_Inr)
  note fin = apply_rules_writes [OF rrs]
  from rrs(1) assms(2,4) have rr: "rr \<in> set rrs"
    by (force simp: mapE_Inr_iff list_all2_conv_all_nth in_set_conv_nth)
  have win: "window_in (length src) rr" using resolve_all_windows(1) [OF rrs(1)] rr by blast
  with assms(5) obtain q where q: "rr_window rr = Some (nat (rr_site rr), q)"
    "nat (rr_site rr) + mb_len q \<le> length src" "length (mb_exact q) = mb_len q"
    by (auto simp: window_in_def rr_window_def)
  from assms(4) q(1) obtain sig repl where rj: "retarget_jump src r sig repl (rr_match_offset rr) = Inr q"
    and s: "int (nat (rr_site rr)) = rr_match_offset rr + pr_patch_offset r"
    and hit: "find_masked src sig = [rr_match_offset rr]" and sig: "parse_masked_hex (pr_signature_hex r) = Inr sig"
    by (rule resolve_rule_Patch) (use assms(3) in auto)
  from masked.search_set [OF parse_masked_hex_wf(1) [OF sig], of src] hit
  have m: "0 \<le> rr_match_offset rr" using matches_at_bounds by auto
  have five: "mb_len q = 5" using retarget_jump_len [OF rj] by simp
  have ex: "mb_exact q ! k \<noteq> 0" if "k < 5" for k
    using rj that by (auto simp: retarget_jump_def Let_def split: if_splits)
  have "bslice fin (nat (rr_site rr)) (nat (rr_site rr) + 5) = mb_values q"
  proof (rule nth_equalityI)
    show "length (bslice fin (nat (rr_site rr)) (nat (rr_site rr) + 5)) = length (mb_values q)"
      using five q(2) fin(2) by (simp add: mb_len_def)
    fix k assume "k < length (bslice fin (nat (rr_site rr)) (nat (rr_site rr) + 5))"
    then have k: "k < 5" by simp
    then have j: "nat (rr_site rr) + k < length src" using q(2) five by simp
    have "fin ! (nat (rr_site rr) + k) = mb_values q ! k"
      using fin(4) [OF j] patched_byte_window [OF fin(1) rr q(1), of "nat (rr_site rr) + k"] k five ex
      by simp
    then show "bslice fin (nat (rr_site rr)) (nat (rr_site rr) + 5) ! k = mb_values q ! k"
      using k q(2) five fin(2) by (simp add: nth_bslice)
  qed
  moreover have "nat (rr_site rr) = nat (rr_match_offset rr + pr_patch_offset r)" by (metis s nat_int)
  ultimately show ?thesis
    using retarget_jump_target [OF rj _ _ _ m, of fin] s q(2) five fin(2) by simp
qed

theorem retargeted_jump_witness:
  "\<exists>fin log rr. apply_rules jump_src [jump_rule] = Inr (fin, True, log) \<and>
     resolve_rule jump_src jump_rule = Inr rr \<and>
     jump_target fin (nat (rr_site rr)) = jump_target jump_src (nat (rr_match_offset rr + 5)) \<and>
     jump_target jump_src 6 = 27"
proof -
  obtain log where run: "apply_rules jump_src [jump_rule] =
    Inr ([0x90, 0xE9, 0x15, 0, 0, 0, 0xE9, 0x10, 0, 0, 0], True, log)" using jump_run by blast
  then obtain rr where rr: "resolve_rule jump_src jump_rule = Inr rr"
    by (auto simp: apply_rules_def bindE_Inr_iff)
  have st: "map_sum (\<lambda>_. ()) rr_state (resolve_rule jump_src jump_rule) = Inr Patch" by code_simp
  have exit: "pr_rel32_exit jump_rule = 5" by code_simp
  have "rr_state rr = Patch" using st rr by simp
  from retargeted_jump_keeps_target [OF run _ _ rr this] exit
  have "jump_target [0x90, 0xE9, 0x15, 0, 0, 0, 0xE9, 0x10, 0, 0, 0] (nat (rr_site rr)) =
      jump_target jump_src (nat (rr_match_offset rr + 5))" by simp
  moreover have "jump_target jump_src 6 = 27" by code_simp
  ultimately show ?thesis using run rr by blast
qed

text \<open>
  The engine never changes the size of an artifact, and its changed flag is true
  exactly when some byte differs.
\<close>

theorem apply_rules_length_changed:
  assumes "apply_rules src rules = Inr (fin, changed, log)"
  shows "length fin = length src \<and> (changed \<longleftrightarrow> fin \<noteq> src)"
proof -
  from assms obtain rrs where "mapE (resolve_rule src) rules = Inr rrs"
    "check_overlaps [] rrs = Inr ()" "write_resolved rrs src False [] = Inr (fin, changed, log)"
    by (rule apply_rules_Inr)
  from apply_rules_writes [OF this] show ?thesis by simp
qed

theorem apply_rules_length_changed_witness:
  "apply_rules sample_src sample_rules = Inr (sample_out, True, sample_log) \<and>
   length sample_out = length sample_src \<and> sample_out \<noteq> sample_src"
  using apply_rules_length_changed [OF sample_run] sample_run by simp

section \<open>The catalog loader\<close>
text \<open>
  C34. A catalog the loader returns has at least one artifact and one patch, distinct artifact ids and
  distinct patch names, identifiers in the documented syntax, only supported handlers, every patch
  bound to a declared artifact, and three parseable patterns per patch whose write window lies inside
  the signature and whose replacement has the expected length.
\<close>

theorem load_catalog_invariant:
  assumes "load_catalog file = Inr c"
  shows "wf_catalog c"
  using assms by (rule wf_catalog_loaded)

theorem load_catalog_invariant_witness:
  "load_catalog sample_catalog_json = Inr sample_catalog \<and> wf_catalog sample_catalog"
  using load_catalog_invariant [OF sample_catalog_load] sample_catalog_load by blast

end
