(* ===== verification/PatchSpec.thy ===== *)
theory PatchSpec
imports PatchProperties "HOL-Library.Multiset"
begin

text \<open>
  The declarative specification of a patch run, without loops or order: which rules must resolve, that
  their windows are apart, and which byte stands where.  \<open>apply_rules\<close> succeeds exactly when the
  specification can be met, with the one result it allows, so the order of the rules cannot matter.
\<close>

section \<open>The specification\<close>

definition patch_spec :: "bytes \<Rightarrow> patch_rule set \<Rightarrow> bytes \<Rightarrow> bool" where
  "patch_spec src rules fin \<longleftrightarrow>
     length fin = length src \<and>
     (\<forall>rule \<in> rules. \<forall>rr s q k. resolve_rule src rule = Inr rr \<longrightarrow> rr_window rr = Some (s, q) \<longrightarrow> k < mb_len q \<longrightarrow>
        fin ! (s + k) = (if mb_exact q ! k \<noteq> 0 then mb_values q ! k else src ! (s + k))) \<and>
     (\<forall>j < length src. (\<forall>rule \<in> rules. \<forall>rr. resolve_rule src rule = Inr rr \<longrightarrow> \<not> in_window rr j) \<longrightarrow>
        fin ! j = src ! j)"

text \<open>Two rules whose windows do not meet; a rule that does not write meets none.\<close>

definition rules_apart :: "bytes \<Rightarrow> patch_rule \<Rightarrow> patch_rule \<Rightarrow> bool" where
  "rules_apart src a b \<longleftrightarrow>
     (\<forall>ra rb. resolve_rule src a = Inr ra \<longrightarrow> resolve_rule src b = Inr rb \<longrightarrow> win_disjoint ra rb)"

definition patchable :: "bytes \<Rightarrow> patch_rule list \<Rightarrow> bool" where
  "patchable src rules \<longleftrightarrow>
     card (pr_artifact_id ` set rules) \<le> 1 \<and>
     (\<forall>rule \<in> set rules. \<exists>rr. resolve_rule src rule = Inr rr) \<and> sorted_wrt (rules_apart src) rules"

section \<open>The overlap check is complete\<close>

lemma win_disjoint_sym: "win_disjoint a b \<longleftrightarrow> win_disjoint b a"
  by (auto simp: win_disjoint_def split: option.splits)

lemma check_overlaps_complete:
  assumes "\<forall>rr \<in> set rrs. window_in n rr" "sorted_wrt win_disjoint rrs"
    and "\<forall>rr \<in> set rrs. \<forall>s q. rr_window rr = Some (s, q) \<longrightarrow>
       (\<forall>(a, b) \<in> set ranges. int (s + mb_len q) \<le> a \<or> b \<le> int s)"
  shows "check_overlaps ranges rrs = Inr ()"
  using assms
proof (induction ranges rrs rule: check_overlaps.induct)
  case (2 ranges rr rrs)
  have win: "window_in n rr" using "2.prems"(1) by simp
  show ?case
  proof (cases "rr_state rr" rule: rule_state_cases)
    case Validated
    with win have "rr_replacement rr = None" by (auto simp: window_in_def)
    with "2.IH"(1) "2.prems" show ?thesis by simp
  next
    case Already
    with win obtain q where q: "rr_replacement rr = Some q" by (auto simp: window_in_def)
    with "2.IH"(2) [OF q] Already "2.prems" show ?thesis by simp
  next
    case Patch
    with win obtain q where q: "rr_replacement rr = Some q" "0 \<le> rr_site rr"
      by (auto simp: window_in_def)
    let ?start = "rr_site rr" and ?stop = "rr_site rr + int (mb_len q)"
    have w: "rr_window rr = Some (nat ?start, q)" and st: "int (nat ?start) = ?start"
      using Patch q by (auto simp: rr_window_def)
    have free: "\<not> (\<exists>(a, b) \<in> set ranges. ?start < b \<and> a < ?stop)"
    proof
      assume "\<exists>(a, b) \<in> set ranges. ?start < b \<and> a < ?stop"
      then obtain a b where ab: "(a, b) \<in> set ranges" "?start < b" "a < ?stop" by blast
      with "2.prems"(3) w have "int (nat ?start + mb_len q) \<le> a \<or> b \<le> int (nat ?start)" by fastforce
      with ab st show False by simp
    qed
    have "int (s + mb_len q') \<le> ?start \<or> ?stop \<le> int s"
      if "r \<in> set rrs" "rr_window r = Some (s, q')" for r s q'
    proof -
      have "win_disjoint rr r" using "2.prems"(2) that(1) by simp
      with w that(2) have "nat ?start + mb_len q \<le> s \<or> s + mb_len q' \<le> nat ?start"
        by (simp add: win_disjoint_def)
      with st show ?thesis by linarith
    qed
    then have "\<forall>r \<in> set rrs. \<forall>s q'. rr_window r = Some (s, q') \<longrightarrow>
        (\<forall>(a, b) \<in> set (ranges @ [(?start, ?stop)]). int (s + mb_len q') \<le> a \<or> b \<le> int s)"
      using "2.prems"(3) by auto
    then have "check_overlaps (ranges @ [(?start, ?stop)]) rrs = Inr ()"
      using "2.IH"(3) [OF q(1) _ refl refl free] Patch "2.prems"(1,2) by simp
    with free Patch q(1) show ?thesis by (simp add: Let_def)
  qed
qed simp

section \<open>The engine meets the specification\<close>

lemma resolve_all_iff:
  "mapE (resolve_rule src) rules = Inr rrs \<longleftrightarrow>
     (\<forall>rule \<in> set rules. \<exists>rr. resolve_rule src rule = Inr rr) \<and> rrs = map (\<lambda>r. projr (resolve_rule src r)) rules"
proof (induction rules arbitrary: rrs)
  case (Cons rule rules)
  show ?case
  proof (cases "resolve_rule src rule")
    case (Inr rr)
    then show ?thesis using Cons by (auto simp: bindE_Inr_iff)
  qed auto
qed auto

lemma resolved_apart:
  assumes "\<forall>rule \<in> set rules. \<exists>rr. resolve_rule src rule = Inr rr"
  shows "sorted_wrt (rules_apart src) rules \<longleftrightarrow>
    sorted_wrt win_disjoint (map (\<lambda>r. projr (resolve_rule src r)) rules)"
proof -
  have same: "rules_apart src a b \<longleftrightarrow> win_disjoint (projr (resolve_rule src a)) (projr (resolve_rule src b))"
    if "a \<in> set rules" "b \<in> set rules" for a b
  proof -
    from assms that obtain ra rb where "resolve_rule src a = Inr ra" "resolve_rule src b = Inr rb" by blast
    then show ?thesis by (simp add: rules_apart_def)
  qed
  show ?thesis unfolding sorted_wrt_map
    by (rule iffI; erule sorted_wrt_mono_rel [rotated]; simp only: same)
qed

lemma patch_spec_unique: "patch_spec src rules fin \<Longrightarrow> patch_spec src rules fin' \<Longrightarrow> fin' = fin"
proof (rule nth_equalityI)
  assume fin: "patch_spec src rules fin" and fin': "patch_spec src rules fin'"
  then show "length fin' = length fin" by (simp add: patch_spec_def)
  fix j assume "j < length fin'"
  then have j: "j < length src" using fin' by (simp add: patch_spec_def)
  show "fin' ! j = fin ! j"
  proof (cases "\<exists>rule \<in> rules. \<exists>rr. resolve_rule src rule = Inr rr \<and> in_window rr j")
    case True
    then obtain rule rr s q where r: "rule \<in> rules" "resolve_rule src rule = Inr rr"
      "rr_window rr = Some (s, q)" "s \<le> j" "j < s + mb_len q"
      by (auto simp: in_window_def)
    then have k: "j - s < mb_len q" "s + (j - s) = j" by simp_all
    have "f ! j = (if mb_exact q ! (j - s) \<noteq> 0 then mb_values q ! (j - s) else src ! j)"
      if f: "patch_spec src rules f" for f
    proof -
      have "f ! (s + (j - s)) = (if mb_exact q ! (j - s) \<noteq> 0 then mb_values q ! (j - s) else src ! (s + (j - s)))"
        using f r(1-3) k(1) unfolding patch_spec_def by blast
      then show ?thesis unfolding k(2) .
    qed
    with fin fin' show ?thesis by simp
  next
    case False
    then have "f ! j = src ! j" if "patch_spec src rules f" for f
      using that j unfolding patch_spec_def by blast
    with fin fin' show ?thesis by simp
  qed
qed

lemma written_meets_spec:
  assumes res: "mapE (resolve_rule src) rules = Inr rrs" and dis: "sorted_wrt win_disjoint rrs"
    and len: "length fin = length src" and fin: "\<And>j. j < length src \<Longrightarrow> fin ! j = patched_byte rrs (src ! j) j"
  shows "patch_spec src (set rules) fin"
proof -
  have mem: "rr \<in> set rrs" if "rule \<in> set rules" "resolve_rule src rule = Inr rr" for rule rr
    using that res unfolding resolve_all_iff by force
  have "fin ! (s + k) = (if mb_exact q ! k \<noteq> 0 then mb_values q ! k else src ! (s + k))"
    if r: "rule \<in> set rules" "resolve_rule src rule = Inr rr" "rr_window rr = Some (s, q)" "k < mb_len q"
    for rule rr s q k
  proof -
    note m = mem [OF r(1,2)]
    have "window_in (length src) rr" using resolve_all_windows(1) [OF res] m by blast
    with r(3,4) have "s + k < length src"
      by (auto simp: window_in_def rr_window_def split: rule_state.splits option.splits)
    then show ?thesis using patched_byte_window [OF dis m r(3), of "s + k"] r(4) fin by simp
  qed
  moreover have "fin ! j = src ! j"
    if "j < length src" "\<forall>rule \<in> set rules. \<forall>rr. resolve_rule src rule = Inr rr \<longrightarrow> \<not> in_window rr j" for j
  proof -
    have "\<forall>rr \<in> set rrs. \<not> in_window rr j" using mapE_member [OF res] that(2) by blast
    then show ?thesis using fin [OF that(1)] patched_byte_outside by simp
  qed
  ultimately show ?thesis using len by (auto simp: patch_spec_def)
qed

lemma apply_rules_spec:
  "(\<exists>log. apply_rules src rules = Inr (fin, changed, log)) \<longleftrightarrow>
     patchable src rules \<and> patch_spec src (set rules) fin \<and>
     (\<forall>rule \<in> set rules. verify_rule fin rule = Inr ()) \<and> (changed \<longleftrightarrow> fin \<noteq> src)"
  (is "?run \<longleftrightarrow> ?spec")
proof
  assume ?run
  then obtain log where run: "apply_rules src rules = Inr (fin, changed, log)" by blast
  then obtain rrs where one: "length (remdups (map pr_artifact_id rules)) \<le> 1"
    and r: "mapE (resolve_rule src) rules = Inr rrs" "check_overlaps [] rrs = Inr ()"
      "write_resolved rrs src False [] = Inr (fin, changed, log)"
    and ver: "\<forall>r \<in> set rules. verify_rule fin r = Inr ()" by (rule apply_rules_Inr)
  note w = apply_rules_writes [OF r]
  from one have "card (pr_artifact_id ` set rules) \<le> 1" by (simp add: length_remdups_card_conv)
  with r(1) w(1) resolved_apart [of rules src] have "patchable src rules"
    unfolding patchable_def resolve_all_iff by blast
  with w ver written_meets_spec [OF r(1) w(1,2)] show ?spec by blast
next
  assume spec: ?spec
  let ?rrs = "map (\<lambda>r. projr (resolve_rule src r)) rules"
  have r: "mapE (resolve_rule src) rules = Inr ?rrs"
    using spec unfolding patchable_def resolve_all_iff by blast
  have dis: "sorted_wrt win_disjoint ?rrs"
    using spec resolved_apart [of rules src] unfolding patchable_def by blast
  note win = resolve_all_windows(1) [OF r]
  have chk: "check_overlaps [] ?rrs = Inr ()"
    by (rule check_overlaps_complete [OF win dis]) simp
  from write_resolved_spec [OF win dis, of False "[]"] obtain out log where
    out: "write_resolved ?rrs src False [] = Inr (out, out \<noteq> src, log)" "length out = length src"
      "\<forall>j < length src. out ! j = patched_byte ?rrs (src ! j) j" by auto
  have "patch_spec src (set rules) out"
    by (rule written_meets_spec [OF r dis out(2)]) (use out(3) in blast)
  with spec patch_spec_unique have fin: "out = fin" by blast
  have "mapE (verify_rule fin) rules = Inr (map (\<lambda>_. ()) rules)"
    by (rule mapE_total) (use spec in blast)
  moreover have "\<not> length (remdups (map pr_artifact_id rules)) > 1"
    using spec unfolding patchable_def by (simp add: length_remdups_card_conv)
  moreover have "changed \<longleftrightarrow> out \<noteq> src" using spec fin by blast
  ultimately show ?run
    using r chk out(1) unfolding apply_rules_def fin by simp
qed

text \<open>Being apart is symmetric, so a list of rules stays apart in any order.\<close>

lemma sorted_wrt_middle:
  assumes "\<And>a b. R a b \<longleftrightarrow> R b a"
  shows "sorted_wrt R (xs @ x # ys) \<longleftrightarrow> sorted_wrt R (x # xs @ ys)"
  using assms by (auto simp: sorted_wrt_append)

lemma sorted_wrt_mset:
  assumes sym: "\<And>a b. R a b \<longleftrightarrow> R b a"
  shows "mset xs = mset ys \<Longrightarrow> sorted_wrt R xs \<Longrightarrow> sorted_wrt R ys"
proof (induction xs arbitrary: ys)
  case (Cons x xs)
  from Cons.prems(1) have "x \<in> set ys" by (metis list.set_intros(1) mset_eq_setD)
  then obtain as bs where ys: "ys = as @ x # bs" by (meson split_list)
  with Cons.prems(1) have m: "mset xs = mset (as @ bs)" by simp
  with Cons have "sorted_wrt R (x # as @ bs)" using mset_eq_setD [OF m] by simp
  then show ?case unfolding ys sorted_wrt_middle [OF sym] .
qed simp

lemma patchable_mset: "mset rules' = mset rules \<Longrightarrow> patchable src rules' \<longleftrightarrow> patchable src rules"
proof -
  have sym: "rules_apart src a b \<longleftrightarrow> rules_apart src b a" for a b
    unfolding rules_apart_def using win_disjoint_sym by blast
  assume m: "mset rules' = mset rules"
  then show ?thesis
    unfolding patchable_def mset_eq_setD [OF m]
    using sorted_wrt_mset [of "rules_apart src", OF sym m] sorted_wrt_mset [of "rules_apart src", OF sym m [symmetric]]
    by blast
qed

section \<open>Properties\<close>

text \<open>
  C1. The engine implements its declarative specification, completely: it returns a file exactly when all
  rules are for one artifact, every rule resolves against the input, no two windows meet, and the one file
  that has each replacement in its window and the input everywhere else passes the closing check; that
  file is the result, and the changed flag says whether it differs from the input.
\<close>

theorem apply_rules_refines_spec:
  "(\<exists>log. apply_rules src rules = Inr (fin, changed, log)) \<longleftrightarrow>
     patchable src rules \<and> patch_spec src (set rules) fin \<and>
     (\<forall>rule \<in> set rules. verify_rule fin rule = Inr ()) \<and> (changed \<longleftrightarrow> fin \<noteq> src)"
  by (rule apply_rules_spec)

theorem apply_rules_refines_spec_witness:
  "patchable sample_src sample_rules \<and> patch_spec sample_src (set sample_rules) sample_out \<and> sample_out \<noteq> sample_src"
  using apply_rules_refines_spec [of sample_src sample_rules sample_out True] sample_run by blast

text \<open>
  C8. The order of the rules is irrelevant: for any reordering the run succeeds or fails alike, and when it
  succeeds the patched file and the changed flag are the same.
\<close>

theorem apply_rules_order_irrelevant:
  assumes "mset rules' = mset rules"
  shows "(\<exists>log. apply_rules src rules' = Inr (fin, changed, log)) \<longleftrightarrow>
    (\<exists>log. apply_rules src rules = Inr (fin, changed, log))"
  unfolding apply_rules_spec patchable_mset [OF assms] mset_eq_setD [OF assms] ..

theorem apply_rules_order_irrelevant_witness:
  "rev sample_rules \<noteq> sample_rules \<and> (\<exists>log. apply_rules sample_src (rev sample_rules) = Inr (sample_out, True, log))"
proof -
  have "rev sample_rules \<noteq> sample_rules" by (simp add: sample_rules_def sample_rule_def)
  then show ?thesis
    using apply_rules_order_irrelevant [of "rev sample_rules" sample_rules sample_src sample_out True] sample_run
    by auto
qed

end
