(* ===== verification/FileStore.thy ===== *)
theory FileStore
imports Prelude
begin

text \<open>
  The part of a file system the tools rely on when they publish a file atomically: a map from
  paths to contents, with writes to a temporary sibling, \<open>os.unlink\<close> and
  \<open>os.replace\<close>.  Paths stand for resolved names: symbolic and hard links, directories
  and permissions are not represented.  The locale \<open>atomic_store\<close> is the contract a
  write-then-rename client needs.
\<close>

type_synonym path = string
type_synonym store = "path \<Rightarrow> bytes option"

definition fs_put :: "path \<Rightarrow> bytes \<Rightarrow> store \<Rightarrow> store" where
  "fs_put p b s = s(p := Some b)"

definition fs_unlink :: "path \<Rightarrow> store \<Rightarrow> store" where
  "fs_unlink p s = s(p := None)"

definition fs_replace :: "path \<Rightarrow> path \<Rightarrow> store \<Rightarrow> store" where
  "fs_replace src dst s = (if src = dst then s else (s(dst := s src))(src := None))"

text \<open>Appending to an open file, as a sequence of \<open>write\<close> calls does.\<close>

definition fs_append :: "path \<Rightarrow> bytes \<Rightarrow> store \<Rightarrow> store" where
  "fs_append p b s = fs_put p ((case s p of None \<Rightarrow> [] | Some old \<Rightarrow> old) @ b) s"

locale atomic_store =
  fixes content :: "'s \<Rightarrow> 'p \<Rightarrow> bytes option"
    and put :: "'p \<Rightarrow> bytes \<Rightarrow> 's \<Rightarrow> 's"
    and unlink :: "'p \<Rightarrow> 's \<Rightarrow> 's"
    and rename :: "'p \<Rightarrow> 'p \<Rightarrow> 's \<Rightarrow> 's"
  assumes content_put: "content (put p b s) q = (if q = p then Some b else content s q)"
    and content_unlink: "content (unlink p s) q = (if q = p then None else content s q)"
    and content_rename: "p \<noteq> d \<Longrightarrow>
      content (rename p d s) q = (if q = d then content s p else if q = p then None else content s q)"
begin

lemma staged_elsewhere: "q \<noteq> t \<Longrightarrow> content (put t b s) q = content s q"
  by (simp add: content_put)

lemma abandon:
  "content s t = None \<Longrightarrow> content (unlink t (put t b s)) q = content s q"
  by (simp add: content_put content_unlink)

lemma publish:
  "content s t = None \<Longrightarrow> t \<noteq> d \<Longrightarrow>
   content (rename t d (put t b s)) q = (if q = d then Some b else content s q)"
  by (simp add: content_put content_rename)

lemma publish_again:
  "content s t = None \<Longrightarrow> t \<noteq> d \<Longrightarrow>
   content (rename t d (put t b (put t a s))) q = (if q = d then Some b else content s q)"
  by (simp add: content_put content_rename)

end

interpretation fs: atomic_store "\<lambda>s. s" fs_put fs_unlink fs_replace
  by unfold_locales (auto simp: fs_put_def fs_unlink_def fs_replace_def)

text \<open>A store that differs from \<open>s\<close> at most in the temporary file.\<close>

definition differs_only_at :: "path \<Rightarrow> store \<Rightarrow> store \<Rightarrow> bool" where
  "differs_only_at t s s' \<longleftrightarrow> (\<forall>q. q \<noteq> t \<longrightarrow> s' q = s q)"

lemma differs_only_at_refl [simp]: "differs_only_at t s s"
  by (simp add: differs_only_at_def)

lemma differs_only_at_put [simp]:
  "differs_only_at t s (fs_put t b s') \<longleftrightarrow> differs_only_at t s s'"
  by (auto simp: differs_only_at_def fs.content_put)

lemma differs_only_at_append [simp]:
  "differs_only_at t s (fs_append t b s') \<longleftrightarrow> differs_only_at t s s'"
  by (simp add: fs_append_def)

lemma differs_only_at_unlink:
  "s t = None \<Longrightarrow> differs_only_at t s s' \<Longrightarrow> fs_unlink t s' = s"
  by (auto simp: differs_only_at_def fs.content_unlink)

lemma differs_only_at_replace:
  "s t = None \<Longrightarrow> t \<noteq> d \<Longrightarrow> differs_only_at t s s' \<Longrightarrow> s' t = Some b \<Longrightarrow>
   fs_replace t d s' = s(d := Some b)"
  by (auto simp: differs_only_at_def fs.content_rename)

end
