(* ===== verification/Identity.thy ===== *)
theory Identity
imports ByteCodec PyText FileStore
begin

text \<open>
  \<open>zd_identity.py\<close>: the serial and MAC of the virtual controller, validated, formatted,
  stored in the state directory and read back on the next start.  The random choices of
  \<open>generate_identity\<close> are arguments; \<open>fails\<close> says which system calls of
  \<open>write_identity\<close> raise \<open>OSError\<close>.
\<close>

unbundle bit_operations_syntax

section \<open>Serial numbers and MAC addresses\<close>

definition serial_char :: "char \<Rightarrow> bool" where
  "serial_char c \<longleftrightarrow> is_ascii_upper c \<or> is_ascii_lower c \<or> is_ascii_digit c \<or> c = CHR ''_'' \<or> c = CHR ''-''"

definition valid_serial :: "string \<Rightarrow> bool" where
  "valid_serial s \<longleftrightarrow> 1 \<le> length s \<and> length s \<le> 15 \<and> list_all serial_char s"

definition validate_serial :: "string \<Rightarrow> string result" where
  "validate_serial s =
     (if \<not> valid_serial s then Inl (ValueError ''serial must contain 1..15 letters, digits, _ or -'')
      else Inr s)"

definition mac_syntax_error :: exn where
  "mac_syntax_error = ValueError ''MAC must use six colon-separated hexadecimal octets''"

text \<open>\<open>bytes(int(part, 16) for part in parts)\<close> with both of its \<open>ValueError\<close>s.\<close>

definition parse_octet :: "string \<Rightarrow> byte result" where
  "parse_octet part =
     (case int_base16 part of
        None \<Rightarrow> Inl (ValueError ''invalid literal for int() with base 16'')
      | Some v \<Rightarrow> byte_of_int v)"

definition parse_octets :: "string list \<Rightarrow> bytes result" where
  "parse_octets parts =
     (case mapE parse_octet parts of
        Inl _ \<Rightarrow> Inl mac_syntax_error
      | Inr mac \<Rightarrow> Inr mac)"

text \<open>The individual/group and universal/local bits of the first octet.\<close>

definition local_unicast :: "byte \<Rightarrow> bool" where
  "local_unicast b \<longleftrightarrow> \<not> (b AND 1 \<noteq> 0 \<or> b AND 2 = 0)"

definition to_bytes_be :: "nat \<Rightarrow> int \<Rightarrow> bytes result" where
  "to_bytes_be n v = (if 0 \<le> v \<and> v < 256 ^ n then Inr (be_bytes n v) else Inl OverflowError)"

definition parse_mac :: "string \<Rightarrow> bytes result" where
  "parse_mac v =
     (let parts = split_on CHR '':'' v
      in if length parts \<noteq> 6 \<or> (\<exists>part \<in> set parts. length part \<noteq> 2) then Inl mac_syntax_error
         else
           bindE (parse_octets parts) (\<lambda>mac.
           bindE (raise_if (\<not> local_unicast (mac ! 0))
                    (ValueError ''MAC must be a locally administered unicast address'')) (\<lambda>_.
           bindE (to_bytes_be 6 (be_int mac + 1)) (\<lambda>mac2.
           bindE (raise_if (\<not> local_unicast (mac2 ! 0))
                    (ValueError ''MAC leaves no valid locally administered unicast MAC2'')) (\<lambda>_.
             Inr mac)))))"

definition hex2 :: "byte \<Rightarrow> string" where
  "hex2 b = [hex_digit (unat b div 16), hex_digit (unat b mod 16)]"

definition format_mac :: "bytes \<Rightarrow> string" where
  "format_mac mac = join_with '':'' (map hex2 mac)"

text \<open>
  \<open>f"{secrets.randbelow(10**12):012d}"\<close>, for a value below \<open>10^12\<close>, and the
  prefix 02 before five random bytes.
\<close>

definition decimal12 :: "nat \<Rightarrow> string" where
  "decimal12 n = map (\<lambda>i. char_of (48 + (n div 10 ^ (11 - i)) mod 10)) [0..<12]"

definition generate_identity :: "nat \<Rightarrow> bytes \<Rightarrow> string \<times> string" where
  "generate_identity random_serial random_bytes =
     (decimal12 random_serial, format_mac (0x02 # random_bytes))"

section \<open>The identity file\<close>

definition identity_error :: exn where
  "identity_error = ValueError ''invalid identity file''"

definition IDENTITY_KEYS :: "string list" where
  "IDENTITY_KEYS = [''ZD_SERIAL'', ''ZD_MAC1'']"

fun identity_lines :: "(string \<times> string) list \<Rightarrow> string list \<Rightarrow> (string \<times> string) list result" where
  "identity_lines vals [] = Inr vals"
| "identity_lines vals (line # lines) =
     (case partition_on CHR ''='' line of
        (key, separator, v) \<Rightarrow>
          if \<not> separator \<or> map_of vals key \<noteq> None \<or> key \<notin> set IDENTITY_KEYS then Inl identity_error
          else identity_lines (vals @ [(key, v)]) lines)"

definition parse_identity_text :: "string \<Rightarrow> (string \<times> string) result" where
  "parse_identity_text text =
     bindE (identity_lines [] (splitlines text)) (\<lambda>vals.
       case (map_of vals ''ZD_SERIAL'', map_of vals ''ZD_MAC1'') of
         (Some serial, Some mac) \<Rightarrow>
           bindE (validate_serial serial) (\<lambda>s.
           bindE (parse_mac mac) (\<lambda>m.
             Inr (s, format_mac m)))
       | _ \<Rightarrow> Inl identity_error)"

definition parse_identity :: "path \<Rightarrow> store \<Rightarrow> (string \<times> string) result" where
  "parse_identity p s =
     (case s p of
        None \<Rightarrow> Inl (ValueError ''cannot read identity file'')
      | Some data \<Rightarrow> bindE (decode_ascii data) parse_identity_text)"

datatype id_step = IdMkdir | IdOpen | IdWrite | IdSync | IdReplace | IdChmod | IdUnlink

definition identity_text :: "string \<Rightarrow> string \<Rightarrow> string" where
  "identity_text serial mac = ''ZD_SERIAL='' @ serial @ [CHR 0x0A] @ ''ZD_MAC1='' @ mac @ [CHR 0x0A]"

text \<open>
  The temporary file is opened with \<open>O_EXCL\<close>; every later error removes it
  (\<open>missing_ok\<close>) and is raised again.  A store that cannot be cleaned up keeps it.
\<close>

definition write_identity ::
  "(id_step \<Rightarrow> bool) \<Rightarrow> path \<Rightarrow> path \<Rightarrow> string \<Rightarrow> string \<Rightarrow> store \<Rightarrow> unit result \<times> store" where
  "write_identity fails tmp p serial mac s =
     (if fails IdMkdir then (Inl (OSError ''mkdir''), s)
      else if fails IdOpen \<or> s tmp \<noteq> None then (Inl (OSError ''open''), s)
      else
        let opened = fs_put tmp [] s;
            cleanup = (\<lambda>e st. if fails IdUnlink then (Inl (OSError ''unlink''), st)
                              else (Inl e, fs_unlink tmp st))
        in case encode_ascii (identity_text serial mac) of
             Inl e \<Rightarrow> cleanup e opened
           | Inr data \<Rightarrow>
               if fails IdWrite then cleanup (OSError ''write'') opened
               else
                 let written = fs_put tmp data opened
                 in if fails IdSync then cleanup (OSError ''fsync'') written
                    else if fails IdReplace then cleanup (OSError ''replace'') written
                    else
                      let published = fs_replace tmp p written
                      in if fails IdChmod then cleanup (OSError ''chmod'') published
                         else (Inr (), published))"

datatype id_source = OperatorOverride | PersistentState | GeneratedAndPersisted

definition resolve_identity ::
  "(id_step \<Rightarrow> bool) \<Rightarrow> path \<Rightarrow> path \<Rightarrow> nat \<Rightarrow> bytes \<Rightarrow> string \<Rightarrow> string \<Rightarrow> store \<Rightarrow>
   (string \<times> string \<times> id_source) result \<times> store" where
  "resolve_identity fails tmp p random_serial random_bytes serial_override mac_override s =
     (if (serial_override \<noteq> []) \<noteq> (mac_override \<noteq> []) then
        (Inl (ValueError ''set both ZD_SERIAL and ZD_MAC1, or leave both unset''), s)
      else if serial_override \<noteq> [] then
        (bindE (validate_serial serial_override) (\<lambda>serial.
         bindE (parse_mac mac_override) (\<lambda>mac. Inr (serial, format_mac mac, OperatorOverride))), s)
      else if s p \<noteq> None then
        (bindE (parse_identity p s) (\<lambda>(serial, mac). Inr (serial, mac, PersistentState)), s)
      else
        (case generate_identity random_serial random_bytes of
           (serial, mac) \<Rightarrow>
             (case write_identity fails tmp p serial mac s of
                (Inl e, st) \<Rightarrow> (Inl e, st)
              | (Inr _, st) \<Rightarrow> (Inr (serial, mac, GeneratedAndPersisted), st))))"

text \<open>\<open>main\<close>: the line printed for the caller; a \<open>ValueError\<close> is a usage error.\<close>

definition identity_main ::
  "(id_step \<Rightarrow> bool) \<Rightarrow> path \<Rightarrow> path \<Rightarrow> nat \<Rightarrow> bytes \<Rightarrow> string \<Rightarrow> string \<Rightarrow> store \<Rightarrow>
   (string \<times> string \<times> id_source) result \<times> store" where
  "identity_main fails tmp p random_serial random_bytes serial mac s =
     (case resolve_identity fails tmp p random_serial random_bytes serial mac s of
        (Inl (ValueError m), st) \<Rightarrow> (Inl (SystemExit ''2''), st)
      | (Inl UnicodeError, st) \<Rightarrow> (Inl (SystemExit ''2''), st)
      | r \<Rightarrow> r)"

section \<open>Parsing and formatting\<close>

definition valid_mac :: "bytes \<Rightarrow> bool" where
  "valid_mac mac \<longleftrightarrow>
     length mac = 6 \<and> local_unicast (mac ! 0) \<and> be_int mac + 1 < 256 ^ 6 \<and>
     local_unicast (be_bytes 6 (be_int mac + 1) ! 0)"

lemma mapE_all:
  "mapE f xs = Inr ys \<Longrightarrow> length ys = length xs"
  by (induction xs arbitrary: ys) (auto simp: bindE_Inr_iff)

lemma parse_mac_valid: "parse_mac v = Inr mac \<Longrightarrow> valid_mac mac"
  by (auto simp: parse_mac_def Let_def bindE_Inr_iff parse_octets_def to_bytes_be_def valid_mac_def
      split: if_splits sum.splits dest: mapE_all)

lemma be_int_mac_bound: "length mac = 6 \<Longrightarrow> be_int mac < 256 ^ 6"
  using be_int_bounds [of mac] by simp

text \<open>The all-ones address is a group address, so the successor of an accepted MAC fits.\<close>

lemma be_int_head:
  assumes "length mac = 6"
  shows "uint (mac ! 0) = be_int mac div 256 ^ 5"
proof -
  obtain a b c d e f where mac: "mac = [a, b, c, d, e, f]"
    using assms by (auto simp: length_Suc_conv eval_nat_numeral)
  have "be_int mac = uint a * 256 ^ 5 + be_int [b, c, d, e, f]"
    by (simp add: mac be_int_def)
  moreover have "0 \<le> be_int [b, c, d, e, f] \<and> be_int [b, c, d, e, f] < 256 ^ 5"
    using be_int_bounds [of "[b, c, d, e, f]"] by simp
  ultimately show ?thesis by (simp add: mac)
qed

lemma local_unicast_not_max: "local_unicast b \<Longrightarrow> b \<noteq> 0xFF"
  by (auto simp: local_unicast_def)

lemma successor_fits:
  assumes "length mac = 6" "local_unicast (mac ! 0)"
  shows "be_int mac + 1 < 256 ^ 6"
proof (rule ccontr)
  assume "\<not> be_int mac + 1 < 256 ^ 6"
  then have "be_int mac = 256 ^ 6 - 1" using be_int_mac_bound [OF assms(1)] by simp
  then have "uint (mac ! 0) = 255" using be_int_head [OF assms(1)] by simp
  then have "mac ! 0 = 0xFF" by (metis uint_sint word_of_int_uint word_numeral_alt)
  with assms(2) local_unicast_not_max show False by blast
qed


lemma be_bytes6_head: "be_bytes 6 v ! 0 = word_of_int (v div 256 ^ 5)"
  by (simp add: be_bytes_def eval_nat_numeral div_mult2_eq [symmetric] zdiv_zmult2_eq [symmetric])

lemma high_nibble_bound: "unat (b :: byte) div 16 < 16"
  using unsigned_less [of b] by (simp add: div_less_iff_less_mult)

lemma hex2_parse: "parse_octet (hex2 b) = Inr b"
proof -
  have d: "unat b div 16 < 16" by (rule high_nibble_bound)
  have "int_base16 (hex2 b) = Some (16 * int (unat b div 16) + int (unat b mod 16))"
    unfolding hex2_def by (rule int_base16_two_digits) (simp_all add: hex_value_hex_digit d)
  also have "16 * int (unat b div 16) + int (unat b mod 16) = int (16 * (unat b div 16) + unat b mod 16)"
    by (simp only: of_nat_add of_nat_mult of_nat_numeral)
  also have "\<dots> = uint b" by simp
  finally show ?thesis using uint_byte_bound [of b] by (simp add: parse_octet_def byte_of_int_def)
qed

lemma hex2_chars: "c \<in> set (hex2 b) \<Longrightarrow> hex_value c \<noteq> None"
proof -
  have "unat b div 16 < 16" by (rule high_nibble_bound)
  moreover assume "c \<in> set (hex2 b)"
  ultimately show ?thesis by (auto simp: hex2_def hex_value_hex_digit)
qed

lemma format_mac_parts:
  assumes "mac \<noteq> []"
  shows "split_on CHR '':'' (format_mac mac) = map hex2 mac"
  unfolding format_mac_def
proof (rule split_on_join)
  show "map hex2 mac \<noteq> []" using assms by simp
  show "\<forall>w \<in> set (map hex2 mac). CHR '':'' \<notin> set w"
    using hex2_chars hex_value_special(7) by fastforce
qed

lemma parse_octets_hex2: "parse_octets (map hex2 mac) = Inr mac"
proof -
  have "mapE parse_octet (map hex2 mac) = Inr mac" by (induction mac) (simp_all add: hex2_parse)
  then show ?thesis by (simp add: parse_octets_def)
qed

lemma parse_format_mac:
  assumes "valid_mac mac"
  shows "parse_mac (format_mac mac) = Inr mac"
proof -
  from assms have "length mac = 6" "mac \<noteq> []" by (auto simp: valid_mac_def)
  moreover have "0 \<le> be_int mac + 1" using be_int_bounds [of mac] by simp
  ultimately show ?thesis using assms
    by (simp add: parse_mac_def Let_def format_mac_parts parse_octets_hex2 to_bytes_be_def valid_mac_def)
       (simp add: hex2_def)
qed

lemma parse_mac_errors:
  assumes "parse_mac v = Inl e"
  shows "e \<in> {mac_syntax_error, ValueError ''MAC must be a locally administered unicast address'',
    ValueError ''MAC leaves no valid locally administered unicast MAC2''}"
proof -
  have "to_bytes_be 6 (be_int mac + 1) \<noteq> Inl err"
    if "parse_octets (split_on CHR '':'' v) = Inr mac" "length (split_on CHR '':'' v) = 6"
      "local_unicast (mac ! 0)" for mac err
  proof -
    from that(1) have "mapE parse_octet (split_on CHR '':'' v) = Inr mac"
      by (auto simp: parse_octets_def split: sum.splits)
    from mapE_all [OF this] that(2) have "length mac = 6" by simp
    with successor_fits that(3) be_int_bounds [of mac] show ?thesis by (simp add: to_bytes_be_def)
  qed
  moreover have "parse_octets parts = Inl err \<Longrightarrow> err = mac_syntax_error" for parts err
    by (auto simp: parse_octets_def split: sum.splits)
  ultimately show ?thesis using assms
    by (auto simp: parse_mac_def Let_def bindE_Inl_iff split: if_splits)
qed

section \<open>The generated identity\<close>

lemma valid_mac_generated:
  assumes "length bs = 5" "bs \<noteq> replicate 5 0xFF"
  shows "valid_mac (0x02 # bs)"
proof -
  have v: "be_int (0x02 # bs) = 2 * 256 ^ 5 + be_int bs"
  proof -
    obtain b c d e f where "bs = [b, c, d, e, f]"
      using assms(1) by (auto simp: length_Suc_conv eval_nat_numeral)
    then show ?thesis by (simp add: be_int_def)
  qed
  have b: "0 \<le> be_int bs" "be_int bs < 256 ^ 5" using be_int_bounds [of bs] assms(1) by auto
  moreover have "be_int bs \<noteq> 256 ^ 5 - 1"
  proof
    assume "be_int bs = 256 ^ 5 - 1"
    then have "bs = be_bytes 5 (256 ^ 5 - 1)" using be_bytes_be_int [OF assms(1)] by simp
    also have "\<dots> = replicate 5 0xFF" by code_simp
    finally show False using assms(2) by simp
  qed
  ultimately have "(be_int (0x02 # bs) + 1) div 256 ^ 5 = 2" by (simp add: v)
  then have "be_bytes 6 (be_int (0x02 # bs) + 1) ! 0 = 2" by (simp add: be_bytes6_head)
  moreover have "local_unicast 2" by (simp add: local_unicast_def)
  ultimately show ?thesis using assms(1) v b by (simp add: valid_mac_def)
qed

lemma decimal12_digit:
  assumes "c \<in> set (decimal12 n)"
  shows "is_ascii_digit c"
proof -
  from assms obtain k where c: "c = char_of (48 + (n div 10 ^ k) mod 10)" by (auto simp: decimal12_def)
  have "code_point c = 48 + (n div 10 ^ k) mod 10" unfolding c by (rule code_point_char_of) simp
  then show ?thesis by (simp add: is_ascii_digit_def in_range_def)
qed

lemma valid_serial_generated: "valid_serial (decimal12 n)"
proof -
  have "length (decimal12 n) = 12" by (simp add: decimal12_def)
  then show ?thesis using decimal12_digit by (auto simp: valid_serial_def list_all_iff serial_char_def)
qed

section \<open>The identity file round trip\<close>

lemma serial_char_plain:
  "serial_char c \<Longrightarrow> code_point c < 128 \<and> \<not> is_line_break c"
  by (auto simp: serial_char_def is_ascii_upper_def is_ascii_lower_def is_ascii_digit_def in_range_def
      is_line_break_def code_point_def)

lemma mac_char_plain:
  assumes "c \<in> set (format_mac mac)"
  shows "code_point c < 128 \<and> \<not> is_line_break c"
proof -
  have "c \<in> set (join_with '':'' ws) \<Longrightarrow> c = CHR '':'' \<or> (\<exists>w \<in> set ws. c \<in> set w)" for ws
    by (induction "'':''" ws rule: join_with.induct) auto
  with assms have "c = CHR '':'' \<or> hex_value c \<noteq> None"
    using hex2_chars by (fastforce simp: format_mac_def)
  then show ?thesis
    by (auto simp: hex_value_def in_range_def is_line_break_def code_point_def split: if_splits)
qed

lemma parse_identity_text_roundtrip:
  assumes "valid_serial serial" "valid_mac mac"
  shows "parse_identity_text (identity_text serial (format_mac mac)) = Inr (serial, format_mac mac)"
proof -
  let ?a = "''ZD_SERIAL='' @ serial" and ?b = "''ZD_MAC1='' @ format_mac mac"
  have fixed: "\<forall>c \<in> set ''ZD_SERIAL=ZD_MAC1=''. \<not> is_line_break c" by code_simp
  have "\<forall>c \<in> set ?a. \<not> is_line_break c" "\<forall>c \<in> set ?b. \<not> is_line_break c"
    using fixed assms(1) serial_char_plain mac_char_plain by (auto simp: valid_serial_def list_all_iff)
  from splitlines_newline [OF this(1), of "?b @ [CHR 0x0A]"] splitlines_newline [OF this(2), of "[]"]
  have lines: "splitlines (identity_text serial (format_mac mac)) = [?a, ?b]"
    by (simp add: identity_text_def)
  have "identity_lines [] [?a, ?b] = Inr [(''ZD_SERIAL'', serial), (''ZD_MAC1'', format_mac mac)]"
    using partition_on_append [of "CHR ''=''" "''ZD_SERIAL''" serial]
      partition_on_append [of "CHR ''=''" "''ZD_MAC1''" "format_mac mac"]
    by (simp add: IDENTITY_KEYS_def)
  then show ?thesis using assms lines
    by (simp add: parse_identity_text_def validate_serial_def parse_format_mac)
qed


section \<open>Writing the file\<close>

lemma write_identity_spec:
  assumes run: "write_identity fails tmp p serial mac s = (r, st)" and ne: "tmp \<noteq> p"
  shows "(\<forall>q. q \<noteq> p \<and> q \<noteq> tmp \<longrightarrow> st q = s q) \<and>
    (st p = s p \<or> (\<exists>data. encode_ascii (identity_text serial mac) = Inr data \<and> st p = Some data)) \<and>
    (s tmp = None \<and> \<not> fails IdUnlink \<longrightarrow> st tmp = None)"
  using run ne unfolding write_identity_def Let_def
  by (auto simp: fs.content_put fs.content_unlink fs.content_rename split: if_splits sum.splits)

lemma write_identity_Inr:
  assumes run: "write_identity fails tmp p serial mac s = (Inr u, st)" and ne: "tmp \<noteq> p"
  shows "\<exists>data. encode_ascii (identity_text serial mac) = Inr data \<and> s tmp = None \<and> st = s(p := Some data)"
proof -
  from run obtain data where d: "encode_ascii (identity_text serial mac) = Inr data" "s tmp = None"
    and st: "st = fs_replace tmp p (fs_put tmp data (fs_put tmp [] s))"
    by (auto simp: write_identity_def Let_def split: if_splits sum.splits)
  have "st = s(p := Some data)" unfolding st
    using fs.publish_again [of s tmp p] d(2) ne by (intro ext) simp
  with d show ?thesis by blast
qed

lemma generated_plain:
  "\<forall>c \<in> set (identity_text (decimal12 n) (format_mac mac)). code_point c < 128"
proof -
  have "\<forall>c \<in> set ''ZD_SERIAL=ZD_MAC1=''. code_point c < 128" "code_point CHR 0x0A < 128" by code_simp+
  moreover have "code_point c < 128" if "c \<in> set (decimal12 n)" for c
    using that valid_serial_generated [of n] serial_char_plain by (auto simp: valid_serial_def list_all_iff)
  ultimately show ?thesis using mac_char_plain by (auto simp: identity_text_def)
qed

section \<open>What a resolved identity is\<close>

lemma resolve_identity_persistent:
  "parse_identity p s = Inr (serial, mac) \<Longrightarrow> s p \<noteq> None \<Longrightarrow>
   resolve_identity fails tmp p n bs [] [] s = (Inr (serial, mac, PersistentState), s)"
  by (simp add: resolve_identity_def)

lemma resolve_identity_generated:
  assumes "resolve_identity fails tmp p n bs so mo s = (Inr (serial, mac, GeneratedAndPersisted), st)"
  shows "so = [] \<and> s p = None \<and> serial = decimal12 n \<and> mac = format_mac (0x02 # bs) \<and>
    write_identity fails tmp p serial mac s = (Inr (), st)"
  using assms by (auto simp: resolve_identity_def generate_identity_def bindE_Inr_iff
      split: if_splits prod.splits sum.splits)

text \<open>Unless an operator chose it, the identity that was reported is the one in the file.\<close>

lemma resolved_reads_back:
  assumes "resolve_identity fails tmp p n bs [] [] s = (Inr (serial, mac, src), st)"
    and "tmp \<noteq> p" "length bs = 5" "bs \<noteq> replicate 5 0xFF"
  shows "parse_identity p st = Inr (serial, mac) \<and> st p \<noteq> None"
proof (cases src)
  case GeneratedAndPersisted
  let ?m = "0x02 # bs"
  have m: "valid_mac ?m" by (rule valid_mac_generated [OF assms(3,4)])
  from resolve_identity_generated [OF assms(1) [unfolded GeneratedAndPersisted]]
  have w: "write_identity fails tmp p (decimal12 n) (format_mac ?m) s = (Inr (), st)"
    and id: "serial = decimal12 n" "mac = format_mac ?m" by auto
  from write_identity_Inr [OF w assms(2)] obtain data
    where d: "encode_ascii (identity_text (decimal12 n) (format_mac ?m)) = Inr data" "st p = Some data"
    by auto
  with ascii_roundtrip [OF generated_plain, of n ?m]
  have "decode_ascii data = Inr (identity_text (decimal12 n) (format_mac ?m))" by auto
  with d(2) parse_identity_text_roundtrip [OF valid_serial_generated m] id show ?thesis
    by (simp add: parse_identity_def)
qed (use assms(1) in \<open>auto simp: resolve_identity_def bindE_Inr_iff split: if_splits prod.splits sum.splits\<close>)

lemma validate_serial_Inr: "validate_serial s = Inr t \<longleftrightarrow> valid_serial s \<and> t = s"
  by (auto simp: validate_serial_def)

lemma parse_identity_valid:
  assumes "parse_identity p s = Inr (serial, mac)"
  shows "valid_serial serial \<and> (\<exists>m. valid_mac m \<and> mac = format_mac m)"
proof -
  from assms obtain body where "parse_identity_text body = Inr (serial, mac)"
    by (auto simp: parse_identity_def bindE_Inr_iff split: option.splits)
  then obtain vals where v: "(case (map_of vals ''ZD_SERIAL'', map_of vals ''ZD_MAC1'') of
      (Some serial, Some mac) \<Rightarrow> bindE (validate_serial serial) (\<lambda>s. bindE (parse_mac mac) (\<lambda>m. Inr (s, format_mac m)))
    | _ \<Rightarrow> Inl identity_error) = Inr (serial, mac)"
    unfolding parse_identity_text_def by (rule bindE_InrE)
  then show ?thesis using parse_mac_valid
    by (cases "map_of vals ''ZD_SERIAL''"; cases "map_of vals ''ZD_MAC1''")
       (auto simp: validate_serial_Inr bindE_Inr_iff)
qed

text \<open>Whatever its source, a reported identity is valid.\<close>

lemma resolved_valid:
  assumes "resolve_identity fails tmp p n bs so mo s = (Inr (serial, mac, src), st)"
    and "length bs = 5" "bs \<noteq> replicate 5 0xFF"
  shows "valid_serial serial \<and> (\<exists>m. valid_mac m \<and> mac = format_mac m)"
proof (cases src)
  case OperatorOverride
  with assms(1) parse_mac_valid show ?thesis
    by (auto simp: resolve_identity_def validate_serial_def bindE_Inr_iff split: if_splits prod.splits sum.splits)
next
  case PersistentState
  with assms(1) have "parse_identity p s = Inr (serial, mac)"
    by (auto simp: resolve_identity_def bindE_Inr_iff split: if_splits prod.splits sum.splits)
  then show ?thesis by (rule parse_identity_valid)
next
  case GeneratedAndPersisted
  with resolve_identity_generated [OF assms(1) [unfolded GeneratedAndPersisted]]
    valid_mac_generated [OF assms(2,3)] valid_serial_generated show ?thesis by auto
qed

text \<open>A file that is there is never touched.\<close>

lemma resolve_identity_keeps: "s p \<noteq> None \<Longrightarrow> resolve_identity fails tmp p n bs so mo s = (r, st) \<Longrightarrow> st = s"
  by (auto simp: resolve_identity_def split: if_splits)

section \<open>Properties\<close>

text \<open>
  An accepted MAC is six octets of a locally administered unicast address whose successor, the
  second NIC's address, also fits six octets and is locally administered and unicast; and a rejected
  one is rejected with one of three value errors, never an overflow.
\<close>

theorem parse_mac_accepts_valid:
  "case parse_mac v of
     Inr mac \<Rightarrow> length mac = 6 \<and> local_unicast (mac ! 0) \<and> be_int mac + 1 < 256 ^ 6 \<and>
       local_unicast (be_bytes 6 (be_int mac + 1) ! 0)
   | Inl e \<Rightarrow> e \<in> {mac_syntax_error,
       ValueError ''MAC must be a locally administered unicast address'',
       ValueError ''MAC leaves no valid locally administered unicast MAC2''}"
proof (cases "parse_mac v")
  case (Inl e)
  then show ?thesis using parse_mac_errors by simp
next
  case (Inr mac)
  then show ?thesis using parse_mac_valid by (simp add: valid_mac_def)
qed

text \<open>
  Formatting an accepted MAC gives a text that parses to the same octets, so the canonical form the
  tools store and print is a fixed point.
\<close>

theorem format_mac_parses_back:
  assumes "parse_mac v = Inr mac"
  shows "parse_mac (format_mac mac) = Inr mac"
  using assms parse_mac_valid parse_format_mac by blast

theorem format_mac_parses_back_witness:
  "parse_mac ''02:AB:cd:0f:10:ff'' = Inr [0x02, 0xAB, 0xCD, 0x0F, 0x10, 0xFF] \<and>
   format_mac [0x02, 0xAB, 0xCD, 0x0F, 0x10, 0xFF] = ''02:ab:cd:0f:10:ff'' \<and>
   parse_mac ''02:ab:cd:0f:10:ff'' = Inr [0x02, 0xAB, 0xCD, 0x0F, 0x10, 0xFF]"
proof -
  have p: "parse_mac ''02:AB:cd:0f:10:ff'' = Inr [0x02, 0xAB, 0xCD, 0x0F, 0x10, 0xFF]" by code_simp
  moreover have f: "format_mac [0x02, 0xAB, 0xCD, 0x0F, 0x10, 0xFF] = ''02:ab:cd:0f:10:ff''" by code_simp
  ultimately show ?thesis using format_mac_parses_back [OF p] by simp
qed

text \<open>
  An identity generated and persisted on the first start is the identity every later start reports,
  whatever that start would have drawn itself and whichever system calls would fail then, as long as
  the five random MAC bytes are not all 0xFF.
\<close>

theorem generated_identity_persists:
  assumes "resolve_identity fails tmp p n bs [] [] s = (Inr (serial, mac, GeneratedAndPersisted), st)"
    and "tmp \<noteq> p" "length bs = 5" "bs \<noteq> replicate 5 0xFF"
  shows "resolve_identity fails' tmp' p n' bs' [] [] st = (Inr (serial, mac, PersistentState), st)"
  using resolved_reads_back [OF assms] by (simp add: resolve_identity_persistent)

lemma decimal12_42: "decimal12 42 = ''000000000042''"
  by (simp add: decimal12_def upt_rec) code_simp

definition sample_random :: bytes where "sample_random = [1, 2, 3, 4, 0xFF]"

lemma sample_resolve:
  "\<exists>st. resolve_identity (\<lambda>_. False) ''/s/t'' ''/s/id'' 42 sample_random [] [] (\<lambda>_. None) =
     (Inr (decimal12 42, format_mac (0x02 # sample_random), GeneratedAndPersisted), st)"
proof -
  have "encode_ascii (identity_text (decimal12 42) (format_mac (0x02 # sample_random))) \<noteq> Inl e" for e
    using ascii_roundtrip [OF generated_plain] by (metis sum.distinct(1))
  then show ?thesis
    by (auto simp: resolve_identity_def generate_identity_def write_identity_def Let_def split: sum.splits)
qed

theorem generated_identity_persists_witness:
  "\<exists>st. resolve_identity (\<lambda>_. False) ''/s/t'' ''/s/id'' 7 [0, 0, 0, 0, 0] [] [] st =
     (Inr (''000000000042'', ''02:01:02:03:04:ff'', PersistentState), st)"
proof -
  obtain st where run: "resolve_identity (\<lambda>_. False) ''/s/t'' ''/s/id'' 42 sample_random [] [] (\<lambda>_. None) =
     (Inr (decimal12 42, format_mac (0x02 # sample_random), GeneratedAndPersisted), st)"
    using sample_resolve by blast
  have "decimal12 42 = ''000000000042''" by (rule decimal12_42)
  moreover have "format_mac (0x02 # sample_random) = ''02:01:02:03:04:ff''" by code_simp
  moreover have "length sample_random = 5" "sample_random \<noteq> replicate 5 0xFF" by code_simp+
  ultimately show ?thesis
    using generated_identity_persists [OF run, of "\<lambda>_. False" "''/s/t''" 7 "[0, 0, 0, 0, 0]"]
    by auto
qed

text \<open>
  The excluded draw is a reachable failure: the generator may draw five bytes 0xFF, the identity is
  written without being checked, and every later start refuses the stored file.
\<close>

theorem generated_identity_can_be_refused:
  "\<exists>mac st. resolve_identity (\<lambda>_. False) ''/s/t'' ''/s/id'' 42 (replicate 5 0xFF) [] [] (\<lambda>_. None) =
       (Inr (decimal12 42, mac, GeneratedAndPersisted), st) \<and>
     resolve_identity (\<lambda>_. False) ''/s/t'' ''/s/id'' n bs [] [] st =
       (Inl (ValueError ''MAC leaves no valid locally administered unicast MAC2''), st)"
proof -
  let ?m = "0x02 # replicate 5 0xFF :: bytes"
  let ?t = "identity_text (decimal12 42) (format_mac ?m)"
  obtain data where d: "encode_ascii ?t = Inr data" "decode_ascii data = Inr ?t"
    using ascii_roundtrip [OF generated_plain] by blast
  let ?st = "(\<lambda>_. None)(''/s/id'' := Some data)"
  have "fs_replace ''/s/t'' ''/s/id'' (fs_put ''/s/t'' data (fs_put ''/s/t'' [] (\<lambda>_. None))) = ?st"
    by (rule ext) (simp add: fs.publish_again)
  then have first: "resolve_identity (\<lambda>_. False) ''/s/t'' ''/s/id'' 42 (replicate 5 0xFF) [] [] (\<lambda>_. None) =
      (Inr (decimal12 42, format_mac ?m, GeneratedAndPersisted), ?st)"
    using d(1) by (simp add: resolve_identity_def generate_identity_def write_identity_def Let_def)
  have dec: "decimal12 42 = ''000000000042''" by (rule decimal12_42)
  have "parse_identity_text (identity_text ''000000000042'' (format_mac ?m)) =
      Inl (ValueError ''MAC leaves no valid locally administered unicast MAC2'')" by code_simp
  with d(2) have "resolve_identity (\<lambda>_. False) ''/s/t'' ''/s/id'' n bs [] [] ?st =
      (Inl (ValueError ''MAC leaves no valid locally administered unicast MAC2''), ?st)"
    by (simp add: resolve_identity_def parse_identity_def dec)
  with first show ?thesis by blast
qed

text \<open>
  Whichever system calls fail while the identity is written, the identity file is either untouched
  or complete, no other file changes, and the temporary file is gone unless removing it failed.
\<close>

theorem write_identity_atomic:
  assumes "write_identity fails tmp p serial mac s = (r, st)" "tmp \<noteq> p"
  shows "(\<forall>q. q \<noteq> p \<and> q \<noteq> tmp \<longrightarrow> st q = s q) \<and>
    (st p = s p \<or> (\<exists>data. encode_ascii (identity_text serial mac) = Inr data \<and> st p = Some data)) \<and>
    (r = Inr () \<longrightarrow> st p \<noteq> None) \<and> (s tmp = None \<and> \<not> fails IdUnlink \<longrightarrow> st tmp = None)"
proof -
  have "st p \<noteq> None" if "r = Inr ()"
    using write_identity_Inr [of fails tmp p serial mac s "()" st] assms that by auto
  with write_identity_spec [OF assms] show ?thesis by blast
qed

theorem write_identity_atomic_witness:
  "\<exists>st. write_identity (\<lambda>x. x = IdSync) ''/t'' ''/id'' ''A'' ''m'' [''/id'' \<mapsto> [1]] = (Inl (OSError ''fsync''), st) \<and>
     st ''/id'' = Some [1] \<and> st ''/t'' = None"
proof -
  let ?s = "[''/id'' \<mapsto> [1 :: byte]]"
  obtain data where "encode_ascii (identity_text ''A'' ''m'') = Inr data"
  proof -
    have "case encode_ascii (identity_text ''A'' ''m'') of Inl e \<Rightarrow> False | Inr d \<Rightarrow> True" by code_simp
    then show thesis using that by (auto split: sum.splits)
  qed
  then have run: "write_identity (\<lambda>x. x = IdSync) ''/t'' ''/id'' ''A'' ''m'' ?s =
      (Inl (OSError ''fsync''), fs_unlink ''/t'' (fs_put ''/t'' data (fs_put ''/t'' [] ?s)))"
    by (simp add: write_identity_def Let_def)
  from write_identity_atomic [OF run] run show ?thesis
    by (simp add: fs.content_put fs.content_unlink)
qed

text \<open>The octet syntax is wider than two hexadecimal digits: a sign or a space is accepted.\<close>

theorem mac_octet_syntax_is_wider:
  "parse_mac ''+2: 1:-0:00:00:01'' = Inr [2, 1, 0, 0, 0, 1]"
  by code_simp

end
