(* ===== verification/DiskImage.thy ===== *)
theory DiskImage
imports Prelude
begin

text \<open>
  A disk image opened for update: its size and its bytes, with \<open>seek\<close> and \<open>write\<close> as
  one operation.  Writing past the end extends the image, and the gap reads as zero.  The locale
  \<open>block_device\<close> is the contract the image writers rely on: a write is read back, and what
  lies outside it is not touched.
\<close>

record disk =
  dk_size :: nat
  dk_byte :: "nat \<Rightarrow> byte"

definition blank_disk :: "nat \<Rightarrow> disk" where
  "blank_disk n = \<lparr>dk_size = n, dk_byte = (\<lambda>_. 0)\<rparr>"

definition disk_write :: "nat \<Rightarrow> bytes \<Rightarrow> disk \<Rightarrow> disk" where
  "disk_write off data d =
     (if data = [] then d
      else \<lparr>dk_size = max (dk_size d) (off + length data),
            dk_byte = (\<lambda>i. if off \<le> i \<and> i < off + length data then data ! (i - off) else dk_byte d i)\<rparr>)"

definition disk_read :: "nat \<Rightarrow> nat \<Rightarrow> disk \<Rightarrow> bytes" where
  "disk_read off n d = map (dk_byte d) [off ..< off + n]"

text \<open>Bytes past the end of the image are never set; they become the zeros of an extension.\<close>

definition wf_disk :: "disk \<Rightarrow> bool" where
  "wf_disk d \<longleftrightarrow> (\<forall>i \<ge> dk_size d. dk_byte d i = 0)"

locale block_device =
  fixes byte_at :: "'d \<Rightarrow> nat \<Rightarrow> byte" and wr :: "nat \<Rightarrow> bytes \<Rightarrow> 'd \<Rightarrow> 'd"
    and rd :: "nat \<Rightarrow> nat \<Rightarrow> 'd \<Rightarrow> bytes"
  assumes rd_bytes: "rd off n d = map (byte_at d) [off ..< off + n]"
    and byte_at_wr: "byte_at (wr off bs d) i =
      (if off \<le> i \<and> i < off + length bs then bs ! (i - off) else byte_at d i)"
begin

lemma rd_length: "length (rd off n d) = n"
  by (simp add: rd_bytes)

lemma rd_nth: "i < n \<Longrightarrow> rd off n d ! i = byte_at d (off + i)"
  by (simp add: rd_bytes)

lemma read_back_prefix: "n \<le> length bs \<Longrightarrow> rd off n (wr off bs d) = take n bs"
  by (rule nth_equalityI) (simp_all add: rd_length rd_nth byte_at_wr)

lemma read_back: "rd off (length bs) (wr off bs d) = bs"
  by (simp add: read_back_prefix)

lemma read_elsewhere:
  "off + n \<le> off' \<or> off' + length bs \<le> off \<Longrightarrow> rd off n (wr off' bs d) = rd off n d"
  by (rule nth_equalityI) (auto simp: rd_length rd_nth byte_at_wr)

lemma read_second:
  "off' + length bs' \<le> off \<or> off + length bs \<le> off' \<Longrightarrow>
   rd off (length bs) (wr off' bs' (wr off bs d)) = bs"
  using read_elsewhere [of off "length bs" off' bs'] by (auto simp: read_back)

end

interpretation dk: block_device dk_byte disk_write disk_read
  by unfold_locales (auto simp: disk_write_def disk_read_def)

lemma wf_disk_write: "wf_disk d \<Longrightarrow> wf_disk (disk_write off data d)"
  by (auto simp: wf_disk_def disk_write_def)

text \<open>Writing what already stands there changes nothing.\<close>

lemma disk_write_same:
  assumes "disk_read off (length data) d = data" "off + length data \<le> dk_size d"
  shows "disk_write off data d = d"
proof -
  have "data ! (i - off) = dk_byte d i" if "off \<le> i" "i < off + length data" for i
    using that arg_cong [OF assms(1), of "\<lambda>xs. xs ! (i - off)"] by (simp add: dk.rd_nth)
  then have "dk_byte (disk_write off data d) = dk_byte d" by (intro ext) (simp add: dk.byte_at_wr)
  moreover have "dk_size (disk_write off data d) = dk_size d"
    using assms(2) by (simp add: disk_write_def)
  ultimately show ?thesis by simp
qed

lemma dk_size_write:
  "dk_size (disk_write off data d) = (if data = [] then dk_size d else max (dk_size d) (off + length data))"
  by (simp add: disk_write_def)

end
