(* ===== verification/BoardData.thy ===== *)
theory BoardData
imports Identity DiskImage
begin

text \<open>
  \<open>write-boarddata.py\<close>: the two board-data records of the synthetic CF disk, with the
  serial number and the two MACs, and the program that writes them at their fixed sectors.
\<close>

unbundle bit_operations_syntax

definition RKS_BD_MAGIC :: int where "RKS_BD_MAGIC = 0x52434B53"
definition AR531X_BD_MAGIC :: int where "AR531X_BD_MAGIC = 0x35333131"
definition RKS_BOOTREC_MAGIC :: int where "RKS_BOOTREC_MAGIC = 0x524B4254"
definition RKS_BD_REV :: int where "RKS_BD_REV = 4"
definition AR531X_BD_REV :: int where "AR531X_BD_REV = 5"
definition REGION2_START :: nat where "REGION2_START = 3920881"
definition SECTOR :: nat where "SECTOR = 512"
definition RKS_BD_OFFSET :: nat where "RKS_BD_OFFSET = 0x8000"
definition RKS_STRUCT_SIZE :: nat where "RKS_STRUCT_SIZE = 0xD0"
definition AR531X_STRUCT_SIZE :: nat where "AR531X_STRUCT_SIZE = 0x80"

section \<open>MACs\<close>

definition bd_parse_mac :: "string \<Rightarrow> bytes result" where
  "bd_parse_mac mac =
     bindE (mapE parse_octet (split_on CHR '':'' mac)) (\<lambda>m.
     bindE (raise_if (length m \<noteq> 6) (AssertionError ''bad MAC'')) (\<lambda>_. Inr m))"

definition mac_value :: "bytes \<Rightarrow> int" where
  "mac_value mac =
     push_bit 40 (uint (mac ! 0)) OR push_bit 32 (uint (mac ! 1)) OR push_bit 24 (uint (mac ! 2)) OR
     push_bit 16 (uint (mac ! 3)) OR push_bit 8 (uint (mac ! 4)) OR uint (mac ! 5)"

definition mac_plus_one :: "bytes \<Rightarrow> bytes" where
  "mac_plus_one mac = be_bytes 6 ((mac_value mac + 1) AND 0xFFFFFFFFFFFF)"

section \<open>The records\<close>

definition rks_cksum :: "bytes \<Rightarrow> int result" where
  "rks_cksum blob =
     bindE (raise_if (length blob \<noteq> RKS_STRUCT_SIZE) (AssertionError '''')) (\<lambda>_.
       Inr (sum_list (map uint (bassign blob 4 6 [0, 0])) mod 0x10000))"

text \<open>A text field: the encoded text, cut, over the zeros of the record.\<close>

definition put_text :: "nat \<Rightarrow> nat \<Rightarrow> string \<Rightarrow> bytes \<Rightarrow> bytes" where
  "put_text off limit s b =
     (let enc = take limit (encode_utf8 s) in bassign b off (off + length enc) enc)"

definition rks_fields :: "string \<Rightarrow> bytes \<Rightarrow> bytes \<Rightarrow> string \<Rightarrow> string \<Rightarrow> bytes" where
  "rks_fields serial mac1 mac2 model customer =
     (let b = replicate RKS_STRUCT_SIZE 0;
          b = bassign b 0x00 0x04 (le_bytes 4 RKS_BD_MAGIC);
          b = bassign b 0x06 0x08 (le_bytes 2 RKS_BD_REV);
          b = put_text 0x08 15 serial b;
          b = put_text 0x18 31 customer b;
          b = put_text 0x38 15 model b;
          b = bassign b 0x58 0x5E mac1;
          b = bassign b 0x5E 0x64 mac2;
          b = b[0x70 := 0];
          b = bassign b 0x78 0x7C (le_bytes 4 0x80);
          b = bassign b 0x7C 0x7E (le_bytes 2 2);
          b = bassign b 0x7E 0x84 mac1;
          b = bassign b 0x90 0x94 (le_bytes 4 RKS_BOOTREC_MAGIC);
          b = b[0x98 := 1]
      in put_text 0x9C 31 serial b)"

definition build_rks_boarddata ::
  "string \<Rightarrow> bytes \<Rightarrow> bytes \<Rightarrow> string \<Rightarrow> string \<Rightarrow> bytes result" where
  "build_rks_boarddata serial mac1 mac2 model customer =
     (let b = rks_fields serial mac1 mac2 model customer
      in bindE (rks_cksum b) (\<lambda>ck. Inr (bassign b 0x04 0x06 (le_bytes 2 ck))))"

definition build_ar531x_boarddata :: "bytes \<Rightarrow> bytes \<Rightarrow> string \<Rightarrow> bytes" where
  "build_ar531x_boarddata mac1 mac2 model =
     (let b = replicate AR531X_STRUCT_SIZE 0;
          b = bassign b 0x00 0x04 (le_bytes 4 AR531X_BD_MAGIC);
          b = bassign b 0x06 0x08 (le_bytes 2 AR531X_BD_REV);
          b = put_text 0x08 63 model b;
          b = bassign b 0x60 0x66 mac1;
          b = bassign b 0x66 0x6C mac1;
          b = bassign b 0x6C 0x72 mac2
      in bassign b 0x76 0x7C mac2)"

section \<open>The program\<close>

definition boarddata_region :: "nat \<Rightarrow> nat" where
  "boarddata_region platform = (if platform = 0 then 3981601 else REGION2_START)"

text \<open>
  \<open>main\<close> with its arguments; \<open>None\<close> is a missing disk file.  \<open>argparse\<close> accepts the
  platforms 0 and 1 only.
\<close>

definition boarddata_main ::
  "string \<Rightarrow> string \<Rightarrow> string \<Rightarrow> string \<Rightarrow> nat \<Rightarrow> disk option \<Rightarrow> disk result" where
  "boarddata_main serial mac model customer platform img =
     (if platform \<notin> {0, 1} then Inl (SystemExit ''2'')
      else case img of
        None \<Rightarrow> Inl (SystemExit ''disk image not found'')
      | Some d \<Rightarrow>
          bindE (bd_parse_mac mac) (\<lambda>mac1.
            let mac2 = mac_plus_one mac1;
                region2 = boarddata_region platform
            in bindE (build_rks_boarddata serial mac1 mac2 model customer) (\<lambda>rbd.
                 let abd = build_ar531x_boarddata mac1 mac2 model;
                     rks_off = (region2 + RKS_BD_OFFSET div SECTOR) * SECTOR;
                     ar531x_off = region2 * SECTOR
                 in Inr (disk_write rks_off rbd (disk_write ar531x_off abd d)))))"

text \<open>
  What \<open>main\<close> prints after writing: the size of the image in MiB, the sector, file offset and
  magic of each record, revision and checksum, serial, both MACs, and the two serial fields of the
  record without their trailing zeros.
\<close>

record boarddata_report =
  br_mib :: nat
  br_ar531x :: "nat \<times> nat \<times> bytes"
  br_rks :: "nat \<times> nat \<times> bytes"
  br_rev :: int
  br_cksum :: int
  br_serial :: string
  br_mac1 :: string
  br_mac2 :: string
  br_serial16 :: bytes
  br_serial32 :: bytes

definition rstrip_nul :: "bytes \<Rightarrow> bytes" where
  "rstrip_nul bs = rev (dropWhile (\<lambda>b. b = 0) (rev bs))"

definition report_boarddata ::
  "string \<Rightarrow> bytes \<Rightarrow> bytes \<Rightarrow> nat \<Rightarrow> bytes \<Rightarrow> bytes \<Rightarrow> disk \<Rightarrow> boarddata_report result" where
  "report_boarddata serial mac1 mac2 region2 rbd abd d =
     bindE (rks_cksum rbd) (\<lambda>ck.
       let rks_sector = region2 + RKS_BD_OFFSET div SECTOR
       in Inr \<lparr>br_mib = dk_size d div (1024 * 1024),
               br_ar531x = (region2, region2 * SECTOR, take 4 abd),
               br_rks = (rks_sector, rks_sector * SECTOR, take 4 rbd),
               br_rev = le_int (bslice rbd 6 8), br_cksum = ck,
               br_serial = serial, br_mac1 = format_mac mac1, br_mac2 = format_mac mac2,
               br_serial16 = rstrip_nul (bslice rbd 0x08 0x18),
               br_serial32 = rstrip_nul (bslice rbd 0x9C 0xBC)\<rparr>)"

text \<open>The whole program: the image as written, and the report.\<close>

definition boarddata_program ::
  "string \<Rightarrow> string \<Rightarrow> string \<Rightarrow> string \<Rightarrow> nat \<Rightarrow> disk option \<Rightarrow> (disk \<times> boarddata_report) result" where
  "boarddata_program serial mac model customer platform img =
     bindE (boarddata_main serial mac model customer platform img) (\<lambda>d.
     bindE (bd_parse_mac mac) (\<lambda>mac1.
       let mac2 = mac_plus_one mac1; region2 = boarddata_region platform
       in bindE (build_rks_boarddata serial mac1 mac2 model customer) (\<lambda>rbd.
          bindE (report_boarddata serial mac1 mac2 region2 rbd (build_ar531x_boarddata mac1 mac2 model) d)
            (\<lambda>report. Inr (d, report)))))"

section \<open>MAC arithmetic\<close>

lemma push_bit_or_add:
  assumes "0 \<le> (b::int)" "b < 2 ^ n"
  shows "push_bit n a OR b = push_bit n a + b"
proof -
  have "\<not> bit b k" if "n \<le> k" for k
  proof -
    have "take_bit n b = b" using assms by (simp add: take_bit_int_eq_self_iff)
    then show ?thesis using that by (metis bit_take_bit_iff leD)
  qed
  then have "push_bit n a AND b = 0"
    by (intro bit_eqI) (auto simp: bit_and_iff bit_push_bit_iff)
  then show ?thesis by (simp add: disjunctive_add_eq_or)
qed

lemma mac_value_be_int:
  assumes "length mac = 6"
  shows "mac_value mac = be_int mac"
proof -
  obtain a b c d e f where mac: "mac = [a, b, c, d, e, f]"
    using assms by (auto simp: length_Suc_conv eval_nat_numeral)
  have u: "0 \<le> uint (x :: byte)" "uint x < 256" for x using uint_byte_bound [of x] by auto
  let ?e = "uint f" and ?d = "push_bit 8 (uint e) + uint f"
  let ?c = "push_bit 16 (uint d) + ?d"
  let ?b = "push_bit 24 (uint c) + ?c"
  let ?a = "push_bit 32 (uint b) + ?b"
  have "?d < 2 ^ 16" "?c < 2 ^ 24" "?b < 2 ^ 32" "?a < 2 ^ 40"
    "0 \<le> ?d" "0 \<le> ?c" "0 \<le> ?b" "0 \<le> ?a" "?e < 2 ^ 8"
    using u [of b] u [of c] u [of d] u [of e] u [of f] by (simp_all add: push_bit_eq_mult)
  then have "mac_value mac = push_bit 40 (uint a) + ?a"
    using u [of f] by (simp add: mac_value_def mac push_bit_or_add)
  then show ?thesis by (simp add: mac be_int_def push_bit_eq_mult)
qed

lemma be_int_mac_plus_one:
  assumes "length mac = 6"
  shows "be_int (mac_plus_one mac) = (be_int mac + 1) mod 2 ^ 48"
proof -
  have "(v::int) AND 0xFFFFFFFFFFFF = v mod 2 ^ 48" for v
    using take_bit_eq_mask [of 48 v] by (simp add: mask_eq_exp_minus_1 take_bit_eq_mod)
  then show ?thesis using assms
    by (simp add: mac_plus_one_def be_int_be_bytes mac_value_be_int)
qed


section \<open>The fields of the records\<close>

text \<open>What a slice at fixed bounds sees through the writes of the other fields.\<close>

lemma length_put_text: "off + limit \<le> length b \<Longrightarrow> length (put_text off limit s b) = length b"
  by (simp add: put_text_def Let_def length_bassign)

lemma bslice_put_text_other:
  "off + limit \<le> length b \<Longrightarrow> d \<le> off \<or> off + limit \<le> c \<Longrightarrow>
   bslice (put_text off limit s b) c d = bslice b c d"
  by (auto simp: put_text_def Let_def intro!: bslice_bassign_disjoint)

lemma bslice_update_other: "i < c \<or> d \<le> i \<Longrightarrow> bslice (b[i := v]) c d = bslice b c d"
  by (rule nth_equalityI) (auto simp: bslice_def nth_list_update)

text \<open>A text field holds the cut text followed by zeros.\<close>

definition text_field :: "nat \<Rightarrow> nat \<Rightarrow> string \<Rightarrow> bytes" where
  "text_field width limit s =
     (let enc = take limit (encode_utf8 s) in enc @ replicate (width - length enc) 0)"

lemma bslice_put_text_same:
  assumes "off + width \<le> length b" "limit \<le> width" "bslice b off (off + width) = replicate width 0"
  shows "bslice (put_text off limit s b) off (off + width) = text_field width limit s"
proof -
  let ?enc = "take limit (encode_utf8 s)"
  have e: "length ?enc \<le> width" using assms(2) by simp
  have "bslice (bassign b off (off + length ?enc) ?enc) off (off + width) =
      ?enc @ drop (length ?enc) (bslice b off (off + width))"
    using assms(1,2) e by (auto simp: bslice_def bassign_def drop_take min_def add.commute)
  also have "\<dots> = text_field width limit s"
    unfolding assms(3) by (simp add: text_field_def Let_def)
  finally show ?thesis by (simp add: put_text_def Let_def)
qed

lemmas field_reads = bslice_bassign_same bslice_bassign_disjoint length_bassign length_put_text
  bslice_put_text_other bslice_update_other RKS_STRUCT_SIZE_def AR531X_STRUCT_SIZE_def

lemma length_rks_fields:
  "length m1 = 6 \<Longrightarrow> length m2 = 6 \<Longrightarrow> length (rks_fields serial m1 m2 model customer) = RKS_STRUCT_SIZE"
  by (simp add: rks_fields_def Let_def field_reads)

lemma bslice_zeros: "b \<le> n \<Longrightarrow> bslice (replicate n 0) a b = replicate (b - a) 0"
  by (simp add: bslice_def min_def)

lemma rks_fields_read:
  assumes "length m1 = 6" "length m2 = 6" "b = rks_fields serial m1 m2 model customer"
  shows "bslice b 0 4 = le_bytes 4 RKS_BD_MAGIC" "bslice b 6 8 = le_bytes 2 RKS_BD_REV"
    and "bslice b 0x58 0x5E = m1" "bslice b 0x5E 0x64 = m2" "bslice b 0x7E 0x84 = m1"
    and "bslice b 0x7C 0x7E = le_bytes 2 2" "bslice b 0x90 0x94 = le_bytes 4 RKS_BOOTREC_MAGIC"
  using assms by (simp_all add: rks_fields_def Let_def field_reads)


lemma rks_fields_text:
  assumes "length m1 = 6" "length m2 = 6" "b = rks_fields serial m1 m2 model customer"
  shows "bslice b 0x08 0x18 = text_field 16 15 serial" "bslice b 0x38 0x48 = text_field 16 15 model"
    and "bslice b 0x18 0x38 = text_field 32 31 customer" "bslice b 0x9C 0xBC = text_field 32 31 serial"
  using assms bslice_put_text_same [of "0x08" 16] bslice_put_text_same [of "0x38" 16]
    bslice_put_text_same [of "0x18" 32] bslice_put_text_same [of "0x9C" 32]
  by (simp_all add: rks_fields_def Let_def field_reads bslice_zeros)

section \<open>The checksum\<close>

lemma sum_bytes_bound: "sum_list (map uint (bs :: bytes)) \<le> 255 * int (length bs) \<and> 0 \<le> sum_list (map uint bs)"
proof (induction bs)
  case (Cons b bs)
  then show ?case using uint_byte_bound [of b] by simp
qed simp

text \<open>Two hundred and eight bytes cannot overflow sixteen bits: the mask never changes the sum.\<close>

lemma rks_cksum_exact:
  assumes "length blob = RKS_STRUCT_SIZE"
  shows "rks_cksum blob = Inr (sum_list (map uint (bassign blob 4 6 [0, 0])))"
proof -
  have "length (bassign blob 4 6 [0, 0]) = RKS_STRUCT_SIZE"
    using assms by (simp add: length_bassign RKS_STRUCT_SIZE_def)
  with sum_bytes_bound [of "bassign blob 4 6 [0, 0]"]
  have "sum_list (map uint (bassign blob 4 6 [0, 0])) < 0x10000"
    "0 \<le> sum_list (map uint (bassign blob 4 6 [0, 0]))" by (simp_all add: RKS_STRUCT_SIZE_def)
  then show ?thesis using assms by (simp add: rks_cksum_def)
qed

lemma build_rks_boarddata_ok:
  assumes "length m1 = 6" "length m2 = 6"
  shows "\<exists>r ck. build_rks_boarddata serial m1 m2 model customer = Inr r \<and> length r = RKS_STRUCT_SIZE \<and>
    r = bassign (rks_fields serial m1 m2 model customer) 4 6 (le_bytes 2 ck) \<and>
    rks_cksum r = Inr ck \<and> le_int (bslice r 4 6) = ck \<and>
    (\<forall>c d. d \<le> 4 \<or> 6 \<le> c \<longrightarrow> bslice r c d = bslice (rks_fields serial m1 m2 model customer) c d)"
proof -
  let ?b = "rks_fields serial m1 m2 model customer"
  note lb = length_rks_fields [OF assms, of serial model customer]
  define ck where "ck = sum_list (map uint (bassign ?b 4 6 [0, 0]))"
  have bound: "0 \<le> ck" "ck < 0x10000"
    using sum_bytes_bound [of "bassign ?b 4 6 [0, 0]"] lb
    by (simp_all add: ck_def length_bassign RKS_STRUCT_SIZE_def)
  let ?r = "bassign ?b 4 6 (le_bytes 2 ck)"
  have r: "build_rks_boarddata serial m1 m2 model customer = Inr ?r"
    using rks_cksum_exact [OF lb] by (simp add: build_rks_boarddata_def Let_def ck_def)
  have lr: "length ?r = RKS_STRUCT_SIZE" using lb by (simp add: length_bassign RKS_STRUCT_SIZE_def)
  have "bassign ?r 4 6 [0, 0] = bassign ?b 4 6 [0, 0]"
    using lb by (simp add: bassign_bassign RKS_STRUCT_SIZE_def)
  then have "rks_cksum ?r = Inr ck" using rks_cksum_exact [OF lr] by (simp add: ck_def)
  moreover have "le_int (bslice ?r 4 6) = ck"
    using lb bound by (simp add: bslice_bassign_same RKS_STRUCT_SIZE_def le_int_le_bytes)
  moreover have "\<forall>c d. d \<le> 4 \<or> 6 \<le> c \<longrightarrow> bslice ?r c d = bslice ?b c d"
    using lb by (auto simp: RKS_STRUCT_SIZE_def intro!: bslice_bassign_disjoint)
  ultimately show ?thesis using r lr by blast
qed

lemma ar531x_read:
  assumes "length m1 = 6" "length m2 = 6" "b = build_ar531x_boarddata m1 m2 model"
  shows "length b = AR531X_STRUCT_SIZE" "bslice b 0 4 = le_bytes 4 AR531X_BD_MAGIC"
    and "bslice b 0x60 0x66 = m1" "bslice b 0x66 0x6C = m1" "bslice b 0x6C 0x72 = m2" "bslice b 0x76 0x7C = m2"
  using assms by (simp_all add: build_ar531x_boarddata_def Let_def field_reads)


section \<open>Reading a record back\<close>

lemma rks_record_reads:
  assumes "length mac1 = 6" "length mac2 = 6" "build_rks_boarddata serial mac1 mac2 model customer = Inr r"
  shows "bslice r 0 4 = le_bytes 4 RKS_BD_MAGIC" "rks_cksum r = Inr (le_int (bslice r 4 6))"
    and "bslice r 0x58 0x5E = mac1" "bslice r 0x5E 0x64 = mac2" "bslice r 0x7E 0x84 = mac1"
    and "bslice r 0x08 0x18 = text_field 16 15 serial" "bslice r 0x9C 0xBC = text_field 32 31 serial"
    and "bslice r 0x18 0x38 = text_field 32 31 customer" "bslice r 0x38 0x48 = text_field 16 15 model"
    and "bslice r 0x7C 0x7E = le_bytes 2 2" "bslice r 0x90 0x94 = le_bytes 4 RKS_BOOTREC_MAGIC"
proof -
  from build_rks_boarddata_ok [OF assms(1,2), of serial model customer] assms(3)
  have r: "bslice r c d = bslice (rks_fields serial mac1 mac2 model customer) c d" if "d \<le> 4 \<or> 6 \<le> c" for c d
    using that by auto
  from build_rks_boarddata_ok [OF assms(1,2), of serial model customer] assms(3)
  show "rks_cksum r = Inr (le_int (bslice r 4 6))" by auto
  note reads = rks_fields_read [OF assms(1,2) refl, of serial model customer]
    rks_fields_text [OF assms(1,2) refl, of serial model customer]
  show "bslice r 0 4 = le_bytes 4 RKS_BD_MAGIC"
    and "bslice r 0x58 0x5E = mac1" "bslice r 0x5E 0x64 = mac2" "bslice r 0x7E 0x84 = mac1"
    and "bslice r 0x08 0x18 = text_field 16 15 serial" "bslice r 0x9C 0xBC = text_field 32 31 serial"
    and "bslice r 0x18 0x38 = text_field 32 31 customer" "bslice r 0x38 0x48 = text_field 16 15 model"
    and "bslice r 0x7C 0x7E = le_bytes 2 2" "bslice r 0x90 0x94 = le_bytes 4 RKS_BOOTREC_MAGIC"
    using reads by (simp_all add: r)
qed

text \<open>The second MAC of an identity that was accepted.\<close>

lemma identity_mac_successor:
  assumes "parse_mac v = Inr mac"
  shows "bd_parse_mac v = Inr mac \<and> be_int (mac_plus_one mac) = be_int mac + 1 \<and>
    local_unicast (mac_plus_one mac ! 0)"
proof -
  have valid: "length mac = 6" "be_int mac + 1 < 256 ^ 6" "local_unicast (be_bytes 6 (be_int mac + 1) ! 0)"
    using parse_mac_valid [OF assms] by (auto simp: valid_mac_def)
  have "mapE parse_octet (split_on CHR '':'' v) = Inr mac"
    using assms by (auto simp: parse_mac_def Let_def bindE_Inr_iff parse_octets_def split: if_splits sum.splits)
  then have p: "bd_parse_mac v = Inr mac" using valid(1) by (simp add: bd_parse_mac_def)
  have nn: "0 \<le> be_int mac + 1" using be_int_bounds [of mac] by simp
  have b: "be_int (mac_plus_one mac) = be_int mac + 1"
    using be_int_mac_plus_one [OF valid(1)] valid(2) nn by simp
  have "mac_plus_one mac = be_bytes 6 (be_int (mac_plus_one mac))"
    by (rule be_bytes_be_int [symmetric]) (simp add: mac_plus_one_def)
  with b valid(3) p show ?thesis by simp
qed

section \<open>Properties\<close>

text \<open>
  For any serial, model and customer strings and two six-byte MACs the record is built, is 0xD0 bytes
  long, and verifies: its checksum field is the sum of all its bytes with that field zeroed, which never
  needs the 16-bit mask; magic and revision are those the kernel expects.
\<close>

theorem rks_record_verifies:
  assumes "length mac1 = 6" "length mac2 = 6"
  shows "\<exists>r. build_rks_boarddata serial mac1 mac2 model customer = Inr r \<and> length r = 0xD0 \<and>
    rks_cksum r = Inr (le_int (bslice r 4 6)) \<and>
    le_int (bslice r 4 6) = sum_list (map uint (bassign r 4 6 [0, 0])) \<and>
    le_int (bslice r 0 4) = 0x52434B53 \<and> le_int (bslice r 6 8) = 4"
proof -
  obtain r ck where r: "build_rks_boarddata serial mac1 mac2 model customer = Inr r"
    "length r = RKS_STRUCT_SIZE" "rks_cksum r = Inr ck" "le_int (bslice r 4 6) = ck"
    "\<And>c d. d \<le> 4 \<or> 6 \<le> c \<Longrightarrow> bslice r c d = bslice (rks_fields serial mac1 mac2 model customer) c d"
    using build_rks_boarddata_ok [OF assms] by metis
  moreover have "ck = sum_list (map uint (bassign r 4 6 [0, 0]))"
    using rks_cksum_exact [OF r(2)] r(3) by simp
  moreover have "bslice r 0 4 = le_bytes 4 RKS_BD_MAGIC" "bslice r 6 8 = le_bytes 2 RKS_BD_REV"
    using r(5) rks_fields_read(1,2) [OF assms refl] by simp_all
  ultimately show ?thesis
    by (simp add: RKS_STRUCT_SIZE_def le_int_le_bytes RKS_BD_MAGIC_def RKS_BD_REV_def)
qed

theorem rks_record_verifies_witness:
  "\<exists>r. build_rks_boarddata ''42'' [2, 0, 0, 0, 0, 1] [2, 0, 0, 0, 0, 2] ''ZD1200'' ''ruckus'' = Inr r \<and>
     rks_cksum r = Inr (le_int (bslice r 4 6))"
  using rks_record_verifies [of "[2, 0, 0, 0, 0, 1]" "[2, 0, 0, 0, 0, 2]" "''42''" "''ZD1200''" "''ruckus''"] by auto

text \<open>
  The record read at its documented offsets gives back what was put in: both MACs (MAC1 twice), the
  serial in both of its fields, model and customer as cut, zero-terminated texts, the MAC count and the
  boot record magic; no field's write spills into another.
\<close>

theorem rks_record_fields:
  assumes "length mac1 = 6" "length mac2 = 6"
    and "build_rks_boarddata serial mac1 mac2 model customer = Inr r"
  shows "bslice r 0x58 0x5E = mac1 \<and> bslice r 0x5E 0x64 = mac2 \<and> bslice r 0x7E 0x84 = mac1 \<and>
    bslice r 0x08 0x18 = text_field 16 15 serial \<and> bslice r 0x9C 0xBC = text_field 32 31 serial \<and>
    bslice r 0x18 0x38 = text_field 32 31 customer \<and> bslice r 0x38 0x48 = text_field 16 15 model \<and>
    le_int (bslice r 0x7C 0x7E) = 2 \<and> le_int (bslice r 0x90 0x94) = 0x524B4254"
  using rks_record_reads [OF assms] by (simp add: le_int_le_bytes RKS_BOOTREC_MAGIC_def)

theorem rks_record_fields_witness:
  "\<exists>r. build_rks_boarddata ''42'' [2, 0, 0, 0, 0, 1] [2, 0, 0, 0, 0, 2] ''ZD1200'' ''ruckus'' = Inr r \<and>
     bslice r 0x5E 0x64 = [2, 0, 0, 0, 0, 2] \<and> bslice r 0x08 0x18 = [0x34, 0x32] @ replicate 14 0"
proof -
  have l: "length [2, 0, 0, 0, 0, 1 :: byte] = 6" "length [2, 0, 0, 0, 0, 2 :: byte] = 6" by simp_all
  obtain r where r: "build_rks_boarddata ''42'' [2, 0, 0, 0, 0, 1] [2, 0, 0, 0, 0, 2] ''ZD1200'' ''ruckus'' = Inr r"
    using build_rks_boarddata_ok [OF l] by blast
  moreover have "text_field 16 15 ''42'' = [0x34, 0x32] @ replicate 14 0" by code_simp
  ultimately show ?thesis using rks_record_fields [OF l r] by auto
qed

text \<open>
  Run on an existing image with a well-formed MAC, the program succeeds, both records are read back
  whole at their sectors (0 and 64 past the region start), and every other byte of the image is as
  before.
\<close>

theorem boarddata_main_writes:
  assumes "bd_parse_mac mac = Inr mac1" "platform \<in> {0, 1}"
  shows "\<exists>d' r. boarddata_main serial mac model customer platform (Some d) = Inr d' \<and>
    build_rks_boarddata serial mac1 (mac_plus_one mac1) model customer = Inr r \<and>
    disk_read (boarddata_region platform * 512) 0x80 d' = build_ar531x_boarddata mac1 (mac_plus_one mac1) model \<and>
    disk_read ((boarddata_region platform + 64) * 512) 0xD0 d' = r \<and>
    (\<forall>i. \<not> (boarddata_region platform * 512 \<le> i \<and> i < boarddata_region platform * 512 + 0x80) \<longrightarrow>
         \<not> ((boarddata_region platform + 64) * 512 \<le> i \<and> i < (boarddata_region platform + 64) * 512 + 0xD0) \<longrightarrow>
         dk_byte d' i = dk_byte d i)"
proof -
  have l1: "length mac1 = 6" using assms(1) by (auto simp: bd_parse_mac_def bindE_Inr_iff)
  have l2: "length (mac_plus_one mac1) = 6" by (simp add: mac_plus_one_def)
  obtain r where r: "build_rks_boarddata serial mac1 (mac_plus_one mac1) model customer = Inr r"
    "length r = RKS_STRUCT_SIZE" using build_rks_boarddata_ok [OF l1 l2] by blast
  let ?a = "build_ar531x_boarddata mac1 (mac_plus_one mac1) model"
  have la: "length ?a = 0x80" using ar531x_read(1) [OF l1 l2 refl] by (simp add: AR531X_STRUCT_SIZE_def)
  let ?o = "boarddata_region platform * 512" and ?k = "(boarddata_region platform + 64) * 512"
  let ?d = "disk_write ?k r (disk_write ?o ?a d)"
  have "boarddata_main serial mac model customer platform (Some d) = Inr ?d"
    using assms r(1) by (auto simp: boarddata_main_def Let_def RKS_BD_OFFSET_def SECTOR_def)
  moreover have "disk_read ?o (length ?a) ?d = ?a" by (rule dk.read_second) (simp add: la)
  moreover have "disk_read ?k (length r) ?d = r" by (rule dk.read_back)
  moreover have "\<forall>i. \<not> (?o \<le> i \<and> i < ?o + 0x80) \<longrightarrow> \<not> (?k \<le> i \<and> i < ?k + 0xD0) \<longrightarrow> dk_byte ?d i = dk_byte d i"
    using la r(2) by (simp add: dk.byte_at_wr RKS_STRUCT_SIZE_def)
  ultimately show ?thesis using r la by (auto simp: RKS_STRUCT_SIZE_def)
qed

theorem boarddata_main_writes_witness:
  "\<exists>d' r. boarddata_main ''42'' ''02:00:00:00:00:ff'' ''ZD1200'' ''ruckus'' 1 (Some (blank_disk 2147483648)) = Inr d' \<and>
     disk_read ((boarddata_region 1 + 64) * 512) 0xD0 d' = r \<and> length r = 0xD0 \<and> dk_byte d' 0 = 0"
proof -
  have p: "bd_parse_mac ''02:00:00:00:00:ff'' = Inr [2, 0, 0, 0, 0, 0xFF]" by code_simp
  have one: "(1::nat) \<in> {0, 1}" by simp
  from boarddata_main_writes [OF p one, of "''42''" "''ZD1200''" "''ruckus''" "blank_disk 2147483648"]
  obtain d' r where d: "boarddata_main ''42'' ''02:00:00:00:00:ff'' ''ZD1200'' ''ruckus'' 1 (Some (blank_disk 2147483648)) = Inr d'"
    "disk_read ((boarddata_region 1 + 64) * 512) 0xD0 d' = r"
    "\<forall>i. \<not> (boarddata_region 1 * 512 \<le> i \<and> i < boarddata_region 1 * 512 + 0x80) \<longrightarrow>
         \<not> ((boarddata_region 1 + 64) * 512 \<le> i \<and> i < (boarddata_region 1 + 64) * 512 + 0xD0) \<longrightarrow>
         dk_byte d' i = dk_byte (blank_disk 2147483648) i" by blast
  have "dk_byte d' 0 = 0"
    using d(3) [rule_format, of 0] by (simp add: boarddata_region_def REGION2_START_def blank_disk_def)
  moreover have "length r = 0xD0" using d(2) by (auto simp: disk_read_def)
  ultimately show ?thesis using d(1,2) by blast
qed

text \<open>
  The two programs agree on a MAC the identity tool accepts: the board-data writer parses the same
  octets, and the second MAC it derives is their successor without wrapping around, again locally
  administered and unicast.
\<close>

theorem identity_mac_gives_valid_mac2:
  assumes "parse_mac v = Inr mac"
  shows "bd_parse_mac v = Inr mac \<and> be_int (mac_plus_one mac) = be_int mac + 1 \<and>
    local_unicast (mac_plus_one mac ! 0)"
  using assms by (rule identity_mac_successor)

theorem identity_mac_gives_valid_mac2_witness:
  "parse_mac ''02:00:00:00:00:ff'' = Inr [2, 0, 0, 0, 0, 0xFF] \<and>
   be_int (mac_plus_one [2, 0, 0, 0, 0, 0xFF]) = 2 * 256 ^ 5 + 256"
proof -
  have p: "parse_mac ''02:00:00:00:00:ff'' = Inr [2, 0, 0, 0, 0, 0xFF]" by code_simp
  from identity_mac_gives_valid_mac2 [OF p] p show ?thesis by (simp add: be_int_def)
qed

text \<open>
  The writer's own default MAC is a group address: the identity tool rejects it.
\<close>

theorem default_mac_is_not_unicast:
  "bd_parse_mac ''01:01:01:01:01:02'' = Inr [1, 1, 1, 1, 1, 2] \<and>
   parse_mac ''01:01:01:01:01:02'' = Inl (ValueError ''MAC must be a locally administered unicast address'')"
  by code_simp

end
