(* ===== verification/SyntheticCf.thy ===== *)
theory SyntheticCf
imports ByteCodec DiskImage
begin

text \<open>
  \<open>make-synthetic-cf.py\<close>: the partition layout computed from the size of the root file
  system, the partition table, and the writes that fill the blank image.  \<open>decompress\<close> stands
  for \<open>gzip.decompress\<close> (\<open>None\<close> when it raises).
\<close>

definition CF_SECTOR :: nat where "CF_SECTOR = 512"
definition DISK_SIZE :: nat where "DISK_SIZE = 2 * 1024 * 1024 * 1024"
definition ALIGN_SECTORS :: nat where "ALIGN_SECTORS = 16 * 1024 * 1024 div CF_SECTOR"

section \<open>The layout\<close>

record cf_layout =
  p1_start :: nat
  p2_start :: nat
  p2_sectors :: nat
  p3_start :: nat
  p4_start :: nat
  p4_sectors :: int

definition P1_SECTORS :: nat where "P1_SECTORS = 327680"
definition P3_SECTORS :: nat where "P3_SECTORS = 327680"

definition cf_layout_of :: "nat \<Rightarrow> cf_layout" where
  "cf_layout_of rootfs_length =
     (let p1 = 2048;
          p2 = p1 + P1_SECTORS;
          rootfs_sectors = (rootfs_length + CF_SECTOR - 1) div CF_SECTOR;
          p2_count = ((rootfs_sectors + ALIGN_SECTORS - 1) div ALIGN_SECTORS) * ALIGN_SECTORS;
          p3 = p2 + p2_count;
          p4 = p3 + P3_SECTORS
      in \<lparr>p1_start = p1, p2_start = p2, p2_sectors = p2_count, p3_start = p3, p4_start = p4,
          p4_sectors = int (DISK_SIZE div CF_SECTOR) - int p4\<rparr>)"

section \<open>The partition table\<close>

definition mbr_entry :: "bytes \<Rightarrow> nat \<Rightarrow> byte \<times> byte \<times> nat \<times> nat \<Rightarrow> bytes" where
  "mbr_entry mbr index entry =
     (case entry of (boot, part_type, start, count) \<Rightarrow>
        let offset = 446 + index * 16;
            mbr = mbr[offset := boot];
            mbr = bassign mbr (offset + 1) (offset + 4) [0xFE, 0xFF, 0xFF];
            mbr = mbr[offset + 4 := part_type];
            mbr = bassign mbr (offset + 5) (offset + 8) [0xFE, 0xFF, 0xFF]
        in bassign mbr (offset + 8) (offset + 16) (le_bytes 4 (int start) @ le_bytes 4 (int count)))"

fun mbr_entries :: "bytes \<Rightarrow> nat \<Rightarrow> (byte \<times> byte \<times> nat \<times> nat) list \<Rightarrow> bytes" where
  "mbr_entries mbr index [] = mbr"
| "mbr_entries mbr index (e # es) = mbr_entries (mbr_entry mbr index e) (index + 1) es"

definition cf_entries :: "cf_layout \<Rightarrow> (byte \<times> byte \<times> nat \<times> nat) list" where
  "cf_entries l =
     [(0x00, 0x83, p1_start l, P1_SECTORS), (0x80, 0x83, p2_start l, p2_sectors l),
      (0x00, 0x83, p3_start l, P3_SECTORS), (0x00, 0x83, p4_start l, nat (p4_sectors l))]"

definition cf_mbr :: "cf_layout \<Rightarrow> bytes" where
  "cf_mbr l = bassign (mbr_entries (replicate CF_SECTOR 0) 0 (cf_entries l)) 510 512 [0x55, 0xAA]"

section \<open>The writes\<close>

definition BASE_SECTOR :: nat where "BASE_SECTOR = 0x3BD3F1"

definition SIGNATURE_DELTAS :: "nat list" where
  "SIGNATURE_DELTAS = [16, 32, 64, 128, 0x8000 div 9, 0x8000 div 10, 0x8000 div 11, 0x8000 div 12]"

definition SKCR :: bytes where "SKCR = [0x53, 0x4B, 0x43, 0x52]"
definition BD1135 :: bytes where "BD1135 = [0x31, 0x31, 0x33, 0x35]"

definition write_sectors :: "bytes \<Rightarrow> nat list \<Rightarrow> disk \<Rightarrow> disk" where
  "write_sectors data sectors d = fold (\<lambda>s. disk_write (s * CF_SECTOR) data) sectors d"

definition cf_disk :: "cf_layout \<Rightarrow> bytes \<Rightarrow> disk" where
  "cf_disk l data =
     (let d = blank_disk DISK_SIZE;
          d = disk_write 0 (cf_mbr l) d;
          d = write_sectors data [p1_start l, p2_start l, p3_start l, p4_start l] d;
          d = write_sectors SKCR (map (\<lambda>delta. BASE_SECTOR + delta) SIGNATURE_DELTAS) d
      in disk_write (BASE_SECTOR * CF_SECTOR) BD1135 d)"

definition rootfs_bytes :: "(bytes \<Rightarrow> bytes option) \<Rightarrow> bytes \<Rightarrow> bytes result" where
  "rootfs_bytes decompress file =
     (if take 3 file = [0x1F, 0x8B, 0x08] then
        (case decompress file of None \<Rightarrow> Inl (OSError ''gzip'') | Some data \<Rightarrow> Inr data)
      else Inr file)"

definition make_synthetic_cf :: "(bytes \<Rightarrow> bytes option) \<Rightarrow> bytes \<Rightarrow> disk result" where
  "make_synthetic_cf decompress file =
     bindE (rootfs_bytes decompress file) (\<lambda>data.
       let l = cf_layout_of (length data)
       in if p4_sectors l \<le> 0 then Inl (SystemExit ''rootfs leaves no writable synthetic CF partition'')
          else Inr (cf_disk l data))"

section \<open>Lemmas on the layout\<close>

lemma round_up_div:
  assumes "0 < (m::nat)"
  shows "n \<le> ((n + m - 1) div m) * m" "((n + m - 1) div m) * m < n + m"
proof -
  have e: "((n + m - 1) div m) * m + (n + m - 1) mod m = n + m - 1" by (rule div_mult_mod_eq)
  have "(n + m - 1) mod m < m" using assms by simp
  with e assms show "n \<le> ((n + m - 1) div m) * m" by linarith
  from e assms show "((n + m - 1) div m) * m < n + m" by linarith
qed

lemma cf_layout_fits:
  assumes "l = cf_layout_of n"
  shows "n \<le> p2_sectors l * CF_SECTOR" "p2_start l = p1_start l + P1_SECTORS"
    and "p3_start l = p2_start l + p2_sectors l" "p4_start l = p3_start l + P3_SECTORS" "p1_start l = 2048"
    and "ALIGN_SECTORS dvd p2_sectors l" "int (p4_start l) + p4_sectors l = int (DISK_SIZE div CF_SECTOR)"
proof -
  let ?r = "(n + CF_SECTOR - 1) div CF_SECTOR"
  have "n \<le> ?r * CF_SECTOR" by (rule round_up_div) (simp add: CF_SECTOR_def)
  moreover have "?r \<le> ((?r + ALIGN_SECTORS - 1) div ALIGN_SECTORS) * ALIGN_SECTORS"
    by (rule round_up_div) (simp add: ALIGN_SECTORS_def CF_SECTOR_def)
  then have "?r * CF_SECTOR \<le> ((?r + ALIGN_SECTORS - 1) div ALIGN_SECTORS) * ALIGN_SECTORS * CF_SECTOR"
    by (rule mult_le_mono1)
  ultimately have "n \<le> ((?r + ALIGN_SECTORS - 1) div ALIGN_SECTORS) * ALIGN_SECTORS * CF_SECTOR"
    by (rule order.trans)
  then show "n \<le> p2_sectors l * CF_SECTOR" unfolding assms cf_layout_of_def Let_def by simp
qed (simp_all add: assms cf_layout_of_def Let_def)

section \<open>Lemmas on the writes\<close>

lemma byte_write_sectors_outside:
  "\<forall>s \<in> set sectors. i < s * CF_SECTOR \<or> s * CF_SECTOR + length data \<le> i \<Longrightarrow>
   dk_byte (write_sectors data sectors d) i = dk_byte d i"
  unfolding write_sectors_def by (induction sectors arbitrary: d) (auto simp: dk.byte_at_wr)

lemma byte_write_sectors_inside:
  assumes "length data \<le> CF_SECTOR" "s \<in> set sectors" "k < length data"
  shows "dk_byte (write_sectors data sectors d) (s * CF_SECTOR + k) = data ! k"
  using assms(2)
proof (induction sectors arbitrary: d)
  case (Cons t sectors)
  show ?case
  proof (cases "s \<in> set sectors")
    case True
    with Cons.IH show ?thesis by (simp add: write_sectors_def)
  next
    case False
    with Cons.prems have t: "t = s" by simp
    have "\<forall>u \<in> set sectors. s * CF_SECTOR + k < u * CF_SECTOR \<or> u * CF_SECTOR + length data \<le> s * CF_SECTOR + k"
    proof
      fix u assume "u \<in> set sectors"
      with False have "u < s \<or> s < u" by (metis linorder_neqE_nat)
      then have "(u + 1) * CF_SECTOR \<le> s * CF_SECTOR \<or> (s + 1) * CF_SECTOR \<le> u * CF_SECTOR"
        by (metis Suc_eq_plus1 Suc_leI mult_le_mono1)
      with assms(1,3) show "s * CF_SECTOR + k < u * CF_SECTOR \<or> u * CF_SECTOR + length data \<le> s * CF_SECTOR + k"
        by auto
    qed
    from byte_write_sectors_outside [OF this] assms(3)
    have "dk_byte (write_sectors data sectors (disk_write (s * CF_SECTOR) data d)) (s * CF_SECTOR + k) = data ! k"
      by (simp add: dk.byte_at_wr)
    then show ?thesis by (simp add: write_sectors_def t)
  qed
qed simp

text \<open>Where the fixed signatures lie: the region of the board data, near the end of the disk.\<close>

lemma signature_sectors:
  "s \<in> set (BASE_SECTOR # map (\<lambda>delta. BASE_SECTOR + delta) SIGNATURE_DELTAS) \<Longrightarrow>
   BASE_SECTOR \<le> s \<and> s \<le> BASE_SECTOR + 3640"
  by (auto simp: SIGNATURE_DELTAS_def)

lemma byte_before_signatures:
  assumes "i < BASE_SECTOR * CF_SECTOR"
  shows "dk_byte (disk_write (BASE_SECTOR * CF_SECTOR) BD1135
    (write_sectors SKCR (map (\<lambda>delta. BASE_SECTOR + delta) SIGNATURE_DELTAS) d)) i = dk_byte d i"
proof -
  have "\<forall>s \<in> set (map (\<lambda>delta. BASE_SECTOR + delta) SIGNATURE_DELTAS).
      i < s * CF_SECTOR \<or> s * CF_SECTOR + length SKCR \<le> i"
  proof
    fix s assume "s \<in> set (map (\<lambda>delta. BASE_SECTOR + delta) SIGNATURE_DELTAS)"
    then have "BASE_SECTOR * CF_SECTOR \<le> s * CF_SECTOR" by (auto intro: mult_le_mono1)
    with assms show "i < s * CF_SECTOR \<or> s * CF_SECTOR + length SKCR \<le> i" by linarith
  qed
  from byte_write_sectors_outside [OF this] assms show ?thesis by (simp add: dk.byte_at_wr)
qed


text \<open>The MBR, entry by entry.\<close>

lemma length_mbr_entry: "index < 4 \<Longrightarrow> length mbr = 512 \<Longrightarrow> length (mbr_entry mbr index e) = 512"
  by (cases e) (simp add: mbr_entry_def Let_def length_bassign)

lemma bslice_update_outside: "i < c \<or> d \<le> i \<Longrightarrow> bslice (b[i := v]) c d = bslice b c d"
  by (rule nth_equalityI) (auto simp: bslice_def nth_list_update)

lemma mbr_entry_read:
  assumes "index < 4" "length mbr = 512"
  shows "bslice (mbr_entry mbr index (boot, kind, start, count)) (446 + index * 16 + 8) (446 + index * 16 + 16) =
      le_bytes 4 (int start) @ le_bytes 4 (int count)"
  using assms by (simp add: mbr_entry_def Let_def bslice_bassign_same length_bassign)

lemma mbr_entry_other:
  assumes "index < 4" "length mbr = 512" "d \<le> 446 + index * 16 \<or> 446 + index * 16 + 16 \<le> c"
  shows "bslice (mbr_entry mbr index e) c d = bslice mbr c d"
  using assms
  by (cases e) (auto simp: mbr_entry_def Let_def bslice_bassign_disjoint length_bassign bslice_update_outside)

lemma mbr_entries_before:
  "length mbr = 512 \<Longrightarrow> index + length es \<le> 4 \<Longrightarrow>
   length (mbr_entries mbr index es) = 512 \<and>
   (\<forall>c d. d \<le> 446 + index * 16 \<longrightarrow> bslice (mbr_entries mbr index es) c d = bslice mbr c d)"
proof (induction es arbitrary: mbr index)
  case (Cons e es)
  then have i: "index < 4" by simp
  note l = length_mbr_entry [OF i Cons.prems(1), of e]
  have "index + 1 + length es \<le> 4" using Cons.prems(2) by simp
  from Cons.IH [OF l this] mbr_entry_other [OF i Cons.prems(1)] show ?case by simp
qed simp

lemma mbr_entries_read:
  "length mbr = 512 \<Longrightarrow> index + length es \<le> 4 \<Longrightarrow> i < length es \<Longrightarrow> es ! i = (boot, kind, start, count) \<Longrightarrow>
   bslice (mbr_entries mbr index es) (446 + (index + i) * 16 + 8) (446 + (index + i) * 16 + 16) =
     le_bytes 4 (int start) @ le_bytes 4 (int count)"
proof (induction es arbitrary: mbr index i)
  case (Cons e es)
  then have i: "index < 4" by simp
  note l = length_mbr_entry [OF i Cons.prems(1), of e]
  have n: "index + 1 + length es \<le> 4" using Cons.prems(2) by simp
  show ?case
  proof (cases i)
    case 0
    with mbr_entries_before [OF l n] mbr_entry_read [OF i Cons.prems(1)] Cons.prems(4)
    show ?thesis by simp
  next
    case (Suc j)
    with Cons.IH [OF l n, of j] Cons.prems(3,4) show ?thesis by simp
  qed
qed simp

lemma cf_mbr_entry:
  assumes "i < 4" "cf_entries l ! i = (boot, kind, start, count)"
  shows "length (cf_mbr l) = 512 \<and> bslice (cf_mbr l) 510 512 = [0x55, 0xAA] \<and>
    bslice (cf_mbr l) (446 + i * 16 + 8) (446 + i * 16 + 16) = le_bytes 4 (int start) @ le_bytes 4 (int count)"
proof -
  let ?m = "mbr_entries (replicate 512 0) 0 (cf_entries l)"
  have len: "length (cf_entries l) = 4" by (simp add: cf_entries_def)
  have "length ?m = 512" using mbr_entries_before [of "replicate 512 0" 0 "cf_entries l"] len by simp
  moreover have "cf_mbr l = bassign ?m 510 512 [0x55, 0xAA]" by (simp add: cf_mbr_def CF_SECTOR_def)
  moreover have "bslice ?m (446 + i * 16 + 8) (446 + i * 16 + 16) = le_bytes 4 (int start) @ le_bytes 4 (int count)"
    using mbr_entries_read [of "replicate 512 0" 0 "cf_entries l" i] len assms by simp
  ultimately show ?thesis
    using assms(1) by (simp add: length_bassign bslice_bassign_same bslice_bassign_disjoint)
qed

lemma cf_mbr_reads:
  "length (cf_mbr l) = 512" "bslice (cf_mbr l) 510 512 = [0x55, 0xAA]"
  "i < 4 \<Longrightarrow> bslice (cf_mbr l) (446 + i * 16 + 8) (446 + i * 16 + 16) =
     le_bytes 4 (int (fst (snd (snd (cf_entries l ! i))))) @ le_bytes 4 (int (snd (snd (snd (cf_entries l ! i)))))"
proof -
  have e: "cf_entries l ! j = (fst (cf_entries l ! j), fst (snd (cf_entries l ! j)),
      fst (snd (snd (cf_entries l ! j))), snd (snd (snd (cf_entries l ! j))))" for j
    by simp
  from cf_mbr_entry [OF _ e, of 0] show "length (cf_mbr l) = 512" "bslice (cf_mbr l) 510 512 = [0x55, 0xAA]"
    by auto
  show "bslice (cf_mbr l) (446 + i * 16 + 8) (446 + i * 16 + 16) =
     le_bytes 4 (int (fst (snd (snd (cf_entries l ! i))))) @ le_bytes 4 (int (snd (snd (snd (cf_entries l ! i)))))"
    if "i < 4" using cf_mbr_entry [OF that e] by blast
qed

section \<open>Properties\<close>

lemma make_synthetic_cf_Inr:
  assumes "make_synthetic_cf decompress file = Inr d"
  obtains data l where "rootfs_bytes decompress file = Inr data" "l = cf_layout_of (length data)"
    "0 < p4_sectors l" "d = cf_disk l data"
  using assms by (auto simp: make_synthetic_cf_def bindE_Inr_iff Let_def split: if_splits)

lemma layout_bounds:
  assumes "l = cf_layout_of n" "0 < p4_sectors l"
  shows "p1_start l = 2048" "p2_start l = 329728" "p4_start l < 4194304"
    and "p3_start l = p2_start l + p2_sectors l" "p3_start l + 327680 = p4_start l"
    and "n \<le> p2_sectors l * 512"
  using cf_layout_fits [OF assms(1)] assms(2)
  by (simp_all add: P1_SECTORS_def P3_SECTORS_def DISK_SIZE_def CF_SECTOR_def)

text \<open>
  C37. The layout is sound whenever it is accepted: the four partitions follow each other without a gap
  from sector 2048 to the end of the disk, the second is a multiple of 16 MiB large enough for the root
  file system and less than 16 MiB and one sector larger, and none is empty but a second one for an empty
  file system.
\<close>

theorem cf_layout_sound:
  assumes "l = cf_layout_of n" "0 < p4_sectors l"
  shows "p2_start l = p1_start l + P1_SECTORS \<and> p3_start l = p2_start l + p2_sectors l \<and>
    p4_start l = p3_start l + P3_SECTORS \<and> p4_start l + nat (p4_sectors l) = DISK_SIZE div CF_SECTOR \<and>
    p1_start l = 2048 \<and> 32768 dvd p2_sectors l \<and> n \<le> p2_sectors l * 512 \<and>
    p2_sectors l * 512 < n + 512 * 32769 \<and> (p2_sectors l = 0 \<longrightarrow> n = 0)"
proof -
  note f = cf_layout_fits [OF assms(1)]
  let ?r = "(n + CF_SECTOR - 1) div CF_SECTOR"
  have "?r * 512 < n + 512" using round_up_div(2) [of CF_SECTOR n] by (simp add: CF_SECTOR_def)
  moreover have "p2_sectors l < ?r + 32768"
    using round_up_div(2) [of ALIGN_SECTORS ?r] assms(1)
    by (simp add: cf_layout_of_def Let_def ALIGN_SECTORS_def CF_SECTOR_def)
  ultimately have "p2_sectors l * 512 < n + 512 * 32769" by linarith
  moreover have "p4_start l + nat (p4_sectors l) = DISK_SIZE div CF_SECTOR" using f(7) assms(2) by linarith
  ultimately show ?thesis using f by (auto simp: ALIGN_SECTORS_def CF_SECTOR_def)
qed

theorem cf_layout_sound_witness:
  "0 < p4_sectors (cf_layout_of 182452224) \<and> p2_sectors (cf_layout_of 182452224) = 360448 \<and>
   p4_start (cf_layout_of 182452224) = 1017856 \<and> 182452224 \<le> p2_sectors (cf_layout_of 182452224) * 512"
proof -
  have p: "0 < p4_sectors (cf_layout_of 182452224)" "p2_sectors (cf_layout_of 182452224) = 360448"
    "p4_start (cf_layout_of 182452224) = 1017856"
    by (simp_all add: cf_layout_of_def Let_def CF_SECTOR_def ALIGN_SECTORS_def DISK_SIZE_def P1_SECTORS_def P3_SECTORS_def)
  from cf_layout_sound [OF refl p(1)] p show ?thesis by simp
qed

text \<open>
  C36. In the finished image the boot partition holds the whole root file system, untouched by the other
  copies and the board-data signatures; every partition entry of the boot record reads back its start
  and length; and the record carries its signature.
\<close>

theorem synthetic_cf_contents:
  assumes "make_synthetic_cf decompress file = Inr d"
  shows "\<exists>data l. rootfs_bytes decompress file = Inr data \<and> l = cf_layout_of (length data) \<and>
    disk_read (p2_start l * 512) (length data) d = data \<and> disk_read 0 512 d = cf_mbr l \<and>
    bslice (cf_mbr l) 510 512 = [0x55, 0xAA] \<and>
    (\<forall>i < 4. bslice (cf_mbr l) (446 + i * 16 + 8) (446 + i * 16 + 16) =
       le_bytes 4 (int (fst (snd (snd (cf_entries l ! i))))) @ le_bytes 4 (int (snd (snd (snd (cf_entries l ! i))))))"
proof -
  from assms obtain data l where c: "rootfs_bytes decompress file = Inr data" "l = cf_layout_of (length data)"
    "0 < p4_sectors l" "d = cf_disk l data" by (rule make_synthetic_cf_Inr)
  note b = layout_bounds [OF c(2,3)]
  have mbr: "length (cf_mbr l) = 512" "bslice (cf_mbr l) 510 512 = [0x55, 0xAA]"
    "\<forall>i < 4. bslice (cf_mbr l) (446 + i * 16 + 8) (446 + i * 16 + 16) =
       le_bytes 4 (int (fst (snd (snd (cf_entries l ! i))))) @ le_bytes 4 (int (snd (snd (snd (cf_entries l ! i)))))"
    using cf_mbr_reads by blast+
  have early: "dk_byte d i = dk_byte (write_sectors data [p1_start l, p2_start l, p3_start l, p4_start l]
      (disk_write 0 (cf_mbr l) (blank_disk DISK_SIZE))) i" if "i < BASE_SECTOR * CF_SECTOR" for i
    using byte_before_signatures [OF that] by (simp add: c(4) cf_disk_def Let_def)
  have base: "BASE_SECTOR * CF_SECTOR = 2007491072" by (simp add: BASE_SECTOR_def CF_SECTOR_def)
  have "dk_byte d i = cf_mbr l ! i" if i: "i < 512" for i
    using early [of i] i b(1-5) base mbr(1)
    by (simp add: byte_write_sectors_outside CF_SECTOR_def dk.byte_at_wr)
  then have m: "disk_read 0 512 d = cf_mbr l"
    by (intro nth_equalityI) (simp_all add: dk.rd_length dk.rd_nth mbr(1))
  have "dk_byte d (p2_start l * 512 + k) = data ! k" if k: "k < length data" for k
  proof -
    have lo: "p2_start l * 512 + k < p3_start l * 512" using b(4,6) k by simp
    have "p3_start l * 512 \<le> 2007491072" using b(3,5) by simp
    with lo early [of "p2_start l * 512 + k"] base b k show ?thesis
      by (simp add: write_sectors_def CF_SECTOR_def dk.byte_at_wr)
  qed
  then have "disk_read (p2_start l * 512) (length data) d = data"
    by (intro nth_equalityI) (simp_all add: dk.rd_length dk.rd_nth)
  with c m mbr(2,3) show ?thesis by blast
qed

lemma sample_cf: "\<exists>d. make_synthetic_cf (\<lambda>_. None) [1, 2, 3] = Inr d"
  by (simp add: make_synthetic_cf_def rootfs_bytes_def Let_def cf_layout_of_def CF_SECTOR_def ALIGN_SECTORS_def
      DISK_SIZE_def P1_SECTORS_def P3_SECTORS_def)

theorem synthetic_cf_contents_witness:
  "\<exists>d. make_synthetic_cf (\<lambda>_. None) [1, 2, 3] = Inr d \<and>
     disk_read (p2_start (cf_layout_of 3) * 512) 3 d = [1, 2, 3]"
proof -
  obtain d where d: "make_synthetic_cf (\<lambda>_. None) [1, 2, 3] = Inr d" using sample_cf by blast
  from synthetic_cf_contents [OF d] d show ?thesis by (auto simp: rootfs_bytes_def numeral_3_eq_3)
qed

text \<open>
  The signatures of the board data stand at their fixed sectors, and as long as the fourth partition's
  copy ends before them, the other three partitions hold the root file system too: the first and third
  its first 160 MiB, the size of these partitions, and the writable fourth the whole of it.
\<close>

theorem synthetic_cf_copies:
  assumes "make_synthetic_cf decompress file = Inr d"
  shows "\<exists>data l. rootfs_bytes decompress file = Inr data \<and> l = cf_layout_of (length data) \<and>
    disk_read (BASE_SECTOR * 512) 4 d = BD1135 \<and>
    (\<forall>delta \<in> set SIGNATURE_DELTAS. disk_read ((BASE_SECTOR + delta) * 512) 4 d = SKCR) \<and>
    (p4_start l * 512 + length data \<le> BASE_SECTOR * 512 \<longrightarrow>
       disk_read (p1_start l * 512) (min (length data) 167772160) d = take 167772160 data \<and>
       disk_read (p3_start l * 512) (min (length data) 167772160) d = take 167772160 data \<and>
       disk_read (p4_start l * 512) (length data) d = data)"
proof -
  from assms obtain data l where c: "rootfs_bytes decompress file = Inr data" "l = cf_layout_of (length data)"
    "0 < p4_sectors l" "d = cf_disk l data" by (rule make_synthetic_cf_Inr)
  note b = layout_bounds [OF c(2,3)]
  let ?w = "write_sectors data [p1_start l, p2_start l, p3_start l, p4_start l]
      (disk_write 0 (cf_mbr l) (blank_disk DISK_SIZE))"
  let ?s = "write_sectors SKCR (map (\<lambda>delta. BASE_SECTOR + delta) SIGNATURE_DELTAS) ?w"
  have d: "d = disk_write (BASE_SECTOR * CF_SECTOR) BD1135 ?s" by (simp add: c(4) cf_disk_def Let_def)
  have "disk_read (BASE_SECTOR * 512) (length BD1135) d = BD1135"
    using dk.read_back by (simp add: d CF_SECTOR_def)
  moreover have "length BD1135 = 4" by (simp add: BD1135_def)
  ultimately have base: "disk_read (BASE_SECTOR * 512) 4 d = BD1135" by simp
  have sig: "disk_read ((BASE_SECTOR + delta) * 512) 4 d = SKCR" if delta: "delta \<in> set SIGNATURE_DELTAS" for delta
  proof -
    have pos: "1 \<le> delta" using delta by (auto simp: SIGNATURE_DELTAS_def)
    have "dk_byte d ((BASE_SECTOR + delta) * CF_SECTOR + k) = SKCR ! k" if "k < length SKCR" for k
      using byte_write_sectors_inside [of SKCR "BASE_SECTOR + delta" _ k ?w] delta that pos
      by (simp add: d dk.byte_at_wr CF_SECTOR_def SKCR_def BD1135_def)
    then show ?thesis
      by (intro nth_equalityI) (simp_all add: dk.rd_length dk.rd_nth CF_SECTOR_def SKCR_def)
  qed
  have copies: "disk_read (p1_start l * 512) (min (length data) 167772160) d = take 167772160 data"
    "disk_read (p3_start l * 512) (min (length data) 167772160) d = take 167772160 data"
    "disk_read (p4_start l * 512) (length data) d = data"
    if fit: "p4_start l * 512 + length data \<le> BASE_SECTOR * 512"
  proof -
    have early: "dk_byte d i = dk_byte ?w i" if "i < p4_start l * 512 + length data" for i
      using byte_before_signatures [of i ?w] that fit by (simp add: d CF_SECTOR_def)
    show "disk_read (p1_start l * 512) (min (length data) 167772160) d = take 167772160 data"
      using b by (intro nth_equalityI)
        (auto simp: dk.rd_length dk.rd_nth early write_sectors_def CF_SECTOR_def dk.byte_at_wr)
    show "disk_read (p3_start l * 512) (min (length data) 167772160) d = take 167772160 data"
      using b by (intro nth_equalityI)
        (auto simp: dk.rd_length dk.rd_nth early write_sectors_def CF_SECTOR_def dk.byte_at_wr)
    show "disk_read (p4_start l * 512) (length data) d = data"
      by (intro nth_equalityI)
        (auto simp: dk.rd_length dk.rd_nth early write_sectors_def CF_SECTOR_def dk.byte_at_wr)
  qed
  show ?thesis using c base sig copies by blast
qed

theorem synthetic_cf_copies_witness:
  "\<exists>d. make_synthetic_cf (\<lambda>_. None) [1, 2, 3] = Inr d \<and>
     disk_read (p4_start (cf_layout_of 3) * 512) 3 d = [1, 2, 3] \<and> disk_read (BASE_SECTOR * 512) 4 d = BD1135"
proof -
  obtain d where d: "make_synthetic_cf (\<lambda>_. None) [1, 2, 3] = Inr d" using sample_cf by blast
  have "p4_start (cf_layout_of 3) * 512 + 3 \<le> BASE_SECTOR * 512"
    by (simp add: cf_layout_of_def Let_def CF_SECTOR_def ALIGN_SECTORS_def P1_SECTORS_def P3_SECTORS_def BASE_SECTOR_def)
  with synthetic_cf_copies [OF d] d show ?thesis by (auto simp: rootfs_bytes_def numeral_3_eq_3)
qed

end
