(* ===== verification/Provisioning.thy ===== *)
theory Provisioning
imports BoardData SyntheticCf
begin

text \<open>
  The start of the virtual controller up to the virtual machine, as \<open>run-zd1200-web.sh\<close>
  composes it from three programs: \<open>make-synthetic-cf.py\<close> when the volume holds no disk yet,
  \<open>zd_identity.py\<close> for the identity, and \<open>write-boarddata.py\<close> with that identity.  The
  script runs under \<open>set -e\<close>: the first program that fails ends it, and what the earlier ones
  wrote stays on the volume.
\<close>

section \<open>Arguments\<close>

text \<open>
  Which word after an option \<open>argparse\<close> takes as its value: one that does not start with a
  dash, or is a single dash, or looks like a negative number or holds a space without naming an
  option of the program.
\<close>

definition negative_number :: "string \<Rightarrow> bool" where
  "negative_number v \<longleftrightarrow>
     (case v of
        [] \<Rightarrow> False
      | c # rest \<Rightarrow> c = CHR ''-'' \<and>
          (let w = (if rest \<noteq> [] \<and> last rest = CHR 0x0A then butlast rest else rest)
           in is_digits w \<or>
              (case partition_on CHR ''.'' w of
                 (whole, dot, fraction) \<Rightarrow> dot \<and> list_all is_ascii_digit whole \<and> is_digits fraction)))"

definition names_option :: "string list \<Rightarrow> string \<Rightarrow> bool" where
  "names_option opts v \<longleftrightarrow>
     (if take 2 v = ''--'' then
        list_ex (\<lambda>opt. let name = takeWhile (\<lambda>c. c \<noteq> CHR ''='') v in take (length name) opt = name) opts
      else take 2 v = ''-h'')"

definition option_value :: "string list \<Rightarrow> string \<Rightarrow> bool" where
  "option_value opts v \<longleftrightarrow>
     v = [] \<or> hd v \<noteq> CHR ''-'' \<or> length v = 1 \<or>
     \<not> names_option opts v \<and> (negative_number v \<or> CHR '' '' \<in> set v)"

definition IDENTITY_OPTIONS :: "string list" where
  "IDENTITY_OPTIONS = [''--help'', ''--state-dir'', ''--serial'', ''--mac'']"

definition BOARDDATA_OPTIONS :: "string list" where
  "BOARDDATA_OPTIONS =
     [''--help'', ''--disk'', ''--serial'', ''--mac'', ''--model'', ''--customer'', ''--platform'']"

text \<open>The shell's default for an unset or empty variable.\<close>

definition or_default :: "string \<Rightarrow> string \<Rightarrow> string" where
  "or_default d v = (if v = [] then d else v)"

section \<open>One start\<close>

record volume =
  vl_files :: store
  vl_disk :: "disk option"

text \<open>What a start takes from outside: the environment, randomness and which system calls fail.\<close>

record start_input =
  si_fails :: "id_step \<Rightarrow> bool"
  si_tmp :: path
  si_random_serial :: nat
  si_random_bytes :: bytes
  si_serial :: string
  si_mac :: string
  si_model :: string
  si_customer :: string

definition ensure_disk :: "(bytes \<Rightarrow> bytes option) \<Rightarrow> bytes \<Rightarrow> disk option \<Rightarrow> disk result" where
  "ensure_disk decompress rootfs img =
     (case img of None \<Rightarrow> make_synthetic_cf decompress rootfs | Some d \<Rightarrow> Inr d)"

definition start_identity ::
  "path \<Rightarrow> start_input \<Rightarrow> store \<Rightarrow> (string \<times> string \<times> id_source) result \<times> store" where
  "start_identity p i s =
     (if option_value IDENTITY_OPTIONS (si_serial i) \<and> option_value IDENTITY_OPTIONS (si_mac i) then
        identity_main (si_fails i) (si_tmp i) p (si_random_serial i) (si_random_bytes i) (si_serial i) (si_mac i) s
      else (Inl (SystemExit ''2''), s))"

definition start_boarddata :: "start_input \<Rightarrow> string \<Rightarrow> string \<Rightarrow> disk \<Rightarrow> disk result" where
  "start_boarddata i serial mac d =
     (let model = or_default ''ZD1200'' (si_model i); customer = or_default ''ruckus'' (si_customer i)
      in if list_all (option_value BOARDDATA_OPTIONS) [serial, mac, model, customer] then
           boarddata_main serial mac model customer 1 (Some d)
         else Inl (SystemExit ''2''))"

definition start_controller ::
  "(bytes \<Rightarrow> bytes option) \<Rightarrow> bytes \<Rightarrow> path \<Rightarrow> start_input \<Rightarrow> volume \<Rightarrow>
   (string \<times> string \<times> id_source) result \<times> volume" where
  "start_controller decompress rootfs p i vol =
     (case ensure_disk decompress rootfs (vl_disk vol) of
        Inl e \<Rightarrow> (Inl e, vol)
      | Inr d \<Rightarrow>
          let vol = vol\<lparr>vl_disk := Some d\<rparr>
          in case start_identity p i (vl_files vol) of
               (Inl e, files) \<Rightarrow> (Inl e, vol\<lparr>vl_files := files\<rparr>)
             | (Inr (serial, mac, source), files) \<Rightarrow>
                 let vol = vol\<lparr>vl_files := files\<rparr>
                 in case start_boarddata i serial mac d of
                      Inl e \<Rightarrow> (Inl e, vol)
                    | Inr d' \<Rightarrow> (Inr (serial, mac, source), vol\<lparr>vl_disk := Some d'\<rparr>))"

text \<open>Any number of starts, failed ones included.\<close>

inductive restarted :: "(bytes \<Rightarrow> bytes option) \<Rightarrow> bytes \<Rightarrow> path \<Rightarrow> volume \<Rightarrow> volume \<Rightarrow> bool"
  for decompress rootfs p where
  not_yet: "restarted decompress rootfs p vol vol"
| again: "restarted decompress rootfs p vol vol' \<Longrightarrow>
    start_controller decompress rootfs p i vol' = (r, vol'') \<Longrightarrow> restarted decompress rootfs p vol vol''"

section \<open>The records on the disk\<close>

definition in_boarddata :: "nat \<Rightarrow> bool" where
  "in_boarddata i \<longleftrightarrow>
     (boarddata_region 1 * 512 \<le> i \<and> i < boarddata_region 1 * 512 + 0x80) \<or>
     ((boarddata_region 1 + 64) * 512 \<le> i \<and> i < (boarddata_region 1 + 64) * 512 + 0xD0)"

definition boarddata_end :: nat where
  "boarddata_end = (boarddata_region 1 + 64) * 512 + 0xD0"

text \<open>At most the records differ; an image that holds them keeps its size.\<close>

definition same_outside :: "disk \<Rightarrow> disk \<Rightarrow> bool" where
  "same_outside d d' \<longleftrightarrow>
     (\<forall>i. \<not> in_boarddata i \<longrightarrow> dk_byte d' i = dk_byte d i) \<and>
     (boarddata_end \<le> dk_size d \<longrightarrow> dk_size d' = dk_size d)"

lemma same_outside_refl [simp]: "same_outside d d"
  by (simp add: same_outside_def)

lemma same_outside_trans [trans]: "same_outside a b \<Longrightarrow> same_outside b c \<Longrightarrow> same_outside a c"
  by (simp add: same_outside_def)

lemma boarddata_main_Inr:
  assumes "boarddata_main serial mac model customer 1 (Some d) = Inr d'"
  obtains mac1 r where "bd_parse_mac mac = Inr mac1"
    "build_rks_boarddata serial mac1 (mac_plus_one mac1) model customer = Inr r"
    "d' = disk_write ((boarddata_region 1 + 64) * 512) r
       (disk_write (boarddata_region 1 * 512) (build_ar531x_boarddata mac1 (mac_plus_one mac1) model) d)"
    "length mac1 = 6" "length r = 0xD0"
    "length (build_ar531x_boarddata mac1 (mac_plus_one mac1) model) = 0x80"
proof -
  from assms obtain mac1 r where m: "bd_parse_mac mac = Inr mac1"
    "build_rks_boarddata serial mac1 (mac_plus_one mac1) model customer = Inr r"
    "d' = disk_write ((boarddata_region 1 + 64) * 512) r
       (disk_write (boarddata_region 1 * 512) (build_ar531x_boarddata mac1 (mac_plus_one mac1) model) d)"
    by (auto simp: boarddata_main_def Let_def bindE_Inr_iff RKS_BD_OFFSET_def SECTOR_def)
  have l1: "length mac1 = 6" using m(1) by (auto simp: bd_parse_mac_def bindE_Inr_iff)
  have l2: "length (mac_plus_one mac1) = 6" by (simp add: mac_plus_one_def)
  have "length r = 0xD0"
    using build_rks_boarddata_ok [OF l1 l2, of serial model customer] m(2) by (auto simp: RKS_STRUCT_SIZE_def)
  moreover have "length (build_ar531x_boarddata mac1 (mac_plus_one mac1) model) = 0x80"
    using ar531x_read(1) [OF l1 l2 refl] by (simp add: AR531X_STRUCT_SIZE_def)
  ultimately show thesis using that m l1 by blast
qed

lemma boarddata_main_outside:
  assumes "boarddata_main serial mac model customer 1 (Some d) = Inr d'"
  shows "same_outside d d'"
  using assms
proof (rule boarddata_main_Inr)
  fix mac1 r
  let ?a = "build_ar531x_boarddata mac1 (mac_plus_one mac1) model"
  assume d': "d' = disk_write ((boarddata_region 1 + 64) * 512) r (disk_write (boarddata_region 1 * 512) ?a d)"
    and len: "length r = 0xD0" "length ?a = 0x80"
  then have "r \<noteq> []" "?a \<noteq> []" by auto
  with len show ?thesis
    by (simp add: d' same_outside_def in_boarddata_def boarddata_end_def dk.byte_at_wr dk_size_write)
qed

text \<open>
  What the program leaves on a disk does not depend on the records that were there: from any image that
  differs from its result at most in them, it restores the result.
\<close>

lemma boarddata_main_restores:
  assumes "boarddata_main serial mac model customer 1 (Some d) = Inr d1" "same_outside d1 d2"
  shows "boarddata_main serial mac model customer 1 (Some d2) = Inr d1"
  using assms(1)
proof (rule boarddata_main_Inr)
  fix mac1 r
  let ?a = "build_ar531x_boarddata mac1 (mac_plus_one mac1) model"
  let ?w = "\<lambda>d. disk_write ((boarddata_region 1 + 64) * 512) r (disk_write (boarddata_region 1 * 512) ?a d)"
  assume m: "bd_parse_mac mac = Inr mac1"
    "build_rks_boarddata serial mac1 (mac_plus_one mac1) model customer = Inr r"
    and d1: "d1 = ?w d" and len: "length r = 0xD0" "length ?a = 0x80"
  then have ne: "r \<noteq> []" "?a \<noteq> []" by auto
  have "boarddata_end \<le> dk_size d1" using ne len by (simp add: d1 boarddata_end_def dk_size_write)
  with assms(2) ne len have size: "dk_size (?w d2) = dk_size d1"
    by (simp add: same_outside_def boarddata_end_def dk_size_write)
  have "dk_byte (?w d2) i = dk_byte d1 i" for i
  proof (cases "in_boarddata i")
    case True
    with len show ?thesis by (auto simp: d1 in_boarddata_def dk.byte_at_wr)
  next
    case False
    with assms(2) have "dk_byte d2 i = dk_byte d1 i" by (simp add: same_outside_def)
    with False len show ?thesis by (auto simp: in_boarddata_def dk.byte_at_wr)
  qed
  then have "?w d2 = d1" using size by (simp add: ext disk.equality)
  with m show ?thesis by (simp add: boarddata_main_def Let_def RKS_BD_OFFSET_def SECTOR_def)
qed

section \<open>What one start does\<close>

lemma identity_main_Inr:
  "identity_main fails tmp p n bs so mo s = (Inr x, st) \<longleftrightarrow> resolve_identity fails tmp p n bs so mo s = (Inr x, st)"
  by (auto simp: identity_main_def split: prod.splits sum.splits exn.splits)

lemma identity_main_store:
  "identity_main fails tmp p n bs so mo s = (r, st) \<Longrightarrow> \<exists>r'. resolve_identity fails tmp p n bs so mo s = (r', st)"
  by (auto simp: identity_main_def split: prod.splits sum.splits exn.splits)

lemma start_identity_Inr:
  assumes "start_identity p i s = (Inr (serial, mac, source), files)"
  shows "option_value IDENTITY_OPTIONS (si_serial i) \<and> option_value IDENTITY_OPTIONS (si_mac i) \<and>
    resolve_identity (si_fails i) (si_tmp i) p (si_random_serial i) (si_random_bytes i) (si_serial i) (si_mac i) s =
      (Inr (serial, mac, source), files)"
  using assms by (auto simp: start_identity_def identity_main_Inr split: if_splits)

lemma start_controller_Inr:
  assumes "start_controller decompress rootfs p i vol = (Inr (serial, mac, source), vol')"
  obtains d files d' where "ensure_disk decompress rootfs (vl_disk vol) = Inr d"
    "start_identity p i (vl_files vol) = (Inr (serial, mac, source), files)"
    "start_boarddata i serial mac d = Inr d'" "vol' = \<lparr>vl_files = files, vl_disk = Some d'\<rparr>"
  using assms by (cases vol) (auto simp: start_controller_def Let_def split: sum.splits prod.splits)

lemma start_boarddata_Inr:
  "start_boarddata i serial mac d = Inr d' \<Longrightarrow>
   boarddata_main serial mac (or_default ''ZD1200'' (si_model i)) (or_default ''ruckus'' (si_customer i)) 1 (Some d) = Inr d'"
  by (simp add: start_boarddata_def Let_def split: if_splits)

lemma start_identity_keeps:
  assumes "start_identity p i s = (r, files)" "s p \<noteq> None"
  shows "files = s"
proof (cases "option_value IDENTITY_OPTIONS (si_serial i) \<and> option_value IDENTITY_OPTIONS (si_mac i)")
  case True
  with assms(1) have "identity_main (si_fails i) (si_tmp i) p (si_random_serial i)
      (si_random_bytes i) (si_serial i) (si_mac i) s = (r, files)" by (simp add: start_identity_def)
  from identity_main_store [OF this] assms(2) show ?thesis using resolve_identity_keeps by blast
qed (use assms(1) in \<open>auto simp: start_identity_def split: if_splits\<close>)

text \<open>An identity file that is there stays, and the disk changes only where the records are.\<close>

lemma start_controller_keeps:
  assumes "start_controller decompress rootfs p i vol = (r, vol')"
    and "vl_files vol p \<noteq> None" "vl_disk vol = Some d"
  shows "vl_files vol' = vl_files vol \<and> (\<exists>d'. vl_disk vol' = Some d' \<and> same_outside d d')"
proof -
  have outside: "same_outside d d'" if "start_boarddata i serial mac d = Inr d'" for serial mac d'
    using start_boarddata_Inr [OF that] by (rule boarddata_main_outside)
  show ?thesis
  proof (cases "start_identity p i (vl_files vol)")
    case (Pair res files)
    with assms(1,3) start_identity_keeps [OF Pair assms(2)] outside show ?thesis
      by (auto simp: start_controller_def ensure_disk_def Let_def split: sum.splits prod.splits)
  qed
qed

lemma restarted_keeps:
  assumes "restarted decompress rootfs p vol vol'" "vl_files vol p \<noteq> None" "vl_disk vol = Some d"
  shows "vl_files vol' = vl_files vol \<and> (\<exists>d'. vl_disk vol' = Some d' \<and> same_outside d d')"
  using assms
proof (induction rule: restarted.induct)
  case (again vol vol' i r vol'')
  then obtain d1 where d1: "vl_files vol' = vl_files vol" "vl_disk vol' = Some d1" "same_outside d d1" by blast
  with start_controller_keeps [OF again.hyps(2), of d1] again.prems obtain d2
    where "vl_files vol'' = vl_files vol" "vl_disk vol'' = Some d2" "same_outside d1 d2" by auto
  with d1(3) show ?case using same_outside_trans by blast
qed (use same_outside_refl in blast)

text \<open>The text of a serial number fits its field and is read back from it.\<close>

lemma text_field_serial:
  assumes "valid_serial serial"
  shows "decode_ascii (rstrip_nul (text_field 16 15 serial)) = Inr serial"
proof -
  have chars: "\<forall>c \<in> set serial. serial_char c" and short: "length serial \<le> 15"
    using assms by (simp_all add: valid_serial_def list_all_iff)
  have "\<not> serial_char (char_of (0 :: nat))" by code_simp
  with chars have pos: "\<forall>c \<in> set serial. code_point c \<noteq> 0"
    by (metis char_of_char code_point_def)
  have ascii: "\<forall>c \<in> set serial. code_point c < 128" using chars serial_char_plain by blast
  have enc: "encode_utf8 serial = map (\<lambda>c. of_nat (code_point c)) serial"
    by (rule encode_utf8_ascii [OF ascii])
  have nz: "(of_nat (code_point c) :: byte) \<noteq> 0" if "c \<in> set serial" for c
  proof -
    have "unat (of_nat (code_point c) :: byte) = code_point c"
      using code_point_bound [of c] by (simp add: unat_of_nat)
    with pos that show ?thesis by (metis unat_0)
  qed
  have "rstrip_nul (xs @ replicate n 0) = xs" if "\<forall>x \<in> set xs. x \<noteq> 0" for xs n
  proof -
    have "dropWhile (\<lambda>b. b = 0) (replicate n 0 @ rev xs) = dropWhile (\<lambda>b. b = 0) (rev xs)" by (induction n) auto
    also have "\<dots> = rev xs" using that by (cases xs rule: rev_cases) simp_all
    finally show ?thesis by (simp add: rstrip_nul_def)
  qed
  with enc nz have "rstrip_nul (text_field 16 15 serial) = encode_utf8 serial"
    using short by (simp add: text_field_def Let_def)
  with decode_encode_utf8 [OF ascii] show ?thesis by simp
qed

section \<open>Properties\<close>


definition sample_start :: start_input where
  "sample_start = \<lparr>si_fails = (\<lambda>_. False), si_tmp = ''/s/t'', si_random_serial = 42,
     si_random_bytes = sample_random, si_serial = [], si_mac = [], si_model = [], si_customer = []\<rparr>"

definition empty_volume :: volume where
  "empty_volume = \<lparr>vl_files = (\<lambda>_. None), vl_disk = None\<rparr>"

lemma sample_random_ok: "length sample_random = 5" "sample_random \<noteq> replicate 5 0xFF"
  by code_simp+

lemma sample_option_values:
  "option_value opts []" "option_value BOARDDATA_OPTIONS ''ZD1200''" "option_value BOARDDATA_OPTIONS ''ruckus''"
  "option_value BOARDDATA_OPTIONS ''000000000042''" "option_value BOARDDATA_OPTIONS ''02:01:02:03:04:ff''"
  by (simp_all add: option_value_def)

lemma sample_started:
  "\<exists>vol'. start_controller (\<lambda>_. None) [1, 2, 3] ''/s/id'' sample_start empty_volume =
     (Inr (''000000000042'', ''02:01:02:03:04:ff'', GeneratedAndPersisted), vol')"
proof -
  let ?mac = "''02:01:02:03:04:ff''"
  obtain d where d: "make_synthetic_cf (\<lambda>_. None) [1, 2, 3] = Inr d" using sample_cf by blast
  have mac: "format_mac (0x02 # sample_random) = ?mac" by code_simp
  obtain st where "resolve_identity (\<lambda>_. False) ''/s/t'' ''/s/id'' 42 sample_random [] [] (\<lambda>_. None) =
      (Inr (''000000000042'', ?mac, GeneratedAndPersisted), st)"
    using sample_resolve mac decimal12_42 by auto
  then have id: "start_identity ''/s/id'' sample_start (\<lambda>_. None) =
      (Inr (''000000000042'', ?mac, GeneratedAndPersisted), st)"
    by (simp add: start_identity_def sample_start_def identity_main_Inr sample_option_values)
  have "bd_parse_mac ?mac = Inr [2, 1, 2, 3, 4, 0xFF]" by code_simp
  from boarddata_main_writes [OF this, of 1 "''000000000042''" "''ZD1200''" "''ruckus''" d]
  obtain d' where "start_boarddata sample_start ''000000000042'' ?mac d = Inr d'"
    by (auto simp: start_boarddata_def Let_def sample_start_def or_default_def sample_option_values)
  with d id show ?thesis
    by (simp add: start_controller_def ensure_disk_def empty_volume_def)
qed




text \<open>
  A serial number that starts with a dash is valid for the identity tool, in the file as well, but the
  board-data writer takes it for an option: every start with it fails.
\<close>

theorem dash_serial_never_starts:
  assumes "vl_disk vol = Some d" "vl_files vol p = Some data"
    and "parse_identity p (vl_files vol) = Inr (''-A1'', mac)" "si_serial i = []" "si_mac i = []"
  shows "start_controller decompress rootfs p i vol = (Inl (SystemExit ''2''), vol)"
proof -
  have "\<not> option_value BOARDDATA_OPTIONS ''-A1''" by code_simp
  then have "start_boarddata i ''-A1'' mac d = Inl (SystemExit ''2'')"
    by (simp add: start_boarddata_def Let_def)
  moreover have "start_identity p i (vl_files vol) = (Inr (''-A1'', mac, PersistentState), vl_files vol)"
    using assms by (simp add: start_identity_def identity_main_Inr resolve_identity_persistent sample_option_values(1))
  ultimately show ?thesis using assms(1) by (simp add: start_controller_def ensure_disk_def)
qed

theorem dash_serial_never_starts_witness:
  "\<exists>data. start_controller (\<lambda>_. None) [] ''/id'' sample_start \<lparr>vl_files = [''/id'' \<mapsto> data], vl_disk = Some (blank_disk 0)\<rparr> =
     (Inl (SystemExit ''2''), \<lparr>vl_files = [''/id'' \<mapsto> data], vl_disk = Some (blank_disk 0)\<rparr>)"
proof -
  let ?t = "identity_text ''-A1'' ''02:00:00:00:00:07''"
  have "\<forall>c \<in> set ?t. code_point c < 128" by code_simp
  from ascii_roundtrip [OF this] obtain data where d: "decode_ascii data = Inr ?t" by blast
  have "parse_identity_text ?t = Inr (''-A1'', ''02:00:00:00:00:07'')" by code_simp
  with d have "parse_identity ''/id'' [''/id'' \<mapsto> data] = Inr (''-A1'', ''02:00:00:00:00:07'')"
    by (simp add: parse_identity_def)
  then show ?thesis
    by (intro exI dash_serial_never_starts) (simp_all add: sample_start_def)
qed

end
