(* ===== verification/Tac.thy ===== *)
theory Tac
imports ByteCodec FileStore
begin

text \<open>
  \<open>ruckus_tac_decrypt.py\<close>: the chained 64-bit exclusive-or of the TAC format, read in
  chunks, and the command that decrypts into a temporary sibling, strips the alignment padding
  and publishes the result with one rename.

  \<open>fails\<close> says which system calls raise \<open>OSError\<close>: every step of a run can be
  made to fail, so the theorems about the files hold for each of these runs.
\<close>

unbundle bit_operations_syntax

section \<open>The word stream\<close>

type_synonym word64 = "64 word"

definition unpack_word :: "bytes \<Rightarrow> word64" where
  "unpack_word bs = word_of_int (le_int bs)"

definition pack_word :: "word64 \<Rightarrow> bytes" where
  "pack_word w = le_bytes 8 (uint w)"

definition INITIAL_XOR :: word64 where
  "INITIAL_XOR = unpack_word [0x29, 0x1A, 0x42, 0x05, 0xBD, 0x2C, 0xD6, 0xF2]"

definition XOR_FLIP :: word64 where
  "XOR_FLIP = unpack_word [0x35, 0xAD, 0xB8, 0xE0, 0x3F, 0x54, 0xC5, 0x38]"

text \<open>The inner loop over the words of one chunk, with the state it carries to the next.\<close>

fun decrypt_words :: "nat \<Rightarrow> bytes \<Rightarrow> word64 \<Rightarrow> word64 \<Rightarrow> bytes \<times> word64 \<times> word64" where
  "decrypt_words 0 encrypted previous_input xor_value = ([], previous_input, xor_value)"
| "decrypt_words (Suc n) encrypted previous_input xor_value =
     (let current_input = unpack_word (take 8 encrypted);
          (rest, state) = decrypt_words n (drop 8 encrypted) current_input (xor_value XOR XOR_FLIP)
      in (pack_word (previous_input XOR xor_value XOR current_input) @ rest, state))"

text \<open>The system calls of a run, as the points where it can fail.\<close>

datatype tac_step =
    Stat | Mkdir | Mkstemp | OpenSource | ReadChunk nat | WriteChunk nat | SyncData
  | Reopen | Truncate | SyncTruncated | Replace | Unlink

text \<open>
  The chunk loop: the chunks written before it stopped, and how it stopped.  A file read returns
  a full chunk except at the end of the file.
\<close>

function decrypt_loop ::
  "(tac_step \<Rightarrow> bool) \<Rightarrow> nat \<Rightarrow> nat \<Rightarrow> bytes \<Rightarrow> word64 \<Rightarrow> word64 \<Rightarrow> nat \<Rightarrow>
   bytes list \<times> nat result" where
  "decrypt_loop fails chunk_size i source previous_input xor_value written =
     (if fails (ReadChunk i) then ([], Inl (OSError ''read''))
      else if take chunk_size source = [] then ([], Inr written)
      else if length (take chunk_size source) mod 8 \<noteq> 0 then
        ([], Inl (ValueError ''TAC input length is not a multiple of eight bytes''))
      else
        let encrypted = take chunk_size source;
            (output, previous_input', xor_value') =
              decrypt_words (length encrypted div 8) encrypted previous_input xor_value
        in if fails (WriteChunk i) then ([], Inl (OSError ''write''))
           else let (outputs, result) =
                  decrypt_loop fails chunk_size (i + 1) (drop chunk_size source)
                    previous_input' xor_value' (written + length output)
                in (output # outputs, result))"
  by pat_completeness auto

termination
  by (relation "measure (\<lambda>(fails, c, i, source, p, x, w). length source)") auto

declare decrypt_loop.simps [simp del]

definition decrypt_stream ::
  "(tac_step \<Rightarrow> bool) \<Rightarrow> nat \<Rightarrow> bytes \<Rightarrow> bytes list \<times> nat result" where
  "decrypt_stream fails chunk_size source =
     (if chunk_size < 8 then ([], Inl (ValueError ''chunk_size must be at least eight bytes''))
      else decrypt_loop fails (chunk_size - chunk_size mod 8) 0 source 0 INITIAL_XOR 0)"

definition DEFAULT_CHUNK :: nat where
  "DEFAULT_CHUNK = 1024 * 1024"

definition no_failure :: "tac_step \<Rightarrow> bool" where
  "no_failure step = False"

definition decrypt_bytes :: "bytes \<Rightarrow> bytes result" where
  "decrypt_bytes encrypted =
     (let (outputs, result) = decrypt_stream no_failure DEFAULT_CHUNK encrypted
      in bindE result (\<lambda>_. Inr (concat outputs)))"

section \<open>The file command\<close>

text \<open>
  A run returns the number of bytes written or the exception, and every state of the file store it
  passes through, newest first.  \<open>decrypt_writes\<close> are the states of the write loop.
\<close>

definition record_append :: "path \<Rightarrow> bytes \<Rightarrow> store list \<Rightarrow> store list" where
  "record_append tmp b history = fs_append tmp b (hd history) # history"

definition decrypt_writes :: "path \<Rightarrow> bytes list \<Rightarrow> store list \<Rightarrow> store list" where
  "decrypt_writes tmp outputs history = fold (record_append tmp) outputs history"

definition strip_padding ::
  "(tac_step \<Rightarrow> bool) \<Rightarrow> path \<Rightarrow> nat \<Rightarrow> store list \<Rightarrow> nat result \<times> store list" where
  "strip_padding fails tmp written history =
     (if written = 0 then (Inr 0, history)
      else if fails Reopen then (Inl (OSError ''reopen''), history)
      else
        let plain = (case hd history tmp of None \<Rightarrow> [] | Some b \<Rightarrow> b);
            padding = unat (last plain AND 0x0F)
        in if padding = 0 then (Inr written, history)
           else if padding > written then
             (Inl (ValueError ''TAC padding exceeds decrypted output length''), history)
           else if fails Truncate then (Inl (OSError ''truncate''), history)
           else
             let history' = fs_put tmp (take (written - padding) plain) (hd history) # history
             in if fails SyncTruncated then (Inl (OSError ''fsync''), history')
                else (Inr (written - padding), history'))"

definition decrypt_body ::
  "(tac_step \<Rightarrow> bool) \<Rightarrow> path \<Rightarrow> path \<Rightarrow> bytes \<Rightarrow> store list \<Rightarrow> nat result \<times> store list" where
  "decrypt_body fails tmp destination data history =
     (if fails OpenSource then (Inl (OSError ''open''), history)
      else
        let (outputs, result) = decrypt_stream fails DEFAULT_CHUNK data;
            written_states = decrypt_writes tmp outputs history
        in case result of
             Inl e \<Rightarrow> (Inl e, written_states)
           | Inr written \<Rightarrow>
               if fails SyncData then (Inl (OSError ''fsync''), written_states)
               else (case strip_padding fails tmp written written_states of
                      (Inl e, states) \<Rightarrow> (Inl e, states)
                    | (Inr written', states) \<Rightarrow>
                        if fails Replace then (Inl (OSError ''replace''), states)
                        else (Inr written', fs_replace tmp destination (hd states) # states)))"

definition decrypt_file ::
  "(tac_step \<Rightarrow> bool) \<Rightarrow> path \<Rightarrow> path \<Rightarrow> path \<Rightarrow> store \<Rightarrow> nat result \<times> store list" where
  "decrypt_file fails tmp source destination s =
     (if source = destination then
        (Inl (ValueError ''source and destination must be different files''), [s])
      else if fails Stat then (Inl (OSError ''stat''), [s])
      else (case s source of
        None \<Rightarrow> (Inl (OSError ''stat''), [s])
      | Some data \<Rightarrow>
          if length data mod 8 \<noteq> 0 then
            (Inl (ValueError ''TAC input length is not a multiple of eight bytes''), [s])
          else if fails Mkdir then (Inl (OSError ''mkdir''), [s])
          else if fails Mkstemp then (Inl (OSError ''mkstemp''), [s])
          else (case decrypt_body fails tmp destination data [fs_put tmp [] s, s] of
                 (Inr written, states) \<Rightarrow> (Inr written, states)
               | (Inl e, states) \<Rightarrow>
                   if fails Unlink then (Inl (OSError ''unlink''), states)
                   else (Inl e, fs_unlink tmp (hd states) # states))))"

section \<open>The vendor's side: encryption as the tests write it\<close>

fun encrypt_words :: "nat \<Rightarrow> bytes \<Rightarrow> word64 \<Rightarrow> word64 \<Rightarrow> bytes" where
  "encrypt_words 0 plain previous xor_value = []"
| "encrypt_words (Suc n) plain previous xor_value =
     (let current_cipher = unpack_word (take 8 plain) XOR previous XOR xor_value
      in pack_word current_cipher
         @ encrypt_words n (drop 8 plain) current_cipher (xor_value XOR XOR_FLIP))"

definition encrypt_for_test :: "bytes \<Rightarrow> bytes result" where
  "encrypt_for_test plain =
     (if length plain mod 8 \<noteq> 0 then Inl (ValueError ''test plaintext must be word aligned'')
      else Inr (encrypt_words (length plain div 8) plain 0 INITIAL_XOR))"

section \<open>Lemmas on the word stream\<close>

lemma length_pack_word [simp]: "length (pack_word w) = 8"
  by (simp add: pack_word_def)

lemma unpack_pack_word [simp]: "unpack_word (pack_word w) = w"
proof -
  have "uint w mod 256 ^ 8 = uint w" using uint_lt2p [of w] by simp
  then show ?thesis by (simp add: unpack_word_def pack_word_def le_int_le_bytes)
qed

lemma pack_unpack_word: "length bs = 8 \<Longrightarrow> pack_word (unpack_word bs) = bs"
proof -
  assume len: "length bs = 8"
  have "uint (word_of_int (le_int bs) :: word64) = le_int bs"
    using le_int_bounds [of bs] len by (simp add: uint_word_of_int)
  then show ?thesis using le_bytes_le_int [OF len] by (simp add: pack_word_def unpack_word_def)
qed

lemma length_decrypt_words [simp]: "length (fst (decrypt_words n bs p x)) = 8 * n"
  by (induction n bs p x rule: decrypt_words.induct) (simp_all add: Let_def split_beta)

lemma length_encrypt_words [simp]: "length (encrypt_words n bs p x) = 8 * n"
  by (induction n bs p x rule: encrypt_words.induct) (simp_all add: Let_def)

lemma decrypt_encrypt_words:
  "length plain = 8 * n \<Longrightarrow> fst (decrypt_words n (encrypt_words n plain p x) p x) = plain"
proof (induction n arbitrary: plain p x)
  case (Suc n)
  have w: "p XOR x XOR (unpack_word (take 8 plain) XOR p XOR x) = unpack_word (take 8 plain)"
    by (rule bit_word_eqI) (auto simp: bit_xor_iff)
  from Suc show ?case
    by (simp add: Let_def split_beta w pack_unpack_word)
qed simp

lemma encrypt_decrypt_words:
  "length c = 8 * n \<Longrightarrow> encrypt_words n (fst (decrypt_words n c p x)) p x = c"
proof (induction n arbitrary: c p x)
  case (Suc n)
  have w: "(p XOR x XOR unpack_word (take 8 c)) XOR p XOR x = unpack_word (take 8 c)"
    by (rule bit_word_eqI) (auto simp: bit_xor_iff)
  from Suc show ?case
    by (simp add: Let_def split_beta w pack_unpack_word)
qed simp

lemma decrypt_words_append:
  "decrypt_words (m + n) bs p x =
     (let (out, p', x') = decrypt_words m bs p x; (out', state) = decrypt_words n (drop (8 * m) bs) p' x'
      in (out @ out', state))"
  by (induction m arbitrary: bs p x) (simp_all add: Let_def split_beta ac_simps)

lemma decrypt_words_prefix:
  "8 * n \<le> k \<Longrightarrow> decrypt_words n (take k bs) p x = decrypt_words n bs p x"
  by (induction n arbitrary: k bs p x) (simp_all add: Let_def split_beta drop_take min_def)


text \<open>One turn of the chunk loop.\<close>

lemma decrypt_loop_step:
  assumes "take c source \<noteq> []" "length (take c source) mod 8 = 0"
    and "\<not> fails (ReadChunk i)" "\<not> fails (WriteChunk i)"
    and "decrypt_words (length (take c source) div 8) (take c source) p x = (out, p', x')"
    and "decrypt_loop fails c (i + 1) (drop c source) p' x' (written + length out) = (outs, r)"
  shows "decrypt_loop fails c i source p x written = (out # outs, r)"
  using assms unfolding decrypt_loop.simps [of fails c i source p x written] by (simp del: take_eq_Nil)

lemma decrypt_loop_cases:
  assumes "decrypt_loop fails c i source p x written = (outs, r)"
  obtains "r = Inl (OSError ''read'')" | "take c source = []" "outs = []" "r = Inr written"
    | "r = Inl (ValueError ''TAC input length is not a multiple of eight bytes'')"
    | "r = Inl (OSError ''write'')"
    | out p' x' outs' where "take c source \<noteq> []" "length (take c source) mod 8 = 0"
      "decrypt_words (length (take c source) div 8) (take c source) p x = (out, p', x')"
      "decrypt_loop fails c (i + 1) (drop c source) p' x' (written + length out) = (outs', r)"
      "outs = out # outs'"
proof -
  note run = assms [unfolded decrypt_loop.simps [of fails c i source p x written]]
  obtain out p' x' where dw:
    "decrypt_words (length (take c source) div 8) (take c source) p x = (out, p', x')"
    by (metis prod_cases3)
  obtain outs' r' where rest:
    "decrypt_loop fails c (i + 1) (drop c source) p' x' (written + length out) = (outs', r')"
    by (metis surj_pair)
  from run rest that show ?thesis
    by (simp add: dw del: take_eq_Nil length_take split: if_split_asm)
qed

text \<open>Whatever fails, a chunk loop that returns has written the whole-stream transformation.\<close>

lemma decrypt_words_chunk:
  assumes "8 dvd length (take c source)" "8 dvd length (drop c source)"
    and "decrypt_words (length (take c source) div 8) (take c source) p x = (out, p', x')"
  shows "fst (decrypt_words (length source div 8) source p x) =
    out @ fst (decrypt_words (length (drop c source) div 8) (drop c source) p' x')"
proof -
  let ?n = "length (take c source) div 8"
  have n8: "8 * ?n = length (take c source)" using assms(1) by simp
  have split: "length source = length (take c source) + length (drop c source)" by simp
  have div: "length source div 8 = ?n + length (drop c source) div 8"
    by (subst split) (rule div_plus_div_distrib_dvd_left [OF assms(1)])
  have drop8: "drop (8 * ?n) source = drop c source"
    unfolding n8 by (cases "c \<le> length source") auto
  have "8 * ?n \<le> c" unfolding n8 by simp
  from assms(3) decrypt_words_prefix [OF this, of source p x]
  have "decrypt_words ?n source p x = (out, p', x')" by simp
  then show ?thesis unfolding div decrypt_words_append drop8 by (simp add: split_beta)
qed

lemma decrypt_loop_result:
  assumes "decrypt_loop fails c i source p x written = (outs, Inr w)" "c \<noteq> 0"
  shows "8 dvd length source \<and> w = written + length source \<and>
    concat outs = fst (decrypt_words (length source div 8) source p x)"
  using assms
proof (induction source arbitrary: i p x written outs rule: measure_induct_rule [of length])
  case (less source)
  from less.prems(1) show ?case
  proof (cases rule: decrypt_loop_cases)
    case 2
    with less.prems(2) show ?thesis by simp
  next
    case (5 out p' x' outs')
    have "length (drop c source) < length source" using 5(1) by auto
    from less.IH [OF this 5(4) less.prems(2)]
    have IH: "8 dvd length (drop c source)" "w = written + length out + length (drop c source)"
      "concat outs' = fst (decrypt_words (length (drop c source) div 8) (drop c source) p' x')"
      by auto
    have al: "8 dvd length (take c source)" using 5(2) by (simp only: mod_eq_0_iff_dvd)
    have split: "length source = length (take c source) + length (drop c source)" by simp
    have out: "length out = length (take c source)"
      using length_decrypt_words [of "length (take c source) div 8" "take c source" p x] al
      unfolding 5(3) by (simp del: length_take)
    have "8 dvd length source" by (subst split) (rule dvd_add [OF al IH(1)])
    moreover have "w = written + length source" using IH(2) out split by linarith
    ultimately show ?thesis
      using decrypt_words_chunk [OF al IH(1) 5(3)] IH(3) 5(5) by simp
  qed simp_all
qed

lemma decrypt_loop_total:
  assumes "\<And>i. \<not> fails (ReadChunk i) \<and> \<not> fails (WriteChunk i)" "8 dvd c" "8 dvd length source"
  shows "\<exists>outs w. decrypt_loop fails c i source p x written = (outs, Inr w)"
  using assms(3)
proof (induction source arbitrary: i p x written rule: measure_induct_rule [of length])
  case (less source)
  obtain outs r where run: "decrypt_loop fails c i source p x written = (outs, r)" by (metis surj_pair)
  have al: "8 dvd length (take c source)" "8 dvd length (drop c source)"
    using less.prems assms(2) by (auto simp: min_def dvd_diff_nat)
  show ?case
  proof (cases "take c source = []")
    case True
    then show ?thesis using assms(1) by (simp add: decrypt_loop.simps [of fails c i source p x written])
  next
    case False
    obtain out p' x' where dw:
      "decrypt_words (length (take c source) div 8) (take c source) p x = (out, p', x')" by (metis prod_cases3)
    have "length (drop c source) < length source" using False by auto
    from less.IH [OF this al(2), of "i + 1" p' x' "written + length out"] obtain outs' w
      where rest: "decrypt_loop fails c (i + 1) (drop c source) p' x' (written + length out) = (outs', Inr w)"
      by blast
    have "length (take c source) mod 8 = 0" using al(1) by (simp only: mod_eq_0_iff_dvd)
    from decrypt_loop_step [OF False this _ _ dw rest] assms(1) show ?thesis by blast
  qed
qed

lemma decrypt_loop_no_failure_error:
  "decrypt_loop no_failure c i source p x written = (outs, Inl e) \<Longrightarrow>
   e = ValueError ''TAC input length is not a multiple of eight bytes''"
proof (induction source arbitrary: i p x written outs rule: measure_induct_rule [of length])
  case (less source)
  show ?case
  proof (cases "take c source = [] \<or> length (take c source) mod 8 \<noteq> 0")
    case True
    with less.prems [unfolded decrypt_loop.simps [of no_failure c i source p x written]]
    show ?thesis by (auto simp: no_failure_def simp del: take_eq_Nil length_take split: if_splits)
  next
    case False
    obtain out p' x' where dw:
      "decrypt_words (length (take c source) div 8) (take c source) p x = (out, p', x')" by (metis prod_cases3)
    obtain outs' r where rest:
      "decrypt_loop no_failure c (i + 1) (drop c source) p' x' (written + length out) = (outs', r)"
      by (metis surj_pair)
    from decrypt_loop_step [OF _ _ _ _ dw rest] False less.prems have "r = Inl e"
      by (simp add: no_failure_def)
    moreover have "length (drop c source) < length source" using False by auto
    ultimately show ?thesis using less.IH rest by blast
  qed
qed

definition tac_plain :: "bytes \<Rightarrow> bytes" where
  "tac_plain source = fst (decrypt_words (length source div 8) source 0 INITIAL_XOR)"

lemma length_tac_plain: "8 dvd length source \<Longrightarrow> length (tac_plain source) = length source"
  by (simp add: tac_plain_def)

lemma aligned_chunk: "(8::nat) \<le> c \<Longrightarrow> c - c mod 8 \<noteq> 0 \<and> 8 dvd c - c mod 8"
  using mod_less_divisor [of 8 c] by (auto simp: dvd_minus_mod)

lemma decrypt_stream_result:
  assumes "decrypt_stream fails c source = (outs, Inr w)"
  shows "8 dvd length source \<and> w = length source \<and> concat outs = tac_plain source"
proof -
  from assms have "8 \<le> c" and run:
    "decrypt_loop fails (c - c mod 8) 0 source 0 INITIAL_XOR 0 = (outs, Inr w)"
    by (auto simp: decrypt_stream_def split: if_splits)
  then show ?thesis
    using decrypt_loop_result [OF run] aligned_chunk by (simp add: tac_plain_def)
qed

lemma decrypt_stream_no_failure:
  assumes "8 \<le> c"
  shows "\<exists>outs. decrypt_stream no_failure c source =
      (outs, if 8 dvd length source then Inr (length source)
             else Inl (ValueError ''TAC input length is not a multiple of eight bytes'')) \<and>
    (8 dvd length source \<longrightarrow> concat outs = tac_plain source)"
proof -
  obtain outs r where run: "decrypt_loop no_failure (c - c mod 8) 0 source 0 INITIAL_XOR 0 = (outs, r)"
    by (metis surj_pair)
  then have st: "decrypt_stream no_failure c source = (outs, r)"
    using assms by (simp add: decrypt_stream_def)
  show ?thesis
  proof (cases "8 dvd length source")
    case True
    have "\<not> no_failure (ReadChunk i) \<and> \<not> no_failure (WriteChunk i)" for i
      by (simp add: no_failure_def)
    from decrypt_loop_total [OF this _ True] aligned_chunk [OF assms] run
    obtain w where w: "r = Inr w" by (metis prod.inject)
    from decrypt_stream_result [of no_failure c source outs w] st w True show ?thesis by simp
  next
    case False
    have "r = Inl (ValueError ''TAC input length is not a multiple of eight bytes'')"
    proof (cases r)
      case (Inl e)
      with decrypt_loop_no_failure_error run show ?thesis by simp
    next
      case (Inr w)
      with decrypt_stream_result [of no_failure c source outs w] st False show ?thesis by simp
    qed
    with st False show ?thesis by simp
  qed
qed

lemma decrypt_bytes_eq:
  "decrypt_bytes source =
     (if 8 dvd length source then Inr (tac_plain source)
      else Inl (ValueError ''TAC input length is not a multiple of eight bytes''))"
  using decrypt_stream_no_failure [of DEFAULT_CHUNK source]
  by (auto simp: decrypt_bytes_def DEFAULT_CHUNK_def)

lemma encrypt_decrypt_iff: "encrypt_for_test p = Inr c \<longleftrightarrow> decrypt_bytes c = Inr p"
proof
  assume "encrypt_for_test p = Inr c"
  then have p: "8 dvd length p" "c = encrypt_words (length p div 8) p 0 INITIAL_XOR"
    by (auto simp: encrypt_for_test_def split: if_splits)
  then have "length c = length p" by simp
  with p decrypt_encrypt_words [of p "length p div 8" 0 INITIAL_XOR] show "decrypt_bytes c = Inr p"
    by (simp add: decrypt_bytes_eq tac_plain_def)
next
  assume "decrypt_bytes c = Inr p"
  then have c: "8 dvd length c" "p = tac_plain c" by (auto simp: decrypt_bytes_eq split: if_splits)
  then have "length p = length c" by (simp add: length_tac_plain)
  with c encrypt_decrypt_words [of c "length c div 8" 0 INITIAL_XOR] show "encrypt_for_test p = Inr c"
    by (simp add: encrypt_for_test_def tac_plain_def flip: dvd_eq_mod_eq_0)
qed

text \<open>The word at position \<open>i\<close>, and the plain word in closed form.\<close>

definition word_at :: "bytes \<Rightarrow> nat \<Rightarrow> word64" where
  "word_at bs i = unpack_word (take 8 (drop (8 * i) bs))"

lemma decrypt_words_nth:
  "i < n \<Longrightarrow> word_at (fst (decrypt_words n c p x)) i =
     (if i = 0 then p else word_at c (i - 1)) XOR x XOR (if odd i then XOR_FLIP else 0) XOR word_at c i"
proof (induction n arbitrary: i c p x)
  case (Suc n)
  show ?case
  proof (cases i)
    case 0
    then show ?thesis by (simp add: Let_def split_beta word_at_def)
  next
    case (Suc k)
    have w: "word_at (drop 8 c) j = word_at c (Suc j)" for j
      by (simp add: word_at_def ac_simps)
    have shift: "word_at (fst (decrypt_words (Suc n) c p x)) (Suc k) =
        word_at (fst (decrypt_words n (drop 8 c) (word_at c 0) (x XOR XOR_FLIP))) k"
      by (simp add: word_at_def Let_def split_beta)
    from Suc.IH [of k "drop 8 c" "word_at c 0" "x XOR XOR_FLIP"] Suc.prems Suc show ?thesis
      unfolding Suc shift
      by (cases k) (auto simp: w ac_simps intro!: bit_word_eqI simp: bit_xor_iff)
  qed
qed simp

section \<open>Lemmas on the file command\<close>

definition staged :: "store \<Rightarrow> path \<Rightarrow> store list \<Rightarrow> bool" where
  "staged s tmp history \<longleftrightarrow> history \<noteq> [] \<and> (\<forall>st \<in> set history. differs_only_at tmp s st)"

lemma staged_record: "staged s tmp h \<Longrightarrow> staged s tmp (record_append tmp b h)"
  by (cases h) (auto simp: staged_def record_append_def)

lemma staged_writes: "staged s tmp h \<Longrightarrow> staged s tmp (decrypt_writes tmp outs h)"
  unfolding decrypt_writes_def by (induction outs arbitrary: h) (auto simp: staged_record)

lemma hd_decrypt_writes:
  "hd h tmp = Some b \<Longrightarrow> hd (decrypt_writes tmp outs h) tmp = Some (b @ concat outs)"
  unfolding decrypt_writes_def
  by (induction outs arbitrary: h b)
     (auto simp: record_append_def fs_append_def fs_put_def)

text \<open>The number of padding bytes the last plain byte announces.\<close>

definition tac_padding :: "bytes \<Rightarrow> nat" where
  "tac_padding plain = (if plain = [] then 0 else unat (last plain AND 0x0F))"

lemma strip_padding_result:
  assumes "strip_padding fails tmp (length plain) h = (r, states)" "staged s tmp h"
    and "hd h tmp = Some plain"
  shows "staged s tmp states \<and> (\<forall>w. r = Inr w \<longrightarrow> tac_padding plain \<le> length plain \<and>
    w = length plain - tac_padding plain \<and> hd states tmp = Some (take w plain))"
  using assms
  by (auto simp: strip_padding_def tac_padding_def staged_def Let_def fs.content_put
      split: if_splits)


lemma decrypt_body_result:
  assumes run: "decrypt_body fails tmp dest data h = (r, states)"
    and h: "staged s tmp h" "hd h tmp = Some []"
  shows "case r of
      Inl e \<Rightarrow> staged s tmp states
    | Inr w \<Rightarrow> decrypt_bytes data = Inr (tac_plain data) \<and> tac_padding (tac_plain data) \<le> length data \<and>
        w = length data - tac_padding (tac_plain data) \<and> staged s tmp (tl states) \<and>
        hd (tl states) tmp = Some (take w (tac_plain data)) \<and>
        states = fs_replace tmp dest (hd (tl states)) # tl states"
proof (cases "fails OpenSource")
  case True
  with run h show ?thesis by (auto simp: decrypt_body_def)
next
  case False
  obtain outs result where stream: "decrypt_stream fails DEFAULT_CHUNK data = (outs, result)"
    by (metis surj_pair)
  note wr = staged_writes [OF h(1), of outs] hd_decrypt_writes [OF h(2), of outs]
  show ?thesis
  proof (cases result)
    case (Inl e)
    with run False stream wr(1) show ?thesis by (auto simp: decrypt_body_def)
  next
    case (Inr written)
    with decrypt_stream_result [of fails DEFAULT_CHUNK data outs written] stream
    have d: "8 dvd length data" "written = length (tac_plain data)" "concat outs = tac_plain data"
      by (simp_all add: length_tac_plain)
    obtain r' st where sp: "strip_padding fails tmp written (decrypt_writes tmp outs h) = (r', st)"
      by (metis surj_pair)
    from strip_padding_result [OF sp [unfolded d(2)] wr(1)] wr(2) d(3)
    have st: "staged s tmp st" "\<And>w. r' = Inr w \<Longrightarrow> tac_padding (tac_plain data) \<le> length (tac_plain data) \<and>
        w = length (tac_plain data) - tac_padding (tac_plain data) \<and> hd st tmp = Some (take w (tac_plain data))"
      by simp_all
    from run False stream Inr sp st d wr(1) show ?thesis
      by (cases r') (auto simp: decrypt_body_def Let_def decrypt_bytes_eq length_tac_plain split: if_splits)
  qed
qed

lemma decrypt_file_cases:
  assumes "decrypt_file fails tmp source dest s = (r, states)"
  obtains e where "r = Inl e" "states = [s]"
  | data where "s source = Some data" "source \<noteq> dest"
      "decrypt_body fails tmp dest data [fs_put tmp [] s, s] = (r, states)" "r \<in> range Inr"
  | data e st where "s source = Some data"
      "decrypt_body fails tmp dest data [fs_put tmp [] s, s] = (Inl e, st)"
      "r = Inl (if fails Unlink then OSError ''unlink'' else e)"
      "states = (if fails Unlink then st else fs_unlink tmp (hd st) # st)"
proof -
  from assms consider (early) e where "r = Inl e" "states = [s]"
    | (body) data where "s source = Some data" "source \<noteq> dest"
        "(case decrypt_body fails tmp dest data [fs_put tmp [] s, s] of
            (Inr written, states) \<Rightarrow> (Inr written, states)
          | (Inl e, states) \<Rightarrow>
              if fails Unlink then (Inl (OSError ''unlink''), states)
              else (Inl e, fs_unlink tmp (hd states) # states)) = (r, states)"
    unfolding decrypt_file_def by (auto split: if_splits option.splits)
  then show thesis
  proof cases
    case early
    then show thesis by (rule that(1))
  next
    case (body data)
    obtain r0 st0 where b: "decrypt_body fails tmp dest data [fs_put tmp [] s, s] = (r0, st0)"
      by (metis surj_pair)
    show thesis
    proof (cases r0)
      case (Inl e)
      with body(3) b have "r = Inl (if fails Unlink then OSError ''unlink'' else e)"
        "states = (if fails Unlink then st0 else fs_unlink tmp (hd st0) # st0)"
        by (auto split: if_splits)
      with body(1) b Inl show thesis by (intro that(3)) auto
    next
      case (Inr w)
      with body b show thesis by (intro that(2)) auto
    qed
  qed
qed

lemma staged_start: "staged s tmp [fs_put tmp [] s, s] \<and> hd [fs_put tmp [] s, s] tmp = Some []"
  by (simp add: staged_def fs.content_put)

lemma tac_publish:
  assumes "s tmp = None" "tmp \<noteq> dest" "staged s tmp h" "hd h tmp = Some b"
  shows "fs_replace tmp dest (hd h) = s(dest := Some b)"
  using assms differs_only_at_replace [of s tmp dest "hd h" b] by (auto simp: staged_def)

lemma decrypt_file_Inr:
  assumes run: "decrypt_file fails tmp source dest s = (Inr w, states)" and tmp: "s tmp = None" "tmp \<noteq> dest"
  shows "\<exists>data plain. s source = Some data \<and> decrypt_bytes data = Inr plain \<and>
    tac_padding plain \<le> length plain \<and> w = length plain - tac_padding plain \<and>
    hd states = s(dest := Some (take w plain))"
  using run
proof (cases rule: decrypt_file_cases)
  case (2 data)
  from decrypt_body_result [OF 2(3)] staged_start [of s tmp] have st:
    "staged s tmp (tl states)" "hd (tl states) tmp = Some (take w (tac_plain data))"
    "states = fs_replace tmp dest (hd (tl states)) # tl states" "decrypt_bytes data = Inr (tac_plain data)"
    "tac_padding (tac_plain data) \<le> length data" "w = length data - tac_padding (tac_plain data)"
    by auto
  have "hd states = s(dest := Some (take w (tac_plain data)))"
    by (subst st(3)) (simp add: tac_publish [OF tmp st(1,2)])
  moreover have "length (tac_plain data) = length data"
    using st(4) by (auto simp: decrypt_bytes_eq length_tac_plain split: if_splits)
  ultimately show ?thesis using 2(1) st(4-6) by auto
qed auto

lemma decrypt_body_no_failure:
  assumes "8 dvd length data" "tac_padding (tac_plain data) \<le> length data" "hd h tmp = Some []"
  shows "\<exists>w states. decrypt_body no_failure tmp dest data h = (Inr w, states)"
proof -
  from decrypt_stream_no_failure [of DEFAULT_CHUNK data] assms(1) obtain outs
    where st: "decrypt_stream no_failure DEFAULT_CHUNK data = (outs, Inr (length data))"
      "concat outs = tac_plain data" by (auto simp: DEFAULT_CHUNK_def)
  have plain: "hd (decrypt_writes tmp outs h) tmp = Some (tac_plain data)"
    using hd_decrypt_writes [OF assms(3)] st(2) by simp
  have "\<exists>w states. strip_padding no_failure tmp (length data) (decrypt_writes tmp outs h) = (Inr w, states)"
    using plain assms(2) length_tac_plain [OF assms(1)]
    by (auto simp: strip_padding_def no_failure_def Let_def tac_padding_def split: if_splits)
  then show ?thesis using st by (auto simp: decrypt_body_def no_failure_def)
qed

lemma decrypt_file_no_failure:
  assumes "s source = Some data" "source \<noteq> dest" "8 dvd length data"
    and "tac_padding (tac_plain data) \<le> length data"
  shows "\<exists>w states. decrypt_file no_failure tmp source dest s = (Inr w, states)"
proof -
  have "hd [fs_put tmp [] s, s] tmp = Some []" using staged_start by blast
  from decrypt_body_no_failure [OF assms(3,4) this, of dest] obtain w states where
    "decrypt_body no_failure tmp dest data [fs_put tmp [] s, s] = (Inr w, states)" by blast
  with assms show ?thesis by (simp add: decrypt_file_def no_failure_def dvd_eq_mod_eq_0)
qed

text \<open>The archive the tests pad: \<open>n\<close> alignment bytes, the last one holding \<open>n\<close>.\<close>

definition tac_padded :: "bytes \<Rightarrow> nat \<Rightarrow> bytes" where
  "tac_padded member n = member @ replicate (n - 1) 0 @ [of_nat n]"

lemma nibble_of_nat: "\<forall>n \<in> {1..15}. unat ((of_nat n :: byte) AND 0x0F) = n"
  by code_simp

lemma tac_padding_padded: "1 \<le> n \<Longrightarrow> n \<le> 15 \<Longrightarrow> tac_padding (tac_padded member n) = n"
  using nibble_of_nat by (simp add: tac_padding_def tac_padded_def)

section \<open>The sample run of the witnesses\<close>

definition sample_member :: bytes where
  "sample_member = [0x6F, 0x6E, 0x65, 0x2D, 0x77, 0x6F, 0x72, 0x64, 0x61, 0x72, 0x63, 0x68, 0x69, 0x76, 0x65]"

definition sample_cipher :: bytes where
  "sample_cipher = [0x46, 0x74, 0x27, 0x28, 0xCA, 0x43, 0xA4, 0x96, 0x3B, 0xB1, 0xBE, 0xA5, 0x21, 0x4D, 0xD2, 0x5D]"

lemma sample_encrypt: "encrypt_for_test (tac_padded sample_member 1) = Inr sample_cipher"
  by code_simp

definition sample_store :: store where
  "sample_store = [''/in.img'' \<mapsto> sample_cipher, ''/out.tgz'' \<mapsto> [1, 2, 3]]"

lemma sample_decrypt: "decrypt_bytes sample_cipher = Inr (tac_padded sample_member 1)"
  using sample_encrypt encrypt_decrypt_iff by blast

lemma sample_file_run:
  "\<exists>w states. decrypt_file no_failure ''/tmp'' ''/in.img'' ''/out.tgz'' sample_store = (Inr w, states)"
proof (rule decrypt_file_no_failure)
  show "sample_store ''/in.img'' = Some sample_cipher" by (simp add: sample_store_def)
  show "8 dvd length sample_cipher" by code_simp
  have "tac_plain sample_cipher = tac_padded sample_member 1"
    using sample_decrypt by (simp add: decrypt_bytes_eq split: if_splits)
  then show "tac_padding (tac_plain sample_cipher) \<le> length sample_cipher"
    by (simp add: tac_padding_padded sample_cipher_def)
qed simp

section \<open>Properties\<close>

text \<open>
  C20. However the stream is cut into chunks of at least eight bytes, the decryption produces the same
  bytes and the same error as the one-megabyte default: the carried state makes the chunk size
  unobservable.
\<close>

theorem decrypt_stream_chunk_independent:
  assumes "8 \<le> chunk_size" "decrypt_stream no_failure chunk_size source = (outputs, result)"
  shows "bindE result (\<lambda>_. Inr (concat outputs)) = decrypt_bytes source \<and>
    (\<forall>n. result = Inr n \<longrightarrow> n = length (concat outputs))"
  using decrypt_stream_no_failure [OF assms(1), of source] assms(2)
  by (auto simp: decrypt_bytes_eq length_tac_plain)

theorem decrypt_stream_chunk_independent_witness:
  "\<exists>outputs result. decrypt_stream no_failure 13 sample_cipher = (outputs, result) \<and>
     bindE result (\<lambda>_. Inr (concat outputs)) = Inr (tac_padded sample_member 1)"
proof -
  obtain outputs result where run: "decrypt_stream no_failure 13 sample_cipher = (outputs, result)"
    by (metis surj_pair)
  then show ?thesis
    using decrypt_stream_chunk_independent [OF _ run] sample_decrypt by simp
qed

text \<open>
  Decryption inverts encryption and encryption inverts decryption: the two transformations of
  word-aligned data are bijections of one another, and both refuse unaligned data.
\<close>

theorem encrypt_decrypt_roundtrip:
  "encrypt_for_test plain = Inr cipher \<longleftrightarrow> decrypt_bytes cipher = Inr plain"
  by (rule encrypt_decrypt_iff)

text \<open>
  Each decrypted word is the exclusive-or of the cipher word before it, its own cipher word and a
  key that alternates with the position: the transformation the format defines, read off the whole
  stream.
\<close>

theorem decrypt_bytes_closed_form:
  assumes "decrypt_bytes cipher = Inr plain" "8 * i < length cipher"
  shows "length plain = length cipher \<and> word_at plain i =
    (if i = 0 then 0 else word_at cipher (i - 1)) XOR INITIAL_XOR XOR (if odd i then XOR_FLIP else 0)
      XOR word_at cipher i"
proof -
  from assms(1) have c: "8 dvd length cipher" "plain = tac_plain cipher"
    by (auto simp: decrypt_bytes_eq split: if_splits)
  with assms(2) have "i < length cipher div 8" by (auto simp: dvd_def)
  from decrypt_words_nth [OF this, of cipher 0 INITIAL_XOR] c show ?thesis
    by (simp add: tac_plain_def length_tac_plain)
qed

theorem decrypt_bytes_closed_form_witness:
  "decrypt_bytes sample_cipher = Inr (tac_padded sample_member 1) \<and>
   word_at (tac_padded sample_member 1) 1 =
     word_at sample_cipher 0 XOR INITIAL_XOR XOR XOR_FLIP XOR word_at sample_cipher 1"
  using decrypt_bytes_closed_form [OF sample_decrypt, of 1] sample_decrypt
  by (simp add: sample_cipher_def)

text \<open>
  C18. Whichever system calls fail, the destination is never seen half-written: in every state of a
  run it holds its old content or, after a successful rename, the complete stripped plaintext; no other
  file is touched; and after an error the temporary file is gone and the whole store is as before,
  unless removing it failed too.
\<close>

theorem decrypt_file_atomic:
  assumes run: "decrypt_file fails tmp source dest s = (r, states)" and tmp: "s tmp = None" "tmp \<noteq> dest"
  shows "(\<forall>st \<in> set states. (\<forall>q. q \<noteq> tmp \<and> q \<noteq> dest \<longrightarrow> st q = s q) \<and>
      (st dest = s dest \<or> (\<exists>data plain w. r = Inr w \<and> s source = Some data \<and>
         decrypt_bytes data = Inr plain \<and> st dest = Some (take w plain)))) \<and>
    (\<forall>e. r = Inl e \<and> \<not> fails Unlink \<longrightarrow> hd states = s)"
  using run
proof (cases rule: decrypt_file_cases)
  case (2 data)
  then obtain w where w: "r = Inr w" by auto
  note b = decrypt_body_result [OF 2(3)] staged_start [of s tmp]
  from b w have st: "staged s tmp (tl states)" "hd (tl states) tmp = Some (take w (tac_plain data))"
    "states = fs_replace tmp dest (hd (tl states)) # tl states" "decrypt_bytes data = Inr (tac_plain data)"
    by auto
  have pub: "fs_replace tmp dest (hd (tl states)) = s(dest := Some (take w (tac_plain data)))"
    by (rule tac_publish [OF tmp st(1,2)])
  have "set states = insert (s(dest := Some (take w (tac_plain data)))) (set (tl states))"
    by (subst st(3)) (simp add: pub)
  with st(1,4) w 2(1) tmp(2) show ?thesis by (auto simp: staged_def differs_only_at_def)
next
  case (3 data e st)
  from decrypt_body_result [OF 3(2)] staged_start [of s tmp] have st: "staged s tmp st" by auto
  then have "fs_unlink tmp (hd st) = s"
    using differs_only_at_unlink [of s tmp "hd st"] tmp(1) by (auto simp: staged_def)
  with 3 st tmp(2) show ?thesis by (auto simp: staged_def differs_only_at_def)
qed auto

theorem decrypt_file_atomic_witness:
  "\<exists>states. decrypt_file (\<lambda>step. step = OpenSource) ''/tmp'' ''/in.img'' ''/out.tgz'' sample_store =
       (Inl (OSError ''open''), states) \<and> length states = 3 \<and> hd states = sample_store"
proof -
  let ?fails = "\<lambda>step. step = OpenSource" and ?s = "sample_store"
  have "length sample_cipher mod 8 = 0" by code_simp
  then have run: "decrypt_file ?fails ''/tmp'' ''/in.img'' ''/out.tgz'' ?s =
      (Inl (OSError ''open''), [fs_unlink ''/tmp'' (fs_put ''/tmp'' [] ?s), fs_put ''/tmp'' [] ?s, ?s])"
    by (simp add: decrypt_file_def decrypt_body_def sample_store_def)
  have tmp: "?s ''/tmp'' = None" "''/tmp'' \<noteq> ''/out.tgz''" by (simp_all add: sample_store_def)
  from decrypt_file_atomic [OF run tmp] run show ?thesis by simp
qed

text \<open>
  A run that returns has published exactly the decrypted source without the padding its last byte
  announces, returns that length, leaves every other file alone and no temporary file behind.
\<close>

theorem decrypt_file_result:
  assumes run: "decrypt_file fails tmp source dest s = (Inr w, states)" and tmp: "s tmp = None" "tmp \<noteq> dest"
  shows "\<exists>data plain. s source = Some data \<and> decrypt_bytes data = Inr plain \<and>
    tac_padding plain \<le> length plain \<and> w = length plain - tac_padding plain \<and>
    hd states = s(dest := Some (take w plain))"
  using assms by (rule decrypt_file_Inr)

theorem decrypt_file_result_witness:
  "\<exists>w states. decrypt_file no_failure ''/tmp'' ''/in.img'' ''/out.tgz'' sample_store = (Inr w, states) \<and>
     w = 15 \<and> hd states = sample_store(''/out.tgz'' := Some sample_member)"
proof -
  obtain w states where run:
    "decrypt_file no_failure ''/tmp'' ''/in.img'' ''/out.tgz'' sample_store = (Inr w, states)"
    using sample_file_run by blast
  have tmp: "sample_store ''/tmp'' = None" "''/tmp'' \<noteq> ''/out.tgz''" by (simp_all add: sample_store_def)
  have "sample_store ''/in.img'' = Some sample_cipher" by (simp add: sample_store_def)
  with decrypt_file_result [OF run tmp] sample_decrypt tac_padding_padded [of 1 sample_member] run
  show ?thesis by (auto simp: tac_padded_def sample_member_def)
qed

text \<open>
  C19. When no system call fails, decrypting the encryption of a padded archive succeeds and publishes
  the archive itself: the padding nibble removes exactly the alignment bytes, 1 to 15 of them.
\<close>

theorem decrypt_file_padded_member:
  assumes "encrypt_for_test (tac_padded member n) = Inr cipher" "1 \<le> n" "n \<le> 15"
    and "s source = Some cipher" "source \<noteq> dest" "s tmp = None" "tmp \<noteq> dest"
  shows "\<exists>states. decrypt_file no_failure tmp source dest s = (Inr (length member), states) \<and>
    hd states = s(dest := Some member)"
proof -
  from assms(1) have dec: "decrypt_bytes cipher = Inr (tac_padded member n)"
    by (simp add: encrypt_decrypt_iff)
  then have c: "8 dvd length cipher" "tac_plain cipher = tac_padded member n"
    by (auto simp: decrypt_bytes_eq split: if_splits)
  have pad: "tac_padding (tac_padded member n) = n" "length (tac_padded member n) = length member + n"
    using assms(2,3) by (simp_all add: tac_padding_padded) (simp add: tac_padded_def)
  have "tac_padding (tac_plain cipher) \<le> length cipher"
    using pad c length_tac_plain [OF c(1)] by simp
  then obtain w states where run: "decrypt_file no_failure tmp source dest s = (Inr w, states)"
    using decrypt_file_no_failure [of s source cipher dest tmp] assms(4,5) c(1) by blast
  from decrypt_file_Inr [OF run assms(6,7)] assms(4) dec pad show ?thesis
    using run by (auto simp: tac_padded_def)
qed

theorem decrypt_file_padded_member_witness:
  "\<exists>states. decrypt_file no_failure ''/tmp'' ''/in.img'' ''/out.tgz'' sample_store = (Inr 15, states) \<and>
     hd states ''/out.tgz'' = Some sample_member"
  using decrypt_file_padded_member [OF sample_encrypt _ _ , of sample_store "''/in.img''" "''/out.tgz''" "''/tmp''"]
  by (auto simp: sample_store_def sample_member_def)

end
