(* ===== verification/CpuLimiter.thy ===== *)
theory CpuLimiter
imports Prelude
begin

text \<open>
  \<open>limit-process-cpu.py\<close>: the loop that alternates \<open>SIGCONT\<close> and \<open>SIGSTOP\<close>, as a
  step relation.  A state is the point the program has reached and the condition of the target
  process; an event says what the system answers: a signal is delivered (or the process is found
  gone), is refused (\<open>PermissionError\<close>), a sleep ends, \<open>KeyboardInterrupt\<close> arrives, the
  target exits, or the limiter itself is killed by a signal without a Python handler
  (\<open>SIGTERM\<close>), which skips the \<open>finally\<close> block.
\<close>

section \<open>The duty cycle\<close>

text \<open>
  \<open>percent\<close> is clamped; of the period of 100 ms the target runs \<open>percent\<close> ms.  The source
  computes the two durations in floating point; these are the exact values.
\<close>

definition PERIOD_MS :: int where "PERIOD_MS = 100"

definition clamp_percent :: "int \<Rightarrow> int" where
  "clamp_percent requested = max 1 (min 95 requested)"

definition running_ms :: "int \<Rightarrow> int" where
  "running_ms requested = PERIOD_MS * clamp_percent requested div 100"

definition stopped_ms :: "int \<Rightarrow> int" where
  "stopped_ms requested = PERIOD_MS - running_ms requested"

section \<open>The step relation\<close>

datatype limiter_outcome = Returned int | Raised string

datatype limiter_pc =
    SendCont | SleepRunning | SendStop | SleepStopped
  | Finally limiter_outcome | Exited limiter_outcome | Killed

datatype target_state = TRunning | TStopped | TGone

datatype limiter_event = Signal | Refused | Slept | Interrupt | TargetExit | Terminate

type_synonym limiter_state = "limiter_pc \<times> target_state"

definition in_loop :: "limiter_pc \<Rightarrow> bool" where
  "in_loop pc \<longleftrightarrow> pc = SendCont \<or> pc = SleepRunning \<or> pc = SendStop \<or> pc = SleepStopped"

fun finished :: "limiter_pc \<Rightarrow> bool" where
  "finished (Exited r) = True"
| "finished Killed = True"
| "finished _ = False"

inductive limiter_step :: "limiter_state \<Rightarrow> limiter_event \<Rightarrow> limiter_state \<Rightarrow> bool" where
  cont: "t \<noteq> TGone \<Longrightarrow> limiter_step (SendCont, t) Signal (SleepRunning, TRunning)"
| cont_gone: "limiter_step (SendCont, TGone) Signal (Finally (Returned 0), TGone)"
| cont_refused: "t \<noteq> TGone \<Longrightarrow> limiter_step (SendCont, t) Refused (Finally (Raised ''PermissionError''), t)"
| ran: "limiter_step (SleepRunning, t) Slept (SendStop, t)"
| stop: "t \<noteq> TGone \<Longrightarrow> limiter_step (SendStop, t) Signal (SleepStopped, TStopped)"
| stop_gone: "limiter_step (SendStop, TGone) Signal (Finally (Returned 0), TGone)"
| stop_refused: "t \<noteq> TGone \<Longrightarrow> limiter_step (SendStop, t) Refused (Finally (Raised ''PermissionError''), t)"
| waited: "limiter_step (SleepStopped, t) Slept (SendCont, t)"
| interrupted: "in_loop pc \<Longrightarrow> limiter_step (pc, t) Interrupt (Finally (Returned 130), t)"
| resume: "t \<noteq> TGone \<Longrightarrow> limiter_step (Finally r, t) Signal (Exited r, TRunning)"
| resume_gone: "limiter_step (Finally r, TGone) Signal (Exited r, TGone)"
| resume_refused: "t \<noteq> TGone \<Longrightarrow> limiter_step (Finally r, t) Refused (Exited (Raised ''PermissionError''), t)"
| resume_interrupted: "limiter_step (Finally r, t) Interrupt (Exited (Raised ''KeyboardInterrupt''), t)"
| target_exit: "limiter_step (pc, t) TargetExit (pc, TGone)"
| terminated: "\<not> finished pc \<Longrightarrow> limiter_step (pc, t) Terminate (Killed, t)"

inductive_cases limiter_stepE: "limiter_step s e s'"

inductive limiter_run :: "limiter_state \<Rightarrow> limiter_event list \<Rightarrow> limiter_state \<Rightarrow> bool" where
  start: "limiter_run s [] s"
| step: "limiter_run s es s' \<Longrightarrow> limiter_step s' e s'' \<Longrightarrow> limiter_run s (es @ [e]) s''"

definition limiter_start :: limiter_state where
  "limiter_start = (SendCont, TRunning)"

text \<open>\<open>main\<close> before the loop: a wrong number of arguments is a usage error.\<close>

definition limiter_main :: "string list \<Rightarrow> int + limiter_state" where
  "limiter_main argv = (if length argv \<noteq> 3 then Inl 2 else Inr limiter_start)"

section \<open>The invariant\<close>

text \<open>
  The target is stopped only between a \<open>SIGSTOP\<close> and the next \<open>SIGCONT\<close>, or because the
  limiter was kept from sending the last one.
\<close>

fun limiter_inv :: "limiter_state \<Rightarrow> bool" where
  "limiter_inv (SleepRunning, t) = (t \<noteq> TStopped)"
| "limiter_inv (SendStop, t) = (t \<noteq> TStopped)"
| "limiter_inv (Finally (Returned n), t) = (n = 130 \<or> n = 0 \<and> t = TGone)"
| "limiter_inv (Exited (Returned n), t) = (t \<noteq> TStopped \<and> (n = 130 \<or> n = 0 \<and> t = TGone))"
| "limiter_inv _ = True"

lemma limiter_inv_step: "limiter_step s e s' \<Longrightarrow> limiter_inv s \<Longrightarrow> limiter_inv s'"
proof (induction rule: limiter_step.induct)
  case (resume t r)
  then show ?case by (cases r) auto
next
  case (resume_gone r)
  then show ?case by (cases r) auto
next
  case (target_exit pc t)
  then show ?case by (cases "(pc, t)" rule: limiter_inv.cases) auto
qed auto

lemma limiter_inv_run: "limiter_run s es s' \<Longrightarrow> limiter_inv s \<Longrightarrow> limiter_inv s'"
  by (induction rule: limiter_run.induct) (auto intro: limiter_inv_step)

section \<open>Properties\<close>


lemma sample_stopped: "limiter_run limiter_start [Signal, Slept, Signal] (SleepStopped, TStopped)"
proof -
  have "limiter_run limiter_start ([] @ [Signal]) (SleepRunning, TRunning)"
    unfolding limiter_start_def by (rule limiter_run.step [OF limiter_run.start cont]) simp
  from limiter_run.step [OF this ran] have "limiter_run limiter_start (([] @ [Signal]) @ [Slept]) (SendStop, TRunning)" .
  from limiter_run.step [OF this stop] show ?thesis by simp
qed


text \<open>
  A limiter that is terminated instead runs no \<open>finally\<close> block: \<open>SIGTERM\<close> in the stop phase
  leaves the target stopped.  This is how \<open>run-zd1200-web.sh\<close> ends the limiter before it asks the
  guest for an orderly shutdown.
\<close>

theorem terminated_limiter_leaves_target_stopped:
  "limiter_run limiter_start [Signal, Slept, Signal, Terminate] (Killed, TStopped)"
  using limiter_run.step [OF sample_stopped terminated] by simp

text \<open>
  For any requested percentage the target runs between 1 and 95 of each 100 milliseconds and is
  stopped for the rest, at least 5; a request between 1 and 95 is honoured exactly.
\<close>

theorem duty_cycle_bounds:
  "1 \<le> running_ms p \<and> running_ms p \<le> 95 \<and> 5 \<le> stopped_ms p \<and> running_ms p + stopped_ms p = PERIOD_MS \<and>
   (1 \<le> p \<and> p \<le> 95 \<longrightarrow> running_ms p = p)"
  by (auto simp: running_ms_def stopped_ms_def clamp_percent_def PERIOD_MS_def)

theorem duty_cycle_bounds_witness:
  "running_ms 60 = 60 \<and> running_ms 1000 = 95 \<and> running_ms (- 5) = 1"
  using duty_cycle_bounds [of 60]
  by (simp add: running_ms_def clamp_percent_def PERIOD_MS_def)

section \<open>Stopping\<close>

text \<open>How many more answers of the system a limiter needs once its target is gone.\<close>

fun remaining :: "limiter_pc \<Rightarrow> nat" where
  "remaining SendCont = 2"
| "remaining SleepRunning = 3"
| "remaining SendStop = 2"
| "remaining SleepStopped = 3"
| "remaining (Finally r) = 1"
| "remaining _ = 0"

definition orderly :: "limiter_pc \<Rightarrow> bool" where
  "orderly pc \<longleftrightarrow> in_loop pc \<or> pc = Finally (Returned 0) \<or> pc = Exited (Returned 0)"

lemma orderly_step:
  assumes "limiter_step (pc, TGone) e (pc', t')" "e = Signal \<or> e = Slept" "orderly pc"
  shows "t' = TGone \<and> orderly pc' \<and> remaining pc = Suc (remaining pc')"
  using assms by (auto elim!: limiter_stepE simp: orderly_def in_loop_def)

lemma orderly_progress:
  "orderly pc \<Longrightarrow> remaining pc \<noteq> 0 \<Longrightarrow> \<exists>e \<in> {Signal, Slept}. \<exists>s. limiter_step (pc, TGone) e s"
  using ran [of TGone] waited [of TGone] cont_gone stop_gone resume_gone [of "Returned 0"]
  by (cases pc) (auto simp: orderly_def in_loop_def simp del: split_paired_Ex)

lemma orderly_run:
  "limiter_run s es s' \<Longrightarrow> s = (pc, TGone) \<Longrightarrow> set es \<subseteq> {Signal, Slept} \<Longrightarrow> orderly pc \<Longrightarrow>
   snd s' = TGone \<and> orderly (fst s') \<and> length es + remaining (fst s') = remaining pc"
proof (induction rule: limiter_run.induct)
  case (step s es s' e s'')
  then have ih: "snd s' = TGone" "orderly (fst s')" "length es + remaining (fst s') = remaining pc" by auto
  from step.hyps(2) ih(1) have "limiter_step (fst s', TGone) e (fst s'', snd s'')" by (metis prod.collapse)
  from orderly_step [OF this _ ih(2)] step.prems(2) ih(3) show ?case by auto
qed auto

text \<open>
  C39. Once the target is gone the limiter stops by itself: from any point of its loop, whatever mix of
  delivered signals and ended sleeps follows, it makes at most three more steps, is never stuck before the
  end, and the end is the return of 0.
\<close>

theorem limiter_stops_after_target:
  assumes "limiter_run (pc, TGone) es (pc', t)" "set es \<subseteq> {Signal, Slept}" "in_loop pc"
  shows "t = TGone \<and> length es \<le> 3 \<and>
    (pc' = Exited (Returned 0) \<or> (\<exists>e \<in> {Signal, Slept}. \<exists>s. limiter_step (pc', TGone) e s))"
proof -
  have o: "orderly pc" using assms(3) by (simp add: orderly_def)
  from orderly_run [OF assms(1) refl assms(2) o] have
    r: "t = TGone" "orderly pc'" "length es + remaining pc' = remaining pc" by simp_all
  have "remaining pc \<le> 3" by (cases pc) auto
  moreover have "pc' = Exited (Returned 0)" if "remaining pc' = 0"
    using r(2) that by (auto simp: orderly_def in_loop_def)
  ultimately show ?thesis using r orderly_progress [OF r(2)] by linarith
qed

theorem limiter_stops_after_target_witness:
  "limiter_run (SleepRunning, TGone) [Slept, Signal, Signal] (Exited (Returned 0), TGone) \<and>
   length [Slept, Signal, Signal] \<le> 3"
proof -
  have "limiter_run (SleepRunning, TGone) ([] @ [Slept]) (SendStop, TGone)"
    by (rule limiter_run.step [OF limiter_run.start ran])
  from limiter_run.step [OF limiter_run.step [OF this stop_gone] resume_gone]
  have run: "limiter_run (SleepRunning, TGone) [Slept, Signal, Signal] (Exited (Returned 0), TGone)" by simp
  from limiter_stops_after_target [OF run] run show ?thesis by (simp add: in_loop_def)
qed

end
