(* ===== verification/Artifact.thy ===== *)
theory Artifact
imports PatchProperties
begin

text \<open>
  The container side of \<open>patch_binary_artifact.py\<close>: locating the gzip member of a
  vendor bzImage, extracting the payload of an artifact, putting a patched payload back without
  moving the container's fixed data, and the command's \<open>main\<close>.

  The zlib library is not in the repository: \<open>dz\<close> stands for
  \<open>zlib.decompress(data, 16 + MAX_WBITS)\<close> (\<open>None\<close> for \<open>zlib.error\<close>) and
  \<open>gz\<close> for \<open>gzip.compress(payload, compresslevel=9, mtime=0)\<close>.  CRC-32 is written
  out bit by bit.
\<close>

unbundle bit_operations_syntax

section \<open>CRC-32\<close>

definition crc32_bit :: "int \<Rightarrow> int" where
  "crc32_bit c = (if odd c then c div 2 XOR 0xEDB88320 else c div 2)"

definition crc32_byte :: "int \<Rightarrow> byte \<Rightarrow> int" where
  "crc32_byte c b = (crc32_bit ^^ 8) (c XOR uint b)"

definition crc32 :: "bytes \<Rightarrow> int" where
  "crc32 data = foldl crc32_byte 0xFFFFFFFF data XOR 0xFFFFFFFF"

text \<open>The check value of the CRC-32 used by gzip: the digits 1 to 9.\<close>

lemma crc32_check_value:
  "crc32 [0x31, 0x32, 0x33, 0x34, 0x35, 0x36, 0x37, 0x38, 0x39] = 0xCBF43926"
  by code_simp

section \<open>Finding the member\<close>

type_synonym gunzip = "bytes \<Rightarrow> bytes option"

definition GZIP_MAGIC :: bytes where
  "GZIP_MAGIC = [0x1F, 0x8B, 0x08]"

definition is_elf32 :: "bytes \<Rightarrow> bool" where
  "is_elf32 payload \<longleftrightarrow> take 4 payload = [0x7F, 0x45, 0x4C, 0x46] \<and> bslice payload 4 5 = [0x01]"

definition gzip_trailer :: "bytes \<Rightarrow> bytes" where
  "gzip_trailer payload =
     le_bytes 4 (crc32 payload AND 0xFFFFFFFF) @ le_bytes 4 (int (length payload) AND 0xFFFFFFFF)"

text \<open>The part of the loop body after a candidate has been accepted.\<close>

definition delimit_member :: "gunzip \<Rightarrow> bytes \<Rightarrow> nat \<Rightarrow> bytes \<Rightarrow> (nat \<times> nat \<times> bytes) result" where
  "delimit_member dz data member_start payload =
     (let trailer = gzip_trailer payload
      in case bytes_find data trailer (member_start + 10) of
           None \<Rightarrow> Inl (ValueError ''gzip member has no matching trailer'')
         | Some trailer_start \<Rightarrow>
             let member_end = trailer_start + length trailer
             in case dz (bslice data member_start member_end) of
                  None \<Rightarrow> Inl (ValueError ''candidate gzip trailer does not delimit the member'')
                | Some confirmed \<Rightarrow>
                    if confirmed \<noteq> payload then
                      Inl (ValueError ''gzip member changed while locating its trailer'')
                    else Inr (member_start, member_end, payload))"

lemma bytes_find_bound:
  "bytes_find data sub i = Some j \<Longrightarrow> i \<le> j \<and> j + length sub \<le> length data"
  by (simp add: bytes_find_Some_iff)

function elf_member_from :: "gunzip \<Rightarrow> bytes \<Rightarrow> nat \<Rightarrow> (nat \<times> nat \<times> bytes) result" where
  "elf_member_from dz data search_from =
     (case bytes_find data GZIP_MAGIC search_from of
        None \<Rightarrow> Inl (ValueError ''no gzip member decompresses to a 32-bit ELF'')
      | Some member_start \<Rightarrow>
          (case dz (drop member_start data) of
             None \<Rightarrow> elf_member_from dz data (member_start + 1)
           | Some payload \<Rightarrow>
               if \<not> is_elf32 payload then elf_member_from dz data (member_start + 1)
               else delimit_member dz data member_start payload))"
  by pat_completeness auto

termination
  by (relation "measure (\<lambda>(dz, data, i). length data + 1 - i)")
     (auto simp: GZIP_MAGIC_def dest!: bytes_find_bound)

declare elf_member_from.simps [simp del]

definition find_elf_member :: "gunzip \<Rightarrow> bytes \<Rightarrow> (nat \<times> nat \<times> bytes) result" where
  "find_elf_member dz data = elf_member_from dz data 0"

section \<open>Extracting and rebuilding\<close>

text \<open>The rebuild context is opaque in the code: nothing for a raw artifact, a pair for a member.\<close>

definition extract_artifact ::
  "catalog \<Rightarrow> gunzip \<Rightarrow> bytes \<Rightarrow> string \<Rightarrow> (bytes \<times> (nat \<times> nat) option) result" where
  "extract_artifact cat dz source aid =
     (case map_of (cat_artifacts cat) aid of
        None \<Rightarrow> Inl (KeyError aid)
      | Some artifact \<Rightarrow>
          if ar_handler artifact = ''raw'' then Inr (source, None)
          else if ar_handler artifact = ''zd1200_bzimage_gzip_elf'' then
            bindE (find_elf_member dz source) (\<lambda>(start, stop, payload).
              Inr (payload, Some (start, stop)))
          else Inl (ValueError ''artifact uses unknown handler''))"

definition rebuild_member :: "(bytes \<Rightarrow> bytes) \<Rightarrow> bytes \<Rightarrow> bytes \<Rightarrow> nat \<Rightarrow> nat \<Rightarrow> bytes result" where
  "rebuild_member gz source payload start stop =
     (let member_len = stop - start; member = gz payload
      in if length member > member_len then
           Inl (ValueError ''patched payload recompresses larger than original member'')
         else Inr (take start source @ (member @ replicate (member_len - length member) 0)
                   @ drop stop source))"

definition rebuild_artifact ::
  "catalog \<Rightarrow> (bytes \<Rightarrow> bytes) \<Rightarrow> bytes \<Rightarrow> bytes \<Rightarrow> string \<Rightarrow> (nat \<times> nat) option \<Rightarrow> bytes result" where
  "rebuild_artifact cat gz source payload aid context =
     (case map_of (cat_artifacts cat) aid of
        None \<Rightarrow> Inl (KeyError aid)
      | Some artifact \<Rightarrow>
          if ar_handler artifact = ''raw'' then Inr payload
          else if ar_handler artifact = ''zd1200_bzimage_gzip_elf'' then
            (case context of
               None \<Rightarrow> Inl (ValueError ''missing bzImage member context'')
             | Some (start, stop) \<Rightarrow> rebuild_member gz source payload start stop)
          else Inl (ValueError ''artifact uses unknown handler''))"

section \<open>The command\<close>

text \<open>
  \<open>main\<close> on the bytes of its input file: what it writes to the output file and whether the
  result line says the input was patched.  The optional \<open>--vmlinux\<close> file only selects a
  printed note.  \<open>argparse\<close> admits only catalog ids, and a \<open>ValueError\<close> of any step
  becomes an exit before the output file is written; other exceptions propagate.
\<close>

datatype vmlinux_note = NoNote | PayloadMatches | PayloadDiffers

definition vmlinux_check :: "bytes option \<Rightarrow> string \<Rightarrow> bytes \<Rightarrow> vmlinux_note" where
  "vmlinux_check vmlinux aid payload =
     (case vmlinux of
        None \<Rightarrow> NoNote
      | Some reference \<Rightarrow>
          if aid \<noteq> ''zd1200_kernel_elf'' then NoNote
          else if reference = payload then PayloadMatches else PayloadDiffers)"

definition patch_steps ::
  "catalog \<Rightarrow> gunzip \<Rightarrow> (bytes \<Rightarrow> bytes) \<Rightarrow> bytes option \<Rightarrow> string \<Rightarrow> bytes \<Rightarrow>
   (bytes \<times> bool \<times> vmlinux_note) result" where
  "patch_steps cat dz gz vmlinux aid source =
     bindE (extract_artifact cat dz source aid) (\<lambda>(payload, context).
     bindE (apply_artifact cat payload aid) (\<lambda>(patched_payload, changed, log).
     bindE (rebuild_artifact cat gz source patched_payload aid context) (\<lambda>patched.
       Inr (patched, changed, vmlinux_check vmlinux aid payload))))"

definition patch_main ::
  "catalog \<Rightarrow> gunzip \<Rightarrow> (bytes \<Rightarrow> bytes) \<Rightarrow> bytes option \<Rightarrow> string \<Rightarrow> bytes \<Rightarrow>
   (bytes \<times> bool \<times> vmlinux_note) result" where
  "patch_main cat dz gz vmlinux aid source =
     (if map_of (cat_artifacts cat) aid = None then Inl (SystemExit ''2'')
      else case patch_steps cat dz gz vmlinux aid source of
             Inl (ValueError m) \<Rightarrow> Inl (SystemExit ''refusing to patch'')
           | r \<Rightarrow> r)"

section \<open>What a located member guarantees\<close>

definition member_candidate :: "gunzip \<Rightarrow> bytes \<Rightarrow> nat \<Rightarrow> bool" where
  "member_candidate dz data i \<longleftrightarrow>
     i + length GZIP_MAGIC \<le> length data \<and> occurs_at data GZIP_MAGIC i \<and>
     (\<exists>payload. dz (drop i data) = Some payload \<and> is_elf32 payload)"

lemma length_gzip_trailer [simp]: "length (gzip_trailer payload) = 8"
  by (simp add: gzip_trailer_def)

lemma delimit_member_Inr:
  assumes "delimit_member dz data s payload = Inr (s', e, p)"
  shows "s' = s \<and> p = payload \<and> s + 18 \<le> e \<and> e \<le> length data \<and>
    bslice data (e - 8) e = gzip_trailer payload \<and> dz (bslice data s e) = Some payload"
  using assms
  by (auto simp: delimit_member_def Let_def bytes_find_Some_iff occurs_at_def bslice_def
      split: option.splits if_splits)

lemma elf_member_from_spec:
  assumes "elf_member_from dz data i = Inr (s, e, payload)"
  shows "i \<le> s \<and> member_candidate dz data s \<and> dz (drop s data) = Some payload \<and>
    is_elf32 payload \<and> delimit_member dz data s payload = Inr (s, e, payload) \<and>
    (\<forall>j. i \<le> j \<and> j < s \<longrightarrow> \<not> member_candidate dz data j)"
  using assms
proof (induction dz data i rule: elf_member_from.induct)
  case (1 dz data i)
  note IH = "1.IH" and run = "1.prems" [unfolded elf_member_from.simps [of dz data i]]
  from run obtain m where m: "bytes_find data GZIP_MAGIC i = Some m"
    by (auto split: option.splits)
  then have hit: "i \<le> m" "m + length GZIP_MAGIC \<le> length data" "occurs_at data GZIP_MAGIC m"
    and before: "\<And>j. i \<le> j \<Longrightarrow> j < m \<Longrightarrow> \<not> member_candidate dz data j"
    by (auto simp: bytes_find_Some_iff member_candidate_def)
  have skip: ?case
    if no: "\<not> member_candidate dz data m" and rest: "elf_member_from dz data (m + 1) = Inr (s, e, payload)"
      and ih: "elf_member_from dz data (m + 1) = Inr (s, e, payload) \<Longrightarrow>
        m + 1 \<le> s \<and> member_candidate dz data s \<and> dz (drop s data) = Some payload \<and>
        is_elf32 payload \<and> delimit_member dz data s payload = Inr (s, e, payload) \<and>
        (\<forall>j. m + 1 \<le> j \<and> j < s \<longrightarrow> \<not> member_candidate dz data j)"
  proof -
    from ih [OF rest] have r: "m + 1 \<le> s" "\<forall>j. m + 1 \<le> j \<and> j < s \<longrightarrow> \<not> member_candidate dz data j"
      by blast+
    have "\<not> member_candidate dz data j" if "i \<le> j" "j < s" for j
      using before [of j] no r(2) that by (metis Suc_eq_plus1 Suc_leI linorder_neqE_nat)
    with ih [OF rest] hit(1) show ?thesis by auto
  qed
  show ?case
  proof (cases "dz (drop m data)")
    case None
    then have "\<not> member_candidate dz data m" by (simp add: member_candidate_def)
    with run m None IH(1) [OF m None] show ?thesis by (intro skip) auto
  next
    case (Some p)
    show ?thesis
    proof (cases "is_elf32 p")
      case False
      with Some have "\<not> member_candidate dz data m" by (simp add: member_candidate_def)
      with run m Some False IH(2) [OF m Some] show ?thesis by (intro skip) auto
    next
      case True
      with run m Some have d: "delimit_member dz data m p = Inr (s, e, payload)" by simp
      with delimit_member_Inr [OF d] hit before Some True show ?thesis
        by (auto simp: member_candidate_def)
    qed
  qed
qed

lemma rebuild_member_Inr:
  assumes "rebuild_member gz source payload start stop = Inr out"
    and "start \<le> stop" "stop \<le> length source"
  shows "length out = length source \<and> take start out = take start source \<and>
    drop stop out = drop stop source \<and>
    (\<exists>pad. bslice out start stop = gz payload @ replicate pad 0)"
proof -
  from assms(1) have len: "length (gz payload) \<le> stop - start"
    and out: "out = take start source @ (gz payload @ replicate (stop - start - length (gz payload)) 0)
                   @ drop stop source"
    by (auto simp: rebuild_member_def Let_def split: if_splits)
  have "bslice out start stop = gz payload @ replicate (stop - start - length (gz payload)) 0"
    using len assms(2,3) by (simp add: out bslice_def)
  with len assms(2,3) show ?thesis by (auto simp: out)
qed

lemma elf_member_from_none:
  "elf_member_from dz data i = Inl (ValueError ''no gzip member decompresses to a 32-bit ELF'') \<longleftrightarrow>
     (\<forall>j \<ge> i. \<not> member_candidate dz data j)"
proof (induction dz data i rule: elf_member_from.induct)
  case (1 dz data i)
  show ?case
  proof (cases "bytes_find data GZIP_MAGIC i")
    case None
    then have "\<forall>j \<ge> i. \<not> member_candidate dz data j"
      unfolding bytes_find_None_iff by (auto simp: member_candidate_def)
    with None show ?thesis by (simp add: elf_member_from.simps [of dz data i])
  next
    case (Some m)
    then have hit: "i \<le> m" "m + length GZIP_MAGIC \<le> length data" "occurs_at data GZIP_MAGIC m"
      and before: "\<And>j. i \<le> j \<Longrightarrow> j < m \<Longrightarrow> \<not> member_candidate dz data j"
      by (auto simp: bytes_find_Some_iff member_candidate_def)
    have step: "(\<forall>j \<ge> i. \<not> member_candidate dz data j) \<longleftrightarrow>
        \<not> member_candidate dz data m \<and> (\<forall>j \<ge> m + 1. \<not> member_candidate dz data j)"
      using before hit(1) by (metis Suc_eq_plus1 Suc_leI linorder_neqE_nat order.trans le_add1)
    show ?thesis
    proof (cases "dz (drop m data)")
      case None
      with 1(1) [OF Some] step Some show ?thesis
        by (simp add: elf_member_from.simps [of dz data i] member_candidate_def)
    next
      case (Some p)
      show ?thesis
      proof (cases "is_elf32 p")
        case False
        with 1(2) [OF \<open>bytes_find data GZIP_MAGIC i = _\<close> Some] step Some
          \<open>bytes_find data GZIP_MAGIC i = _\<close> show ?thesis
          by (simp add: elf_member_from.simps [of dz data i] member_candidate_def)
      next
        case True
        then have "member_candidate dz data m" using hit Some by (simp add: member_candidate_def)
        moreover have "delimit_member dz data m p \<noteq>
            Inl (ValueError ''no gzip member decompresses to a 32-bit ELF'')"
          by (auto simp: delimit_member_def Let_def split: option.splits)
        ultimately show ?thesis using True Some \<open>bytes_find data GZIP_MAGIC i = _\<close> hit(1)
          by (auto simp: elf_member_from.simps [of dz data i])
      qed
    qed
  qed
qed

lemma find_elf_member_errors:
  "find_elf_member dz data = Inl e \<Longrightarrow> \<exists>m. e = ValueError m"
proof -
  have "elf_member_from dz data i = Inl e \<Longrightarrow> \<exists>m. e = ValueError m" for i
  proof (induction dz data i rule: elf_member_from.induct)
    case (1 dz data i)
    from "1.prems" [unfolded elf_member_from.simps [of dz data i]] 1(1,2) show ?case
      by (auto simp: delimit_member_def Let_def split: option.splits if_splits)
  qed
  then show "find_elf_member dz data = Inl e \<Longrightarrow> \<exists>m. e = ValueError m"
    by (simp add: find_elf_member_def)
qed

section \<open>A lossless codec for the sample runs\<close>

fun toy_encode :: "bytes \<Rightarrow> bytes" where
  "toy_encode [] = [0]"
| "toy_encode (b # bs) = 1 # b # toy_encode bs"

fun toy_decode :: "bytes \<Rightarrow> (bytes \<times> bytes) option" where
  "toy_decode (x # y # rest) =
     (if x = 1 then map_option (\<lambda>(p, r). (y # p, r)) (toy_decode rest)
      else Some ([], y # rest))"
| "toy_decode _ = None"

definition toy_gzip :: "bytes \<Rightarrow> bytes" where
  "toy_gzip p = GZIP_MAGIC @ replicate 7 0 @ toy_encode p @ gzip_trailer p"

definition toy_gunzip :: gunzip where
  "toy_gunzip d =
     (if take 3 d \<noteq> GZIP_MAGIC then None
      else case toy_decode (drop 10 d) of
             None \<Rightarrow> None
           | Some (p, r) \<Rightarrow> if take 8 r = gzip_trailer p then Some p else None)"

lemma toy_decode_encode: "rest \<noteq> [] \<Longrightarrow> toy_decode (toy_encode p @ rest) = Some (p, rest)"
proof (induction p)
  case Nil
  then show ?case by (cases rest) auto
qed simp

lemma toy_gunzip_gzip: "toy_gunzip (toy_gzip p @ rest) = Some p"
proof -
  have "gzip_trailer p @ rest \<noteq> []" by (auto simp flip: length_0_conv)
  then show ?thesis
    by (simp add: toy_gunzip_def toy_gzip_def GZIP_MAGIC_def toy_decode_encode)
qed

definition sample_elf :: bytes where
  "sample_elf = [0x7F, 0x45, 0x4C, 0x46, 1, 0xAA, 5, 0xBB]"

definition sample_image :: bytes where
  "sample_image = [7, 0x1F, 0x8B, 8, 9] @ toy_gzip sample_elf @ [0, 0, 3]"

definition sample_kernel_catalog :: catalog where
  "sample_kernel_catalog = \<lparr>cat_artifacts = [(''zd1200_kernel_elf'', \<lparr>ar_artifact_id = ''zd1200_kernel_elf'',
       ar_description = ''a test image'', ar_handler = ''zd1200_bzimage_gzip_elf''\<rparr>)],
     cat_patches = [\<lparr>pr_artifact_id = ''zd1200_kernel_elf'', pr_name = ''first'',
       pr_signature_hex = ''aa ?? bb'', pr_patch_offset = 0, pr_expected_hex = ''aa'',
       pr_replacement_hex = Some ''cc'', pr_description = ''a test rule'', pr_rel32_exit = 0\<rparr>]\<rparr>"

lemma sample_member: "find_elf_member toy_gunzip sample_image = Inr (5, 40, sample_elf)"
  by code_simp

lemma sample_main:
  "patch_main sample_kernel_catalog toy_gunzip toy_gzip None ''zd1200_kernel_elf'' sample_image =
     Inr ([7, 0x1F, 0x8B, 8, 9] @ toy_gzip [0x7F, 0x45, 0x4C, 0x46, 1, 0xCC, 5, 0xBB] @ [0, 0, 3], True, NoNote)"
  by code_simp

lemma patch_main_Inr:
  assumes "patch_main cat dz gz vm aid source = Inr (out, changed, note)"
  obtains payload ctx payload' log where
    "extract_artifact cat dz source aid = Inr (payload, ctx)"
    "apply_artifact cat payload aid = Inr (payload', changed, log)"
    "rebuild_artifact cat gz source payload' aid ctx = Inr out"
  using assms
  by (auto simp: patch_main_def patch_steps_def bindE_Inr_iff split: if_splits sum.splits exn.splits)

lemma rebuilt_container:
  assumes ext: "extract_artifact cat dz source aid = Inr (payload, ctx)"
    and reb: "rebuild_artifact cat gz source payload' aid ctx = Inr out"
    and art: "map_of (cat_artifacts cat) aid = Some a" "ar_handler a = ''zd1200_bzimage_gzip_elf''"
    and gzip: "\<And>p rest. dz (gz p @ rest) = Some p"
  shows "\<exists>s e. find_elf_member dz source = Inr (s, e, payload) \<and> length out = length source \<and>
    dz (bslice out s e) = Some payload' \<and> dz (drop s out) = Some payload' \<and>
    (\<forall>j < length source. j < s \<or> e \<le> j \<longrightarrow> out ! j = source ! j)"
proof -
  from ext art obtain s e where m: "find_elf_member dz source = Inr (s, e, payload)"
    and c: "ctx = Some (s, e)" by (auto simp: extract_artifact_def bindE_Inr_iff)
  then have b: "s \<le> e" "e \<le> length source"
    using elf_member_from_spec [of dz source 0] delimit_member_Inr by (fastforce simp: find_elf_member_def)+
  from reb art c have "rebuild_member gz source payload' s e = Inr out"
    by (simp add: rebuild_artifact_def)
  from rebuild_member_Inr [OF this b] obtain pad where out: "length out = length source"
    "take s out = take s source" "drop e out = drop e source"
    "bslice out s e = gz payload' @ replicate pad 0" by blast
  have "drop s out = bslice out s e @ drop e out"
    using b by (metis append_take_drop_id bslice_def drop_drop le_add_diff_inverse2)
  then have "dz (drop s out) = Some payload'" by (simp add: out(4) gzip)
  moreover have "out ! j = source ! j" if "j < length source" "j < s \<or> e \<le> j" for j
    using that out(1-3) b by (metis le_add_diff_inverse nth_drop nth_take)
  moreover have "dz (bslice out s e) = Some payload'" by (simp add: out(4) gzip)
  ultimately show ?thesis using m out(1) by (intro exI [of _ s] exI [of _ e]) simp
qed

section \<open>Properties\<close>

text \<open>
  A located member is delimited exactly: at the offset there is a gzip magic whose
  stream, both to the end of the file and cut at the reported end, decompresses to the returned 32-bit
  ELF; the last eight bytes before the end are the CRC-32 and length of that payload; and every earlier
  gzip magic fails to decompress or holds something else.
\<close>

theorem find_elf_member_first:
  assumes "find_elf_member dz data = Inr (s, e, payload)"
  shows "s + 18 \<le> e \<and> e \<le> length data \<and> occurs_at data GZIP_MAGIC s \<and>
    dz (drop s data) = Some payload \<and> dz (bslice data s e) = Some payload \<and> is_elf32 payload \<and>
    bslice data (e - 8) e = gzip_trailer payload \<and> (\<forall>j < s. \<not> member_candidate dz data j)"
proof -
  from assms have run: "elf_member_from dz data 0 = Inr (s, e, payload)"
    by (simp add: find_elf_member_def)
  note spec = elf_member_from_spec [OF run]
  from spec have d: "delimit_member dz data s payload = Inr (s, e, payload)" by blast
  from spec delimit_member_Inr [OF d] show ?thesis by (auto simp: member_candidate_def)
qed

theorem find_elf_member_first_witness:
  "find_elf_member toy_gunzip sample_image = Inr (5, 40, sample_elf) \<and>
   occurs_at sample_image GZIP_MAGIC 1 \<and> \<not> member_candidate toy_gunzip sample_image 1"
proof -
  have "occurs_at sample_image GZIP_MAGIC 1" by code_simp
  with find_elf_member_first [OF sample_member] sample_member show ?thesis by simp
qed

text \<open>
  The search reports that no member holds a 32-bit ELF exactly when no offset of the
  file does, so no candidate is skipped.
\<close>

theorem find_elf_member_complete:
  "find_elf_member dz data = Inl (ValueError ''no gzip member decompresses to a 32-bit ELF'') \<longleftrightarrow>
     (\<nexists>i. member_candidate dz data i)"
  using elf_member_from_none [of dz data 0] by (auto simp: find_elf_member_def)

text \<open>
  C11. When the command succeeds on a bzImage, the output has the input's size, every byte
  outside the located gzip member is untouched, and the member's place holds a stream that decompresses
  to exactly the patched payload (when decompression undoes compression and ignores what follows the
  stream, as zlib documents).
\<close>

theorem patch_main_container:
  assumes run: "patch_main cat dz gz vm aid source = Inr (out, changed, note)"
    and art: "map_of (cat_artifacts cat) aid = Some a" "ar_handler a = ''zd1200_bzimage_gzip_elf''"
    and zip: "\<And>p rest. dz (gz p @ rest) = Some p"
  shows "\<exists>s e payload payload' log. find_elf_member dz source = Inr (s, e, payload) \<and>
    apply_artifact cat payload aid = Inr (payload', changed, log) \<and>
    length out = length source \<and> dz (bslice out s e) = Some payload' \<and> dz (drop s out) = Some payload' \<and>
    (\<forall>j < length source. j < s \<or> e \<le> j \<longrightarrow> out ! j = source ! j)"
proof -
  from run obtain payload ctx payload' log where
    "extract_artifact cat dz source aid = Inr (payload, ctx)"
    "apply_artifact cat payload aid = Inr (payload', changed, log)"
    "rebuild_artifact cat gz source payload' aid ctx = Inr out" by (rule patch_main_Inr)
  then show ?thesis using rebuilt_container [OF _ _ art zip] by blast
qed

theorem patch_main_container_witness:
  "\<exists>out. patch_main sample_kernel_catalog toy_gunzip toy_gzip None ''zd1200_kernel_elf'' sample_image =
     Inr (out, True, NoNote) \<and> length out = length sample_image \<and>
     (\<exists>payload' log. apply_artifact sample_kernel_catalog sample_elf ''zd1200_kernel_elf'' =
        Inr (payload', True, log) \<and> toy_gunzip (drop 5 out) = Some payload')"
proof -
  have "\<exists>a. map_of (cat_artifacts sample_kernel_catalog) ''zd1200_kernel_elf'' = Some a \<and>
      ar_handler a = ''zd1200_bzimage_gzip_elf''"
    by (simp add: sample_kernel_catalog_def)
  then show ?thesis
    using patch_main_container [OF sample_main _ _ toy_gunzip_gzip] sample_main sample_member by fastforce
qed




end
