(* ===== verification/Repatch.thy ===== *)
theory Repatch
imports Artifact
begin

text \<open>
  Patching what was patched before.  The bundle ships an already patched \<open>image/bzImage\<close>, and
  \<open>run-zd1200-web.sh\<close> runs \<open>patch_binary_artifact.py\<close> on it again at every start,
  so the command has to accept its own output and leave it alone.  The member that the first run wrote is
  shorter than the one it replaced and followed by zero bytes: the second run delimits the short member.
\<close>

section \<open>The member of a rebuilt container\<close>

lemma occurs_at_prefix:
  "i + length sub \<le> n \<Longrightarrow> take n a = take n b \<Longrightarrow> occurs_at a sub i \<longleftrightarrow> occurs_at b sub i"
  unfolding occurs_at_def by (metis add.commute drop_take min.absorb1 take_drop take_take)

text \<open>A first occurrence that lies inside a part is the first one of the whole.\<close>

lemma bytes_find_part:
  assumes "bytes_find part sub i = Some k"
  shows "bytes_find (pre @ part @ post) sub (length pre + i) = Some (length pre + k)"
proof -
  have at: "occurs_at (pre @ part @ post) sub (length pre + j) \<longleftrightarrow> occurs_at part sub j"
    if "j + length sub \<le> length part" for j
    using that by (simp add: occurs_at_def)
  from assms have k: "i \<le> k" "k + length sub \<le> length part" "occurs_at part sub k"
    "\<forall>j. i \<le> j \<and> j < k \<longrightarrow> \<not> occurs_at part sub j"
    by (simp_all add: bytes_find_Some_iff)
  have "\<not> occurs_at (pre @ part @ post) sub j" if "length pre + i \<le> j" "j < length pre + k" for j
  proof -
    from that obtain j' where j': "j = length pre + j'" using le_Suc_ex by (metis add_leD1)
    with that k show ?thesis using at [of j'] by simp
  qed
  with k at [OF k(2)] show ?thesis by (simp add: bytes_find_Some_iff)
qed

lemma elf_member_from_first:
  assumes "member_candidate dz data s" "dz (drop s data) = Some payload" "i \<le> s"
    and "\<forall>j. i \<le> j \<and> j < s \<longrightarrow> \<not> member_candidate dz data j"
  shows "elf_member_from dz data i = delimit_member dz data s payload"
  using assms
proof (induction dz data i rule: elf_member_from.induct)
  case (1 dz data i)
  from "1.prems"(1) have at_s: "s + length GZIP_MAGIC \<le> length data" "occurs_at data GZIP_MAGIC s"
    by (auto simp: member_candidate_def)
  with "1.prems"(3) obtain m where m: "bytes_find data GZIP_MAGIC i = Some m"
    by (metis bytes_find_None_iff not_Some_eq)
  then have hit: "i \<le> m" "m + length GZIP_MAGIC \<le> length data" "occurs_at data GZIP_MAGIC m" "m \<le> s"
    using at_s "1.prems"(3) by (auto simp: bytes_find_Some_iff not_less [symmetric])
  show ?case
  proof (cases "m = s")
    case True
    with "1.prems"(1,2) m show ?thesis
      by (auto simp: elf_member_from.simps [of dz data i] member_candidate_def)
  next
    case False
    with hit "1.prems"(4) have no: "\<not> member_candidate dz data m" and later: "m + 1 \<le> s"
      "\<forall>j. m + 1 \<le> j \<and> j < s \<longrightarrow> \<not> member_candidate dz data j" by auto
    show ?thesis
    proof (cases "dz (drop m data)")
      case None
      with "1.IH"(1) [OF m None "1.prems"(1,2) later] m show ?thesis
        by (simp add: elf_member_from.simps [of dz data i])
    next
      case (Some p)
      with no hit have "\<not> is_elf32 p" by (simp add: member_candidate_def)
      with "1.IH"(2) [OF m Some this "1.prems"(1,2) later] m Some show ?thesis
        by (simp add: elf_member_from.simps [of dz data i])
    qed
  qed
qed

text \<open>
  What is relied on of \<open>gzip.compress\<close> and \<open>zlib.decompress\<close> for one payload: a stream
  starts with the magic, decompresses to the payload whatever follows it, and the eight bytes of its
  trailer first occur, after the ten bytes of the header, at its end.
\<close>

definition gzip_member_ok :: "gunzip \<Rightarrow> (bytes \<Rightarrow> bytes) \<Rightarrow> bytes \<Rightarrow> bool" where
  "gzip_member_ok dz gz p \<longleftrightarrow>
     take 3 (gz p) = GZIP_MAGIC \<and> (\<forall>rest. dz (gz p @ rest) = Some p) \<and>
     bytes_find (gz p) (gzip_trailer p) 10 = Some (length (gz p) - 8)"

lemma find_rebuilt_member:
  assumes ok: "gzip_member_ok dz gz p" and elf: "is_elf32 p" and data: "data = pre @ gz p @ post"
    and first: "\<forall>j < length pre. \<not> member_candidate dz data j"
  shows "find_elf_member dz data = Inr (length pre, length pre + length (gz p), p)"
proof -
  from ok have magic: "take 3 (gz p) = GZIP_MAGIC" and dz: "\<And>rest. dz (gz p @ rest) = Some p"
    and trailer: "bytes_find (gz p) (gzip_trailer p) 10 = Some (length (gz p) - 8)"
    by (auto simp: gzip_member_ok_def)
  have len: "18 \<le> length (gz p)" using trailer by (auto simp: bytes_find_Some_iff)
  have candidate: "member_candidate dz data (length pre)"
    using magic len dz elf
    by (simp add: member_candidate_def data occurs_at_def GZIP_MAGIC_def numeral_3_eq_3)
  have "elf_member_from dz data 0 = delimit_member dz data (length pre) p"
    using elf_member_from_first [OF candidate, of p 0] dz first by (simp add: data)
  moreover have "bytes_find data (gzip_trailer p) (length pre + 10) = Some (length pre + (length (gz p) - 8))"
    unfolding data by (rule bytes_find_part [OF trailer])
  moreover have "dz (bslice data (length pre) (length pre + length (gz p))) = Some p"
    using dz [of "[]"] by (simp add: bslice_def data)
  ultimately show ?thesis
    using len by (simp add: find_elf_member_def delimit_member_def Let_def)
qed

lemma apply_artifact_again:
  assumes "apply_artifact cat src aid = Inr (fin, changed, log)" "\<forall>r \<in> set (cat_patches cat). validation_stable r"
  shows "\<exists>log'. apply_artifact cat fin aid = Inr (fin, False, log')"
proof -
  from assms(1) obtain rules where rules: "rules_for_artifact cat aid = Inr rules"
    "apply_rules src rules = Inr (fin, changed, log)"
    by (auto simp: apply_artifact_def bindE_Inr_iff)
  then have "set rules \<subseteq> set (cat_patches cat)"
    by (auto simp: rules_for_artifact_def Let_def split: if_splits)
  with assms(2) have "\<forall>r \<in> set rules. validation_stable r" by blast
  from apply_rules_again [OF rules(2) this] rules(1) show ?thesis
    by (simp add: apply_artifact_def)
qed

lemma patch_main_again:
  assumes run: "patch_main cat dz gz vm aid source = Inr (out, changed, note)"
    and art: "map_of (cat_artifacts cat) aid = Some a" "ar_handler a = ''zd1200_bzimage_gzip_elf''"
    and stable: "\<forall>r \<in> set (cat_patches cat). validation_stable r"
    and member: "find_elf_member dz source = Inr (s, e, payload)"
    and fin: "apply_artifact cat payload aid = Inr (payload', changed, log)" "is_elf32 payload'"
    and ok: "gzip_member_ok dz gz payload'"
    and first: "\<forall>j < s. \<not> member_candidate dz out j"
  shows "patch_main cat dz gz vm' aid out = Inr (out, False, vmlinux_check vm' aid payload')"
proof -
  from elf_member_from_spec [of dz source 0 s e payload] member delimit_member_Inr
  have b: "s \<le> e" "e \<le> length source" by (fastforce simp: find_elf_member_def)+
  from run art member fin(1) have "rebuild_member gz source payload' s e = Inr out"
    by (auto simp: patch_main_def patch_steps_def bindE_Inr_iff extract_artifact_def rebuild_artifact_def
        split: sum.splits exn.splits)
  then obtain pad where out: "out = take s source @ gz payload' @ (pad @ drop e source)"
    by (auto simp: rebuild_member_def Let_def split: if_splits)
  have "find_elf_member dz out = Inr (s, s + length (gz payload'), payload')"
    using find_rebuilt_member [OF ok fin(2) out] first b by simp
  moreover obtain log' where "apply_artifact cat payload' aid = Inr (payload', False, log')"
    using apply_artifact_again [OF fin(1) stable] by blast
  moreover have "rebuild_member gz out payload' s (s + length (gz payload')) = Inr out"
    using b by (simp add: rebuild_member_def out)
  ultimately show ?thesis using art
    by (simp add: patch_main_def patch_steps_def extract_artifact_def rebuild_artifact_def)
qed

section \<open>Properties\<close>

text \<open>
  The command is at a fixed point after one run: patching the bzImage that it wrote succeeds, writes
  the same bytes and reports that nothing changed, although the second run finds a shorter member.
\<close>

theorem patch_main_fixed_point:
  assumes run: "patch_main cat dz gz vm aid source = Inr (out, changed, note)"
    and art: "map_of (cat_artifacts cat) aid = Some a" "ar_handler a = ''zd1200_bzimage_gzip_elf''"
    and stable: "\<forall>r \<in> set (cat_patches cat). validation_stable r"
    and member: "find_elf_member dz source = Inr (s, e, payload)"
    and fin: "apply_artifact cat payload aid = Inr (payload', changed, log)" "is_elf32 payload'"
    and ok: "gzip_member_ok dz gz payload'"
    and first: "\<forall>j < s. \<not> member_candidate dz out j"
  shows "patch_main cat dz gz vm' aid out = Inr (out, False, vmlinux_check vm' aid payload')"
  using assms by (rule patch_main_again)

lemma sample_fixed_point:
  assumes "p = [0x7F, 0x45, 0x4C, 0x46, 1, 0xCC, 5, 0xBB]"
  shows "gzip_member_ok toy_gunzip toy_gzip p" "is_elf32 p"
    "\<exists>log. apply_artifact sample_kernel_catalog sample_elf ''zd1200_kernel_elf'' = Inr (p, True, log)"
proof -
  have "bytes_find (toy_gzip p) (gzip_trailer p) 10 = Some (length (toy_gzip p) - 8)"
    unfolding assms by code_simp
  then show "gzip_member_ok toy_gunzip toy_gzip p"
    by (simp add: gzip_member_ok_def toy_gunzip_gzip) (simp add: toy_gzip_def GZIP_MAGIC_def)
  show "is_elf32 p" unfolding assms by code_simp
  have "map_sum id (\<lambda>(out, changed, log). (out, changed))
      (apply_artifact sample_kernel_catalog sample_elf ''zd1200_kernel_elf'') = Inr (p, True)"
    unfolding assms by code_simp
  then show "\<exists>log. apply_artifact sample_kernel_catalog sample_elf ''zd1200_kernel_elf'' = Inr (p, True, log)"
    by (auto simp: map_sum_def split: sum.splits)
qed

lemma sample_refound:
  "find_elf_member toy_gunzip ([7, 0x1F, 0x8B, 8, 9] @ toy_gzip [0x7F, 0x45, 0x4C, 0x46, 1, 0xCC, 5, 0xBB] @ [0, 0, 3]) =
     Inr (5, 40, [0x7F, 0x45, 0x4C, 0x46, 1, 0xCC, 5, 0xBB])"
  by code_simp

theorem patch_main_fixed_point_witness:
  "\<exists>out note. patch_main sample_kernel_catalog toy_gunzip toy_gzip None ''zd1200_kernel_elf'' sample_image =
       Inr (out, True, NoNote) \<and> out \<noteq> sample_image \<and>
     patch_main sample_kernel_catalog toy_gunzip toy_gzip None ''zd1200_kernel_elf'' out = Inr (out, False, note)"
proof -
  let ?p = "[0x7F, 0x45, 0x4C, 0x46, 1, 0xCC, 5, 0xBB] :: bytes"
  let ?out = "[7, 0x1F, 0x8B, 8, 9] @ toy_gzip ?p @ [0, 0, 3]"
  have art: "map_of (cat_artifacts sample_kernel_catalog) ''zd1200_kernel_elf'' =
      Some \<lparr>ar_artifact_id = ''zd1200_kernel_elf'', ar_description = ''a test image'',
        ar_handler = ''zd1200_bzimage_gzip_elf''\<rparr>" by (simp add: sample_kernel_catalog_def)
  have stable: "\<forall>r \<in> set (cat_patches sample_kernel_catalog). validation_stable r"
    by (simp add: sample_kernel_catalog_def validation_stable_def)
  obtain log where fin: "apply_artifact sample_kernel_catalog sample_elf ''zd1200_kernel_elf'' =
      Inr (?p, True, log)" using sample_fixed_point(3) [OF refl] by blast
  from sample_refound have first: "\<forall>j < 5. \<not> member_candidate toy_gunzip ?out j"
    using elf_member_from_spec [of toy_gunzip ?out 0 5 40 ?p] by (simp add: find_elf_member_def)
  have "sample_elf \<noteq> ?p" by (simp add: sample_elf_def)
  then have "?out \<noteq> sample_image" using sample_refound sample_member by (metis sum.inject(2) prod.inject)
  with sample_main patch_main_fixed_point [OF sample_main art _ stable sample_member fin
      sample_fixed_point(2) [OF refl] sample_fixed_point(1) [OF refl] first, of None]
  show ?thesis by auto
qed

end
