(* ===== verification/Manifest.thy ===== *)
theory Manifest
imports PatchCatalog
begin

text \<open>
  \<open>release_manifest.py\<close>: the loader of the release manifest and the two exact selections.
  The JSON file is the argument, already parsed; \<open>known\<close> is the list of artifact ids of the
  patch catalog.
\<close>

section \<open>Data\<close>

record release =
  rl_release_id :: string
  rl_product :: string
  rl_version :: string
  rl_build :: int
  rl_support_status :: string
  rl_encrypted_sha256 :: "string option"
  rl_decrypted_sha256 :: "string option"
  rl_archive_format :: string
  rl_metadata :: "(string \<times> string) list"
  rl_required_paths :: "string list"
  rl_artifact_ids :: "string list"
  rl_features :: "(string \<times> string) list"

definition MANIFEST_ROOT_FIELDS :: "string list" where
  "MANIFEST_ROOT_FIELDS = [''manifest_version'', ''releases'']"

definition RELEASE_FIELDS :: "string list" where
  "RELEASE_FIELDS = [''release_id'', ''product'', ''version'', ''build'', ''support_status'',
     ''encrypted_sha256'', ''decrypted_sha256'', ''archive_format'', ''metadata'',
     ''required_paths'', ''artifact_ids'', ''features'']"

definition SUPPORT_STATUSES :: "string list" where
  "SUPPORT_STATUSES = [''known'', ''experimental'', ''awaiting_fixture'']"

definition RUNTIME_FTP_BOOTSTRAP_VALUES :: "string list" where
  "RUNTIME_FTP_BOOTSTRAP_VALUES = [''vendor_state'', ''not_required'']"

definition RUNTIME_ROOT_SSH_VALUES :: "string list" where
  "RUNTIME_ROOT_SSH_VALUES = [''not_supported'', ''vendor_dropbear_root_key'']"

section \<open>Field checks\<close>

text \<open>\<open>^[0-9a-f]{64}$\<close> and \<open>^[0-9]+(\.[0-9]+){3}$\<close>, matched against the whole text.\<close>

definition sha256_char :: "char \<Rightarrow> bool" where
  "sha256_char c \<longleftrightarrow> is_ascii_digit c \<or> in_range 97 102 c"

definition is_sha256 :: "string \<Rightarrow> bool" where
  "is_sha256 s \<longleftrightarrow> length s = 64 \<and> list_all sha256_char s"

definition is_version :: "string \<Rightarrow> bool" where
  "is_version s \<longleftrightarrow>
     length (split_on CHR ''.'' s) = 4 \<and>
     list_all (\<lambda>part. part \<noteq> [] \<and> list_all is_ascii_digit part) (split_on CHR ''.'' s)"

definition manifest_fields :: "json_object \<Rightarrow> string list \<Rightarrow> unit result" where
  "manifest_fields item allowed =
     raise_if (unknown_fields item allowed \<noteq> []) (ValueError ''release manifest has unknown fields'')"

definition manifest_string :: "json_object \<Rightarrow> string \<Rightarrow> string result" where
  "manifest_string item field =
     (case str_instance (json_get item field) of
        None \<Rightarrow> Inl (ValueError ''release manifest field must be a non-empty string'')
      | Some s \<Rightarrow>
          if s = [] then Inl (ValueError ''release manifest field must be a non-empty string'')
          else Inr s)"

definition optional_hash :: "json_object \<Rightarrow> string \<Rightarrow> string option result" where
  "optional_hash item field =
     (case json_get item field of
        JNull \<Rightarrow> Inr None
      | JStr s \<Rightarrow>
          if is_sha256 s then Inr (Some s)
          else Inl (ValueError ''release manifest field must be a lowercase SHA-256'')
      | _ \<Rightarrow> Inl (ValueError ''release manifest field must be a lowercase SHA-256''))"

definition manifest_map :: "json \<Rightarrow> string \<Rightarrow> (string \<times> string) list result" where
  "manifest_map v message =
     (case v of
        JObj entries \<Rightarrow>
          (case string_map entries of
             None \<Rightarrow> Inl (ValueError message)
           | Some m \<Rightarrow> Inr m)
      | _ \<Rightarrow> Inl (ValueError message))"

definition manifest_strings :: "json \<Rightarrow> (string list \<Rightarrow> bool) \<Rightarrow> string \<Rightarrow> string list result" where
  "manifest_strings v ok message =
     (case v of
        JArr items \<Rightarrow>
          (case json_strings items of
             None \<Rightarrow> Inl (ValueError message)
           | Some ss \<Rightarrow> if ok ss then Inr ss else Inl (ValueError message))
      | _ \<Rightarrow> Inl (ValueError message))"

text \<open>A feature that must have one of the listed values; a missing one has none of them.\<close>

definition required_feature :: "(string \<times> string) list \<Rightarrow> string \<Rightarrow> string list \<Rightarrow> string \<Rightarrow> unit result" where
  "required_feature features name allowed message =
     (case map_of features name of
        None \<Rightarrow> Inl (ValueError message)
      | Some v \<Rightarrow> raise_if (v \<notin> set allowed) (ValueError message))"

section \<open>The loader\<close>

definition load_release :: "string list \<Rightarrow> string list \<Rightarrow> json \<Rightarrow> release result" where
  "load_release known ids item =
     (case item of
        JObj entries \<Rightarrow>
          bindE (manifest_fields entries RELEASE_FIELDS) (\<lambda>_.
          bindE (manifest_string entries ''release_id'') (\<lambda>release_id.
          bindE (raise_if (\<not> is_identifier release_id \<or> release_id \<in> set ids)
                   (ValueError ''invalid or duplicate release_id'')) (\<lambda>_.
          bindE (raise_if (json_get entries ''product'' \<noteq> JStr ''zd1200'')
                   (ValueError ''unsupported product'')) (\<lambda>_.
          bindE (manifest_string entries ''version'') (\<lambda>version.
          bindE (raise_if (\<not> is_version version) (ValueError ''invalid version'')) (\<lambda>_.
          bindE (case json_get entries ''build'' of
                   JInt n \<Rightarrow> if n < 0 then Inl (ValueError ''build must be a non-negative integer'') else Inr n
                 | _ \<Rightarrow> Inl (ValueError ''build must be a non-negative integer'')) (\<lambda>build.
          bindE (manifest_string entries ''support_status'') (\<lambda>support_status.
          bindE (raise_if (support_status \<notin> set SUPPORT_STATUSES)
                   (ValueError ''invalid support_status'')) (\<lambda>_.
          bindE (raise_if (json_get entries ''archive_format'' \<noteq> JStr ''gzip_tar'')
                   (ValueError ''unsupported archive_format'')) (\<lambda>_.
          bindE (manifest_map (json_get entries ''metadata'') ''metadata must be a string map'') (\<lambda>metadata.
          bindE (manifest_map (json_get entries ''features'') ''features must be a string map'') (\<lambda>features.
          bindE (required_feature features ''runtime_ftp_bootstrap'' RUNTIME_FTP_BOOTSTRAP_VALUES
                   ''runtime_ftp_bootstrap must be one of the values'') (\<lambda>_.
          bindE (required_feature features ''runtime_root_ssh'' RUNTIME_ROOT_SSH_VALUES
                   ''runtime_root_ssh must be one of the values'') (\<lambda>_.
          bindE (manifest_strings (json_get entries ''required_paths'')
                   (\<lambda>ss. ss \<noteq> [] \<and> list_all (\<lambda>s. s \<noteq> []) ss)
                   ''required_paths must be a non-empty string array'') (\<lambda>required_paths.
          bindE (manifest_strings (json_get entries ''artifact_ids'') (list_all is_identifier)
                   ''artifact_ids must be an identifier array'') (\<lambda>artifact_ids.
          bindE (raise_if (\<not> set artifact_ids \<subseteq> set known) (ValueError ''unknown artifact ids'')) (\<lambda>_.
          bindE (optional_hash entries ''encrypted_sha256'') (\<lambda>encrypted.
          bindE (optional_hash entries ''decrypted_sha256'') (\<lambda>decrypted.
            Inr \<lparr>rl_release_id = release_id, rl_product = ''zd1200'', rl_version = version,
                 rl_build = build, rl_support_status = support_status,
                 rl_encrypted_sha256 = encrypted, rl_decrypted_sha256 = decrypted,
                 rl_archive_format = ''gzip_tar'', rl_metadata = metadata,
                 rl_required_paths = required_paths, rl_artifact_ids = artifact_ids,
                 rl_features = features\<rparr>)))))))))))))))))))
      | _ \<Rightarrow> Inl (ValueError ''release manifest release must be an object''))"

fun load_releases :: "string list \<Rightarrow> release list \<Rightarrow> json list \<Rightarrow> release list result" where
  "load_releases known parsed [] = Inr parsed"
| "load_releases known parsed (item # items) =
     bindE (load_release known (map rl_release_id parsed) item) (\<lambda>r.
       load_releases known (parsed @ [r]) items)"

definition load_release_manifest :: "string list \<Rightarrow> json option \<Rightarrow> release list result" where
  "load_release_manifest known file =
     (case file of
        None \<Rightarrow> Inl (ValueError ''cannot load release manifest'')
      | Some (JObj source) \<Rightarrow>
          bindE (manifest_fields source MANIFEST_ROOT_FIELDS) (\<lambda>_.
          bindE (raise_if (json_get source ''manifest_version'' \<noteq> JInt 1)
                   (ValueError ''unsupported or missing manifest_version'')) (\<lambda>_.
            (case json_get source ''releases'' of
               JArr items \<Rightarrow>
                 if items = [] then
                   Inl (ValueError ''release manifest releases must be a non-empty array'')
                 else load_releases known [] items
             | _ \<Rightarrow> Inl (ValueError ''release manifest releases must be a non-empty array''))))
      | Some _ \<Rightarrow> Inl (ValueError ''release manifest root must be an object''))"

section \<open>Selection\<close>

fun release_by_id :: "string \<Rightarrow> release list \<Rightarrow> release result" where
  "release_by_id release_id [] = Inl (ValueError ''unknown release_id'')"
| "release_by_id release_id (r # rs) =
     (if rl_release_id r = release_id then Inr r else release_by_id release_id rs)"

definition records_digest :: "string \<Rightarrow> release \<Rightarrow> bool" where
  "records_digest digest r \<longleftrightarrow>
     Some digest = rl_encrypted_sha256 r \<or> Some digest = rl_decrypted_sha256 r"

definition release_by_input_sha256 :: "string \<Rightarrow> release list \<Rightarrow> release result" where
  "release_by_input_sha256 digest releases =
     (case filter (records_digest digest) releases of
        [r] \<Rightarrow> Inr r
      | [] \<Rightarrow> Inl (ValueError ''input SHA-256 is not an exact supported ZoneDirector archive'')
      | _ \<Rightarrow> Inl (ValueError ''input SHA-256 is ambiguously recorded''))"

section \<open>The invariant of a loaded manifest\<close>

definition wf_release :: "string list \<Rightarrow> release \<Rightarrow> bool" where
  "wf_release known r \<longleftrightarrow>
     is_identifier (rl_release_id r) \<and> rl_product r = ''zd1200'' \<and> is_version (rl_version r) \<and>
     0 \<le> rl_build r \<and> rl_support_status r \<in> set SUPPORT_STATUSES \<and>
     rl_archive_format r = ''gzip_tar'' \<and>
     (\<forall>d. rl_encrypted_sha256 r = Some d \<or> rl_decrypted_sha256 r = Some d \<longrightarrow> is_sha256 d) \<and>
     rl_required_paths r \<noteq> [] \<and> [] \<notin> set (rl_required_paths r) \<and>
     set (rl_artifact_ids r) \<subseteq> set known \<and>
     (\<exists>v \<in> set RUNTIME_FTP_BOOTSTRAP_VALUES. map_of (rl_features r) ''runtime_ftp_bootstrap'' = Some v) \<and>
     (\<exists>v \<in> set RUNTIME_ROOT_SSH_VALUES. map_of (rl_features r) ''runtime_root_ssh'' = Some v)"

lemma optional_hash_Inr: "optional_hash e f = Inr h \<Longrightarrow> h = Some d \<Longrightarrow> is_sha256 d"
  by (auto simp: optional_hash_def split: json.splits if_splits)

lemma required_feature_Inr:
  "required_feature fs n allowed m = Inr u \<Longrightarrow> \<exists>v \<in> set allowed. map_of fs n = Some v"
  by (auto simp: required_feature_def split: option.splits)

lemma manifest_strings_Inr: "manifest_strings v ok m = Inr ss \<Longrightarrow> ok ss"
  by (auto simp: manifest_strings_def split: json.splits option.splits if_splits)

lemma load_release_wf:
  assumes "load_release known ids item = Inr r"
  shows "wf_release known r \<and> rl_release_id r \<notin> set ids"
proof -
  from assms obtain entries where item: "item = JObj entries"
    by (auto simp: load_release_def split: json.splits)
  from assms [unfolded item load_release_def json.case] show ?thesis
    apply (simp only: bindE_Inr_iff raise_if_Inr_iff)
    apply (elim exE conjE)
    apply (drule required_feature_Inr)+
    apply (frule manifest_strings_Inr [where ok = "\<lambda>ss. ss \<noteq> [] \<and> list_all (\<lambda>s. s \<noteq> []) ss"])
    apply (auto simp: wf_release_def list_all_iff dest: optional_hash_Inr split: json.splits if_splits)
    done
qed

lemma load_releases_wf:
  "load_releases known parsed items = Inr rs \<Longrightarrow> distinct (map rl_release_id parsed) \<Longrightarrow>
   \<forall>r \<in> set parsed. wf_release known r \<Longrightarrow>
   distinct (map rl_release_id rs) \<and> (\<forall>r \<in> set rs. wf_release known r) \<and>
   length rs = length parsed + length items"
proof (induction known parsed items rule: load_releases.induct)
  case (2 known parsed item items)
  from "2.prems"(1) obtain r where r: "load_release known (map rl_release_id parsed) item = Inr r"
    and rest: "load_releases known (parsed @ [r]) items = Inr rs" by (auto simp: bindE_Inr_iff)
  from load_release_wf [OF r] have wf: "wf_release known r" "rl_release_id r \<notin> set (map rl_release_id parsed)"
    by simp_all
  with "2.prems"(2,3) have "distinct (map rl_release_id (parsed @ [r]))" "\<forall>r \<in> set (parsed @ [r]). wf_release known r"
    by simp_all
  from "2.IH" [OF rest this] show ?case by simp
qed simp

lemma load_release_manifest_wf:
  assumes "load_release_manifest known file = Inr rs"
  shows "distinct (map rl_release_id rs) \<and> (\<forall>r \<in> set rs. wf_release known r) \<and> rs \<noteq> []"
proof -
  from assms obtain items where "items \<noteq> []" "load_releases known [] items = Inr rs"
    by (auto simp: load_release_manifest_def bindE_Inr_iff split: option.splits json.splits if_splits)
  with load_releases_wf [of known "[]" items rs] show ?thesis by auto
qed

lemma release_by_id_Inr_iff:
  "distinct (map rl_release_id rs) \<Longrightarrow>
   release_by_id i rs = Inr r \<longleftrightarrow> r \<in> set rs \<and> rl_release_id r = i"
  by (induction i rs rule: release_by_id.induct) (auto simp: image_iff)

lemma release_by_id_Inl_iff:
  "release_by_id i rs = Inl e \<longleftrightarrow>
     e = ValueError ''unknown release_id'' \<and> i \<notin> rl_release_id ` set rs"
  by (induction i rs rule: release_by_id.induct) auto


section \<open>Properties\<close>

text \<open>
  C35. A manifest the loader returns is never empty, its release ids are distinct, and every release is for
  the one supported product, with a four-part numeric version, a non-negative build, hashes that are
  absent or 64 lowercase hexadecimal digits, non-empty required paths, artifact ids the patch catalog
  declares, and an explicit choice for both runtime features.
\<close>

theorem manifest_invariant:
  assumes "load_release_manifest known file = Inr rs"
  shows "rs \<noteq> [] \<and> distinct (map rl_release_id rs) \<and> (\<forall>r \<in> set rs. wf_release known r)"
  using load_release_manifest_wf [OF assms] by blast

definition sample_manifest :: "json option" where
  "sample_manifest = Some (JObj
     [(''manifest_version'', JInt 1),
      (''releases'', JArr [JObj [(''release_id'', JStr ''zd_a''), (''product'', JStr ''zd1200''),
         (''version'', JStr ''10.5.1.0''), (''build'', JInt 282), (''support_status'', JStr ''known''),
         (''encrypted_sha256'', JStr (replicate 64 CHR ''a'')), (''decrypted_sha256'', JNull),
         (''archive_format'', JStr ''gzip_tar''), (''metadata'', JObj [(''PRODUCT'', JStr ''zd1200'')]),
         (''required_paths'', JArr [JStr ''metadata'']), (''artifact_ids'', JArr [JStr ''k'']),
         (''features'', JObj [(''runtime_ftp_bootstrap'', JStr ''vendor_state''),
            (''runtime_root_ssh'', JStr ''not_supported'')])]])])"

definition sample_release :: release where
  "sample_release = \<lparr>rl_release_id = ''zd_a'', rl_product = ''zd1200'', rl_version = ''10.5.1.0'',
     rl_build = 282, rl_support_status = ''known'', rl_encrypted_sha256 = Some (replicate 64 CHR ''a''),
     rl_decrypted_sha256 = None, rl_archive_format = ''gzip_tar'',
     rl_metadata = [(''PRODUCT'', ''zd1200'')], rl_required_paths = [''metadata''], rl_artifact_ids = [''k''],
     rl_features = [(''runtime_ftp_bootstrap'', ''vendor_state''), (''runtime_root_ssh'', ''not_supported'')]\<rparr>"

lemma sample_manifest_load: "load_release_manifest [''k''] sample_manifest = Inr [sample_release]"
  by code_simp

theorem manifest_invariant_witness:
  "load_release_manifest [''k''] sample_manifest = Inr [sample_release] \<and> wf_release [''k''] sample_release"
  using manifest_invariant [OF sample_manifest_load] sample_manifest_load by simp

text \<open>
  Selection is exact on a loaded manifest: by id it returns the one release with that id, or reports
  it unknown; by digest it returns a release exactly when that release records the digest and no other
  one does.
\<close>

theorem release_selection_exact:
  assumes "load_release_manifest known file = Inr rs"
  shows "(release_by_id i rs = Inr r \<longleftrightarrow> r \<in> set rs \<and> rl_release_id r = i) \<and>
    (release_by_input_sha256 digest rs = Inr r \<longleftrightarrow>
       r \<in> set rs \<and> records_digest digest r \<and> (\<forall>r' \<in> set rs. records_digest digest r' \<longrightarrow> r' = r))"
proof
  from load_release_manifest_wf [OF assms] have d: "distinct (map rl_release_id rs)" by blast
  then show "release_by_id i rs = Inr r \<longleftrightarrow> r \<in> set rs \<and> rl_release_id r = i"
    by (rule release_by_id_Inr_iff)
  let ?f = "filter (records_digest digest) rs"
  have df: "distinct ?f" using d by (simp add: distinct_map)
  have "release_by_input_sha256 digest rs = Inr r \<longleftrightarrow> ?f = [r]"
    by (auto simp: release_by_input_sha256_def split: list.splits)
  also have "\<dots> \<longleftrightarrow> set ?f = {r}"
  proof
    assume "set ?f = {r}"
    with df have "length ?f = 1" by (metis One_nat_def card.empty card.insert distinct_card empty_iff finite.emptyI)
    then obtain y where y: "?f = [y]" by (auto simp: length_Suc_conv)
    then have "set ?f = set [y]" by (rule arg_cong)
    with \<open>set ?f = {r}\<close> have "{r} = {y}" by (simp only: list.set)
    with y show "?f = [r]" by simp
  qed simp
  also have "\<dots> \<longleftrightarrow> r \<in> set rs \<and> records_digest digest r \<and>
      (\<forall>r' \<in> set rs. records_digest digest r' \<longrightarrow> r' = r)" by auto
  finally show "release_by_input_sha256 digest rs = Inr r \<longleftrightarrow> r \<in> set rs \<and> records_digest digest r \<and>
      (\<forall>r' \<in> set rs. records_digest digest r' \<longrightarrow> r' = r)" .
qed

theorem release_selection_exact_witness:
  "release_by_input_sha256 (replicate 64 CHR ''a'') [sample_release] = Inr sample_release \<and>
   release_by_id ''zd_a'' [sample_release] = Inr sample_release"
  using release_selection_exact [OF sample_manifest_load, of "''zd_a''" sample_release "replicate 64 CHR ''a''"]
  by (simp add: sample_release_def records_digest_def)

end
