(* ===== verification/PosixPath.thy ===== *)
theory PosixPath
imports PyText
begin

text \<open>
  What the scripts use of \<open>posixpath\<close> and \<open>PurePosixPath\<close>: components, \<open>normpath\<close>, \<open>join\<close>,
  \<open>dirname\<close> and suffixes, with the lemmas that read a normalised path as a walk over its components.
\<close>

section \<open>POSIX paths\<close>

definition slash :: char where "slash = CHR ''/''"

definition is_absolute :: "string \<Rightarrow> bool" where
  "is_absolute p \<longleftrightarrow> take 1 p = [slash]"

definition trivial_component :: "string \<Rightarrow> bool" where
  "trivial_component c \<longleftrightarrow> c = [] \<or> c = ''.''"

text \<open>\<open>PurePosixPath(p).parts\<close> of a relative path.\<close>

definition path_parts :: "string \<Rightarrow> string list" where
  "path_parts p = filter (\<lambda>c. \<not> trivial_component c) (split_on slash p)"

text \<open>\<open>posixpath.normpath\<close>: the loop over the components, and the leading slashes it keeps.\<close>

definition norm_step :: "bool \<Rightarrow> string list \<Rightarrow> string \<Rightarrow> string list" where
  "norm_step rooted comps c =
     (if trivial_component c then comps
      else if c \<noteq> ''..'' \<or> (\<not> rooted \<and> comps = []) \<or> (comps \<noteq> [] \<and> last comps = ''..'') then comps @ [c]
      else if comps \<noteq> [] then butlast comps
      else comps)"

definition initial_slashes :: "string \<Rightarrow> nat" where
  "initial_slashes p =
     (if take 1 p \<noteq> [slash] then 0
      else if take 2 p = [slash, slash] \<and> take 3 p \<noteq> [slash, slash, slash] then 2 else 1)"

definition normpath :: "string \<Rightarrow> string" where
  "normpath p =
     (if p = [] then ''.''
      else
        let n = initial_slashes p;
            comps = foldl (norm_step (n \<noteq> 0)) [] (split_on slash p);
            out = replicate n slash @ join_with [slash] comps
        in if out = [] then ''.'' else out)"

definition remove_dot_slash :: "string \<Rightarrow> string" where
  "remove_dot_slash p = (if take 2 p = ''./'' then drop 2 p else p)"

definition rstrip_slash :: "string \<Rightarrow> string" where
  "rstrip_slash p = rev (dropWhile (\<lambda>c. c = slash) (rev p))"

definition dirname :: "string \<Rightarrow> string" where
  "dirname p =
     (let head = rev (dropWhile (\<lambda>c. c \<noteq> slash) (rev p))
      in if head \<noteq> [] \<and> \<not> list_all (\<lambda>c. c = slash) head then rstrip_slash head else head)"

definition path_join :: "string \<Rightarrow> string \<Rightarrow> string" where
  "path_join a b =
     (if is_absolute b then b
      else if a = [] \<or> last a = slash then a @ b
      else a @ [slash] @ b)"

section \<open>Lemmas on paths\<close>

lemma relative_norm_fold:
  "''..'' \<notin> set (comps @ cs) \<Longrightarrow>
   foldl (norm_step rooted) comps cs = comps @ filter (\<lambda>c. \<not> trivial_component c) cs"
  by (induction cs arbitrary: comps) (auto simp: norm_step_def)

lemma path_parts_props: "c \<in> set (path_parts p) \<Longrightarrow> slash \<notin> set c \<and> c \<noteq> [] \<and> c \<noteq> ''.''"
  using split_on_parts [of c slash p] by (auto simp: path_parts_def trivial_component_def)

lemma relative_normpath:
  assumes "p \<noteq> []" "\<not> is_absolute p" "''..'' \<notin> set (path_parts p)"
  shows "normpath p = (if path_parts p = [] then ''.'' else join_with [slash] (path_parts p))"
proof -
  have "''..'' \<notin> set (split_on slash p)"
    using assms(3) by (auto simp: path_parts_def trivial_component_def)
  then have "foldl (norm_step False) [] (split_on slash p) = path_parts p"
    using relative_norm_fold [of "[]" "split_on slash p"] by (simp add: path_parts_def)
  moreover have "initial_slashes p = 0" using assms(2) by (simp add: initial_slashes_def is_absolute_def)
  moreover have "join_with [slash] (path_parts p) \<noteq> []" if "path_parts p \<noteq> []"
    using that path_parts_props [of "hd (path_parts p)" p]
    by (cases "path_parts p"; cases "tl (path_parts p)") auto
  ultimately show ?thesis using assms(1) by (auto simp: normpath_def Let_def)
qed

lemma leading_component:
  assumes "slash \<notin> set w"
  shows "x = w \<or> take (Suc (length w)) x = w @ [slash] \<longleftrightarrow> hd (split_on slash x) = w"
proof
  assume "x = w \<or> take (Suc (length w)) x = w @ [slash]"
  then show "hd (split_on slash x) = w"
  proof
    assume "x = w"
    with assms show ?thesis by (simp add: split_on_no_sep)
  next
    assume t: "take (Suc (length w)) x = w @ [slash]"
    have "x = w @ slash # drop (Suc (length w)) x"
      using append_take_drop_id [of "Suc (length w)" x] unfolding t by simp
    then show ?thesis using split_on_append_sep [OF assms] by (metis list.sel(1))
  qed
next
  assume h: "hd (split_on slash x) = w"
  then obtain ws where ws: "split_on slash x = w # ws" by (cases "split_on slash x") auto
  have "x = join_with [slash] (w # ws)" using join_split_on [of slash x] ws by simp
  then show "x = w \<or> take (Suc (length w)) x = w @ [slash]" by (cases ws) simp_all
qed

lemma leading_dotdot: "x = ''..'' \<or> take 3 x = ''../'' \<longleftrightarrow> hd (split_on slash x) = ''..''"
  using leading_component [of "''..''" x] by (simp add: slash_def numeral_3_eq_3)

lemma split_on_join_parts:
  "path_parts p \<noteq> [] \<Longrightarrow> split_on slash (join_with [slash] (path_parts p)) = path_parts p"
  by (rule split_on_join) (auto dest: path_parts_props)

lemma join_parts_ends:
  assumes "path_parts p \<noteq> []"
  shows "join_with [slash] (path_parts p) \<noteq> []" "last (join_with [slash] (path_parts p)) \<noteq> slash"
    "take 2 (join_with [slash] (path_parts p)) \<noteq> ''./''" "join_with [slash] (path_parts p) \<noteq> ''.''"
proof -
  let ?n = "join_with [slash] (path_parts p)"
  have s: "split_on slash ?n = path_parts p" by (rule split_on_join_parts [OF assms])
  have parts: "c \<noteq> [] \<and> c \<noteq> ''.''" if "c \<in> set (split_on slash ?n)" for c
    using that path_parts_props [of c p] by (simp add: s)
  show ne: "?n \<noteq> []" using parts [of "[]"] by auto
  have h: "hd (split_on slash ?n) \<noteq> ''.''" using parts [of "hd (split_on slash ?n)"] by simp
  then show "take 2 ?n \<noteq> ''./''" "?n \<noteq> ''.''"
    using leading_component [of "''.''" ?n] by (auto simp: slash_def numeral_2_eq_2)
  show "last ?n \<noteq> slash"
  proof
    assume l: "last ?n = slash"
    have "?n = butlast ?n @ [slash]" using append_butlast_last_id [OF ne] l by simp
    then have "split_on slash ?n = split_on slash (butlast ?n) @ [[]]"
      using split_on_append [of slash "butlast ?n" "[]"] by simp
    with parts [of "[]"] show False by simp
  qed
qed

lemma rstrip_slash_id: "p \<noteq> [] \<Longrightarrow> last p \<noteq> slash \<Longrightarrow> rstrip_slash p = p"
  by (cases p rule: rev_cases) (simp_all add: rstrip_slash_def)

section \<open>Links\<close>

text \<open>
  What a link target means when it is followed: a walk over its components from the directory
  of the member, \<open>None\<close> as soon as it would leave the root.
\<close>

fun lexical_walk :: "string list \<Rightarrow> string list \<Rightarrow> string list option" where
  "lexical_walk dirs [] = Some dirs"
| "lexical_walk dirs (c # cs) =
     (if trivial_component c then lexical_walk dirs cs
      else if c = ''..'' then (if dirs = [] then None else lexical_walk (butlast dirs) cs)
      else lexical_walk (dirs @ [c]) cs)"

lemma norm_step_escaped:
  assumes "dirs \<noteq> [] \<and> hd dirs = ''..''"
  shows "norm_step False dirs c \<noteq> [] \<and> hd (norm_step False dirs c) = ''..''"
proof -
  have "butlast dirs \<noteq> [] \<and> hd (butlast dirs) = ''..''" if "last dirs \<noteq> ''..''"
  proof (cases dirs rule: rev_cases)
    case (snoc ys y)
    with assms that show ?thesis by (cases ys) auto
  qed (use assms in simp)
  then show ?thesis using assms by (auto simp: norm_step_def)
qed

lemma norm_fold_escaped:
  "dirs \<noteq> [] \<and> hd dirs = ''..'' \<Longrightarrow>
   foldl (norm_step False) dirs cs \<noteq> [] \<and> hd (foldl (norm_step False) dirs cs) = ''..''"
proof (induction cs arbitrary: dirs)
  case Nil
  then show ?case by simp
next
  case (Cons c cs)
  show ?case using Cons.IH [OF norm_step_escaped [OF Cons.prems]] by simp
qed

lemma norm_fold_walk:
  "''..'' \<notin> set dirs \<Longrightarrow>
   (case lexical_walk dirs cs of
      Some out \<Rightarrow> foldl (norm_step False) dirs cs = out \<and> ''..'' \<notin> set out
    | None \<Rightarrow> foldl (norm_step False) dirs cs \<noteq> [] \<and> hd (foldl (norm_step False) dirs cs) = ''..'')"
proof (induction cs arbitrary: dirs)
  case Nil
  then show ?case by simp
next
  case (Cons c cs)
  have l: "last dirs \<noteq> ''..''" if "dirs \<noteq> []" using Cons.prems that last_in_set by metis
  have b: "''..'' \<notin> set (butlast dirs)" using Cons.prems in_set_butlastD by metis
  consider "trivial_component c" | "\<not> trivial_component c" "c \<noteq> ''..''"
    | "\<not> trivial_component c" "c = ''..''" "dirs = []" | "\<not> trivial_component c" "c = ''..''" "dirs \<noteq> []"
    by blast
  then show ?case
  proof cases
    case 1
    then show ?thesis using Cons.IH [OF Cons.prems] by (simp add: norm_step_def cong: option.case_cong)
  next
    case 2
    then show ?thesis
      using Cons.IH [of "dirs @ [c]"] Cons.prems by (simp add: norm_step_def cong: option.case_cong)
  next
    case 3
    then show ?thesis using norm_fold_escaped [of "[''..'']" cs] by (simp add: norm_step_def)
  next
    case 4
    then show ?thesis using Cons.IH [OF b] l by (simp add: norm_step_def cong: option.case_cong)
  qed
qed

lemma join_with_snoc:
  "ws \<noteq> [] \<Longrightarrow> join_with sep (ws @ [w]) = join_with sep ws @ sep @ w"
  by (induction sep ws rule: join_with.induct) auto

lemma dropWhile_until:
  "sep \<notin> set w \<Longrightarrow> dropWhile (\<lambda>c. c \<noteq> sep) (rev w @ sep # v) = sep # v"
  by (subst dropWhile_append2) auto

lemma dirname_slash:
  assumes "slash \<notin> set b" "a \<noteq> []" "last a \<noteq> slash"
  shows "dirname (a @ slash # b) = a"
proof -
  have "\<not> list_all (\<lambda>c. c = slash) (a @ [slash])"
    using assms(2,3) last_in_set by (force simp: list_all_iff)
  moreover have "rstrip_slash (a @ [slash]) = rstrip_slash a" by (simp add: rstrip_slash_def)
  ultimately show ?thesis
    using assms by (simp add: dirname_def dropWhile_until rstrip_slash_id)
qed

lemma dirname_no_slash:
  assumes "slash \<notin> set b"
  shows "dirname b = []"
proof -
  have "dropWhile (\<lambda>c. c \<noteq> slash) (rev b) = []" using assms by auto
  then show ?thesis by (simp add: dirname_def)
qed

lemma split_dirname_join:
  assumes parts: "path_parts name \<noteq> []" and t: "target \<noteq> []" "\<not> is_absolute target"
  shows "split_on slash (path_join (dirname (join_with [slash] (path_parts name))) target) =
    butlast (path_parts name) @ split_on slash target"
proof -
  obtain ds b where p: "path_parts name = ds @ [b]" 
    using parts by (cases "path_parts name" rule: rev_cases) auto
  have b: "slash \<notin> set b" using path_parts_props [of b name] p by simp
  show ?thesis
  proof (cases "ds = []")
    case True
    with p b t show ?thesis by (simp add: dirname_no_slash path_join_def)
  next
    case False
    have props: "\<forall>c \<in> set ds. slash \<notin> set c \<and> \<not> trivial_component c"
      using path_parts_props [of _ name] p by (auto simp: trivial_component_def)
    then have "split_on slash (join_with [slash] ds) = ds" using False by (intro split_on_join) auto
    then have ds: "path_parts (join_with [slash] ds) = ds"
      using props by (simp add: path_parts_def filter_id_conv)
    then have e: "join_with [slash] ds \<noteq> []" "last (join_with [slash] ds) \<noteq> slash"
      "split_on slash (join_with [slash] ds) = ds"
      using join_parts_ends [of "join_with [slash] ds"] split_on_join_parts [of "join_with [slash] ds"]
        False by auto
    with p b False t show ?thesis
      by (simp add: join_with_snoc dirname_slash path_join_def split_on_append is_absolute_def)
  qed
qed

lemma norm_fold_set:
  "set (foldl (norm_step rooted) dirs cs) \<subseteq> set dirs \<union> {c \<in> set cs. \<not> trivial_component c}"
proof (induction cs arbitrary: dirs)
  case Nil
  then show ?case by simp
next
  case (Cons c cs)
  have "set (norm_step rooted dirs c) \<subseteq> set dirs \<union> {c'. c' = c \<and> \<not> trivial_component c'}"
    by (auto simp: norm_step_def dest: in_set_butlastD)
  then show ?case using Cons.IH [of "norm_step rooted dirs c"] by auto
qed

lemma relative_iff: "p \<noteq> [] \<and> \<not> is_absolute p \<longleftrightarrow> hd (split_on slash p) \<noteq> []"
  using leading_component [of "[]" p] by (auto simp: is_absolute_def)

section \<open>Names and suffixes\<close>

text \<open>\<open>PurePosixPath(p).as_posix()\<close>, \<open>.name\<close> and \<open>.suffix\<close> for a relative path.\<close>

definition as_posix :: "string \<Rightarrow> string" where
  "as_posix p = (if path_parts p = [] then ''.'' else join_with [slash] (path_parts p))"

definition path_name :: "string \<Rightarrow> string" where
  "path_name p = (if path_parts p = [] then [] else last (path_parts p))"

definition path_suffix :: "string \<Rightarrow> string" where
  "path_suffix p =
     (let name = path_name p;
          ext = rev (takeWhile (\<lambda>c. c \<noteq> CHR ''.'') (rev name));
          i = length name - (length ext + 1)
      in if CHR ''.'' \<in> set name \<and> 0 < i \<and> i < length name - 1 then CHR ''.'' # ext else [])"

text \<open>\<open>str.lower()\<close> on the code points below 256.\<close>

definition lower_char :: "char \<Rightarrow> char" where
  "lower_char c =
     (if in_range 65 90 c \<or> (in_range 192 222 c \<and> code_point c \<noteq> 215) then char_of (code_point c + 32) else c)"

definition py_lower :: "string \<Rightarrow> string" where
  "py_lower s = map lower_char s"

end
