(* ===== verification/ArchiveVerify.thy ===== *)
theory ArchiveVerify
imports Manifest PosixPath
begin

text \<open>
  \<open>verify_release_archive.py\<close>: the path and link checks, the metadata parser, and the
  verification of an input file against a release.  \<open>sha256\<close> stands for
  \<open>hashlib.sha256(data).hexdigest()\<close> and \<open>untar\<close> for \<open>tarfile\<close>: the members of a
  gzip TAR in order, \<open>None\<close> when it cannot be opened.
\<close>

section \<open>The checks\<close>

definition unsafe_path :: exn where "unsafe_path = ValueError ''unsafe archive member path''"
definition unsafe_link :: exn where "unsafe_link = ValueError ''unsafe archive link target''"

definition safe_member_name :: "string \<Rightarrow> string result" where
  "safe_member_name name =
     (if name = [] \<or> is_absolute name \<or> ''..'' \<in> set (path_parts name) then Inl unsafe_path
      else
        let normalized = remove_dot_slash (normpath name)
        in if normalized = [] \<or> normalized = ''.'' \<or> take 3 normalized = ''../'' then Inl unsafe_path
           else Inr (rstrip_slash normalized))"

definition safe_link_target :: "string \<Rightarrow> string \<Rightarrow> unit result" where
  "safe_link_target member_name target =
     (if target = [] \<or> is_absolute target then Inl unsafe_link
      else
        let resolved = normpath (path_join (dirname member_name) target)
        in raise_if (resolved = ''..'' \<or> take 3 resolved = ''../'') unsafe_link)"

definition dict_set :: "string \<Rightarrow> string \<Rightarrow> (string \<times> string) list \<Rightarrow> (string \<times> string) list" where
  "dict_set k v d =
     (if map_of d k = None then d @ [(k, v)] else map (\<lambda>(k', v'). (k', if k' = k then v else v')) d)"

fun metadata_lines :: "(string \<times> string) list \<Rightarrow> string list \<Rightarrow> (string \<times> string) list result" where
  "metadata_lines vals [] = Inr vals"
| "metadata_lines vals (line # lines) =
     (if line = [] then metadata_lines vals lines
      else case partition_on CHR ''='' line of
        (key, separator, v) \<Rightarrow>
          if \<not> separator \<or> key = [] then Inl (ValueError ''metadata has an invalid line'')
          else metadata_lines (dict_set key v vals) lines)"

definition parse_metadata :: "bytes \<Rightarrow> (string \<times> string) list result" where
  "parse_metadata raw =
     (case decode_ascii raw of
        Inl _ \<Rightarrow> Inl (ValueError ''metadata is not ASCII'')
      | Inr text \<Rightarrow> metadata_lines [] (splitlines text))"

section \<open>Archives\<close>

datatype member_kind = TFile | TDir | TSym | TLnk | TOther

record tar_member =
  tm_name :: string
  tm_kind :: member_kind
  tm_linkname :: string
  tm_contents :: "bytes option"

definition verify_encrypted_input :: "(bytes \<Rightarrow> string) \<Rightarrow> bytes \<Rightarrow> release \<Rightarrow> string result" where
  "verify_encrypted_input sha256 file r =
     (case rl_encrypted_sha256 r of
        None \<Rightarrow> Inl (ValueError ''no encrypted input hash is recorded'')
      | Some digest \<Rightarrow>
          if sha256 file \<noteq> digest then Inl (ValueError ''encrypted SHA-256 mismatch'')
          else Inr (sha256 file))"

text \<open>One turn of the loop over the members: the names so far and the metadata read.\<close>

definition check_member ::
  "string list \<Rightarrow> bytes option \<Rightarrow> tar_member \<Rightarrow> (string list \<times> bytes option) result" where
  "check_member names metadata_raw m =
     bindE (safe_member_name (tm_name m)) (\<lambda>name.
     bindE (raise_if (tm_kind m = TOther) (ValueError ''unsafe archive member type'')) (\<lambda>_.
     bindE (if tm_kind m = TSym \<or> tm_kind m = TLnk then safe_link_target name (tm_linkname m)
            else Inr ()) (\<lambda>_.
     bindE (raise_if (name \<in> set names) (ValueError ''duplicate archive member path'')) (\<lambda>_.
       if name = ''metadata'' then
         bindE (raise_if (tm_kind m \<noteq> TFile) (ValueError ''metadata is not a regular file'')) (\<lambda>_.
           case tm_contents m of
             None \<Rightarrow> Inl (ValueError ''cannot read metadata'')
           | Some raw \<Rightarrow> Inr (names @ [name], Some raw))
       else Inr (names @ [name], metadata_raw)))))"

fun check_members ::
  "string list \<Rightarrow> bytes option \<Rightarrow> tar_member list \<Rightarrow> (string list \<times> bytes option) result" where
  "check_members names metadata_raw [] = Inr (names, metadata_raw)"
| "check_members names metadata_raw (m # ms) =
     bindE (check_member names metadata_raw m) (\<lambda>(names', metadata_raw').
       check_members names' metadata_raw' ms)"

definition check_archive ::
  "release \<Rightarrow> tar_member list \<Rightarrow> (nat \<times> (string \<times> string) list) result" where
  "check_archive r members =
     bindE (check_members [] None members) (\<lambda>(names, metadata_raw).
     bindE (raise_if (\<exists>item \<in> set (rl_required_paths r). rstrip_slash item \<notin> set names)
              (ValueError ''archive lacks required paths'')) (\<lambda>_.
       case metadata_raw of
         None \<Rightarrow> Inl (ValueError ''archive lacks metadata'')
       | Some raw \<Rightarrow>
           bindE (parse_metadata raw) (\<lambda>metadata.
           bindE (raise_if (\<exists>(key, expected) \<in> set (rl_metadata r). map_of metadata key \<noteq> Some expected)
                    (ValueError ''metadata mismatch'')) (\<lambda>_.
             Inr (length names, metadata)))))"

definition verify_decrypted_archive ::
  "(bytes \<Rightarrow> string) \<Rightarrow> (bytes \<Rightarrow> tar_member list option) \<Rightarrow> bytes \<Rightarrow> release \<Rightarrow>
   (string \<times> string \<times> nat \<times> (string \<times> string) list) result" where
  "verify_decrypted_archive sha256 untar file r =
     (case rl_decrypted_sha256 r of
        None \<Rightarrow> Inl (ValueError ''no decrypted archive hash is recorded'')
      | Some digest \<Rightarrow>
          if sha256 file \<noteq> digest then Inl (ValueError ''decrypted SHA-256 mismatch'')
          else (case untar file of
            None \<Rightarrow> Inl (ValueError ''not a readable gzip TAR archive'')
          | Some members \<Rightarrow>
              bindE (check_archive r members) (\<lambda>(count, metadata).
                Inr (rl_release_id r, sha256 file, count, metadata))))"

section \<open>The checks in terms of components\<close>

lemma safe_member_name_iff:
  "safe_member_name name = Inr n \<longleftrightarrow>
   name \<noteq> [] \<and> \<not> is_absolute name \<and> ''..'' \<notin> set (path_parts name) \<and> path_parts name \<noteq> [] \<and>
   n = join_with [slash] (path_parts name)"
proof (cases "name = [] \<or> is_absolute name \<or> ''..'' \<in> set (path_parts name)")
  case True
  then show ?thesis by (auto simp: safe_member_name_def)
next
  case False
  let ?n = "join_with [slash] (path_parts name)"
  have norm: "normpath name = (if path_parts name = [] then ''.'' else ?n)"
    using False by (simp add: relative_normpath)
  show ?thesis
  proof (cases "path_parts name = []")
    case True
    with norm False show ?thesis by (simp add: safe_member_name_def remove_dot_slash_def)
  next
    case parts: False
    note ends = join_parts_ends [OF parts]
    have "hd (split_on slash ?n) \<noteq> ''..''"
      using False parts by (metis split_on_join_parts hd_in_set)
    then have "take 3 ?n \<noteq> ''../''" using leading_dotdot by blast
    then show ?thesis
      using norm False parts ends
      by (auto simp: safe_member_name_def remove_dot_slash_def rstrip_slash_id)
  qed
qed

lemma safe_link_target_iff:
  assumes member: "safe_member_name name = Inr n"
  shows "safe_link_target n target = Inr () \<longleftrightarrow>
    target \<noteq> [] \<and> \<not> is_absolute target \<and>
    lexical_walk (butlast (path_parts name)) (split_on slash target) \<noteq> None"
proof (cases "target = [] \<or> is_absolute target")
  case True
  then show ?thesis by (auto simp: safe_link_target_def)
next
  case False
  let ?dirs = "butlast (path_parts name)" and ?p = "path_join (dirname n) target"
  from member have name: "\<not> is_absolute name" "''..'' \<notin> set (path_parts name)" "path_parts name \<noteq> []"
    and n: "n = join_with [slash] (path_parts name)"
    by (simp_all add: safe_member_name_iff)
  have dirs: "''..'' \<notin> set ?dirs" "filter (\<lambda>c. \<not> trivial_component c) ?dirs = ?dirs"
    using name(2) by (auto simp: filter_id_conv path_parts_def dest: in_set_butlastD)
  have dirs_ne: "\<forall>c \<in> set ?dirs. c \<noteq> []"
    using path_parts_props [of _ name] by (auto dest: in_set_butlastD)
  have sp: "split_on slash ?p = ?dirs @ split_on slash target"
    unfolding n using False name(3) by (intro split_dirname_join) auto
  define comps where "comps = foldl (norm_step False) ?dirs (split_on slash target)"
  have "hd (split_on slash ?p) \<noteq> []"
    using False dirs_ne relative_iff [of target] by (cases ?dirs) (auto simp: sp)
  then have rel: "?p \<noteq> []" "initial_slashes ?p = 0"
    using relative_iff [of ?p] by (auto simp: initial_slashes_def is_absolute_def)
  have np: "normpath ?p = (if join_with [slash] comps = [] then ''.'' else join_with [slash] comps)"
    using rel relative_norm_fold [of "[]" ?dirs False] dirs
    by (simp add: normpath_def Let_def sp comps_def)
  have parts: "\<forall>c \<in> set comps. slash \<notin> set c \<and> c \<noteq> []"
    using norm_fold_set [of False ?dirs "split_on slash target"] path_parts_props [of _ name]
      split_on_parts [of _ slash target]
    by (fastforce simp: comps_def trivial_component_def dest: in_set_butlastD)
  have sj: "split_on slash (normpath ?p) = (if comps = [] then [''.''] else comps)"
  proof (cases comps)
    case Nil
    then show ?thesis by (simp add: np slash_def)
  next
    case (Cons c cs)
    then have "join_with [slash] comps \<noteq> []" using parts by (cases cs) auto
    then show ?thesis using Cons parts by (simp add: np split_on_join)
  qed
  have "normpath ?p = ''..'' \<or> take 3 (normpath ?p) = ''../'' \<longleftrightarrow> comps \<noteq> [] \<and> hd comps = ''..''"
    using leading_dotdot [of "normpath ?p"] by (auto simp: sj)
  then have "safe_link_target n target = Inr () \<longleftrightarrow> \<not> (comps \<noteq> [] \<and> hd comps = ''..'')"
    using False by (simp add: safe_link_target_def)
  moreover have "(comps \<noteq> [] \<and> hd comps = ''..'') \<longleftrightarrow> lexical_walk ?dirs (split_on slash target) = None"
    using norm_fold_walk [OF dirs(1), of "split_on slash target"]
    by (fastforce simp: comps_def split: option.splits dest: hd_in_set)
  ultimately show ?thesis using False by simp
qed

section \<open>Archives that pass\<close>

definition member_allowed :: "tar_member \<Rightarrow> bool" where
  "member_allowed m \<longleftrightarrow>
     tm_kind m \<noteq> TOther \<and>
     (tm_kind m \<in> {TSym, TLnk} \<longrightarrow>
        tm_linkname m \<noteq> [] \<and> \<not> is_absolute (tm_linkname m) \<and>
        lexical_walk (butlast (path_parts (tm_name m))) (split_on slash (tm_linkname m)) \<noteq> None)"

lemma check_member_Inr:
  assumes "check_member names md m = Inr (names', md')"
  shows "\<exists>n. safe_member_name (tm_name m) = Inr n \<and> member_allowed m \<and> n \<notin> set names \<and>
    names' = names @ [n] \<and>
    (if n = ''metadata'' then tm_kind m = TFile \<and> md' = tm_contents m else md' = md)"
proof -
  from assms obtain n where n: "safe_member_name (tm_name m) = Inr n" "tm_kind m \<noteq> TOther"
    "tm_kind m = TSym \<or> tm_kind m = TLnk \<longrightarrow> safe_link_target n (tm_linkname m) = Inr ()"
    "n \<notin> set names" "names' = names @ [n]"
    "if n = ''metadata'' then tm_kind m = TFile \<and> md' = tm_contents m else md' = md"
    by (auto simp: check_member_def bindE_Inr_iff split: if_splits option.splits)
  moreover have "member_allowed m"
    using n(2,3) safe_link_target_iff [OF n(1)] by (auto simp: member_allowed_def)
  ultimately show ?thesis by blast
qed

lemma check_members_Inr:
  "check_members names md ms = Inr (names', md') \<Longrightarrow>
   \<exists>ns. names' = names @ ns \<and> list_all2 (\<lambda>m n. safe_member_name (tm_name m) = Inr n) ms ns \<and>
     list_all member_allowed ms \<and> (distinct names \<longrightarrow> distinct names') \<and>
     (md' = md \<or> (\<exists>m \<in> set ms. safe_member_name (tm_name m) = Inr ''metadata'' \<and>
        tm_kind m = TFile \<and> tm_contents m = md'))"
proof (induction ms arbitrary: names md)
  case Nil
  then show ?case by simp
next
  case (Cons m ms)
  then obtain names1 md1 where step: "check_member names md m = Inr (names1, md1)"
    and rest: "check_members names1 md1 ms = Inr (names', md')"
    by (auto simp: bindE_Inr_iff)
  from check_member_Inr [OF step] obtain n where n: "safe_member_name (tm_name m) = Inr n"
    "member_allowed m" "n \<notin> set names" "names1 = names @ [n]"
    "if n = ''metadata'' then tm_kind m = TFile \<and> md1 = tm_contents m else md1 = md"
    by blast
  from Cons.IH [OF rest] obtain ns where ns: "names' = names1 @ ns"
    "list_all2 (\<lambda>m n. safe_member_name (tm_name m) = Inr n) ms ns" "list_all member_allowed ms"
    "distinct names1 \<longrightarrow> distinct names'"
    "md' = md1 \<or> (\<exists>m \<in> set ms. safe_member_name (tm_name m) = Inr ''metadata'' \<and>
        tm_kind m = TFile \<and> tm_contents m = md')"
    by blast
  show ?case
    using n ns by (intro exI [of _ "n # ns"]) (cases "n = ''metadata''"; auto)
qed

lemma check_archive_Inr:
  assumes "check_archive r members = Inr (count, metadata)"
  shows "\<exists>names raw m. list_all2 (\<lambda>m n. safe_member_name (tm_name m) = Inr n) members names \<and>
    list_all member_allowed members \<and> distinct names \<and> count = length names \<and>
    rstrip_slash ` set (rl_required_paths r) \<subseteq> set names \<and>
    m \<in> set members \<and> safe_member_name (tm_name m) = Inr ''metadata'' \<and> tm_kind m = TFile \<and>
    tm_contents m = Some raw \<and> parse_metadata raw = Inr metadata \<and>
    (\<forall>(k, v) \<in> set (rl_metadata r). map_of metadata k = Some v)"
proof -
  from assms obtain names raw where c: "check_members [] None members = Inr (names, Some raw)"
    "\<forall>item \<in> set (rl_required_paths r). rstrip_slash item \<in> set names" "count = length names"
    "parse_metadata raw = Inr metadata"
    "\<forall>(k, v) \<in> set (rl_metadata r). map_of metadata k = Some v"
    by (fastforce simp: check_archive_def bindE_Inr_iff split: option.splits)
  with check_members_Inr [OF c(1)] show ?thesis by (intro exI [of _ names] exI [of _ raw]) auto
qed

section \<open>The command\<close>

lemma release_by_id_sound: "release_by_id i rs = Inr r \<Longrightarrow> r \<in> set rs \<and> rl_release_id r = i"
  by (induction i rs rule: release_by_id.induct) (auto split: if_splits)

datatype verify_report =
    VerifiedEncrypted string string
  | VerifiedArchive string string nat "(string \<times> string) list"

definition verify_main ::
  "(bytes \<Rightarrow> string) \<Rightarrow> (bytes \<Rightarrow> tar_member list option) \<Rightarrow> release list \<Rightarrow> string \<Rightarrow> bool \<Rightarrow> bytes \<Rightarrow>
   verify_report result" where
  "verify_main sha256 untar releases release_id encrypted file =
     bindE (release_by_id release_id releases) (\<lambda>r.
       if encrypted then
         bindE (verify_encrypted_input sha256 file r) (\<lambda>digest.
           Inr (VerifiedEncrypted (rl_release_id r) digest))
       else
         bindE (verify_decrypted_archive sha256 untar file r) (\<lambda>(rid, digest, members, metadata).
           Inr (VerifiedArchive rid digest members metadata)))"

text \<open>
  The path check and the link check are exact: a member and its link target pass together exactly when
  the member name is relative, has a component and no \<open>..\<close> component, and the target is relative and, walked
  component by component from the directory of the member, never leaves the root of the archive.  The
  normalised name is the list of the components of the given one.
\<close>

theorem link_check_exact:
  "bindE (safe_member_name name) (\<lambda>n. bindE (safe_link_target n target) (\<lambda>_. Inr n)) = Inr out \<longleftrightarrow>
   name \<noteq> [] \<and> \<not> is_absolute name \<and> ''..'' \<notin> set (path_parts name) \<and> path_parts name \<noteq> [] \<and>
   target \<noteq> [] \<and> \<not> is_absolute target \<and>
   lexical_walk (butlast (path_parts name)) (split_on slash target) \<noteq> None \<and>
   out = join_with [slash] (path_parts name) \<and> split_on slash out = path_parts name"
proof -
  have "bindE (safe_member_name name) (\<lambda>n. bindE (safe_link_target n target) (\<lambda>_. Inr n)) = Inr out \<longleftrightarrow>
    safe_member_name name = Inr out \<and> safe_link_target out target = Inr ()"
    by (auto simp: bindE_Inr_iff)
  also have "\<dots> \<longleftrightarrow> safe_member_name name = Inr out \<and> target \<noteq> [] \<and> \<not> is_absolute target \<and>
    lexical_walk (butlast (path_parts name)) (split_on slash target) \<noteq> None"
    using safe_link_target_iff by blast
  finally show ?thesis using split_on_join_parts [of name] by (auto simp: safe_member_name_iff)
qed

lemma verify_main_archive:
  assumes "verify_main sha256 untar releases release_id False file = Inr (VerifiedArchive rid digest count metadata)"
  shows "\<exists>r members. r \<in> set releases \<and> rl_release_id r = release_id \<and> rid = release_id \<and>
    digest = sha256 file \<and> rl_decrypted_sha256 r = Some digest \<and> untar file = Some members \<and>
    check_archive r members = Inr (count, metadata)"
proof -
  from assms obtain r where r: "release_by_id release_id releases = Inr r"
    and v: "verify_decrypted_archive sha256 untar file r = Inr (rid, digest, count, metadata)"
    by (auto simp: verify_main_def bindE_Inr_iff)
  from v have "\<exists>members. untar file = Some members \<and> check_archive r members = Inr (count, metadata) \<and>
    rid = rl_release_id r \<and> digest = sha256 file \<and> rl_decrypted_sha256 r = Some digest"
    by (auto simp: verify_decrypted_archive_def bindE_Inr_iff split: option.splits if_splits)
  with release_by_id_sound [OF r] show ?thesis by blast
qed


definition archive_release :: release where
  "archive_release = sample_release\<lparr>rl_decrypted_sha256 := Some (replicate 64 CHR ''b'')\<rparr>"

definition archive_members :: "tar_member list" where
  "archive_members =
     [\<lparr>tm_name = ''etc/'', tm_kind = TDir, tm_linkname = [], tm_contents = None\<rparr>,
      \<lparr>tm_name = ''etc/link'', tm_kind = TSym, tm_linkname = ''../metadata'', tm_contents = None\<rparr>,
      \<lparr>tm_name = ''./metadata'', tm_kind = TFile, tm_linkname = [],
       tm_contents = Some [80, 82, 79, 68, 85, 67, 84, 61, 122, 100, 49, 50, 48, 48, 10]\<rparr>]"

definition archive_report :: verify_report where
  "archive_report =
     VerifiedArchive ''zd_a'' (replicate 64 CHR ''b'') 3 [(''PRODUCT'', ''zd1200'')]"

lemma archive_verified:
  "verify_main (\<lambda>_. replicate 64 CHR ''b'') (\<lambda>_. Some archive_members) [archive_release] ''zd_a'' False [31, 139] =
   Inr archive_report"
  by code_simp


section \<open>Hard links\<close>

text \<open>
  The target of a hard link is the name of another member, counted from the root of the archive, and not
  from the directory of the link.  The check treats it like the target of a symbolic link: it lets a hard
  link pass whose target leaves the archive, and refuses the one a link in a subdirectory needs to reach
  a member by a name with \<open>..\<close>.
\<close>

definition leaves_root :: "string \<Rightarrow> bool" where
  "leaves_root p \<longleftrightarrow> is_absolute p \<or> lexical_walk [] (split_on slash p) = None"

theorem hard_link_target_can_leave_the_archive:
  "check_member [] None \<lparr>tm_name = ''etc/hosts'', tm_kind = TLnk, tm_linkname = ''../shadow'', tm_contents = None\<rparr> =
     Inr ([''etc/hosts''], None) \<and>
   leaves_root ''../shadow''"
  by code_simp

end
