(* ===== verification/Payload.thy ===== *)
theory Payload
imports ArchiveVerify FileStore
begin

text \<open>
  \<open>make_payload\<close> of \<open>build_zd1200_bundle.py\<close>: the \<open>release-info\<close> member that tells the boot handoff
  what it is booting, and the members taken from the extracted vendor archive.  The vendor tree lists its
  entries in the order a recursive walk visits them; the contents of its plain files are in a store.  The
  TAR and gzip encoders are the parameter \<open>tgz\<close>.
\<close>

section \<open>The release-info member\<close>

definition py_str_int :: "int \<Rightarrow> string" where
  "py_str_int i = (if i < 0 then ''-'' @ decimal (nat (- i)) else decimal (nat i))"

definition feature :: "release \<Rightarrow> string \<Rightarrow> string result" where
  "feature r name = (case map_of (rl_features r) name of None \<Rightarrow> Inl (KeyError name) | Some v \<Rightarrow> Inr v)"

definition kv_line :: "string \<times> string \<Rightarrow> string" where
  "kv_line kv = fst kv @ ''='' @ snd kv"

definition kv_text :: "(string \<times> string) list \<Rightarrow> string" where
  "kv_text kvs = concat (map (\<lambda>kv. kv_line kv @ [CHR 0x0A]) kvs)"

definition release_info_fields :: "release \<Rightarrow> bool \<Rightarrow> string \<Rightarrow> string \<Rightarrow> (string \<times> string) list" where
  "release_info_fields r has_aidfs ftp ssh =
     [(''RELEASE_ID'', rl_release_id r), (''VERSION'', rl_version r), (''BUILD'', py_str_int (rl_build r)),
      (''HAS_AIDFS'', if has_aidfs then ''1'' else ''0''),
      (''RUNTIME_FTP_BOOTSTRAP'', ftp), (''RUNTIME_ROOT_SSH'', ssh)]"

definition release_info :: "release \<Rightarrow> bool \<Rightarrow> bytes result" where
  "release_info r has_aidfs =
     bindE (feature r ''runtime_ftp_bootstrap'') (\<lambda>ftp.
     bindE (feature r ''runtime_root_ssh'') (\<lambda>ssh.
       encode_ascii (kv_text (release_info_fields r has_aidfs ftp ssh))))"

section \<open>The members\<close>

datatype vendor_node = VDir | VFile | VLink string

type_synonym vendor_tree = "(path \<times> vendor_node) list"

datatype payload_entry = PDir path | PFile path bytes | PLink path string

definition payload_names :: "bool \<Rightarrow> string list" where
  "payload_names has_aidfs =
     [''firmwares'', ''ap-models'', ''file_list.txt''] @ (if has_aidfs then [''aidfs''] else [])"

definition has_aidfs :: "vendor_tree \<Rightarrow> bool" where
  "has_aidfs tree \<longleftrightarrow> map_of tree ''aidfs'' = Some VDir"

text \<open>An entry belongs to a name when it is that name or lies below it.\<close>

definition below :: "string \<Rightarrow> path \<Rightarrow> bool" where
  "below name p \<longleftrightarrow> p = name \<or> take (length name + 1) p = name @ ''/''"

definition payload_member :: "store \<Rightarrow> path \<times> vendor_node \<Rightarrow> payload_entry result" where
  "payload_member s entry =
     (case entry of
        (p, VDir) \<Rightarrow> Inr (PDir p)
      | (p, VLink target) \<Rightarrow> Inr (PLink p target)
      | (p, VFile) \<Rightarrow> (case s p of None \<Rightarrow> Inl (OSError ''read'') | Some b \<Rightarrow> Inr (PFile p b)))"

definition add_name :: "vendor_tree \<Rightarrow> store \<Rightarrow> string \<Rightarrow> payload_entry list result" where
  "add_name tree s name =
     (if map_of tree name = None then Inl (OSError ''lstat'')
      else mapE (payload_member s) (filter (\<lambda>(p, _). below name p) tree))"

definition payload_members :: "release \<Rightarrow> vendor_tree \<Rightarrow> store \<Rightarrow> payload_entry list result" where
  "payload_members r tree s =
     bindE (release_info r (has_aidfs tree)) (\<lambda>info.
     bindE (mapE (add_name tree s) (payload_names (has_aidfs tree))) (\<lambda>groups.
       Inr (PFile ''release-info'' info # concat groups)))"

definition make_payload ::
  "(payload_entry list \<Rightarrow> bytes) \<Rightarrow> release \<Rightarrow> vendor_tree \<Rightarrow> store \<Rightarrow> bytes result" where
  "make_payload tgz r tree s = bindE (payload_members r tree s) (\<lambda>members. Inr (tgz members))"

section \<open>Reading key and value lines back\<close>

definition plain_text :: "string \<Rightarrow> bool" where
  "plain_text s \<longleftrightarrow> (\<forall>c \<in> set s. code_point c < 128 \<and> \<not> is_line_break c)"

lemma plain_text_append [simp]: "plain_text (a @ b) \<longleftrightarrow> plain_text a \<and> plain_text b"
  by (auto simp: plain_text_def)

lemma splitlines_kv:
  "\<forall>kv \<in> set kvs. plain_text (kv_line kv) \<Longrightarrow> splitlines (kv_text kvs) = map kv_line kvs"
proof (induction kvs)
  case (Cons kv kvs)
  then have "splitlines (kv_line kv @ CHR 0x0A # kv_text kvs) = kv_line kv # splitlines (kv_text kvs)"
    by (intro splitlines_newline) (simp add: plain_text_def)
  with Cons show ?case by (simp add: kv_text_def)
qed (simp add: kv_text_def)

lemma metadata_lines_kv:
  "distinct (map fst (vals @ kvs)) \<Longrightarrow> \<forall>(k, v) \<in> set kvs. k \<noteq> [] \<and> CHR ''='' \<notin> set k \<Longrightarrow>
   metadata_lines vals (map kv_line kvs) = Inr (vals @ kvs)"
proof (induction kvs arbitrary: vals)
  case (Cons kv kvs)
  obtain k v where kv: "kv = (k, v)" by (cases kv)
  with Cons.prems have k: "k \<noteq> []" "CHR ''='' \<notin> set k" "map_of vals k = None"
    by (auto simp: map_of_eq_None_iff)
  have d: "distinct (map fst ((vals @ [kv]) @ kvs))" using Cons.prems(1) by simp
  have "metadata_lines (vals @ [kv]) (map kv_line kvs) = Inr ((vals @ [kv]) @ kvs)"
    by (rule Cons.IH [OF d]) (use Cons.prems(2) in simp)
  moreover have "kv_line (k, v) = k @ CHR ''='' # v" by (simp add: kv_line_def)
  ultimately show ?case
    using k partition_on_append [of "CHR ''=''" k v] by (simp add: kv dict_set_def)
qed simp

lemma kv_text_code_points:
  "\<forall>kv \<in> set kvs. plain_text (kv_line kv) \<Longrightarrow> \<forall>c \<in> set (kv_text kvs). code_point c < 128"
proof -
  have "code_point CHR 0x0A < 128" by code_simp
  moreover assume "\<forall>kv \<in> set kvs. plain_text (kv_line kv)"
  ultimately show ?thesis by (auto simp: kv_text_def plain_text_def)
qed

lemma kv_text_round_trip:
  assumes "\<forall>kv \<in> set kvs. plain_text (kv_line kv)" "distinct (map fst kvs)"
    and "\<forall>(k, v) \<in> set kvs. k \<noteq> [] \<and> CHR ''='' \<notin> set k"
  shows "\<exists>raw. encode_ascii (kv_text kvs) = Inr raw \<and> parse_metadata raw = Inr kvs"
proof -
  from ascii_roundtrip [OF kv_text_code_points [OF assms(1)]] obtain raw where
    "encode_ascii (kv_text kvs) = Inr raw" "decode_ascii raw = Inr (kv_text kvs)" by blast
  then show ?thesis
    using splitlines_kv [OF assms(1)] metadata_lines_kv [of "[]" kvs] assms(2,3)
    by (simp add: parse_metadata_def)
qed

section \<open>The values of a loaded manifest are plain\<close>

lemma plain_digit: "is_ascii_digit c \<Longrightarrow> code_point c < 128 \<and> \<not> is_line_break c"
  by (auto simp: is_ascii_digit_def is_line_break_def in_range_def)

lemma plain_identifier_char: "identifier_char c \<Longrightarrow> code_point c < 128 \<and> \<not> is_line_break c"
proof -
  have "code_point CHR ''_'' = 95" by code_simp
  then show "identifier_char c \<Longrightarrow> code_point c < 128 \<and> \<not> is_line_break c"
    by (auto simp: identifier_char_def is_ascii_lower_def is_ascii_digit_def is_line_break_def in_range_def)
qed

lemma plain_identifier: "is_identifier s \<Longrightarrow> plain_text s"
  using plain_identifier_char
  by (cases s) (auto simp: is_identifier_def plain_text_def list_all_iff identifier_char_def)

lemma split_on_cover: "c \<in> set s \<Longrightarrow> c = sep \<or> (\<exists>w \<in> set (split_on sep s). c \<in> set w)"
  by (induction s) (auto split: list.splits)

lemma plain_version: "is_version s \<Longrightarrow> plain_text s"
proof -
  have "code_point CHR ''.'' < 128 \<and> \<not> is_line_break CHR ''.''" by code_simp
  moreover assume "is_version s"
  ultimately show ?thesis
    using split_on_cover [of _ s "CHR ''.''"] plain_digit
    by (fastforce simp: is_version_def plain_text_def list_all_iff)
qed

lemma plain_decimal: "plain_text (decimal n)"
  using decimal_digits [of n] plain_digit by (auto simp: plain_text_def is_digits_def list_all_iff)

lemma wf_release_features:
  assumes "wf_release known r"
  obtains ftp ssh where "feature r ''runtime_ftp_bootstrap'' = Inr ftp" "feature r ''runtime_root_ssh'' = Inr ssh"
    "ftp \<in> set RUNTIME_FTP_BOOTSTRAP_VALUES" "ssh \<in> set RUNTIME_ROOT_SSH_VALUES"
  using assms by (auto simp: wf_release_def feature_def)

lemma release_info_plain:
  assumes "wf_release known r" "ftp \<in> set RUNTIME_FTP_BOOTSTRAP_VALUES" "ssh \<in> set RUNTIME_ROOT_SSH_VALUES"
  shows "\<forall>kv \<in> set (release_info_fields r b ftp ssh). plain_text (kv_line kv)"
proof -
  have keys: "plain_text ''RELEASE_ID=''" "plain_text ''VERSION=''" "plain_text ''BUILD=''"
    "plain_text ''HAS_AIDFS=''" "plain_text ''RUNTIME_FTP_BOOTSTRAP=''" "plain_text ''RUNTIME_ROOT_SSH=''"
    "plain_text ''0''" "plain_text ''1''"
    unfolding plain_text_def by code_simp+
  have "\<forall>s \<in> set RUNTIME_FTP_BOOTSTRAP_VALUES \<union> set RUNTIME_ROOT_SSH_VALUES. plain_text s"
    unfolding plain_text_def by code_simp
  then have vals: "plain_text ftp" "plain_text ssh" using assms(2,3) by auto
  have rel: "plain_text (rl_release_id r)" "plain_text (rl_version r)" "0 \<le> rl_build r"
    using assms(1) plain_identifier plain_version by (auto simp: wf_release_def)
  have line: "plain_text (kv_line (k, v))" if "plain_text (k @ ''='')" "plain_text v" for k v
    using that by (auto simp: kv_line_def plain_text_def)
  show ?thesis
    using keys vals rel plain_decimal
    by (auto simp: release_info_fields_def py_str_int_def intro!: line)
qed

lemma release_info_fields_keys:
  "distinct (map fst (release_info_fields r b ftp ssh))"
  "\<forall>(k, v) \<in> set (release_info_fields r b ftp ssh). k \<noteq> [] \<and> CHR ''='' \<notin> set k"
  by (simp_all add: release_info_fields_def)

section \<open>Properties\<close>

text \<open>
  The release-info member never fails for a release of a loaded manifest, and the metadata parser
  reads back the id, the version, the build number in decimal, the layout flag and the two runtime
  features, in this order.
\<close>

theorem release_info_reads_back:
  assumes "load_release_manifest known file = Inr rs" "r \<in> set rs"
  shows "\<exists>raw ftp ssh. release_info r b = Inr raw \<and>
    map_of (rl_features r) ''runtime_ftp_bootstrap'' = Some ftp \<and>
    map_of (rl_features r) ''runtime_root_ssh'' = Some ssh \<and>
    parse_metadata raw = Inr
      [(''RELEASE_ID'', rl_release_id r), (''VERSION'', rl_version r), (''BUILD'', decimal (nat (rl_build r))),
       (''HAS_AIDFS'', if b then ''1'' else ''0''), (''RUNTIME_FTP_BOOTSTRAP'', ftp), (''RUNTIME_ROOT_SSH'', ssh)] \<and>
    decimal_value (decimal (nat (rl_build r))) = nat (rl_build r)"
proof -
  have wf: "wf_release known r" using load_release_manifest_wf [OF assms(1)] assms(2) by blast
  then obtain ftp ssh where f: "feature r ''runtime_ftp_bootstrap'' = Inr ftp"
    "feature r ''runtime_root_ssh'' = Inr ssh"
    "ftp \<in> set RUNTIME_FTP_BOOTSTRAP_VALUES" "ssh \<in> set RUNTIME_ROOT_SSH_VALUES"
    by (rule wf_release_features)
  from kv_text_round_trip [OF release_info_plain [OF wf f(3,4)] release_info_fields_keys, of b]
  obtain raw where "encode_ascii (kv_text (release_info_fields r b ftp ssh)) = Inr raw"
    "parse_metadata raw = Inr (release_info_fields r b ftp ssh)" by blast
  moreover have "0 \<le> rl_build r" using wf by (simp add: wf_release_def)
  moreover have "map_of (rl_features r) ''runtime_ftp_bootstrap'' = Some ftp"
    "map_of (rl_features r) ''runtime_root_ssh'' = Some ssh"
    using f(1,2) by (auto simp: feature_def split: option.splits)
  ultimately show ?thesis
    using f(1,2) by (auto simp: release_info_def release_info_fields_def py_str_int_def decimal_value_decimal)
qed

theorem release_info_reads_back_witness:
  "\<exists>raw. release_info sample_release True = Inr raw \<and> (\<exists>kvs. parse_metadata raw = Inr kvs \<and>
     map_of kvs ''BUILD'' = Some ''282'' \<and> map_of kvs ''HAS_AIDFS'' = Some ''1'')"
proof -
  have "decimal (nat (rl_build sample_release)) = ''282''" by code_simp
  then show ?thesis
    using release_info_reads_back [OF sample_manifest_load, of sample_release True] by auto
qed

end
