(* ===== verification/Bl7.thy ===== *)
theory Bl7
imports ByteCodec
begin

text \<open>
  \<open>ruckus_bl7.py\<close>: the Internet checksum of the header, the parser and the rebuilder of
  unsigned images, and the conversion of a signed image.  \<open>md5\<close> stands for
  \<open>hashlib.md5(payload).digest()\<close>, a digest of sixteen bytes.
\<close>

definition HEADER_SIZE :: nat where "HEADER_SIZE = 160"
definition MAGIC :: bytes where "MAGIC = [0x52, 0x43, 0x4B, 0x53]"
definition UI_IMAGE_TYPE :: int where "UI_IMAGE_TYPE = 0"
definition SIGNED_IMAGE_TYPES :: "int list" where "SIGNED_IMAGE_TYPES = [1, 2]"
definition PAGE_SIZE :: int where "PAGE_SIZE = 0x10000"

section \<open>The Internet checksum\<close>

text \<open>The big-endian words of the data, the last one padded with a zero byte.\<close>

fun be_words :: "bytes \<Rightarrow> int list" where
  "be_words (a # b # rest) = (256 * uint a + uint b) # be_words rest"
| "be_words [a] = [256 * uint a]"
| "be_words [] = []"

definition add_word :: "int \<Rightarrow> int \<Rightarrow> int" where
  "add_word acc word =
     (let acc = acc + word in acc mod 0x10000 + acc div 0x10000)"

text \<open>
  The closing \<open>while total >> 16\<close>; the total is a sum of bytes and never negative, and each
  turn makes it smaller.
\<close>

function fold_carry :: "int \<Rightarrow> int" where
  "fold_carry acc =
     (if acc div 0x10000 > 0 then fold_carry (acc mod 0x10000 + acc div 0x10000) else acc)"
  by pat_completeness auto

termination
proof (relation "measure nat")
  fix acc :: int
  assume h: "0 < acc div 0x10000"
  then have "0 < acc" by (simp add: pos_imp_zdiv_pos_iff)
  moreover have "acc mod 0x10000 + acc div 0x10000 < acc"
    using h mult_div_mod_eq [of "0x10000" acc] by linarith
  ultimately show "(acc mod 0x10000 + acc div 0x10000, acc) \<in> measure nat" by simp
qed simp

declare fold_carry.simps [simp del]

definition internet_checksum :: "bytes \<Rightarrow> int" where
  "internet_checksum data =
     (- fold_carry (foldl add_word 0 (be_words data)) - 1) mod 0x10000"

section \<open>Images\<close>

record bl7_image =
  bi_header :: bytes
  bi_kernel :: bytes
  bi_rootfs :: bytes
  bi_kernel_padding :: bytes

text \<open>\<open>struct.unpack(">I", b)\<close> needs exactly four bytes.\<close>

definition unpack_be32 :: "bytes \<Rightarrow> int result" where
  "unpack_be32 b = (if length b = 4 then Inr (be_int b) else Inl StructError)"

definition image_type :: "bl7_image \<Rightarrow> int result" where
  "image_type img = unpack_be32 (bslice (bi_header img) 0x84 0x88)"

text \<open>The version as code points: a byte outside ASCII decodes to the replacement character.\<close>

definition version :: "bl7_image \<Rightarrow> nat list" where
  "version img =
     map (\<lambda>b. if b < 0x80 then unat b else 0xFFFD)
       (takeWhile (\<lambda>b. b \<noteq> 0) (bslice (bi_header img) 0x2C 0x3C))"

definition rebuild_header :: "(bytes \<Rightarrow> bytes) \<Rightarrow> bytes \<Rightarrow> bytes \<Rightarrow> bytes \<Rightarrow> bytes \<Rightarrow> bytes" where
  "rebuild_header md5 header next_image payload_length payload =
     (let header = bassign header 4 8 next_image;
          header = bassign header 0x10 0x14 payload_length;
          header = bassign header 0x18 0x28 (md5 payload);
          header = bassign header 0x2A 0x2C [0, 0]
      in bassign header 0x2A 0x2C (be_bytes 2 (internet_checksum header)))"

definition rebuild ::
  "(bytes \<Rightarrow> bytes) \<Rightarrow> bl7_image \<Rightarrow> bytes option \<Rightarrow> bytes option \<Rightarrow> bytes result" where
  "rebuild md5 img kern rootfs =
     bindE (image_type img) (\<lambda>t.
     bindE (raise_if (t \<noteq> UI_IMAGE_TYPE)
              (ValueError ''refusing to rebuild signed ISI/FSI BL7 image'')) (\<lambda>_.
       let new_kernel = (case kern of None \<Rightarrow> bi_kernel img | Some k \<Rightarrow> k);
           new_rootfs = (case rootfs of None \<Rightarrow> bi_rootfs img | Some r \<Rightarrow> r);
           kernel_padding_length = (- int (HEADER_SIZE + length new_kernel)) mod PAGE_SIZE;
           padding = replicate (nat kernel_padding_length) 0xFF;
           payload = new_kernel @ padding @ new_rootfs
       in bindE (pack_be 4 (int (HEADER_SIZE + length new_kernel + length padding))) (\<lambda>next_image.
          bindE (pack_be 4 (int (length payload))) (\<lambda>payload_length.
            Inr (rebuild_header md5 (bi_header img) next_image payload_length payload @ payload)))))"

definition rstrip_ff :: "bytes \<Rightarrow> bytes" where
  "rstrip_ff bs = rev (dropWhile (\<lambda>b. b = 0xFF) (rev bs))"

definition parse_bl7 :: "(bytes \<Rightarrow> bytes) \<Rightarrow> bytes \<Rightarrow> bl7_image result" where
  "parse_bl7 md5 data =
     (if length data < HEADER_SIZE \<or> take 4 data \<noteq> MAGIC then
        Inl (ValueError ''not a Ruckus BL7 image'')
      else
        let header = take HEADER_SIZE data
        in if unat (header ! 9) \<noteq> HEADER_SIZE then
             Inl (ValueError ''unsupported BL7 header length'')
           else
             let next_image = nat (be_int (bslice header 4 8));
                 binl7_len = nat (be_int (bslice header 0x10 0x14));
                 image_type = be_int (bslice header 0x84 0x88);
                 payload_end = HEADER_SIZE + binl7_len
             in if image_type \<noteq> UI_IMAGE_TYPE then
                  Inl (ValueError ''signed ISI/FSI BL7 images are not supported'')
                else if next_image < HEADER_SIZE \<or> next_image > payload_end \<or> payload_end > length data then
                  Inl (ValueError ''BL7 offsets exceed image bounds'')
                else
                  let kernel_padded = bslice data HEADER_SIZE next_image;
                      kern = rstrip_ff kernel_padded;
                      padding = drop (length kern) kernel_padded;
                      rootfs = bslice data next_image payload_end;
                      payload = kernel_padded @ rootfs
                  in if md5 payload \<noteq> bslice header 0x18 0x28 then
                       Inl (ValueError ''BL7 payload MD5 mismatch'')
                     else if internet_checksum (bassign header 0x2A 0x2C [0, 0])
                               \<noteq> be_int (bslice header 0x2A 0x2C) then
                       Inl (ValueError ''BL7 header checksum mismatch'')
                     else Inr \<lparr>bi_header = header, bi_kernel = kern, bi_rootfs = rootfs,
                            bi_kernel_padding = padding\<rparr>)"

definition signed_to_ui :: "(bytes \<Rightarrow> bytes) \<Rightarrow> bytes \<Rightarrow> bytes result" where
  "signed_to_ui md5 data =
     (if length data < HEADER_SIZE \<or> take 4 data \<noteq> MAGIC then
        Inl (ValueError ''not a Ruckus BL7 image'')
      else
        let header = take HEADER_SIZE data
        in if unat (header ! 9) \<noteq> HEADER_SIZE then
             Inl (ValueError ''unsupported BL7 header length'')
           else if be_int (bslice header 0x84 0x88) \<notin> set SIGNED_IMAGE_TYPES then
             Inl (ValueError ''expected signed ISI/FSI BL7 image'')
           else
             let next_image = nat (be_int (bslice header 4 8));
                 binl7_len = nat (be_int (bslice header 0x10 0x14));
                 payload_end = HEADER_SIZE + binl7_len
             in if next_image < HEADER_SIZE \<or> next_image > payload_end \<or> payload_end \<ge> length data then
                  Inl (ValueError ''signed BL7 offsets or signature trailer are invalid'')
                else
                  let payload = bslice data HEADER_SIZE payload_end
                  in if md5 payload \<noteq> bslice header 0x18 0x28 then
                       Inl (ValueError ''signed BL7 payload MD5 mismatch'')
                     else
                       let expected_checksum = be_int (bslice header 0x2A 0x2C);
                           header = bassign header 0x2A 0x2C [0, 0]
                       in if internet_checksum header \<noteq> expected_checksum then
                            Inl (ValueError ''signed BL7 header checksum mismatch'')
                          else
                            let header = bassign header 0x84 0x88 (be_bytes 4 UI_IMAGE_TYPE);
                                header = bassign header 0x2A 0x2C [0, 0];
                                header = bassign header 0x2A 0x2C (be_bytes 2 (internet_checksum header))
                            in Inr (header @ payload))"

lemma bslice_append: "a \<le> b \<Longrightarrow> b \<le> c \<Longrightarrow> bslice xs a c = bslice xs a b @ bslice xs b c"
  using take_add [of "b - a" "c - b" "drop a xs"] by (simp add: bslice_def)

lemma bslice_tail: "a \<le> b \<Longrightarrow> xs = take a xs @ bslice xs a b @ drop b xs"
  using append_take_drop_id [of "b - a" "drop a xs"] by (simp add: bslice_def)

section \<open>The checksum is the complement of the sum modulo 65535\<close>

lemma div_mod_65535: "(t mod 0x10000 + t div 0x10000) mod 0xFFFF = (t::int) mod 0xFFFF"
proof -
  have "t = (t mod 0x10000 + t div 0x10000) + 0xFFFF * (t div 0x10000)"
    using mult_div_mod_eq [of "0x10000" t] by linarith
  then show ?thesis by (metis mod_mult_self2)
qed

lemma div_mod_zero: "0 \<le> (t::int) \<Longrightarrow> t mod 0x10000 + t div 0x10000 = 0 \<longleftrightarrow> t = 0"
proof -
  assume "0 \<le> t"
  then have "0 \<le> t div 0x10000" "0 \<le> t mod 0x10000" by (simp_all add: pos_imp_zdiv_nonneg_iff)
  then show ?thesis using mult_div_mod_eq [of "0x10000" t] by linarith
qed

lemma fold_carry_spec:
  "0 \<le> acc \<Longrightarrow> fold_carry acc mod 0xFFFF = acc mod 0xFFFF \<and>
     0 \<le> fold_carry acc \<and> fold_carry acc \<le> 0xFFFF \<and> (fold_carry acc = 0 \<longleftrightarrow> acc = 0)"
proof (induction acc rule: fold_carry.induct)
  case (1 acc)
  let ?t = "acc mod 0x10000 + acc div 0x10000"
  show ?case
  proof (cases "acc div 0x10000 > 0")
    case True
    have "0 \<le> ?t" using "1.prems" by (simp add: pos_imp_zdiv_nonneg_iff)
    note ih = "1.IH" [OF True this]
    have step: "fold_carry acc = fold_carry ?t" using True by (simp only: fold_carry.simps [of acc] if_True)
    show ?thesis using ih unfolding step div_mod_65535 [of acc] div_mod_zero [OF "1.prems"] .
  next
    case False
    then have "acc < 0x10000" using "1.prems" by (simp add: pos_imp_zdiv_pos_iff)
    with False "1.prems" show ?thesis by (simp add: fold_carry.simps [of acc])
  qed
qed

lemma be_words_nonneg: "\<forall>w \<in> set (be_words data). 0 \<le> w"
  by (induction data rule: be_words.induct) auto

lemma foldl_add_word:
  "\<forall>w \<in> set ws. 0 \<le> w \<Longrightarrow> 0 \<le> t \<Longrightarrow>
   0 \<le> foldl add_word t ws \<and> foldl add_word t ws mod 0xFFFF = (t + sum_list ws) mod 0xFFFF \<and>
   (foldl add_word t ws = 0 \<longleftrightarrow> t + sum_list ws = 0)"
proof (induction ws arbitrary: t)
  case (Cons w ws)
  then have w: "0 \<le> t + w" "0 \<le> sum_list ws" by (auto intro: sum_list_nonneg)
  let ?t = "add_word t w"
  have t: "0 \<le> ?t" "?t mod 0xFFFF = (t + w) mod 0xFFFF" "?t = 0 \<longleftrightarrow> t + w = 0"
    using w div_mod_65535 [of "t + w"] div_mod_zero [of "t + w"]
    by (auto simp: add_word_def Let_def pos_imp_zdiv_nonneg_iff)
  from Cons.IH [OF _ t(1)] Cons.prems(1) have ih: "0 \<le> foldl add_word ?t ws"
    "foldl add_word ?t ws mod 0xFFFF = (?t + sum_list ws) mod 0xFFFF"
    "foldl add_word ?t ws = 0 \<longleftrightarrow> ?t + sum_list ws = 0" by auto
  have "(?t + sum_list ws) mod 0xFFFF = (t + w + sum_list ws) mod 0xFFFF"
    by (rule mod_add_cong [OF t(2) refl])
  moreover have "?t + sum_list ws = 0 \<longleftrightarrow> t + w + sum_list ws = 0" using t(1,3) w by linarith
  ultimately show ?case using ih by (simp only: foldl_Cons sum_list.Cons add.assoc)
qed simp

definition checksum_sum :: "bytes \<Rightarrow> int" where
  "checksum_sum data = sum_list (be_words data)"

lemma checksum_sum_nonneg: "0 \<le> checksum_sum data"
  unfolding checksum_sum_def using be_words_nonneg by (intro sum_list_nonneg) auto

lemma internet_checksum_sum:
  "\<exists>r. internet_checksum data = 0xFFFF - r \<and> 0 \<le> r \<and> r \<le> 0xFFFF \<and>
     r mod 0xFFFF = checksum_sum data mod 0xFFFF \<and> (r = 0 \<longleftrightarrow> checksum_sum data = 0)"
proof -
  let ?t = "foldl add_word 0 (be_words data)" and ?r = "fold_carry (foldl add_word 0 (be_words data))"
  from foldl_add_word [OF be_words_nonneg, of 0 data] have t: "0 \<le> ?t"
    "?t mod 0xFFFF = checksum_sum data mod 0xFFFF" "?t = 0 \<longleftrightarrow> checksum_sum data = 0"
    by (simp_all add: checksum_sum_def)
  from fold_carry_spec [OF t(1)] have r: "?r mod 0xFFFF = ?t mod 0xFFFF" "0 \<le> ?r" "?r \<le> 0xFFFF"
    "?r = 0 \<longleftrightarrow> ?t = 0" by auto
  have eq: "0xFFFF - ?r = (- ?r - 1) + 0x10000" by simp
  have "(0xFFFF - ?r) mod 0x10000 = (- ?r - 1) mod 0x10000" unfolding eq by (rule mod_add_self2)
  moreover have "(0xFFFF - ?r) mod 0x10000 = 0xFFFF - ?r" using r by (simp add: mod_pos_pos_trivial)
  ultimately have "(- ?r - 1) mod 0x10000 = 0xFFFF - ?r" by simp
  then show ?thesis using r t by (intro exI [of _ ?r]) (simp add: internet_checksum_def)
qed

lemma internet_checksum_bounds: "0 \<le> internet_checksum data \<and> internet_checksum data < 0x10000"
  by (simp add: internet_checksum_def)

lemma internet_checksum_zero: "internet_checksum data = 0 \<longleftrightarrow>
    checksum_sum data \<noteq> 0 \<and> checksum_sum data mod 0xFFFF = 0"
proof -
  obtain r where r: "internet_checksum data = 0xFFFF - r" "0 \<le> r" "r \<le> 0xFFFF"
    "r mod 0xFFFF = checksum_sum data mod 0xFFFF" "r = 0 \<longleftrightarrow> checksum_sum data = 0"
    using internet_checksum_sum by blast
  have "r mod 0xFFFF = 0 \<longleftrightarrow> r = 0 \<or> r = 0xFFFF"
    using r(2,3) by (cases "r = 0xFFFF") (auto simp: mod_pos_pos_trivial)
  with r show ?thesis by auto
qed

lemma be_words_append: "even (length xs) \<Longrightarrow> be_words (xs @ ys) = be_words xs @ be_words ys"
  by (induction xs rule: be_words.induct) auto


section \<open>A header that carries its own checksum\<close>

lemma checksum_sum_bassign:
  assumes "even a" "a + 2 \<le> length h" "length ys = 2"
  shows "checksum_sum (bassign h a (a + 2) ys) =
    checksum_sum (take a h) + checksum_sum ys + checksum_sum (drop (a + 2) h)"
proof -
  have "even (length (take a h))" using assms(1,2) by simp
  with assms(3) show ?thesis
    by (simp add: bassign_def checksum_sum_def be_words_append)
qed

lemma checksum_sum_be_bytes: "0 \<le> c \<Longrightarrow> c < 0x10000 \<Longrightarrow> checksum_sum (be_bytes 2 c) = c"
  by (simp add: checksum_sum_def be_bytes_def numeral_2_eq_2 uint_word_of_int)

lemma stored_checksum_verifies:
  assumes "even a" "a + 2 \<le> length h"
  shows "internet_checksum (bassign h a (a + 2) (be_bytes 2 (internet_checksum (bassign h a (a + 2) [0, 0])))) = 0"
proof -
  let ?z = "bassign h a (a + 2) [0, 0]"
  obtain r where r: "internet_checksum ?z = 0xFFFF - r" "0 \<le> r" "r \<le> 0xFFFF"
    "r mod 0xFFFF = checksum_sum ?z mod 0xFFFF" "r = 0 \<longleftrightarrow> checksum_sum ?z = 0"
    using internet_checksum_sum by blast
  have "checksum_sum [0, 0] = 0" by (simp add: checksum_sum_def)
  with checksum_sum_bassign [OF assms, of "[0, 0]"]
    checksum_sum_bassign [OF assms, of "be_bytes 2 (0xFFFF - r)"] checksum_sum_be_bytes [of "0xFFFF - r"] r
  have "checksum_sum (bassign h a (a + 2) (be_bytes 2 (internet_checksum ?z))) =
      checksum_sum ?z + (0xFFFF - r)" by simp
  moreover have "checksum_sum ?z + (0xFFFF - r) \<noteq> 0"
    using r checksum_sum_nonneg [of ?z] by linarith
  moreover have "(checksum_sum ?z + (0xFFFF - r)) mod 0xFFFF = 0"
  proof -
    have "(checksum_sum ?z - r) mod 0xFFFF = 0"
      using mod_diff_cong [OF r(4) [symmetric] refl, of r] by simp
    then have "(checksum_sum ?z - r + 0xFFFF) mod 0xFFFF = 0" by simp
    then show ?thesis by (simp add: algebra_simps)
  qed
  ultimately show ?thesis by (simp add: internet_checksum_zero)
qed

text \<open>What \<open>parse_bl7\<close> checks of a header, for a payload of padded kernel and root file system.\<close>

definition header_describes :: "(bytes \<Rightarrow> bytes) \<Rightarrow> bytes \<Rightarrow> bytes \<Rightarrow> bytes \<Rightarrow> bool" where
  "header_describes md5 h kernel_padded rootfs \<longleftrightarrow>
     length h = HEADER_SIZE \<and> take 4 h = MAGIC \<and> unat (h ! 9) = HEADER_SIZE \<and>
     be_int (bslice h 0x84 0x88) = UI_IMAGE_TYPE \<and>
     be_int (bslice h 4 8) = int (HEADER_SIZE + length kernel_padded) \<and>
     be_int (bslice h 0x10 0x14) = int (length kernel_padded + length rootfs) \<and>
     bslice h 0x18 0x28 = md5 (kernel_padded @ rootfs) \<and>
     internet_checksum (bassign h 0x2A 0x2C [0, 0]) = be_int (bslice h 0x2A 0x2C)"

lemma parse_bl7_intro:
  assumes "header_describes md5 h kp r"
  shows "parse_bl7 md5 (h @ kp @ r @ rest) = Inr \<lparr>bi_header = h, bi_kernel = rstrip_ff kp,
    bi_rootfs = r, bi_kernel_padding = drop (length (rstrip_ff kp)) kp\<rparr>"
proof -
  note d = assms [unfolded header_describes_def]
  have "take HEADER_SIZE (h @ kp @ r @ rest) = h" "take 4 (h @ kp @ r @ rest) = MAGIC"
    "bslice (h @ kp @ r @ rest) HEADER_SIZE (HEADER_SIZE + length kp) = kp"
    "bslice (h @ kp @ r @ rest) (HEADER_SIZE + length kp) (HEADER_SIZE + (length kp + length r)) = r"
    "\<not> length (h @ kp @ r @ rest) < HEADER_SIZE"
    "HEADER_SIZE + (length kp + length r) \<le> length (h @ kp @ r @ rest)"
    using d by (simp_all add: bslice_def HEADER_SIZE_def)
  moreover have "nat (be_int (bslice h 4 8)) = HEADER_SIZE + length kp"
    "nat (be_int (bslice h 0x10 0x14)) = length kp + length r"
    using d by (simp_all only: nat_int)
  moreover have "unat (h ! 9) = HEADER_SIZE" "be_int (bslice h 0x84 0x88) = UI_IMAGE_TYPE"
    "md5 (kp @ r) = bslice h 0x18 0x28"
    "internet_checksum (bassign h 0x2A 0x2C [0, 0]) = be_int (bslice h 0x2A 0x2C)"
    using d by simp_all
  ultimately show ?thesis by (simp add: parse_bl7_def Let_def del: length_append)
qed

lemma be_int_nonneg: "0 \<le> be_int bs"
  using be_int_bounds by blast

lemma parse_bl7_elim:
  assumes "parse_bl7 md5 data = Inr img"
  obtains kp rest where "data = bi_header img @ kp @ bi_rootfs img @ rest"
    "header_describes md5 (bi_header img) kp (bi_rootfs img)"
    "bi_kernel img = rstrip_ff kp" "bi_kernel_padding img = drop (length (rstrip_ff kp)) kp"
proof -
  define ni where "ni = nat (be_int (bslice (take HEADER_SIZE data) 4 8))"
  define pe where "pe = HEADER_SIZE + nat (be_int (bslice (take HEADER_SIZE data) 0x10 0x14))"
  let ?h = "take HEADER_SIZE data" and ?kp = "bslice data HEADER_SIZE ni" and ?r = "bslice data ni pe"
  from assms have d: "HEADER_SIZE \<le> length data" "take 4 data = MAGIC" "unat (?h ! 9) = HEADER_SIZE"
    "be_int (bslice ?h 0x84 0x88) = UI_IMAGE_TYPE" "HEADER_SIZE \<le> ni" "ni \<le> pe" "pe \<le> length data"
    "md5 (?kp @ ?r) = bslice ?h 0x18 0x28"
    "internet_checksum (bassign ?h 0x2A 0x2C [0, 0]) = be_int (bslice ?h 0x2A 0x2C)"
    and img: "img = \<lparr>bi_header = ?h, bi_kernel = rstrip_ff ?kp, bi_rootfs = ?r,
       bi_kernel_padding = drop (length (rstrip_ff ?kp)) ?kp\<rparr>"
    by (auto simp: parse_bl7_def Let_def ni_def pe_def split: if_splits)
  have len: "length ?kp = ni - HEADER_SIZE" "length ?r = pe - ni" using d(5-7) by auto
  have data: "data = ?h @ ?kp @ ?r @ drop pe data"
    using bslice_append [OF d(5,6), of data] bslice_tail [of HEADER_SIZE pe data] d(5,6) by simp
  have "be_int (bslice ?h 4 8) = int ni" "be_int (bslice ?h 0x10 0x14) = int (pe - HEADER_SIZE)"
    by (simp_all add: ni_def pe_def be_int_nonneg)
  with d len have "header_describes md5 ?h ?kp ?r"
    by (simp add: header_describes_def HEADER_SIZE_def)
  with data show thesis by (intro that [of ?kp "drop pe data"]) (simp_all add: img)
qed

lemma rstrip_ff_split: "\<exists>n. bs = rstrip_ff bs @ replicate n 0xFF"
proof -
  let ?f = "takeWhile (\<lambda>b. b = 0xFF) (rev bs)"
  have f: "replicate (length ?f) 0xFF = ?f"
    by (rule replicate_length_same) (auto dest: set_takeWhileD)
  have "bs = rstrip_ff bs @ rev ?f"
    unfolding rstrip_ff_def by (metis rev_append rev_rev_ident takeWhile_dropWhile_id)
  also have "rev ?f = replicate (length ?f) 0xFF" by (subst f [symmetric]) simp
  finally show ?thesis ..
qed

lemma rstrip_ff_last: "rstrip_ff bs \<noteq> [] \<Longrightarrow> last (rstrip_ff bs) \<noteq> 0xFF"
  using hd_dropWhile [of "\<lambda>b. b = 0xFF" "rev bs"] by (simp add: rstrip_ff_def last_rev)

lemma rstrip_ff_append: "rstrip_ff (bs @ replicate n 0xFF) = rstrip_ff bs"
  unfolding rstrip_ff_def by (simp, rule dropWhile_append2) auto


section \<open>The headers the two writers produce\<close>

lemma rebuild_header_describes:
  assumes h: "length h = HEADER_SIZE" "take 4 h = MAGIC" "unat (h ! 9) = HEADER_SIZE"
      "be_int (bslice h 0x84 0x88) = UI_IMAGE_TYPE"
    and md5: "length (md5 (kp @ r)) = 16"
    and ni: "pack_be 4 (int (HEADER_SIZE + length kp)) = Inr ni"
    and pl: "pack_be 4 (int (length kp + length r)) = Inr pl"
  shows "header_describes md5 (rebuild_header md5 h ni pl (kp @ r)) kp r"
proof -
  let ?a = "bassign (bassign (bassign h 4 8 ni) 0x10 0x14 pl) 0x18 0x28 (md5 (kp @ r))"
  let ?z = "bassign ?a 0x2A 0x2C [0, 0]"
  let ?c = "be_bytes 2 (internet_checksum ?z)"
  have lens: "length ni = 4" "length pl = 4" using ni pl by (auto simp: pack_be_Inr_iff)
  have la: "length ?a = 160" using h(1) lens md5 by (simp add: length_bassign HEADER_SIZE_def)
  have h': "rebuild_header md5 h ni pl (kp @ r) = bassign ?z 0x2A 0x2C ?c"
    by (simp add: rebuild_header_def Let_def)
  then have h2: "rebuild_header md5 h ni pl (kp @ r) = bassign ?a 0x2A 0x2C ?c"
    using la by (simp add: bassign_bassign)
  have low: "take 4 (bassign ?a 0x2A 0x2C ?c) = take 4 h"
    using h(1) lens by (simp add: bassign_def HEADER_SIZE_def)
  have nine: "bassign ?a 0x2A 0x2C ?c ! 9 = h ! 9"
    using la h(1) lens md5 by (simp add: nth_bassign length_bassign HEADER_SIZE_def)
  have fields: "bslice (bassign ?a 0x2A 0x2C ?c) 0x84 0x88 = bslice h 0x84 0x88"
    "bslice (bassign ?a 0x2A 0x2C ?c) 4 8 = ni" "bslice (bassign ?a 0x2A 0x2C ?c) 0x10 0x14 = pl"
    "bslice (bassign ?a 0x2A 0x2C ?c) 0x18 0x28 = md5 (kp @ r)"
    "bslice (bassign ?a 0x2A 0x2C ?c) 0x2A 0x2C = ?c"
    using la h(1) lens md5
    by (simp_all add: bslice_bassign_disjoint bslice_bassign_same length_bassign HEADER_SIZE_def)
  have ck: "bassign (bassign ?a 0x2A 0x2C ?c) 0x2A 0x2C [0, 0] = ?z"
    using la by (simp add: bassign_bassign)
  have "be_int ni = int (HEADER_SIZE + length kp)" "be_int pl = int (length kp + length r)"
    using ni pl by (auto simp: pack_be_Inr_iff be_int_be_bytes simp del: of_nat_add)
  moreover have "be_int ?c = internet_checksum ?z"
    using internet_checksum_bounds [of ?z] by (simp add: be_int_be_bytes)
  ultimately show ?thesis
    using h la by (simp add: header_describes_def h2 low nine fields ck length_bassign HEADER_SIZE_def)
qed

lemma rebuild_header_keeps:
  assumes "length h = HEADER_SIZE" "length ni = 4" "length pl = 4" "length (md5 p) = 16"
    and "i \<notin> {4..<8} \<union> {0x10..<0x14} \<union> {0x18..<0x28} \<union> {0x2A..<0x2C}"
  shows "rebuild_header md5 h ni pl p ! i = h ! i"
  using assms by (auto simp: rebuild_header_def Let_def nth_bassign length_bassign HEADER_SIZE_def)


definition ui_header :: "bytes \<Rightarrow> bytes" where
  "ui_header h =
     (let z = bassign (bassign h 0x84 0x88 (be_bytes 4 UI_IMAGE_TYPE)) 0x2A 0x2C [0, 0]
      in bassign z 0x2A 0x2C (be_bytes 2 (internet_checksum z)))"

lemma ui_header_fields:
  assumes "length h = HEADER_SIZE"
  shows "length (ui_header h) = HEADER_SIZE" "be_int (bslice (ui_header h) 0x84 0x88) = UI_IMAGE_TYPE"
    and "internet_checksum (bassign (ui_header h) 0x2A 0x2C [0, 0]) = be_int (bslice (ui_header h) 0x2A 0x2C)"
    and "i \<notin> {0x84..<0x88} \<union> {0x2A..<0x2C} \<Longrightarrow> ui_header h ! i = h ! i"
    and "b \<le> 0x2A \<Longrightarrow> bslice (ui_header h) a b = bslice h a b"
proof -
  let ?a = "bassign h 0x84 0x88 (be_bytes 4 UI_IMAGE_TYPE)"
  let ?z = "bassign ?a 0x2A 0x2C [0, 0]"
  let ?c = "be_bytes 2 (internet_checksum ?z)"
  have la: "length ?a = 160" using assms by (simp add: length_bassign HEADER_SIZE_def)
  have u: "ui_header h = bassign ?a 0x2A 0x2C ?c"
    using la by (simp add: ui_header_def Let_def bassign_bassign)
  show "length (ui_header h) = HEADER_SIZE" using la by (simp add: u length_bassign HEADER_SIZE_def)
  have "bslice (ui_header h) 0x84 0x88 = be_bytes 4 UI_IMAGE_TYPE"
    using la assms by (simp add: u bslice_bassign_disjoint bslice_bassign_same HEADER_SIZE_def)
  then show "be_int (bslice (ui_header h) 0x84 0x88) = UI_IMAGE_TYPE"
    by (simp add: be_int_be_bytes UI_IMAGE_TYPE_def)
  have "bassign (ui_header h) 0x2A 0x2C [0, 0] = ?z" "bslice (ui_header h) 0x2A 0x2C = ?c"
    using la by (simp_all add: u bassign_bassign bslice_bassign_same)
  then show "internet_checksum (bassign (ui_header h) 0x2A 0x2C [0, 0]) = be_int (bslice (ui_header h) 0x2A 0x2C)"
    using internet_checksum_bounds [of ?z] by (simp add: be_int_be_bytes)
  show "ui_header h ! i = h ! i" if "i \<notin> {0x84..<0x88} \<union> {0x2A..<0x2C}"
    using that la assms by (auto simp: u nth_bassign HEADER_SIZE_def)
  show "bslice (ui_header h) a b = bslice h a b" if "b \<le> 0x2A"
    using that la assms by (simp add: u bslice_bassign_disjoint HEADER_SIZE_def)
qed

lemma signed_to_ui_elim:
  assumes "signed_to_ui md5 data = Inr out"
  obtains kp r trailer where
    "data = take HEADER_SIZE data @ kp @ r @ trailer" "trailer \<noteq> []"
    "out = ui_header (take HEADER_SIZE data) @ kp @ r"
    "header_describes md5 (ui_header (take HEADER_SIZE data)) kp r" "HEADER_SIZE \<le> length data"
    "be_int (bslice data 0x84 0x88) \<in> set SIGNED_IMAGE_TYPES"
proof -
  define ni where "ni = nat (be_int (bslice (take HEADER_SIZE data) 4 8))"
  define pe where "pe = HEADER_SIZE + nat (be_int (bslice (take HEADER_SIZE data) 0x10 0x14))"
  let ?h = "take HEADER_SIZE data" and ?kp = "bslice data HEADER_SIZE ni" and ?r = "bslice data ni pe"
  from assms have d: "HEADER_SIZE \<le> length data" "take 4 data = MAGIC" "unat (?h ! 9) = HEADER_SIZE"
    "be_int (bslice ?h 0x84 0x88) \<in> set SIGNED_IMAGE_TYPES" "HEADER_SIZE \<le> ni" "ni \<le> pe" "pe < length data"
    "md5 (bslice data HEADER_SIZE pe) = bslice ?h 0x18 0x28"
    by (auto simp: signed_to_ui_def Let_def ni_def pe_def split: if_splits)
  have lh: "length ?h = HEADER_SIZE" using d(1) by simp
  have z: "bassign (bassign (bassign ?h 0x2A 0x2C [0, 0]) 0x84 0x88 ys) 0x2A 0x2C [0, 0] =
      bassign (bassign ?h 0x84 0x88 ys) 0x2A 0x2C [0, 0]" if "length ys = 4" for ys
    using lh that bassign_commute [of "0x2A" "0x2C" "0x84" "0x88" ?h "[0, 0]" ys]
    by (simp add: bassign_bassign length_bassign HEADER_SIZE_def)
  from assms have out: "out = ui_header ?h @ bslice data HEADER_SIZE pe"
    by (auto simp: signed_to_ui_def Let_def pe_def ui_header_def z split: if_splits)
  have payload: "bslice data HEADER_SIZE pe = ?kp @ ?r"
    by (rule bslice_append [OF d(5,6)])
  have len: "length ?kp = ni - HEADER_SIZE" "length ?r = pe - ni" using d(5-7) by auto
  have data: "data = ?h @ ?kp @ ?r @ drop pe data"
    using payload bslice_tail [of HEADER_SIZE pe data] d(5,6) by simp
  have nat: "be_int (bslice ?h 4 8) = int ni" "be_int (bslice ?h 0x10 0x14) = int (pe - HEADER_SIZE)"
    by (simp_all add: ni_def pe_def be_int_nonneg)
  note f = ui_header_fields [OF lh]
  have "take 4 (ui_header ?h) = MAGIC"
    using f(5) [of 4 0] d(2) by (simp add: bslice_def HEADER_SIZE_def)
  moreover have "ui_header ?h ! 9 = ?h ! 9" by (rule f(4)) simp
  ultimately have "header_describes md5 (ui_header ?h) ?kp ?r"
    using f d(3,5-8) len nat payload by (simp add: header_describes_def HEADER_SIZE_def)
  moreover have "bslice data 0x84 0x88 = bslice ?h 0x84 0x88"
    by (simp add: bslice_def HEADER_SIZE_def drop_take)
  ultimately show thesis
    using data d out payload by (intro that [of ?kp ?r "drop pe data"]) auto
qed


section \<open>A sample image\<close>

definition sample_md5 :: "bytes \<Rightarrow> bytes" where
  "sample_md5 payload = be_bytes 16 (int (length payload))"

definition sample_image_header :: "int \<Rightarrow> bytes" where
  "sample_image_header kind =
     (let h = bassign (replicate 160 0) 0 4 MAGIC;
          h = bassign h 9 10 [160];
          h = bassign h 4 8 (be_bytes 4 163);
          h = bassign h 0x10 0x14 (be_bytes 4 5);
          h = bassign h 0x18 0x28 (be_bytes 16 5);
          h = bassign h 0x84 0x88 (be_bytes 4 kind)
      in bassign h 0x2A 0x2C (be_bytes 2 (internet_checksum h)))"

definition sample_bl7 :: bytes where
  "sample_bl7 = sample_image_header 0 @ [1, 2, 0xFF] @ [7, 8]"

definition sample_signed_bl7 :: bytes where
  "sample_signed_bl7 = sample_image_header 1 @ [1, 2, 0xFF] @ [7, 8] @ [9, 9, 9]"

lemma sample_parse: "\<exists>img. parse_bl7 sample_md5 sample_bl7 = Inr img \<and> bi_kernel img = [1, 2] \<and> bi_rootfs img = [7, 8]"
proof -
  have "header_describes sample_md5 (sample_image_header 0) [1, 2, 0xFF] [7, 8]" by code_simp
  from parse_bl7_intro [OF this, of "[]"] show ?thesis
    by (simp add: sample_bl7_def rstrip_ff_def)
qed

lemma sample_signed: "\<exists>out. signed_to_ui sample_md5 sample_signed_bl7 = Inr out"
proof -
  have "case signed_to_ui sample_md5 sample_signed_bl7 of Inl e \<Rightarrow> False | Inr out \<Rightarrow> True" by code_simp
  then show ?thesis by (auto split: sum.splits)
qed

section \<open>Properties\<close>

text \<open>
  A header that stores the complement checksum of itself (computed over a zeroed field) verifies: the
  Internet checksum of the whole header, stored field included, is zero.
\<close>

theorem stored_checksum_is_zero:
  assumes "length h = HEADER_SIZE"
  shows "internet_checksum (bassign h 0x2A 0x2C
    (be_bytes 2 (internet_checksum (bassign h 0x2A 0x2C [0, 0])))) = 0"
  using stored_checksum_verifies [of "0x2A" h] assms by (simp add: HEADER_SIZE_def)

theorem stored_checksum_is_zero_witness:
  "internet_checksum (bassign (replicate 160 7) 0x2A 0x2C
     (be_bytes 2 (internet_checksum (bassign (replicate 160 7) 0x2A 0x2C [0, 0])))) = 0"
  by (rule stored_checksum_is_zero) (simp add: HEADER_SIZE_def)

text \<open>
  C22. A parsed image is a lossless split of the input: header, kernel, padding and root file system
  follow each other in the file (a trailer may follow), the padding is all 0xFF and maximal, and the
  digest in the header is that of everything after it.
\<close>

theorem parse_bl7_splits:
  assumes "parse_bl7 md5 data = Inr img"
  shows "(\<exists>trailer. data = bi_header img @ bi_kernel img @ bi_kernel_padding img @ bi_rootfs img @ trailer) \<and>
    length (bi_header img) = HEADER_SIZE \<and> image_type img = Inr UI_IMAGE_TYPE \<and>
    set (bi_kernel_padding img) \<subseteq> {0xFF} \<and> (bi_kernel img \<noteq> [] \<longrightarrow> last (bi_kernel img) \<noteq> 0xFF) \<and>
    bslice (bi_header img) 0x18 0x28 = md5 (bi_kernel img @ bi_kernel_padding img @ bi_rootfs img)"
proof -
  from assms obtain kp rest where p: "data = bi_header img @ kp @ bi_rootfs img @ rest"
    "header_describes md5 (bi_header img) kp (bi_rootfs img)"
    "bi_kernel img = rstrip_ff kp" "bi_kernel_padding img = drop (length (rstrip_ff kp)) kp"
    by (rule parse_bl7_elim)
  obtain n where n: "kp = rstrip_ff kp @ replicate n 0xFF" using rstrip_ff_split by blast
  then have pad: "bi_kernel_padding img = replicate n 0xFF"
    unfolding p(4) by (metis append_eq_conv_conj)
  then have kp: "kp = bi_kernel img @ bi_kernel_padding img" using n p(3) by simp
  from p(2) have "image_type img = Inr UI_IMAGE_TYPE"
    by (simp add: header_describes_def image_type_def unpack_be32_def HEADER_SIZE_def)
  moreover have "bi_kernel img \<noteq> [] \<longrightarrow> last (bi_kernel img) \<noteq> 0xFF"
    unfolding p(3) using rstrip_ff_last by blast
  ultimately show ?thesis using p(1,2) kp pad by (auto simp: header_describes_def)
qed

theorem parse_bl7_splits_witness:
  "\<exists>img. parse_bl7 sample_md5 sample_bl7 = Inr img \<and> bi_kernel img = [1, 2] \<and>
     set (bi_kernel_padding img) \<subseteq> {0xFF} \<and> image_type img = Inr 0"
proof -
  obtain img where img: "parse_bl7 sample_md5 sample_bl7 = Inr img" "bi_kernel img = [1, 2]"
    using sample_parse by blast
  from parse_bl7_splits [OF img(1)] img show ?thesis by (auto simp: UI_IMAGE_TYPE_def)
qed

lemma rebuild_parse:
  assumes img: "parse_bl7 md5 data = Inr img" and md5: "\<And>x. length (md5 x) = 16"
    and k: "k = (case kern of None \<Rightarrow> bi_kernel img | Some k \<Rightarrow> k)"
    and r: "r = (case rootfs of None \<Rightarrow> bi_rootfs img | Some r \<Rightarrow> r)"
    and n: "n = nat ((- int (HEADER_SIZE + length k)) mod PAGE_SIZE)"
    and ni: "pack_be 4 (int (HEADER_SIZE + length k + n)) = Inr ni"
    and pl: "pack_be 4 (int (length k + n + length r)) = Inr pl"
  shows "\<exists>img'. rebuild md5 img kern rootfs = Inr (bi_header img' @ k @ replicate n 0xFF @ r) \<and>
    parse_bl7 md5 (bi_header img' @ k @ replicate n 0xFF @ r) = Inr img' \<and>
    bi_rootfs img' = r \<and> bi_kernel img' = rstrip_ff k \<and>
    int (HEADER_SIZE + length k + n) mod PAGE_SIZE = 0 \<and>
    (\<forall>i. i \<notin> {4..<8} \<union> {0x10..<0x14} \<union> {0x18..<0x28} \<union> {0x2A..<0x2C} \<longrightarrow>
       bi_header img' ! i = bi_header img ! i)"
proof -
  let ?kp = "k @ replicate n 0xFF" and ?h = "bi_header img"
  from img obtain kp0 where d: "header_describes md5 ?h kp0 (bi_rootfs img)"
    by (rule parse_bl7_elim)
  then have h: "length ?h = HEADER_SIZE" "take 4 ?h = MAGIC" "unat (?h ! 9) = HEADER_SIZE"
    "be_int (bslice ?h 0x84 0x88) = UI_IMAGE_TYPE" by (simp_all add: header_describes_def)
  have n': "int n = (- int (HEADER_SIZE + length k)) mod PAGE_SIZE"
    by (simp add: n PAGE_SIZE_def)
  have page: "int (HEADER_SIZE + length k + n) mod PAGE_SIZE = 0"
    using n' by (simp add: mod_add_right_eq)
  have ni': "pack_be 4 (int (HEADER_SIZE + length ?kp)) = Inr ni"
    and pl': "pack_be 4 (int (length ?kp + length r)) = Inr pl"
    using ni pl by (simp_all add: add.assoc)
  let ?H = "rebuild_header md5 ?h ni pl (?kp @ r)"
  have it: "image_type img = Inr UI_IMAGE_TYPE"
    using h by (simp add: image_type_def unpack_be32_def HEADER_SIZE_def)
  have "length ?kp + length r = length (k @ replicate n 0xFF @ r)" by simp
  then have reb: "rebuild md5 img kern rootfs = Inr (?H @ ?kp @ r)"
    using ni' pl' unfolding rebuild_def it k [symmetric] r [symmetric] Let_def bindE.simps n [symmetric]
    by (simp add: add.assoc)
  have "header_describes md5 ?H ?kp r" by (rule rebuild_header_describes [OF h md5 ni' pl'])
  note parse = parse_bl7_intro [OF this, of "[]"]
  have "length ni = 4" "length pl = 4" using ni pl by (auto simp: pack_be_Inr_iff)
  then have keep: "?H ! i = ?h ! i"
    if "i \<notin> {4..<8} \<union> {0x10..<0x14} \<union> {0x18..<0x28} \<union> {0x2A..<0x2C}" for i
    using that rebuild_header_keeps [of ?h ni pl md5 "?kp @ r" i] h(1) md5 by blast
  show ?thesis
    using reb parse page keep
    by (intro exI [of _ "\<lparr>bi_header = ?H, bi_kernel = rstrip_ff ?kp, bi_rootfs = r,
        bi_kernel_padding = drop (length (rstrip_ff ?kp)) ?kp\<rparr>"]) (simp add: rstrip_ff_append)
qed

text \<open>The same for any rebuild that succeeds: its lengths fit.\<close>

lemma rebuild_Inr:
  assumes img: "parse_bl7 md5 data = Inr img" and md5: "\<And>x. length (md5 x) = 16"
    and out: "rebuild md5 img kern rootfs = Inr out"
  shows "\<exists>img'. parse_bl7 md5 out = Inr img' \<and>
    bi_rootfs img' = (case rootfs of None \<Rightarrow> bi_rootfs img | Some r \<Rightarrow> r) \<and>
    bi_kernel img' = rstrip_ff (case kern of None \<Rightarrow> bi_kernel img | Some k \<Rightarrow> k)"
proof -
  define k where "k = (case kern of None \<Rightarrow> bi_kernel img | Some k \<Rightarrow> k)"
  define r where "r = (case rootfs of None \<Rightarrow> bi_rootfs img | Some r \<Rightarrow> r)"
  define n where "n = nat ((- int (HEADER_SIZE + length k)) mod PAGE_SIZE)"
  have len: "length (k @ replicate n 0xFF @ r) = length k + n + length r" by simp
  have lr: "length (replicate n (0xFF :: byte)) = n" by simp
  from out obtain ni pl where "pack_be 4 (int (HEADER_SIZE + length k + n)) = Inr ni"
    "pack_be 4 (int (length k + n + length r)) = Inr pl"
    unfolding rebuild_def Let_def k_def [symmetric] r_def [symmetric] n_def [symmetric] len lr
    by (auto simp: bindE_Inr_iff)
  from rebuild_parse [OF img md5 k_def r_def n_def this] out show ?thesis
    by (auto simp: k_def r_def)
qed

lemma rebuild_fits:
  assumes img: "parse_bl7 md5 data = Inr img" and md5: "\<And>x. length (md5 x) = 16"
    and "k = (case kern of None \<Rightarrow> bi_kernel img | Some k \<Rightarrow> k)"
    and "r = (case rootfs of None \<Rightarrow> bi_rootfs img | Some r \<Rightarrow> r)"
    and size: "length k + length r + 0x10000 + HEADER_SIZE < 2 ^ 32"
  shows "\<exists>out img' n. rebuild md5 img kern rootfs = Inr out \<and> parse_bl7 md5 out = Inr img' \<and>
    bi_rootfs img' = r \<and> bi_kernel img' = rstrip_ff k \<and>
    out = bi_header img' @ k @ replicate n 0xFF @ r \<and>
    int (HEADER_SIZE + length k + n) mod PAGE_SIZE = 0 \<and>
    (\<forall>i. i \<notin> {4..<8} \<union> {0x10..<0x14} \<union> {0x18..<0x28} \<union> {0x2A..<0x2C} \<longrightarrow>
       bi_header img' ! i = bi_header img ! i)"
proof -
  define n where "n = nat ((- int (HEADER_SIZE + length k)) mod PAGE_SIZE)"
  have "n < 0x10000" by (simp add: n_def PAGE_SIZE_def nat_less_iff)
  then have "int (HEADER_SIZE + length k + n) < 256 ^ 4" "int (length k + n + length r) < 256 ^ 4"
    using size by simp_all
  then obtain ni pl where "pack_be 4 (int (HEADER_SIZE + length k + n)) = Inr ni"
    "pack_be 4 (int (length k + n + length r)) = Inr pl"
    by (simp add: pack_be_Inr_iff del: of_nat_add)
  from rebuild_parse [OF img md5 assms(3,4) n_def this] show ?thesis
    by (elim exE conjE) (intro exI conjI, assumption+, rule refl, assumption+)
qed

text \<open>
  C21. Rebuilding a parsed image with a new kernel or root file system, as long as the sizes fit 32 bits,
  succeeds; the parser accepts the result and reads back the same root file system and kernel (up to
  trailing 0xFF bytes, which are padding); the root file system starts on a 64 KiB boundary; and every
  header byte outside the four recomputed fields is kept.
\<close>

theorem rebuild_parses_back:
  assumes img: "parse_bl7 md5 data = Inr img" and md5: "\<And>x. length (md5 x) = 16"
    and "k = (case kern of None \<Rightarrow> bi_kernel img | Some k \<Rightarrow> k)"
    and "r = (case rootfs of None \<Rightarrow> bi_rootfs img | Some r \<Rightarrow> r)"
    and size: "length k + length r + 0x10000 + HEADER_SIZE < 2 ^ 32"
  shows "\<exists>out img' n. rebuild md5 img kern rootfs = Inr out \<and> parse_bl7 md5 out = Inr img' \<and>
    bi_rootfs img' = r \<and> bi_kernel img' = rstrip_ff k \<and>
    out = bi_header img' @ k @ replicate n 0xFF @ r \<and>
    int (HEADER_SIZE + length k + n) mod PAGE_SIZE = 0 \<and>
    (\<forall>i. i \<notin> {4..<8} \<union> {0x10..<0x14} \<union> {0x18..<0x28} \<union> {0x2A..<0x2C} \<longrightarrow>
       bi_header img' ! i = bi_header img ! i)"
  using assms by (rule rebuild_fits)

theorem rebuild_parses_back_witness:
  "\<exists>img out img'. parse_bl7 sample_md5 sample_bl7 = Inr img \<and>
     rebuild sample_md5 img None (Some [5, 6, 7]) = Inr out \<and> parse_bl7 sample_md5 out = Inr img' \<and>
     bi_rootfs img' = [5, 6, 7] \<and> bi_kernel img' = [1, 2]"
proof -
  obtain img where img: "parse_bl7 sample_md5 sample_bl7 = Inr img" "bi_kernel img = [1, 2]"
    using sample_parse by blast
  have md5: "\<And>x. length (sample_md5 x) = 16" by (simp add: sample_md5_def)
  have size: "length (bi_kernel img) + length [5, 6, 7 :: byte] + 0x10000 + HEADER_SIZE < 2 ^ 32"
    by (simp add: img(2) HEADER_SIZE_def)
  from rebuild_parses_back [OF img(1) md5, of "bi_kernel img" None "[5, 6, 7]" "Some [5, 6, 7]"] size img
  show ?thesis by (auto simp: rstrip_ff_def)
qed

text \<open>
  What the signed-image conversion returns is an image the unsigned parser accepts, with the payload
  kept byte for byte, the signature trailer (never empty) gone, and a header that differs only in the
  image type and the checksum.
\<close>

theorem signed_to_ui_accepted:
  assumes "signed_to_ui md5 data = Inr out"
  shows "\<exists>img trailer. parse_bl7 md5 out = Inr img \<and> trailer \<noteq> [] \<and>
    drop HEADER_SIZE data = drop HEADER_SIZE out @ trailer \<and>
    drop HEADER_SIZE out = bi_kernel img @ bi_kernel_padding img @ bi_rootfs img \<and>
    (\<forall>i < HEADER_SIZE. i \<notin> {0x84..<0x88} \<union> {0x2A..<0x2C} \<longrightarrow> out ! i = data ! i)"
proof -
  from assms obtain kp r trailer where s: "data = take HEADER_SIZE data @ kp @ r @ trailer" "trailer \<noteq> []"
    "out = ui_header (take HEADER_SIZE data) @ kp @ r"
    "header_describes md5 (ui_header (take HEADER_SIZE data)) kp r" "HEADER_SIZE \<le> length data"
    by (rule signed_to_ui_elim)
  let ?h = "take HEADER_SIZE data"
  have lh: "length ?h = HEADER_SIZE" using s(5) by simp
  note f = ui_header_fields [OF lh]
  from parse_bl7_intro [OF s(4), of "[]"] s(3) have parse: "parse_bl7 md5 out =
    Inr \<lparr>bi_header = ui_header ?h, bi_kernel = rstrip_ff kp, bi_rootfs = r,
      bi_kernel_padding = drop (length (rstrip_ff kp)) kp\<rparr>" by simp
  have kp: "kp = rstrip_ff kp @ drop (length (rstrip_ff kp)) kp"
    using rstrip_ff_split [of kp] by (metis append_eq_conv_conj)
  have out: "drop HEADER_SIZE out = kp @ r" using s(3) f(1) by simp
  have "drop HEADER_SIZE data = (kp @ r) @ trailer"
    by (metis s(1) lh append_assoc append_eq_conv_conj)
  moreover have "out ! i = data ! i" if "i < HEADER_SIZE" "i \<notin> {0x84..<0x88} \<union> {0x2A..<0x2C}" for i
    using f(1,4) that s(3) by (simp add: nth_append)
  ultimately show ?thesis using parse out kp s(2) by (auto simp flip: append_assoc)
qed

theorem signed_to_ui_accepted_witness:
  "\<exists>out img. signed_to_ui sample_md5 sample_signed_bl7 = Inr out \<and> parse_bl7 sample_md5 out = Inr img \<and>
     length out < length sample_signed_bl7"
proof -
  obtain out where out: "signed_to_ui sample_md5 sample_signed_bl7 = Inr out" using sample_signed by blast
  from signed_to_ui_accepted [OF out] obtain img trailer where "parse_bl7 sample_md5 out = Inr img"
    "trailer \<noteq> []" "drop HEADER_SIZE sample_signed_bl7 = drop HEADER_SIZE out @ trailer" by blast
  moreover from this(2,3) have "length (drop HEADER_SIZE out) < length (drop HEADER_SIZE sample_signed_bl7)"
    by simp
  then have "length out < length sample_signed_bl7" unfolding length_drop by linarith
  ultimately show ?thesis using out by blast
qed

end
