(* ===== verification/R600Patch.thy ===== *)
theory R600Patch
imports Bl7 PatchProperties FileStore "HOL-Library.Multiset"
begin

text \<open>
  \<open>patch_r600_bl7.py\<close>: an AP image is brought to the unsigned form, its root file system is
  unpacked, the one \<open>wlan.ko\<close> in it is patched by the engine, the file system is packed again,
  and the rebuilt image is published with a write to a sibling and a rename.

  The two SquashFS programs are not in the repository.  They are the parameters \<open>sq_extract\<close> and
  \<open>sq_make\<close>, between the bytes of a file system image and its files (path and contents); a
  failing run is a \<open>ProcessError\<close>.  The private temporary directory is not represented.
\<close>

section \<open>The root file system\<close>

type_synonym tree = "(string \<times> bytes) list"

record squash_tools =
  sq_extract :: "bytes \<Rightarrow> tree result"
  sq_make :: "tree \<Rightarrow> bytes result"

text \<open>\<open>rootfs_dir.glob("lib/modules/*/net/wlan.ko")\<close>: the star is one component.\<close>

definition is_wlan_path :: "string \<Rightarrow> bool" where
  "is_wlan_path p \<longleftrightarrow>
     (case split_on CHR ''/'' p of
        [a, b, v, c, d] \<Rightarrow> [a, b, c, d] = [''lib'', ''modules'', ''net'', ''wlan.ko'']
      | _ \<Rightarrow> False)"

definition wlan_modules :: "tree \<Rightarrow> (string \<times> bytes) list" where
  "wlan_modules tree = filter (\<lambda>(p, _). is_wlan_path p) tree"

definition tree_write :: "string \<Rightarrow> bytes \<Rightarrow> tree \<Rightarrow> tree" where
  "tree_write p b tree = map (\<lambda>(q, c). (q, if q = p then b else c)) tree"

section \<open>The transformation\<close>

datatype r600_note =
    RemovedTrailer int
  | InputVersion "nat list"
  | EngineReport report
  | ModuleAlreadyPatched
  | OutputBytes nat

definition to_unsigned :: "(bytes \<Rightarrow> bytes) \<Rightarrow> bytes \<Rightarrow> (bytes \<times> r600_note list) result" where
  "to_unsigned md5 original =
     (let kind = (if 0x88 \<le> length original then be_int (bslice original 0x84 0x88) else - 1)
      in if kind \<noteq> 0 then
           bindE (signed_to_ui md5 original) (\<lambda>converted. Inr (converted, [RemovedTrailer kind]))
         else Inr (original, []))"

definition patch_rootfs ::
  "catalog \<Rightarrow> squash_tools \<Rightarrow> bytes \<Rightarrow> (bytes \<times> r600_note list) result" where
  "patch_rootfs cat tools rootfs =
     bindE (sq_extract tools rootfs) (\<lambda>tree.
       case wlan_modules tree of
         [(module, original)] \<Rightarrow>
           bindE (rules_for_artifact cat ''ap_11n_scorpion_wlan_ko'') (\<lambda>rules.
           bindE (apply_rules original rules) (\<lambda>(patched, changed, log).
           bindE (sq_make tools (tree_write module patched tree)) (\<lambda>rebuilt_rootfs.
             Inr (rebuilt_rootfs,
                  map EngineReport log @ (if changed then [] else [ModuleAlreadyPatched])))))
       | _ \<Rightarrow> Inl (ValueError ''expected exactly one ap-11n-scorpion wlan.ko''))"

definition r600_transform ::
  "catalog \<Rightarrow> (bytes \<Rightarrow> bytes) \<Rightarrow> squash_tools \<Rightarrow> bytes \<Rightarrow> (bytes \<times> r600_note list) result" where
  "r600_transform cat md5 tools original =
     bindE (to_unsigned md5 original) (\<lambda>(ui_image, conversion).
     bindE (parse_bl7 md5 ui_image) (\<lambda>img.
     bindE (patch_rootfs cat tools (bi_rootfs img)) (\<lambda>(rebuilt_rootfs, engine).
     bindE (rebuild md5 img None (Some rebuilt_rootfs)) (\<lambda>rebuilt.
       Inr (rebuilt, conversion @ [InputVersion (version img)] @ engine)))))"

section \<open>Publishing the image\<close>

text \<open>
  \<open>destination.with_suffix(destination.suffix + ".tmp")\<close>, written and renamed.  A write may stop
  after any prefix.  Nothing removes the sibling when a step fails.  The states of the store are
  listed newest first.
\<close>

datatype r600_step = OpenOutput | WriteOutput | RenameOutput

definition tmp_sibling :: "path \<Rightarrow> path" where
  "tmp_sibling destination = destination @ ''.tmp''"

definition publish_image ::
  "(r600_step \<Rightarrow> bool) \<Rightarrow> nat \<Rightarrow> path \<Rightarrow> bytes \<Rightarrow> store \<Rightarrow> unit result \<times> store list" where
  "publish_image fails partial destination out s =
     (let tmp = tmp_sibling destination
      in if fails OpenOutput then (Inl (OSError ''open''), [s])
         else if fails WriteOutput then
           (Inl (OSError ''write''), [fs_put tmp (take partial out) s, fs_put tmp [] s, s])
         else if fails RenameOutput then
           (Inl (OSError ''replace''), [fs_put tmp out s, fs_put tmp [] s, s])
         else
           (Inr (), [fs_replace tmp destination (fs_put tmp out s), fs_put tmp out s, fs_put tmp [] s, s]))"

definition patch_image ::
  "catalog \<Rightarrow> (bytes \<Rightarrow> bytes) \<Rightarrow> squash_tools \<Rightarrow> (r600_step \<Rightarrow> bool) \<Rightarrow> nat \<Rightarrow> path \<Rightarrow> path \<Rightarrow> store \<Rightarrow>
   r600_note list result \<times> store list" where
  "patch_image cat md5 tools fails partial source destination s =
     (case s source of
        None \<Rightarrow> (Inl (OSError ''read''), [s])
      | Some original \<Rightarrow>
          (case r600_transform cat md5 tools original of
             Inl e \<Rightarrow> (Inl e, [s])
           | Inr (rebuilt, msgs) \<Rightarrow>
               (case publish_image fails partial destination rebuilt s of
                  (Inl e, states) \<Rightarrow> (Inl e, states)
                | (Inr _, states) \<Rightarrow> (Inr (msgs @ [OutputBytes (length rebuilt)]), states))))"

text \<open>\<open>main\<close>: the two usage errors, then the lines to print.\<close>

definition r600_main ::
  "catalog \<Rightarrow> (bytes \<Rightarrow> bytes) \<Rightarrow> squash_tools \<Rightarrow> (r600_step \<Rightarrow> bool) \<Rightarrow> nat \<Rightarrow> path \<Rightarrow> path \<Rightarrow> store \<Rightarrow>
   r600_note list result \<times> store list" where
  "r600_main cat md5 tools fails partial input output s =
     (if s input = None then (Inl (SystemExit ''2''), [s])
      else if input = output then (Inl (SystemExit ''2''), [s])
      else patch_image cat md5 tools fails partial input output s)"

section \<open>Lemmas\<close>

lemma tmp_sibling_neq [simp]: "tmp_sibling d \<noteq> d" "d \<noteq> tmp_sibling d"
  by (simp_all add: tmp_sibling_def)

lemma to_unsigned_version:
  assumes "to_unsigned md5 original = Inr (ui_image, msgs)"
  shows "ui_image = original \<or> signed_to_ui md5 original = Inr ui_image"
  using assms by (auto simp: to_unsigned_def Let_def bindE_Inr_iff split: if_splits)

lemma wlan_modules_tree_write:
  "wlan_modules (tree_write p b tree) = map (\<lambda>(q, c). (q, if q = p then b else c)) (wlan_modules tree)"
  by (induction tree) (auto simp: wlan_modules_def tree_write_def)

lemma patch_rootfs_Inr:
  assumes "patch_rootfs cat tools rootfs = Inr (out, msgs)"
  shows "\<exists>tree module code rules patched changed log.
    sq_extract tools rootfs = Inr tree \<and> wlan_modules tree = [(module, code)] \<and>
    rules_for_artifact cat ''ap_11n_scorpion_wlan_ko'' = Inr rules \<and>
    apply_rules code rules = Inr (patched, changed, log) \<and>
    sq_make tools (tree_write module patched tree) = Inr out \<and>
    msgs = map EngineReport log @ (if changed then [] else [ModuleAlreadyPatched])"
proof -
  from assms obtain tree where tree: "sq_extract tools rootfs = Inr tree"
    by (auto simp: patch_rootfs_def bindE_Inr_iff)
  with assms obtain module code where m: "wlan_modules tree = [(module, code)]"
    by (auto simp: patch_rootfs_def split: list.splits)
  from assms obtain rules patched changed log where
    "rules_for_artifact cat ''ap_11n_scorpion_wlan_ko'' = Inr rules"
    "apply_rules code rules = Inr (patched, changed, log)"
    "sq_make tools (tree_write module patched tree) = Inr out"
    "msgs = map EngineReport log @ (if changed then [] else [ModuleAlreadyPatched])"
    by (auto simp: patch_rootfs_def tree m bindE_Inr_iff)
  with tree m show ?thesis by blast
qed

lemma r600_transform_Inr:
  assumes "r600_transform cat md5 tools original = Inr (out, msgs)"
  obtains ui_image conversion img rootfs engine where
    "to_unsigned md5 original = Inr (ui_image, conversion)" "parse_bl7 md5 ui_image = Inr img"
    "patch_rootfs cat tools (bi_rootfs img) = Inr (rootfs, engine)"
    "rebuild md5 img None (Some rootfs) = Inr out"
    "msgs = conversion @ [InputVersion (version img)] @ engine"
  using assms by (auto simp: r600_transform_def bindE_Inr_iff)

lemma rstrip_ff_idem: "rstrip_ff (rstrip_ff bs) = rstrip_ff bs"
  by (simp add: rstrip_ff_def)

lemma parse_bl7_kernel: "parse_bl7 md5 data = Inr img \<Longrightarrow> rstrip_ff (bi_kernel img) = bi_kernel img"
  by (erule parse_bl7_elim) (simp add: rstrip_ff_idem)

text \<open>A parsed image is unsigned, so the conversion leaves it alone.\<close>

lemma to_unsigned_parsed:
  assumes "parse_bl7 md5 data = Inr img"
  shows "to_unsigned md5 data = Inr (data, [])"
proof -
  from assms obtain kp rest where d: "data = bi_header img @ kp @ bi_rootfs img @ rest"
    "header_describes md5 (bi_header img) kp (bi_rootfs img)" by (rule parse_bl7_elim)
  then have "length (bi_header img) = 160" "be_int (bslice (bi_header img) 0x84 0x88) = 0"
    by (simp_all add: header_describes_def HEADER_SIZE_def UI_IMAGE_TYPE_def)
  moreover from this(1) have "bslice data 0x84 0x88 = bslice (bi_header img) 0x84 0x88"
    unfolding d(1) by (simp add: bslice_def)
  ultimately show ?thesis by (simp add: to_unsigned_def d(1))
qed

text \<open>
  What the tools promise: unpacking a packed tree gives its files back, in whatever order.
\<close>

definition tools_round_trip :: "squash_tools \<Rightarrow> bool" where
  "tools_round_trip tools \<longleftrightarrow>
     (\<forall>tree bs. sq_make tools tree = Inr bs \<longrightarrow>
        (\<exists>tree'. sq_extract tools bs = Inr tree' \<and> mset tree' = mset tree))"

lemma r600_transform_image:
  assumes run: "r600_transform cat md5 tools original = Inr (out, msgs)"
    and md5: "\<And>x. length (md5 x) = 16" and tools: "tools_round_trip tools"
  shows "\<exists>ui_image img img' tree tree' module code rules patched changed log.
    (ui_image = original \<or> signed_to_ui md5 original = Inr ui_image) \<and> parse_bl7 md5 ui_image = Inr img \<and>
    sq_extract tools (bi_rootfs img) = Inr tree \<and> wlan_modules tree = [(module, code)] \<and>
    rules_for_artifact cat ''ap_11n_scorpion_wlan_ko'' = Inr rules \<and>
    apply_rules code rules = Inr (patched, changed, log) \<and>
    parse_bl7 md5 out = Inr img' \<and> bi_kernel img' = bi_kernel img \<and>
    sq_make tools (tree_write module patched tree) = Inr (bi_rootfs img') \<and>
    sq_extract tools (bi_rootfs img') = Inr tree' \<and> mset tree' = mset (tree_write module patched tree)"
proof -
  from run obtain ui_image conversion img rootfs engine where
    t: "to_unsigned md5 original = Inr (ui_image, conversion)" "parse_bl7 md5 ui_image = Inr img"
    "patch_rootfs cat tools (bi_rootfs img) = Inr (rootfs, engine)"
    "rebuild md5 img None (Some rootfs) = Inr out"
    by (rule r600_transform_Inr)
  from patch_rootfs_Inr [OF t(3)] obtain tree module code rules patched changed log where
    p: "sq_extract tools (bi_rootfs img) = Inr tree" "wlan_modules tree = [(module, code)]"
    "rules_for_artifact cat ''ap_11n_scorpion_wlan_ko'' = Inr rules"
    "apply_rules code rules = Inr (patched, changed, log)"
    "sq_make tools (tree_write module patched tree) = Inr rootfs"
    by blast
  from p(5) tools obtain tree' where tree': "sq_extract tools rootfs = Inr tree'"
    "mset tree' = mset (tree_write module patched tree)"
    unfolding tools_round_trip_def by blast
  from rebuild_Inr [OF t(2) md5 t(4)] obtain img' where i: "parse_bl7 md5 out = Inr img'"
    "bi_rootfs img' = rootfs" "bi_kernel img' = rstrip_ff (bi_kernel img)" by auto
  then have k: "bi_kernel img' = bi_kernel img" using parse_bl7_kernel [OF t(2)] by simp
  from to_unsigned_version [OF t(1)] have u: "ui_image = original \<or> signed_to_ui md5 original = Inr ui_image" .
  show ?thesis
    apply (intro exI conjI)
              apply (rule u)
             apply (rule t(2))
            apply (rule p(1))
           apply (rule p(2))
          apply (rule p(3))
         apply (rule p(4))
        apply (rule i(1))
       apply (rule k)
      apply (simp add: i(2) p(5))
     apply (simp add: i(2) tree'(1))
    apply (rule tree'(2))
    done
qed

lemma filter_mset_singleton:
  assumes "mset xs = mset ys" "filter P ys = [y]"
  shows "filter P xs = [y]"
proof -
  have m: "mset (filter P xs) = {#y#}" using assms by (metis mset.simps mset_filter)
  then have "length (filter P xs) = 1" by (metis size_mset size_single)
  then obtain z where z: "filter P xs = [z]" by (auto simp: length_Suc_conv)
  with m show ?thesis by (simp only: z) simp
qed

lemma rebuild_same_size:
  assumes "parse_bl7 md5 data = Inr img" "rebuild md5 img None (Some r) = Inr out"
    and "parse_bl7 md5 data' = Inr img'" "bi_kernel img' = bi_kernel img" "length r' = length r"
  shows "\<exists>out'. rebuild md5 img' None (Some r') = Inr out'"
proof -
  have "image_type img' = Inr UI_IMAGE_TYPE"
    using assms(3) by (elim parse_bl7_elim)
      (simp add: header_describes_def image_type_def unpack_be32_def HEADER_SIZE_def)
  with assms(2,4,5) show ?thesis
    by (auto simp: rebuild_def Let_def bindE_Inr_iff)
qed

text \<open>Patching the output again finds the module patched.\<close>

lemma r600_transform_again:
  assumes run: "r600_transform cat md5 tools original = Inr (out, msgs)"
    and md5: "\<And>x. length (md5 x) = 16" and tools: "tools_round_trip tools"
    and stable: "\<And>rules. rules_for_artifact cat ''ap_11n_scorpion_wlan_ko'' = Inr rules \<Longrightarrow>
      \<forall>r \<in> set rules. validation_stable r"
    and packs: "\<And>tree tree' bs. sq_make tools tree = Inr bs \<Longrightarrow> mset tree' = mset tree \<Longrightarrow>
      \<exists>bs'. sq_make tools tree' = Inr bs' \<and> length bs' = length bs"
  shows "\<exists>out' msgs'. r600_transform cat md5 tools out = Inr (out', msgs') \<and> ModuleAlreadyPatched \<in> set msgs'"
proof -
  from run obtain ui_image conversion img rootfs engine where
    t: "to_unsigned md5 original = Inr (ui_image, conversion)" "parse_bl7 md5 ui_image = Inr img"
    "rebuild md5 img None (Some rootfs) = Inr out"
    by (rule r600_transform_Inr)
  from r600_transform_image [OF run md5 tools] obtain img0 img' tree tree' module code rules patched changed log
    where p: "wlan_modules tree = [(module, code)]"
    "rules_for_artifact cat ''ap_11n_scorpion_wlan_ko'' = Inr rules"
    "apply_rules code rules = Inr (patched, changed, log)"
    "parse_bl7 md5 out = Inr img'" "sq_make tools (tree_write module patched tree) = Inr (bi_rootfs img')"
    "sq_extract tools (bi_rootfs img') = Inr tree'" "mset tree' = mset (tree_write module patched tree)"
    by (elim exE conjE) (rule that)
  from rebuild_Inr [OF t(2) md5 t(3)] p(4) have k: "bi_kernel img' = bi_kernel img" "bi_rootfs img' = rootfs"
    using parse_bl7_kernel [OF t(2)] by auto
  have "wlan_modules (tree_write module patched tree) = [(module, patched)]"
    by (simp add: wlan_modules_tree_write p(1))
  then have m: "wlan_modules tree' = [(module, patched)]"
    unfolding wlan_modules_def by (rule filter_mset_singleton [OF p(7)])
  from apply_rules_again [OF p(3) stable [OF p(2)]] obtain log' where
    again: "apply_rules patched rules = Inr (patched, False, log')" by blast
  have "set tree' = set (tree_write module patched tree)" using p(7) by (rule mset_eq_setD)
  then have "tree_write module patched tree' = tree'"
    by (auto simp: tree_write_def intro!: map_idI)
  with packs [OF p(5,7)] obtain bs' where bs': "sq_make tools (tree_write module patched tree') = Inr bs'"
    "length bs' = length (bi_rootfs img')" by auto
  from rebuild_same_size [OF t(2,3) p(4) k(1), of bs'] bs'(2) k(2) obtain out' where
    "rebuild md5 img' None (Some bs') = Inr out'" by auto
  then show ?thesis
    using to_unsigned_parsed [OF p(4)] p(2,4,6) m again bs'(1)
    by (auto simp: r600_transform_def patch_rootfs_def)
qed

section \<open>The states of the store\<close>

lemma publish_image_states:
  assumes "publish_image fails partial destination out s = (result, states)"
  shows "\<forall>st \<in> set states. differs_only_at (tmp_sibling destination) s st \<or>
      st = (s(destination := Some out))(tmp_sibling destination := None)"
    and "result = Inr () \<Longrightarrow> hd states = (s(destination := Some out))(tmp_sibling destination := None)"
    and "result \<noteq> Inr () \<Longrightarrow> \<forall>st \<in> set states. differs_only_at (tmp_sibling destination) s st"
    and "states \<noteq> []"
  using assms
  by (auto simp: publish_image_def Let_def fs_replace_def fs_put_def differs_only_at_def split: if_splits)

section \<open>A sample run\<close>

definition scorpion_rule :: patch_rule where
  "scorpion_rule = (sample_rule ''first'' ''aa ?? bb'' 0 ''aa'' (Some ''cc'') 0)
     \<lparr>pr_artifact_id := ''ap_11n_scorpion_wlan_ko''\<rparr>"

definition scorpion_catalog :: catalog where
  "scorpion_catalog = \<lparr>cat_artifacts = [(''ap_11n_scorpion_wlan_ko'',
       \<lparr>ar_artifact_id = ''ap_11n_scorpion_wlan_ko'', ar_description = ''module'', ar_handler = ''raw''\<rparr>)],
     cat_patches = [scorpion_rule]\<rparr>"

definition toy_tools :: squash_tools where
  "toy_tools =
     \<lparr>sq_extract = (\<lambda>bs. Inr [(''lib/modules/2.6/net/wlan.ko'', bs)]),
      sq_make = (\<lambda>tree. case tree of
         [(p, bs)] \<Rightarrow> if p = ''lib/modules/2.6/net/wlan.ko'' then Inr bs else Inl (ProcessError ''mksquashfs'')
       | _ \<Rightarrow> Inl (ProcessError ''mksquashfs''))\<rparr>"

lemma toy_make_Inr: "sq_make toy_tools tree = Inr bs \<longleftrightarrow> tree = [(''lib/modules/2.6/net/wlan.ko'', bs)]"
  by (auto simp: toy_tools_def split: list.splits if_splits)

lemma toy_round_trip: "tools_round_trip toy_tools"
  unfolding tools_round_trip_def toy_make_Inr by (auto simp: toy_tools_def)

lemma toy_packs:
  "sq_make toy_tools tree = Inr bs \<Longrightarrow> mset tree' = mset tree \<Longrightarrow>
   \<exists>bs'. sq_make toy_tools tree' = Inr bs' \<and> length bs' = length bs"
  unfolding toy_make_Inr using filter_mset_singleton [of tree' tree "\<lambda>_. True"] by auto

lemma scorpion_rules: "rules_for_artifact scorpion_catalog ''ap_11n_scorpion_wlan_ko'' = Inr [scorpion_rule]"
  by code_simp

lemma scorpion_stable: "\<forall>r \<in> set [scorpion_rule]. validation_stable r"
  by code_simp

lemma scorpion_run: "apply_rules [0, 0xAA, 5, 0xBB] [scorpion_rule] =
    Inr ([0, 0xCC, 5, 0xBB], True,
      [ReportPatched ''first'' 1 [0xAA] [0xCC], ReportDescription ''synthetic test rule''])"
  by code_simp

lemma sample_md5_length: "length (sample_md5 x) = 16"
  by (simp add: sample_md5_def)

text \<open>An image whose root file system is the module alone.\<close>

lemma scorpion_image:
  "\<exists>data img. parse_bl7 sample_md5 data = Inr img \<and> bi_rootfs img = [0, 0xAA, 5, 0xBB] \<and>
     (\<exists>out msgs. r600_transform scorpion_catalog sample_md5 toy_tools data = Inr (out, msgs))"
proof -
  obtain img0 where img0: "parse_bl7 sample_md5 sample_bl7 = Inr img0" "bi_kernel img0 = [1, 2]"
    using sample_parse by blast
  have size: "length (bi_kernel img0) + length [0, 0xAA, 5, 0xBB :: byte] + 0x10000 + HEADER_SIZE < 2 ^ 32"
    by (simp add: img0(2) HEADER_SIZE_def)
  from rebuild_fits [OF img0(1) sample_md5_length, of "bi_kernel img0" None
      "[0, 0xAA, 5, 0xBB]" "Some [0, 0xAA, 5, 0xBB]"] size
  obtain data img where d: "rebuild sample_md5 img0 None (Some [0, 0xAA, 5, 0xBB]) = Inr data"
    "parse_bl7 sample_md5 data = Inr img" "bi_rootfs img = [0, 0xAA, 5, 0xBB]"
    "bi_kernel img = rstrip_ff (bi_kernel img0)" by auto
  from rebuild_same_size [OF img0(1) d(1,2), of "[0, 0xCC, 5, 0xBB]"] d(4) parse_bl7_kernel [OF img0(1)]
  obtain out where "rebuild sample_md5 img None (Some [0, 0xCC, 5, 0xBB]) = Inr out" by auto
  moreover have "wlan_modules [(''lib/modules/2.6/net/wlan.ko'', bs)] = [(''lib/modules/2.6/net/wlan.ko'', bs)]" for bs
    by (simp add: wlan_modules_def is_wlan_path_def)
  ultimately have "\<exists>out msgs. r600_transform scorpion_catalog sample_md5 toy_tools data = Inr (out, msgs)"
    using to_unsigned_parsed [OF d(2)] d(2,3) scorpion_rules scorpion_run
    by (auto simp: r600_transform_def patch_rootfs_def toy_tools_def tree_write_def)
  with d show ?thesis by blast
qed

section \<open>Properties\<close>

text \<open>
  C12. A successful run publishes an image that the parser accepts, with the kernel of the input, whose
  root file system unpacks to the files of the input's, all of them unchanged except the one module,
  which is what the patch engine makes of it; no other file of the store but the destination and its
  temporary sibling, now gone, has changed.
\<close>

theorem r600_image_patched:
  assumes run: "patch_image cat md5 tools fails partial source destination s = (Inr msgs, states)"
    and md5: "\<And>x. length (md5 x) = 16" and tools: "tools_round_trip tools"
  shows "\<exists>original ui_image img out img' tree tree' module code rules patched changed log.
    s source = Some original \<and> (ui_image = original \<or> signed_to_ui md5 original = Inr ui_image) \<and>
    parse_bl7 md5 ui_image = Inr img \<and> sq_extract tools (bi_rootfs img) = Inr tree \<and>
    wlan_modules tree = [(module, code)] \<and>
    rules_for_artifact cat ''ap_11n_scorpion_wlan_ko'' = Inr rules \<and>
    apply_rules code rules = Inr (patched, changed, log) \<and>
    hd states = (s(destination := Some out))(tmp_sibling destination := None) \<and>
    parse_bl7 md5 out = Inr img' \<and> bi_kernel img' = bi_kernel img \<and>
    sq_extract tools (bi_rootfs img') = Inr tree' \<and> mset tree' = mset (tree_write module patched tree)"
proof -
  from run obtain original out msgs0 where o: "s source = Some original"
    "r600_transform cat md5 tools original = Inr (out, msgs0)"
    "publish_image fails partial destination out s = (Inr (), states)"
    by (auto simp: patch_image_def split: option.splits sum.splits prod.splits)
  from publish_image_states(2) [OF o(3) refl] have
    h: "hd states = (s(destination := Some out))(tmp_sibling destination := None)" .
  from r600_transform_image [OF o(2) md5 tools] show ?thesis
    by (elim exE conjE) (intro exI conjI, rule o(1), assumption+, rule h, assumption+)
qed

lemma scorpion_patch_run:
  "\<exists>data img states msgs. parse_bl7 sample_md5 data = Inr img \<and>
     patch_image scorpion_catalog sample_md5 toy_tools (\<lambda>_. False) 0 ''in.bl7'' ''out.bl7'' [''in.bl7'' \<mapsto> data] =
       (Inr msgs, states)"
proof -
  obtain data img out msgs where d: "parse_bl7 sample_md5 data = Inr img"
    "r600_transform scorpion_catalog sample_md5 toy_tools data = Inr (out, msgs)"
    using scorpion_image by blast
  then show ?thesis by (auto simp: patch_image_def publish_image_def Let_def)
qed

theorem r600_image_patched_witness:
  "\<exists>data out img' patched changed log. parse_bl7 sample_md5 out = Inr img' \<and>
     apply_rules data [scorpion_rule] = Inr (patched, changed, log) \<and>
     sq_extract toy_tools (bi_rootfs img') = Inr [(''lib/modules/2.6/net/wlan.ko'', patched)]"
proof -
  obtain data img states msgs where run: "parse_bl7 sample_md5 data = Inr img"
    "patch_image scorpion_catalog sample_md5 toy_tools (\<lambda>_. False) 0 ''in.bl7'' ''out.bl7'' [''in.bl7'' \<mapsto> data] =
       (Inr msgs, states)" using scorpion_patch_run by blast
  from r600_image_patched [OF run(2) sample_md5_length toy_round_trip] scorpion_rules
  show ?thesis
    by (auto simp: toy_tools_def tree_write_def wlan_modules_def split: if_splits) blast+
qed

text \<open>
  At every moment of a run, failing or not, the destination holds what it held before or the whole
  finished image, and nothing but it and its temporary sibling has changed; a run that fails leaves the
  destination as it was.
\<close>

theorem r600_publish_atomic:
  assumes "patch_image cat md5 tools fails partial source destination s = (result, states)" "st \<in> set states"
  shows "(\<forall>q. q \<noteq> destination \<and> q \<noteq> tmp_sibling destination \<longrightarrow> st q = s q) \<and>
    (st destination = s destination \<or>
     (\<exists>original out msgs. s source = Some original \<and>
        r600_transform cat md5 tools original = Inr (out, msgs) \<and> st destination = Some out)) \<and>
    (\<forall>e. result = Inl e \<longrightarrow> st destination = s destination)"
proof -
  consider (nothing) "states = [s]"
    | (publish) original out msgs r where "s source = Some original"
      "r600_transform cat md5 tools original = Inr (out, msgs)"
      "publish_image fails partial destination out s = (r, states)" "r = Inr () \<or> (\<exists>e. r = Inl e \<and> result = Inl e)"
      "(\<exists>e. result = Inl e) \<longrightarrow> r \<noteq> Inr ()"
    using assms(1) by (auto simp: patch_image_def split: option.splits sum.splits prod.splits)
  then show ?thesis
  proof cases
    case nothing
    with assms(2) show ?thesis by simp
  next
    case publish
    have "differs_only_at (tmp_sibling destination) s st \<or>
        st = (s(destination := Some out))(tmp_sibling destination := None)"
      using publish_image_states(1) [OF publish(3)] assms(2) by blast
    moreover have "r \<noteq> Inr () \<Longrightarrow> differs_only_at (tmp_sibling destination) s st"
      using publish_image_states(3) [OF publish(3)] assms(2) by blast
    ultimately show ?thesis
      using publish(1,2,5) by (auto simp: differs_only_at_def)
  qed
qed

theorem r600_publish_atomic_witness:
  "\<exists>data states. patch_image scorpion_catalog sample_md5 toy_tools (\<lambda>step. step = WriteOutput) 3 ''in.bl7'' ''out.bl7''
       [''in.bl7'' \<mapsto> data] = (Inl (OSError ''write''), states) \<and> hd states ''out.bl7'' = None \<and> length states = 3"
proof -
  obtain data out msgs where d: "r600_transform scorpion_catalog sample_md5 toy_tools data = Inr (out, msgs)"
    using scorpion_image by blast
  obtain states where run: "patch_image scorpion_catalog sample_md5 toy_tools (\<lambda>step. step = WriteOutput) 3
      ''in.bl7'' ''out.bl7'' [''in.bl7'' \<mapsto> data] = (Inl (OSError ''write''), states)" "length states = 3"
    by (simp add: patch_image_def publish_image_def Let_def d)
  then have "hd states \<in> set states" by (cases states) auto
  from r600_publish_atomic [OF run(1) this] run show ?thesis by auto
qed

text \<open>
  The tool recognises its own output: when packing the same files again gives an image of the same
  size, and the bytes that validation rules expect are part of their signatures, a run on the published
  image succeeds and reports the module as already patched.
\<close>

theorem r600_patch_again:
  assumes "r600_transform cat md5 tools original = Inr (out, msgs)"
    and "\<And>x. length (md5 x) = 16" "tools_round_trip tools"
    and "\<And>rules. rules_for_artifact cat ''ap_11n_scorpion_wlan_ko'' = Inr rules \<Longrightarrow>
      \<forall>r \<in> set rules. validation_stable r"
    and "\<And>tree tree' bs. sq_make tools tree = Inr bs \<Longrightarrow> mset tree' = mset tree \<Longrightarrow>
      \<exists>bs'. sq_make tools tree' = Inr bs' \<and> length bs' = length bs"
  shows "\<exists>out' msgs'. r600_transform cat md5 tools out = Inr (out', msgs') \<and> ModuleAlreadyPatched \<in> set msgs'"
  using assms by (rule r600_transform_again)

theorem r600_patch_again_witness:
  "\<exists>out out' msgs'. r600_transform scorpion_catalog sample_md5 toy_tools out = Inr (out', msgs') \<and>
     ModuleAlreadyPatched \<in> set msgs'"
proof -
  obtain data out msgs where d: "r600_transform scorpion_catalog sample_md5 toy_tools data = Inr (out, msgs)"
    using scorpion_image by blast
  have stable: "\<forall>r \<in> set rules. validation_stable r"
    if "rules_for_artifact scorpion_catalog ''ap_11n_scorpion_wlan_ko'' = Inr rules" for rules
    using that scorpion_rules scorpion_stable by simp
  from d sample_md5_length toy_round_trip stable toy_packs
  have "\<exists>out' msgs'. r600_transform scorpion_catalog sample_md5 toy_tools out = Inr (out', msgs') \<and>
      ModuleAlreadyPatched \<in> set msgs'" by (rule r600_patch_again)
  then show ?thesis by blast
qed

section \<open>An input named like the sibling\<close>

text \<open>
  The command only refuses an output equal to its input.  An input with the name of the output's
  temporary sibling is overwritten and then renamed away.
\<close>

theorem input_named_like_sibling_is_lost:
  assumes "r600_main cat md5 tools fails partial (tmp_sibling output) output s = (Inr msgs, states)"
  shows "s (tmp_sibling output) \<noteq> None \<and> hd states (tmp_sibling output) = None"
proof -
  from assms have run: "s (tmp_sibling output) \<noteq> None"
    "patch_image cat md5 tools fails partial (tmp_sibling output) output s = (Inr msgs, states)"
    by (auto simp: r600_main_def split: if_splits)
  from run(2) obtain out where "publish_image fails partial output out s = (Inr (), states)"
    by (auto simp: patch_image_def split: option.splits sum.splits prod.splits)
  from publish_image_states(2) [OF this refl] run(1) show ?thesis by simp
qed

end
