(* ===== verification/Scorpion.thy ===== *)
theory Scorpion
imports R600Patch PosixPath "HOL-Library.List_Lexorder" "HOL-Library.Char_ord"
begin

text \<open>
  The AP payload part of \<open>build_zd1200_bundle.py\<close>: which files of the extracted vendor archive are the
  shared R600 image, which models use it, how it is replaced or patched, and how the image sizes in the
  control files are brought up to date.

  What \<open>glob("*/*/*")\<close> finds below \<open>firmwares\<close> is a list of entries: the three components of the path
  and the path it resolves to (a model's file may be a symbolic link).  The contents of the resolved paths
  are in a store.
\<close>

section \<open>The shared image and its aliases\<close>

definition SCORPION_VALIDATED_MODELS :: "string list" where
  "SCORPION_VALIDATED_MODELS = [''r600'']"

definition SCORPION_EXPERIMENTAL_MODELS :: "string list" where
  "SCORPION_EXPERIMENTAL_MODELS = [''r500'', ''r310'', ''t300'', ''t300e'', ''t301n'', ''t301s'']"

definition SCORPION_IMAGE_NAMES :: "string list" where
  "SCORPION_IMAGE_NAMES = [''rcks_fw.bl7'', ''rcks_fw.bl7.bkup'']"

record fw_entry =
  fe_model :: string
  fe_version :: string
  fe_name :: string
  fe_target :: path

text \<open>\<open>sorted\<close> on paths compares their components; a set has no duplicates.\<close>

definition sort_paths :: "path list \<Rightarrow> path list" where
  "sort_paths ps = sort_key path_parts (remdups ps)"

definition is_image :: "fw_entry \<Rightarrow> bool" where
  "is_image e \<longleftrightarrow> fe_name e \<in> set SCORPION_IMAGE_NAMES"

definition scorpion_payload_paths :: "fw_entry list \<Rightarrow> (path list \<times> string list) result" where
  "scorpion_payload_paths view =
     (let r600_paths = filter (\<lambda>e. fe_model e = ''r600'' \<and> is_image e) view
      in if r600_paths = [] then
           Inl (ValueError ''vendor payload contains no R600 ap-11n-scorpion BL7 image'')
         else
           let targets = map fe_target r600_paths;
               shared = filter (\<lambda>e. is_image e \<and> fe_target e \<in> set targets) view
           in Inr (sort_paths targets, remdups (''r600'' # map (\<lambda>e. py_lower (fe_model e)) shared)))"

section \<open>The control files\<close>

definition newline :: char where "newline = CHR 0x0A"

text \<open>
  \<open>re.subn(r"(?m)^\d+$", str(image_size), contents)\<close>: on ASCII text the matches are the lines that
  are all digits.
\<close>

definition update_control_text :: "nat \<Rightarrow> string \<Rightarrow> string \<times> nat" where
  "update_control_text image_size contents =
     (let lines = split_on newline contents
      in (join_with [newline] (map (\<lambda>line. if is_digits line then decimal image_size else line) lines),
          length (filter is_digits lines)))"

definition update_control :: "nat \<Rightarrow> path \<Rightarrow> store \<Rightarrow> unit result \<times> store" where
  "update_control image_size control s =
     (case s control of
        None \<Rightarrow> (Inl (OSError ''read''), s)
      | Some raw \<Rightarrow>
          (case decode_ascii raw of
             Inl e \<Rightarrow> (Inl e, s)
           | Inr text \<Rightarrow>
               (case update_control_text image_size (universal_newlines False text) of
                  (updated, found) \<Rightarrow>
                    if found \<noteq> 2 then (Inl (ValueError ''expected two image-size fields''), s)
                    else (case encode_ascii updated of
                            Inl e \<Rightarrow> (Inl e, s)
                          | Inr out \<Rightarrow> (Inr (), fs_put control out s)))))"

datatype scorpion_note =
    ReplacedPayload path
  | PatchingPayload path
  | PatcherNote r600_note
  | UpdatedControl path nat

fun update_controls ::
  "nat \<Rightarrow> path list \<Rightarrow> store \<Rightarrow> scorpion_note list result \<times> store" where
  "update_controls image_size [] s = (Inr [], s)"
| "update_controls image_size (control # controls) s =
     (case update_control image_size control s of
        (Inl e, s') \<Rightarrow> (Inl e, s')
      | (Inr _, s') \<Rightarrow>
          (case update_controls image_size controls s' of
             (Inl e, s'') \<Rightarrow> (Inl e, s'')
           | (Inr messages, s'') \<Rightarrow> (Inr (UpdatedControl control image_size # messages), s'')))"

definition control_paths :: "fw_entry list \<Rightarrow> string list \<Rightarrow> path list" where
  "control_paths view models =
     sort_paths (map fe_target (filter (\<lambda>e. fe_model e \<in> set models \<and> ends_with (fe_name e) ''_cntrl.rcks'') view))"

definition update_scorpion_control_files ::
  "fw_entry list \<Rightarrow> string list \<Rightarrow> nat \<Rightarrow> store \<Rightarrow> scorpion_note list result \<times> store" where
  "update_scorpion_control_files view models image_size s =
     (let controls = control_paths view models
      in if controls = [] then
           (Inl (ValueError ''vendor payload contains no ap-11n-scorpion control file''), s)
         else update_controls image_size controls s)"

section \<open>Replacing or patching the payload\<close>

fun replace_candidates :: "bytes \<Rightarrow> path list \<Rightarrow> store \<Rightarrow> store" where
  "replace_candidates replacement [] s = s"
| "replace_candidates replacement (p # ps) s = replace_candidates replacement ps (fs_put p replacement s)"

definition patched_sibling :: "path \<Rightarrow> path" where
  "patched_sibling p = p @ ''.patched''"

text \<open>\<open>fails p\<close> says which steps of the image patcher fail while it writes the sibling of \<open>p\<close>.\<close>

fun patch_candidates ::
  "catalog \<Rightarrow> (bytes \<Rightarrow> bytes) \<Rightarrow> squash_tools \<Rightarrow> (path \<Rightarrow> r600_step \<Rightarrow> bool) \<Rightarrow> path list \<Rightarrow> store \<Rightarrow>
   scorpion_note list result \<times> store" where
  "patch_candidates cat md5 tools fails [] s = (Inr [], s)"
| "patch_candidates cat md5 tools fails (p # ps) s =
     (case patch_image cat md5 tools (fails p) 0 p (patched_sibling p) s of
        (Inl e, states) \<Rightarrow> (Inl e, hd states)
      | (Inr messages, states) \<Rightarrow>
          (case patch_candidates cat md5 tools fails ps (fs_replace (patched_sibling p) p (hd states)) of
             (Inl e, s') \<Rightarrow> (Inl e, s')
           | (Inr rest, s') \<Rightarrow> (Inr (PatchingPayload p # map PatcherNote messages @ rest), s')))"

definition with_controls ::
  "fw_entry list \<Rightarrow> string list \<Rightarrow> nat \<Rightarrow> scorpion_note list \<Rightarrow> store \<Rightarrow>
   (scorpion_note list \<times> string list) result \<times> store" where
  "with_controls view aliases image_size messages s =
     (case update_scorpion_control_files view aliases image_size s of
        (Inl e, s') \<Rightarrow> (Inl e, s')
      | (Inr updates, s') \<Rightarrow> (Inr (messages @ updates, aliases), s'))"

definition patch_scorpion_payload ::
  "catalog \<Rightarrow> (bytes \<Rightarrow> bytes) \<Rightarrow> (path \<Rightarrow> r600_step \<Rightarrow> bool) \<Rightarrow> fw_entry list \<Rightarrow> squash_tools option \<Rightarrow>
   bytes option \<Rightarrow> store \<Rightarrow> (scorpion_note list \<times> string list) result \<times> store" where
  "patch_scorpion_payload cat md5 fails view tools override s =
     (case scorpion_payload_paths view of
        Inl e \<Rightarrow> (Inl e, s)
      | Inr (candidates, aliases) \<Rightarrow>
          (case override of
             Some replacement \<Rightarrow>
               (case parse_bl7 md5 replacement of
                  Inl e \<Rightarrow> (Inl e, s)
                | Inr _ \<Rightarrow>
                    with_controls view aliases (length replacement) (map ReplacedPayload candidates)
                      (replace_candidates replacement candidates s))
           | None \<Rightarrow>
               (case tools of
                  None \<Rightarrow> (Inl (ValueError ''payload patching requires SquashFS tools or --r600-bl7''), s)
                | Some t \<Rightarrow>
                    (case patch_candidates cat md5 t fails candidates s of
                       (Inl e, s') \<Rightarrow> (Inl e, s')
                     | (Inr messages, s') \<Rightarrow>
                         (case s' (hd candidates) of
                            None \<Rightarrow> (Inl (OSError ''stat''), s')
                          | Some first \<Rightarrow> with_controls view aliases (length first) messages s')))))"

section \<open>Lemmas\<close>

lemma set_sort_paths [simp]: "set (sort_paths ps) = set ps"
  by (simp add: sort_paths_def)

lemma distinct_sort_paths [simp]: "distinct (sort_paths ps)"
  by (simp add: sort_paths_def)

lemma sort_paths_Nil [simp]: "sort_paths ps = [] \<longleftrightarrow> ps = []"
  using set_sort_paths [of ps] by (metis set_empty)

lemma scorpion_payload_paths_Inr:
  assumes "scorpion_payload_paths view = Inr (candidates, aliases)"
  shows "set candidates = {fe_target e | e. e \<in> set view \<and> fe_model e = ''r600'' \<and> is_image e}"
    "distinct candidates" "candidates \<noteq> []"
    "set aliases = {''r600''} \<union> {py_lower (fe_model e) | e. e \<in> set view \<and> is_image e \<and> fe_target e \<in> set candidates}"
proof -
  let ?r = "filter (\<lambda>e. fe_model e = ''r600'' \<and> is_image e) view"
  from assms have c: "?r \<noteq> []" "candidates = sort_paths (map fe_target ?r)"
    and a: "aliases = remdups (''r600'' # map (\<lambda>e. py_lower (fe_model e))
      (filter (\<lambda>e. is_image e \<and> fe_target e \<in> set (map fe_target ?r)) view))"
    unfolding scorpion_payload_paths_def Let_def by (simp_all only: split: if_splits) simp_all
  show "distinct candidates" "candidates \<noteq> []"
    unfolding c(2) using c(1) by simp_all
  show "set candidates = {fe_target e | e. e \<in> set view \<and> fe_model e = ''r600'' \<and> is_image e}"
    unfolding c(2) by auto
  have "set (map fe_target ?r) = set candidates" unfolding c(2) by simp
  then show "set aliases =
      {''r600''} \<union> {py_lower (fe_model e) | e. e \<in> set view \<and> is_image e \<and> fe_target e \<in> set candidates}"
    unfolding a by auto
qed

lemma encode_ascii_decode:
  assumes "encode_ascii s = Inr raw"
  shows "decode_ascii raw = Inr s"
proof -
  have "\<forall>c \<in> set s. code_point c < 128"
    using assms by (auto simp: encode_ascii_def not_le split: if_splits)
  from ascii_roundtrip [OF this] assms show ?thesis by auto
qed

lemma control_lines_no_newline:
  "\<forall>w \<in> set (map (\<lambda>line. if is_digits line then decimal n else line) (split_on newline s)). newline \<notin> set w"
proof -
  have "\<not> is_ascii_digit newline" by code_simp
  then have "newline \<notin> set (decimal n)"
    using decimal_digits [of n] by (auto simp: is_digits_def list_all_iff)
  then show ?thesis using split_on_parts [of _ newline s] by auto
qed

lemma update_control_text_lines:
  "split_on newline (fst (update_control_text n s)) =
     map (\<lambda>line. if is_digits line then decimal n else line) (split_on newline s)"
  unfolding update_control_text_def Let_def fst_conv
  by (rule split_on_join) (use control_lines_no_newline in simp_all)

lemma is_digits_resized: "is_digits (if is_digits line then decimal n else line) = is_digits line"
  using decimal_digits by simp

lemma update_control_text_again:
  "update_control_text n (fst (update_control_text n s)) = update_control_text n s"
proof -
  let ?f = "\<lambda>line. if is_digits line then decimal n else line" and ?ls = "split_on newline s"
  have "map ?f (map ?f ls) = map ?f ls" for ls
    using decimal_digits by (induction ls) auto
  moreover have "length (filter is_digits (map ?f ls)) = length (filter is_digits ls)" for ls
    using decimal_digits by (induction ls) auto
  ultimately have "update_control_text n (fst (update_control_text n s)) =
      (join_with [newline] (map ?f ?ls), length (filter is_digits ?ls))"
    unfolding update_control_text_def [of n "fst _"] Let_def update_control_text_lines by (simp only:)
  then show ?thesis by (simp add: update_control_text_def Let_def)
qed

lemma join_with_chars: "c \<in> set (join_with [sep] ws) \<Longrightarrow> c = sep \<or> (\<exists>w \<in> set ws. c \<in> set w)"
  by (induction "[sep]" ws rule: join_with.induct) auto

lemma update_control_text_no_cr:
  assumes "CHR 0x0D \<notin> set s"
  shows "CHR 0x0D \<notin> set (fst (update_control_text n s))"
proof
  assume "CHR 0x0D \<in> set (fst (update_control_text n s))"
  then obtain w where w: "w \<in> set (map (\<lambda>line. if is_digits line then decimal n else line) (split_on newline s))"
    "CHR 0x0D \<in> set w"
    by (auto simp: update_control_text_def Let_def newline_def dest!: join_with_chars)
  have "\<not> is_ascii_digit CHR 0x0D" by code_simp
  then have "CHR 0x0D \<notin> set (decimal n)"
    using decimal_digits [of n] by (auto simp: is_digits_def list_all_iff)
  with w assms split_on_parts [of _ newline s] show False by (auto split: if_splits)
qed

lemma update_control_Inr:
  assumes "update_control n control s = (Inr u, s')"
  shows "\<exists>raw text out. s control = Some raw \<and> decode_ascii raw = Inr text \<and> s' = fs_put control out s \<and>
    decode_ascii out = Inr (fst (update_control_text n (universal_newlines False text))) \<and>
    length (filter is_digits (split_on newline (universal_newlines False text))) = 2 \<and>
    encode_ascii (fst (update_control_text n (universal_newlines False text))) = Inr out"
  using assms encode_ascii_decode
  by (auto simp: update_control_def update_control_text_def Let_def split: option.splits sum.splits if_splits)

lemma update_control_frame:
  assumes "update_control n control s = (r, s')" "q \<noteq> control"
  shows "s' q = s q"
  using assms
  by (auto simp: update_control_def fs.content_put split: option.splits sum.splits if_splits prod.splits)

lemma update_controls_frame:
  "update_controls n controls s = (r, s') \<Longrightarrow> q \<notin> set controls \<Longrightarrow> s' q = s q"
proof (induction n controls s arbitrary: r s' rule: update_controls.induct)
  case (2 n control controls s)
  obtain r1 s1 where s1: "update_control n control s = (r1, s1)" by (cases "update_control n control s")
  have "s1 q = s q" using update_control_frame [OF s1] "2.prems"(2) by simp
  with "2.prems" "2.IH" [OF s1 [symmetric]] s1 show ?case by (auto split: sum.splits prod.splits)
qed simp

lemma with_controls_frame:
  assumes "with_controls view aliases n messages s = (r, s')" "q \<notin> set (control_paths view aliases)"
  shows "s' q = s q"
  using assms update_controls_frame
  by (auto simp: with_controls_def update_scorpion_control_files_def Let_def
      split: prod.splits sum.splits if_splits)

lemma replace_candidates_content:
  "replace_candidates b ps s q = (if q \<in> set ps then Some b else s q)"
  by (induction b ps s rule: replace_candidates.induct) (auto simp: fs_put_def fun_upd_def)

lemma patch_image_Inr:
  assumes "patch_image cat md5 tools fails partial source destination s = (Inr messages, states)"
  shows "\<exists>original out ms. s source = Some original \<and> r600_transform cat md5 tools original = Inr (out, ms) \<and>
    hd states = (s(destination := Some out))(tmp_sibling destination := None)"
proof -
  from assms obtain original out ms where o: "s source = Some original"
    "r600_transform cat md5 tools original = Inr (out, ms)"
    "publish_image fails partial destination out s = (Inr (), states)"
    by (auto simp: patch_image_def split: option.splits sum.splits prod.splits)
  with publish_image_states(2) [OF o(3) refl] show ?thesis by blast
qed

definition temporaries :: "path \<Rightarrow> path set" where
  "temporaries p = {patched_sibling p, tmp_sibling (patched_sibling p)}"

lemma patched_sibling_neq [simp]: "patched_sibling p \<noteq> p" "tmp_sibling (patched_sibling p) \<noteq> p"
  by (simp_all add: patched_sibling_def tmp_sibling_def)

lemma replaced_candidate:
  "fs_replace (patched_sibling p) p ((s(patched_sibling p := Some out))(tmp_sibling (patched_sibling p) := None)) q =
     (if q = p then Some out else if q \<in> temporaries p then None else s q)"
  by (auto simp: fs_replace_def temporaries_def)

definition separate :: "path list \<Rightarrow> bool" where
  "separate ps \<longleftrightarrow> distinct ps \<and> (\<forall>p \<in> set ps. \<forall>q \<in> set ps. q \<notin> temporaries p)"

definition patched_from ::
  "catalog \<Rightarrow> (bytes \<Rightarrow> bytes) \<Rightarrow> squash_tools \<Rightarrow> bytes option \<Rightarrow> bytes option \<Rightarrow> bool" where
  "patched_from cat md5 tools old new \<longleftrightarrow>
     (\<exists>original out ms. old = Some original \<and> r600_transform cat md5 tools original = Inr (out, ms) \<and> new = Some out)"

lemma patch_candidates_Inr:
  "patch_candidates cat md5 tools fails ps s = (Inr messages, s') \<Longrightarrow> separate ps \<Longrightarrow>
   (\<forall>p \<in> set ps. patched_from cat md5 tools (s p) (s' p)) \<and>
   (\<forall>q. q \<notin> set ps \<and> (\<forall>p \<in> set ps. q \<notin> temporaries p) \<longrightarrow> s' q = s q)"
proof (induction cat md5 tools fails ps s arbitrary: messages s' rule: patch_candidates.induct)
  case (2 cat md5 tools fails p ps s)
  from "2.prems"(1) obtain ms states rest where run: "patch_image cat md5 tools (fails p) 0 p (patched_sibling p) s = (Inr ms, states)"
    and tail: "patch_candidates cat md5 tools fails ps (fs_replace (patched_sibling p) p (hd states)) = (Inr rest, s')"
    by (auto split: prod.splits sum.splits)
  let ?s1 = "fs_replace (patched_sibling p) p (hd states)"
  from patch_image_Inr [OF run] obtain original out ms' where o: "s p = Some original"
    "r600_transform cat md5 tools original = Inr (out, ms')"
    "hd states = (s(patched_sibling p := Some out))(tmp_sibling (patched_sibling p) := None)" by blast
  have s1: "?s1 q = (if q = p then Some out else if q \<in> temporaries p then None else s q)" for q
    unfolding o(3) by (rule replaced_candidate)
  have sep: "separate ps" "p \<notin> set ps" "\<forall>q \<in> set ps. q \<notin> temporaries p" "\<forall>q \<in> set ps. p \<notin> temporaries q"
    using "2.prems"(2) by (auto simp: separate_def)
  from "2.IH" [OF run [symmetric] refl tail sep(1)] have ih:
    "\<forall>q \<in> set ps. patched_from cat md5 tools (?s1 q) (s' q)"
    "\<forall>q. q \<notin> set ps \<and> (\<forall>p \<in> set ps. q \<notin> temporaries p) \<longrightarrow> s' q = ?s1 q" by blast+
  have "patched_from cat md5 tools (s p) (s' p)"
    using ih(2) sep(2,4) s1 [of p] o(1,2) by (auto simp: patched_from_def)
  moreover have "patched_from cat md5 tools (s q) (s' q)" if "q \<in> set ps" for q
  proof -
    have "?s1 q = s q" using that s1 [of q] sep(2,3) by metis
    with ih(1) that show ?thesis by metis
  qed
  moreover have "s' q = s q" if "q \<notin> set (p # ps)" "\<forall>r \<in> set (p # ps). q \<notin> temporaries r" for q
    using ih(2) that s1 [of q] by simp
  ultimately show ?case by auto
qed (auto simp: separate_def)

text \<open>The two sizes of a control file.\<close>

definition control_has_size :: "nat \<Rightarrow> bytes option \<Rightarrow> bool" where
  "control_has_size n b \<longleftrightarrow>
     (\<exists>raw contents. b = Some raw \<and> decode_ascii raw = Inr contents \<and>
        filter is_digits (split_on newline contents) = [decimal n, decimal n])"

lemma filter_resized:
  "filter is_digits (map (\<lambda>line. if is_digits line then decimal n else line) ls) =
     replicate (length (filter is_digits ls)) (decimal n)"
  using decimal_digits by (induction ls) auto

lemma update_control_size:
  assumes "update_control n control s = (Inr u, s')"
  shows "control_has_size n (s' control)"
proof -
  from update_control_Inr [OF assms] obtain contents out where c: "s' = fs_put control out s"
    "decode_ascii out = Inr (fst (update_control_text n (universal_newlines False contents)))"
    "length (filter is_digits (split_on newline (universal_newlines False contents))) = 2" by blast
  then have "filter is_digits (split_on newline (fst (update_control_text n (universal_newlines False contents)))) =
      [decimal n, decimal n]"
    by (simp add: update_control_text_lines filter_resized numeral_2_eq_2)
  with c(1,2) show ?thesis by (auto simp: control_has_size_def fs_put_def)
qed

lemma update_controls_size:
  "update_controls n controls s = (Inr ms, s') \<Longrightarrow> distinct controls \<Longrightarrow>
   \<forall>c \<in> set controls. control_has_size n (s' c)"
proof (induction n controls s arbitrary: ms s' rule: update_controls.induct)
  case (2 n control controls s)
  from "2.prems"(1) obtain u s1 rest where one: "update_control n control s = (Inr u, s1)"
    and tail: "update_controls n controls s1 = (Inr rest, s')"
    by (auto split: prod.splits sum.splits)
  have "s' control = s1 control" using update_controls_frame [OF tail] "2.prems"(2) by simp
  with update_control_size [OF one] "2.IH" [OF one [symmetric] refl tail] "2.prems"(2) show ?case by auto
qed simp

lemma with_controls_Inr:
  assumes "with_controls view aliases n messages s = (Inr r, s')"
  shows "control_paths view aliases \<noteq> [] \<and> (\<forall>c \<in> set (control_paths view aliases). control_has_size n (s' c)) \<and>
    snd r = aliases \<and> (\<forall>q. q \<notin> set (control_paths view aliases) \<longrightarrow> s' q = s q)"
proof -
  from assms obtain updates where u: "update_controls n (control_paths view aliases) s = (Inr updates, s')"
    "control_paths view aliases \<noteq> []" "snd r = aliases"
    by (auto simp: with_controls_def update_scorpion_control_files_def Let_def split: prod.splits sum.splits if_splits)
  have "distinct (control_paths view aliases)" by (simp add: control_paths_def)
  from update_controls_size [OF u(1) this] u(2,3) update_controls_frame [OF u(1)] show ?thesis by blast
qed

section \<open>Properties\<close>

text \<open>
  The candidates are exactly the files the R600 images resolve to, each once, and there is at least one;
  a model is an alias exactly when it is \<open>r600\<close> or one of its images resolves to a candidate.
\<close>

theorem scorpion_paths_exact:
  assumes "scorpion_payload_paths view = Inr (candidates, aliases)"
  shows "set candidates = {fe_target e | e. e \<in> set view \<and> fe_model e = ''r600'' \<and> is_image e} \<and>
    distinct candidates \<and> candidates \<noteq> [] \<and>
    (\<forall>m. m \<in> set aliases \<longleftrightarrow> m = ''r600'' \<or>
       (\<exists>e \<in> set view. is_image e \<and> fe_target e \<in> set candidates \<and> m = py_lower (fe_model e)))"
  using scorpion_payload_paths_Inr [OF assms] by auto

definition sample_view :: "fw_entry list" where
  "sample_view =
     [\<lparr>fe_model = ''r600'', fe_version = ''1'', fe_name = ''rcks_fw.bl7'', fe_target = ''fw/main''\<rparr>,
      \<lparr>fe_model = ''r600'', fe_version = ''1'', fe_name = ''r600_cntrl.rcks'', fe_target = ''fw/ctl''\<rparr>,
      \<lparr>fe_model = ''r500'', fe_version = ''1'', fe_name = ''rcks_fw.bl7'', fe_target = ''fw/main''\<rparr>,
      \<lparr>fe_model = ''t300'', fe_version = ''1'', fe_name = ''rcks_fw.bl7'', fe_target = ''other''\<rparr>]"

lemma sample_view_paths: "scorpion_payload_paths sample_view = Inr ([''fw/main''], [''r600'', ''r500''])"
proof -
  have "py_lower ''r600'' = ''r600''" "py_lower ''r500'' = ''r500''" by code_simp+
  then show ?thesis
    by (simp add: scorpion_payload_paths_def sample_view_def is_image_def SCORPION_IMAGE_NAMES_def sort_paths_def)
qed

theorem scorpion_paths_exact_witness:
  "scorpion_payload_paths sample_view = Inr ([''fw/main''], [''r600'', ''r500'']) \<and>
   set [''fw/main''] = {fe_target e | e. e \<in> set sample_view \<and> fe_model e = ''r600'' \<and> is_image e}"
  by (rule conjI [OF sample_view_paths conjunct1 [OF scorpion_paths_exact [OF sample_view_paths]]])

text \<open>
  An updated control file has the lines of the old one, line ends made uniform, except that its two lines
  of digits now hold the image size in decimal; nothing else in the store changes, and updating again with
  the same size changes nothing.
\<close>

theorem control_update_exact:
  assumes "update_control n control s = (Inr u, s')"
  shows "\<exists>raw body out body2. s control = Some raw \<and> decode_ascii raw = Inr body \<and>
    s' = s(control \<mapsto> out) \<and> decode_ascii out = Inr body2 \<and>
    split_on newline body2 =
      map (\<lambda>line. if is_digits line then decimal n else line) (split_on newline (universal_newlines False body)) \<and>
    length (filter is_digits (split_on newline (universal_newlines False body))) = 2 \<and>
    decimal_value (decimal n) = n \<and> update_control n control s' = (Inr (), s')"
proof -
  from update_control_Inr [OF assms] obtain raw body out where c: "s control = Some raw" "decode_ascii raw = Inr body"
    "s' = fs_put control out s"
    "decode_ascii out = Inr (fst (update_control_text n (universal_newlines False body)))"
    "length (filter is_digits (split_on newline (universal_newlines False body))) = 2"
    "encode_ascii (fst (update_control_text n (universal_newlines False body))) = Inr out" by blast
  let ?t = "universal_newlines False body" and ?u = "fst (update_control_text n (universal_newlines False body))"
  have two: "snd (update_control_text n ?t) = 2" using c(5) by (simp add: update_control_text_def Let_def)
  have "CHR 0x0D \<notin> set ?u" by (rule update_control_text_no_cr [OF universal_newlines_no_cr])
  then have "universal_newlines False ?u = ?u" by (rule universal_newlines_id)
  moreover have "update_control_text n ?u = (?u, 2)"
    using update_control_text_again [of n ?t] two by (metis prod.collapse)
  moreover have "s' control = Some out" "fs_put control out s' = s'"
    by (simp_all add: c(3) fs_put_def)
  ultimately have "update_control n control s' = (Inr (), s')"
    using c(4,6) by (simp add: update_control_def)
  then show ?thesis
    using c update_control_text_lines [of n ?t]
    by (auto simp: fs_put_def decimal_value_decimal)
qed

definition sample_control :: string where
  "sample_control = ''[main]'' @ newline # ''77'' @ newline # ''[bkup]'' @ newline # ''99'' @ [newline]"

lemma sample_control_update:
  "update_control_text 5 sample_control =
     (''[main]'' @ newline # ''5'' @ newline # ''[bkup]'' @ newline # ''5'' @ [newline], 2)"
  by code_simp

theorem control_update_exact_witness:
  "\<exists>raw s'. encode_ascii sample_control = Inr raw \<and> update_control 5 ''ctl'' [''ctl'' \<mapsto> raw] = (Inr (), s') \<and>
     update_control 5 ''ctl'' s' = (Inr (), s')"
proof -
  have "\<exists>raw. encode_ascii sample_control = Inr raw" "universal_newlines False sample_control = sample_control"
    "\<exists>out. encode_ascii (fst (update_control_text 5 sample_control)) = Inr out"
    unfolding sample_control_update
    by (simp_all add: encode_ascii_def) code_simp+
  then obtain raw out where e: "encode_ascii sample_control = Inr raw"
    "encode_ascii (fst (update_control_text 5 sample_control)) = Inr out"
    "universal_newlines False sample_control = sample_control" by blast
  then obtain s' where run: "update_control 5 ''ctl'' [''ctl'' \<mapsto> raw] = (Inr (), s')"
    using encode_ascii_decode [OF e(1)] sample_control_update by (auto simp: update_control_def)
  from control_update_exact [OF run] e(1) run show ?thesis by blast
qed

text \<open>
  The two lines of a control file are the sizes of two images, the main one and its backup, which are
  separate files; both become the size of the first candidate.
\<close>

theorem control_sizes_are_conflated:
  "\<exists>main bkup. main \<noteq> bkup \<and>
     split_on newline sample_control = [''[main]'', decimal main, ''[bkup]'', decimal bkup, []] \<and>
     split_on newline (fst (update_control_text 5 sample_control)) =
       [''[main]'', decimal 5, ''[bkup]'', decimal 5, []]"
  by (intro exI [of _ 77] exI [of _ 99]) code_simp

text \<open>
  The name of an alias is lowered before it is used to look for control files, so those of a model whose
  directory is not lower case are not found.
\<close>

theorem upper_case_alias_has_no_control:
  assumes "fe_model e \<noteq> py_lower (fe_model e)"
    and "\<forall>e' \<in> set view. fe_model e' \<noteq> py_lower (fe_model e)"
  shows "control_paths view [py_lower (fe_model e)] = []"
  using assms by (auto simp: control_paths_def filter_empty_conv)

text \<open>
  C13. When patching with the tools succeeds, every candidate, if the candidates do not collide with each
  other's temporary siblings or with a control file, is the transformed image of what it was; every
  control file of an alias says twice the size of the first candidate; and nothing else in the store but
  the temporary siblings has changed.
\<close>

theorem scorpion_payload_patched:
  assumes "patch_scorpion_payload cat md5 fails view (Some tools) None s = (Inr (messages, aliases), s')"
    and "\<forall>candidates. scorpion_payload_paths view = Inr (candidates, aliases) \<longrightarrow>
      separate candidates \<and> set candidates \<inter> set (control_paths view aliases) = {}"
  shows "\<exists>candidates first. scorpion_payload_paths view = Inr (candidates, aliases) \<and>
    (\<forall>p \<in> set candidates. patched_from cat md5 tools (s p) (s' p)) \<and> s' (hd candidates) = Some first \<and>
    (\<forall>c \<in> set (control_paths view aliases). control_has_size (length first) (s' c)) \<and>
    (\<forall>q. q \<notin> set candidates \<union> set (control_paths view aliases) \<union> (\<Union>p \<in> set candidates. temporaries p) \<longrightarrow> s' q = s q)"
proof -
  from assms(1) obtain candidates al ms s1 first where p: "scorpion_payload_paths view = Inr (candidates, al)"
    "patch_candidates cat md5 tools fails candidates s = (Inr ms, s1)" "s1 (hd candidates) = Some first"
    "with_controls view al (length first) ms s1 = (Inr (messages, aliases), s')"
    by (auto simp: patch_scorpion_payload_def split: sum.splits prod.splits option.splits)
  from with_controls_Inr [OF p(4)] have w: "al = aliases"
    "\<forall>c \<in> set (control_paths view aliases). control_has_size (length first) (s' c)"
    "\<forall>q. q \<notin> set (control_paths view aliases) \<longrightarrow> s' q = s1 q" by auto
  have sep: "separate candidates" "set candidates \<inter> set (control_paths view aliases) = {}"
    using assms(2) p(1) w(1) by auto
  note c = patch_candidates_Inr [OF p(2) sep(1)]
  have same: "s' q = s1 q" if "q \<in> set candidates" for q using w(3) sep(2) that by blast
  have "hd candidates \<in> set candidates" using scorpion_payload_paths_Inr(3) [OF p(1)] by simp
  then have "s' (hd candidates) = Some first" using same p(3) by simp
  then show ?thesis
    using p(1) w c same by (intro exI [of _ candidates] exI [of _ first]) auto
qed

lemma sample_control_accepts:
  assumes "s ''fw/ctl'' = Some raw" "encode_ascii sample_control = Inr raw"
  shows "\<exists>s'. update_control n ''fw/ctl'' s = (Inr (), s')"
proof -
  have u: "universal_newlines False sample_control = sample_control" by code_simp
  have sp: "split_on newline sample_control = [''[main]'', ''77'', ''[bkup]'', ''99'', []]" by code_simp
  have "map is_digits [''[main]'', ''77'', ''[bkup]'', ''99'', []] = [False, True, False, True, False]" by code_simp
  then have t: "update_control_text n sample_control =
      (''[main]'' @ newline # decimal n @ newline # ''[bkup]'' @ newline # decimal n @ [newline], 2)"
    by (simp add: update_control_text_def Let_def sp)
  have "\<forall>c \<in> set (''[main]'' @ newline # ''[bkup]''). code_point c < 128" by code_simp
  moreover have "\<forall>c \<in> set (decimal n). code_point c < 128"
    using decimal_digits [of n] by (auto simp: is_digits_def list_all_iff is_ascii_digit_def in_range_def)
  ultimately have "\<exists>out. encode_ascii (fst (update_control_text n sample_control)) = Inr out"
    by (auto simp: t encode_ascii_def not_le)
  then show ?thesis
    using assms encode_ascii_decode [OF assms(2)] by (auto simp: update_control_def u t)
qed

lemma sample_control_raw: "\<exists>raw. encode_ascii sample_control = Inr raw"
proof -
  have "\<forall>c \<in> set sample_control. code_point c < 128" by code_simp
  then show ?thesis using ascii_roundtrip by blast
qed

lemma sample_candidates:
  assumes "r600_transform scorpion_catalog sample_md5 toy_tools data = Inr (out, ms)" "s ''fw/main'' = Some data"
  shows "\<exists>ms' s1. patch_candidates scorpion_catalog sample_md5 toy_tools (\<lambda>_ _. False) [''fw/main''] s = (Inr ms', s1)"
  by (simp add: patch_image_def publish_image_def Let_def assms)

lemma sample_separate: "separate [''fw/main'']"
  by (simp add: separate_def temporaries_def patched_sibling_def tmp_sibling_def)

lemma sample_control_paths: "control_paths sample_view [''r600'', ''r500''] = [''fw/ctl'']"
  by (simp add: control_paths_def sample_view_def ends_with_def sort_paths_def)

theorem scorpion_payload_patched_witness:
  "\<exists>data raw messages s'. patch_scorpion_payload scorpion_catalog sample_md5 (\<lambda>_ _. False) sample_view (Some toy_tools) None
       [''fw/main'' \<mapsto> data, ''fw/ctl'' \<mapsto> raw] = (Inr (messages, [''r600'', ''r500'']), s') \<and>
     patched_from scorpion_catalog sample_md5 toy_tools (Some data) (s' ''fw/main'') \<and>
     (\<exists>n. control_has_size n (s' ''fw/ctl''))"
proof -
  obtain data out ms where d: "r600_transform scorpion_catalog sample_md5 toy_tools data = Inr (out, ms)"
    using scorpion_image by blast
  obtain raw where raw: "encode_ascii sample_control = Inr raw" using sample_control_raw by blast
  define s where "s = [''fw/main'' \<mapsto> data, ''fw/ctl'' \<mapsto> raw]"
  have s: "s ''fw/main'' = Some data" "s ''fw/ctl'' = Some raw" by (simp_all add: s_def)
  from sample_candidates [of data out ms s, OF d s(1)] obtain ms' s1 where
    pc: "patch_candidates scorpion_catalog sample_md5 toy_tools (\<lambda>_ _. False) [''fw/main''] s = (Inr ms', s1)"
    by blast
  note c = patch_candidates_Inr [OF pc sample_separate]
  from c obtain first where first: "s1 ''fw/main'' = Some first" by (auto simp: patched_from_def)
  have "s1 ''fw/ctl'' = Some raw"
    using c s(2) by (simp add: temporaries_def patched_sibling_def tmp_sibling_def)
  from sample_control_accepts [of s1, OF this raw] obtain s' where
    u: "update_control (length first) ''fw/ctl'' s1 = (Inr (), s')" by blast
  define result where "result = ms' @ [UpdatedControl ''fw/ctl'' (length first)]"
  have run: "patch_scorpion_payload scorpion_catalog sample_md5 (\<lambda>_ _. False) sample_view
      (Some toy_tools) None s = (Inr (result, [''r600'', ''r500'']), s')"
    unfolding patch_scorpion_payload_def sample_view_paths sum.case prod.case option.case pc list.sel first
      with_controls_def update_scorpion_control_files_def Let_def sample_control_paths
    by (simp add: u result_def)
  have sep: "\<forall>candidates. scorpion_payload_paths sample_view = Inr (candidates, [''r600'', ''r500'']) \<longrightarrow>
      separate candidates \<and> set candidates \<inter> set (control_paths sample_view [''r600'', ''r500'']) = {}"
    using sample_separate by (simp add: sample_view_paths sample_control_paths)
  from scorpion_payload_patched [OF run sep] obtain candidates and first' :: bytes where
    r: "scorpion_payload_paths sample_view = Inr (candidates, [''r600'', ''r500''])"
    "\<forall>p \<in> set candidates. patched_from scorpion_catalog sample_md5 toy_tools (s p) (s' p)"
    "\<forall>c \<in> set (control_paths sample_view [''r600'', ''r500'']). control_has_size (length first') (s' c)"
    by (elim exE conjE) (rule that, assumption+)
  have "candidates = [''fw/main'']" using r(1) by (simp add: sample_view_paths)
  then have "patched_from scorpion_catalog sample_md5 toy_tools (Some data) (s' ''fw/main'')"
    using r(2) s(1) by simp
  moreover have "control_has_size (length first') (s' ''fw/ctl'')" using r(3) by (simp add: sample_control_paths)
  ultimately show ?thesis using run unfolding s_def by blast
qed

end
