(* ===== verification/Bundle.thy ===== *)
theory Bundle
imports Artifact Tac Payload Scorpion
begin

text \<open>
  \<open>build_zd1200_bundle.py\<close> from its options to the published ZIP file, composed of the models of the
  modules it calls.  A bundle is the list of its files by relative path; the external programs and the
  encoders of the standard library are the fields of the record \<open>bundle_env\<close>.  Files inside the temporary
  directory are written without failures of their own; those of the output are modelled.
\<close>

section \<open>The files of the repository\<close>

definition REPO_FILES :: "path list" where
  "REPO_FILES =
     [''.dockerignore'', ''.env.example'', ''Dockerfile'', ''docker-compose.yml'',
      ''docker-compose.macvlan.yml'', ''boot-initrd-handoff'', ''boot-initrd-init'',
      ''boot-initrd-inittab'', ''make-boot-initrd.sh'', ''pivot-exec.S'',
      ''zd-controller-wrapper.sh'', ''zd-memory-snapshot.sh'', ''limit-process-cpu.py'',
      ''make-runtime-initrd.sh'', ''make-synthetic-cf.py'', ''patch_binary_artifact.py'',
      ''run-zd1200-qemu.sh'', ''run-zd1200-web.sh'', ''prepare-compose-runtime.sh'',
      ''write-boarddata.py'', ''zd_identity.py'', ''zd_root_ssh.py'',
      ''zd-controller-wrapper.sh'', ''zd-healthcheck.sh'', ''zd-memory-snapshot.sh'',
      ''README.md'', ''VALIDATION.md'', ''binary_patch_catalog.json'',
      ''binary_patch_catalog.py'', ''binary_patch_catalog.schema.json'',
      ''release_manifest.json'', ''release_manifest.py'', ''release_manifest.schema.json'',
      ''verify_release_archive.py'', ''ruckus_tac_decrypt.py'', ''ruckus_bl7.py'',
      ''patch_r600_bl7.py'', ''LICENSE'', ''THIRD_PARTY_NOTICES.md'']"

definition HOST_FILES :: "path list" where
  "HOST_FILES =
     [''host/zd1200-bridge'', ''host/zd1200-bridge.service'',
      ''host/zd1200-bridge-watch.service'', ''host/zd1200-bridge.env.example'']"

type_synonym bundle_files = "(path \<times> bytes) list"

definition put_file :: "path \<Rightarrow> bytes \<Rightarrow> bundle_files \<Rightarrow> bundle_files" where
  "put_file p b files = filter (\<lambda>(q, _). q \<noteq> p) files @ [(p, b)]"

fun copy_files :: "store \<Rightarrow> exn \<Rightarrow> path list \<Rightarrow> bundle_files \<Rightarrow> bundle_files result" where
  "copy_files repo missing [] files = Inr files"
| "copy_files repo missing (p # ps) files =
     (case repo p of
        None \<Rightarrow> Inl missing
      | Some b \<Rightarrow> copy_files repo missing ps (put_file p b files))"

text \<open>The second loop copies without the check, so a missing file is the error of the copy.\<close>

definition copy_tree_safe :: "store \<Rightarrow> bundle_files \<Rightarrow> bundle_files result" where
  "copy_tree_safe repo files =
     bindE (copy_files repo (ValueError ''repository file missing'') REPO_FILES files)
       (copy_files repo (OSError ''copy'') HOST_FILES)"

section \<open>The kernel\<close>

datatype kernel_note = KernelEngine report | KernelDigest string | KernelChanged bool

definition patch_kernel ::
  "catalog \<Rightarrow> gunzip \<Rightarrow> (bytes \<Rightarrow> bytes) \<Rightarrow> (bytes \<Rightarrow> string) \<Rightarrow> bytes \<Rightarrow>
   (bytes \<times> bytes \<times> kernel_note list) result" where
  "patch_kernel cat dz gz sha256 source =
     bindE (extract_artifact cat dz source ''zd1200_kernel_elf'') (\<lambda>(payload, context).
     bindE (apply_artifact cat payload ''zd1200_kernel_elf'') (\<lambda>(patched, changed, log).
     bindE (rebuild_artifact cat gz source patched ''zd1200_kernel_elf'' context) (\<lambda>result.
       Inr (result, payload, map KernelEngine log @ [KernelDigest (sha256 result), KernelChanged changed]))))"

section \<open>The options\<close>

record bundle_options =
  bo_unsquashfs :: bool
  bo_mksquashfs :: bool
  bo_r600_bl7 :: "bytes option"
  bo_auto_r600_mesh :: bool

definition check_bundle_options :: "bundle_options \<Rightarrow> unit result" where
  "check_bundle_options opts =
     (if bo_r600_bl7 opts \<noteq> None \<and> (bo_unsquashfs opts \<or> bo_mksquashfs opts) then
        Inl (ValueError ''--r600-bl7 cannot be combined with SquashFS tool paths'')
      else raise_if (bo_unsquashfs opts \<noteq> bo_mksquashfs opts)
             (ValueError ''--unsquashfs and --mksquashfs must be supplied together''))"

definition mesh_repair_supported :: "release \<Rightarrow> bool" where
  "mesh_repair_supported r \<longleftrightarrow>
     map_of (rl_features r) ''r600_mesh_receive_repair'' = Some ''available_when_ap_payload_is_repacked''"

definition choose_scorpion :: "bundle_options \<Rightarrow> release \<Rightarrow> bool result" where
  "choose_scorpion opts r =
     (let tools = bo_unsquashfs opts \<and> bo_mksquashfs opts
      in if \<not> bo_auto_r600_mesh opts then Inr (bo_r600_bl7 opts \<noteq> None \<or> tools)
         else if bo_r600_bl7 opts \<noteq> None then
           Inl (ValueError ''--auto-r600-mesh cannot be combined with --r600-bl7'')
         else if mesh_repair_supported r \<and> \<not> tools then
           Inl (ValueError ''--auto-r600-mesh requires both SquashFS tool paths'')
         else Inr (mesh_repair_supported r))"

section \<open>The environment and the report\<close>

text \<open>
  The extracted vendor archive: its entries, what the glob over the firmware images finds, and the contents
  of every name that is a regular file, directly or through links.
\<close>

record vendor =
  vn_tree :: vendor_tree
  vn_view :: "fw_entry list"
  vn_files :: store

datatype input_kind = DecryptedGzipTar | EncryptedTac

datatype scorpion_status =
    ScorpionPatched "string list" "string list" "string list" "scorpion_note list"
  | ScorpionNotApplied string

datatype warning = ExperimentalModel string | PlainWarning string

record build_report =
  br_release_id :: string
  br_input_kind :: input_kind
  br_input_sha256 :: string
  br_decrypted_sha256 :: string
  br_kernel_rules :: "string list"
  br_kernel_sha256 :: string
  br_kernel_messages :: "kernel_note list"
  br_scorpion :: scorpion_status
  br_warnings :: "warning list"

record bundle_env =
  ev_sha256 :: "bytes \<Rightarrow> string"
  ev_md5 :: "bytes \<Rightarrow> bytes"
  ev_gunzip :: gunzip
  ev_gzip :: "bytes \<Rightarrow> bytes"
  ev_untar :: "bytes \<Rightarrow> tar_member list option"
  ev_unpack :: "bytes \<Rightarrow> vendor result"
  ev_initrd :: "bundle_files \<Rightarrow> bundle_files result"
  ev_tools :: squash_tools
  ev_tgz :: "payload_entry list \<Rightarrow> bytes"
  ev_json :: "build_report \<Rightarrow> bytes"
  ev_zip :: "bundle_files \<Rightarrow> bytes"

section \<open>The input archive\<close>

definition open_input :: "bundle_env \<Rightarrow> release \<Rightarrow> bytes \<Rightarrow> (bytes \<times> input_kind) result" where
  "open_input env r input =
     (if take 3 input = GZIP_MAGIC then Inr (input, DecryptedGzipTar)
      else
        bindE (verify_encrypted_input (ev_sha256 env) input r) (\<lambda>_.
          case decrypt_file no_failure ''decrypted.tmp'' ''input'' ''decrypted.img.tgz'' [''input'' \<mapsto> input] of
            (Inl e, _) \<Rightarrow> Inl e
          | (Inr _, states) \<Rightarrow>
              (case hd states ''decrypted.img.tgz'' of
                 None \<Rightarrow> Inl (OSError ''read'')
               | Some decrypted \<Rightarrow> Inr (decrypted, EncryptedTac))))"

definition extract_verified_archive :: "bundle_env \<Rightarrow> release \<Rightarrow> bytes \<Rightarrow> vendor result" where
  "extract_verified_archive env r archive =
     bindE (verify_decrypted_archive (ev_sha256 env) (ev_untar env) archive r) (\<lambda>_.
     bindE (ev_unpack env archive) (\<lambda>v.
     bindE (raise_if (vn_files v ''metadata'' = None)
              (ValueError ''verified archive did not extract a top-level metadata file'')) (\<lambda>_.
       Inr v)))"

definition vendor_file :: "vendor \<Rightarrow> path \<Rightarrow> bytes result" where
  "vendor_file v p = (case vn_files v p of None \<Rightarrow> Inl (OSError ''copy'') | Some b \<Rightarrow> Inr b)"

section \<open>The AP payload\<close>

text \<open>The models named, the status for the report, the warnings, and the vendor files afterwards.\<close>

definition scorpion_step ::
  "catalog \<Rightarrow> bundle_env \<Rightarrow> bundle_options \<Rightarrow> release \<Rightarrow> vendor \<Rightarrow>
   (string list option \<times> scorpion_status \<times> warning list \<times> store) result" where
  "scorpion_step cat env opts r v =
     bindE (choose_scorpion opts r) (\<lambda>patch.
       if patch then
         (case patch_scorpion_payload cat (ev_md5 env) (\<lambda>_ _. False) (vn_view v)
                 (if bo_unsquashfs opts \<and> bo_mksquashfs opts then Some (ev_tools env) else None)
                 (bo_r600_bl7 opts) (vn_files v) of
            (Inl e, _) \<Rightarrow> Inl e
          | (Inr (messages, models), files) \<Rightarrow>
              let experimental = sort (filter (\<lambda>m. m \<in> set SCORPION_EXPERIMENTAL_MODELS) models)
              in Inr (Some models,
                      ScorpionPatched (sort models)
                        (sort (filter (\<lambda>m. m \<in> set SCORPION_VALIDATED_MODELS) models)) experimental messages,
                      map ExperimentalModel experimental, files))
       else
         Inr (None,
              ScorpionNotApplied
                (if bo_auto_r600_mesh opts then ''mesh receive repair is not required for this exact release''
                 else ''BL7 AP payload repacker not selected; provide both SquashFS tool paths''),
              [PlainWarning ''ap-11n-scorpion AP mesh receive repair is not included in this bundle.'',
               PlainWarning ''Run the physical AP validation matrix before describing this release as supported.''],
              vn_files v))"

section \<open>The text of the first README\<close>

definition scope_note :: "string list option \<Rightarrow> string" where
  "scope_note models =
     (case models of
        Some ms \<Rightarrow>
          ''The ZD kernel and ap-11n-scorpion AP payload compatibility patches were applied for: '' @ join_with '', '' (sort ms) @
          ''. R600 is validated; all other listed models are experimental.''
      | None \<Rightarrow>
          ''The ZD kernel compatibility patches were applied. '' @
          ''The ap-11n-scorpion AP payload was not patched because SquashFS tools were not selected.'')"

text \<open>The dash in the title is U+2014, three bytes in UTF-8.\<close>

definition readme_title :: "release \<Rightarrow> bytes" where
  "readme_title r =
     encode_utf8 ''# ZD1200 local bundle '' @ [0xE2, 0x80, 0x94] @
     encode_utf8 ('' '' @ rl_version r @ ''.'' @ py_str_int (rl_build r))"

definition readme_lines :: "string list option \<Rightarrow> string list" where
  "readme_lines models =
     [[], [], [],
      ''This bundle was built locally from an operator-supplied Ruckus download.'', [],
      ''No firmware is fetched at runtime. Review `.env.example` and choose the'',
      ''recommended dedicated-adapter profile, or the advanced existing-host-bridge'',
      ''profile for a deliberately shared LAN, then run `docker compose build` and'',
      ''`docker compose up -d`. See `README.md` and `VALIDATION.md`.'', [], [],
      ''## Important scope note'', [], [],
      scope_note models @ '' Do not claim mesh validation from this bundle until the report'',
      ''says the AP payload was transformed and the physical mesh test in'',
      ''`VALIDATION.md` passes.'', []]"

definition first_readme :: "release \<Rightarrow> string list option \<Rightarrow> bytes" where
  "first_readme r models = readme_title r @ encode_utf8 (join_with [newline] (readme_lines models))"

section \<open>Assembling the bundle\<close>

definition kernel_rule_names :: "catalog \<Rightarrow> string list result" where
  "kernel_rule_names cat = bindE (rules_for_artifact cat ''zd1200_kernel_elf'') (\<lambda>rules. Inr (map pr_name rules))"

text \<open>The repository files, the images and the boot initramfs; the report needs the kernel's part.\<close>

definition base_bundle ::
  "catalog \<Rightarrow> bundle_env \<Rightarrow> store \<Rightarrow> vendor \<Rightarrow> (bundle_files \<times> bytes \<times> kernel_note list) result" where
  "base_bundle cat env repo v =
     bindE (copy_tree_safe repo []) (\<lambda>files.
     bindE (vendor_file v ''restoreinitramfs.gz'') (\<lambda>initramfs.
     bindE (vendor_file v ''rootfs.i386.ext2.director1200.img'') (\<lambda>rootfs.
     bindE (vendor_file v ''bzImage'') (\<lambda>bz.
     bindE (patch_kernel cat (ev_gunzip env) (ev_gzip env) (ev_sha256 env) bz) (\<lambda>(patched, vmlinux, kernel_log).
     bindE (ev_initrd env
              (put_file ''image/bzImage'' patched
                (put_file ''image/vmlinux'' vmlinux
                  (put_file ''image/rootfs.ext2'' rootfs
                    (put_file ''image/restoreinitramfs.gz'' initramfs files))))) (\<lambda>files'.
       Inr (files', patched, kernel_log)))))))"

definition assemble ::
  "catalog \<Rightarrow> bundle_env \<Rightarrow> bundle_options \<Rightarrow> release \<Rightarrow> store \<Rightarrow> bytes \<Rightarrow> (bundle_files \<times> build_report) result" where
  "assemble cat env opts r repo input =
     bindE (open_input env r input) (\<lambda>(archive, kind).
     bindE (extract_verified_archive env r archive) (\<lambda>v.
     bindE (base_bundle cat env repo v) (\<lambda>(files, kern, kernel_log).
     bindE (scorpion_step cat env opts r v) (\<lambda>(models, status, warnings, vfiles).
     bindE (make_payload (ev_tgz env) r (vn_tree v) vfiles) (\<lambda>payload.
     bindE (kernel_rule_names cat) (\<lambda>rule_names.
       let report = \<lparr>br_release_id = rl_release_id r, br_input_kind = kind,
             br_input_sha256 = ev_sha256 env input, br_decrypted_sha256 = ev_sha256 env archive,
             br_kernel_rules = rule_names, br_kernel_sha256 = ev_sha256 env kern,
             br_kernel_messages = kernel_log, br_scorpion = status, br_warnings = warnings\<rparr>
       in Inr (put_file ''build-report.json'' (ev_json env report)
                (put_file ''README-FIRST.md'' (first_readme r models)
                  (put_file ''image/zd-payload.tar.gz'' payload files)), report)))))))"

section \<open>Publishing the ZIP file\<close>

text \<open>
  Any failure while the sibling is written or renamed removes it before it is raised again; \<open>partial\<close> is
  what a failing write leaves in it.  The second component lists the stores seen, the last one first.
\<close>

datatype zip_step = ZipOpen | ZipWrite | ZipReplace | ZipUnlink

definition publish_zip ::
  "(zip_step \<Rightarrow> bool) \<Rightarrow> bytes \<Rightarrow> path \<Rightarrow> bytes \<Rightarrow> store \<Rightarrow> unit result \<times> store list" where
  "publish_zip fails partial output archive s =
     (let tmp = tmp_sibling output;
          cleanup = (\<lambda>e states. if fails ZipUnlink then (Inl (OSError ''unlink''), states)
                                else (Inl e, fs_unlink tmp (hd states) # states))
      in if fails ZipOpen then cleanup (OSError ''open'') [s]
         else if fails ZipWrite then
           cleanup (OSError ''write'') [fs_put tmp partial s, fs_put tmp [] s, s]
         else if fails ZipReplace then cleanup (OSError ''replace'') [fs_put tmp archive s, fs_put tmp [] s, s]
         else (Inr (), [fs_replace tmp output (fs_put tmp archive s), fs_put tmp archive s, fs_put tmp [] s, s]))"

definition sorted_bundle :: "bundle_files \<Rightarrow> bundle_files" where
  "sorted_bundle files = sort_key (\<lambda>(p, _). path_parts p) files"

definition build_bundle ::
  "catalog \<Rightarrow> bundle_env \<Rightarrow> (zip_step \<Rightarrow> bool) \<Rightarrow> bytes \<Rightarrow> bundle_options \<Rightarrow> release \<Rightarrow> store \<Rightarrow> bytes \<Rightarrow> path \<Rightarrow>
   store \<Rightarrow> (build_report \<times> string) result \<times> store list" where
  "build_bundle cat env fails partial opts r repo input output s =
     (case bindE (check_bundle_options opts) (\<lambda>_. assemble cat env opts r repo input) of
        Inl e \<Rightarrow> (Inl e, [s])
      | Inr (files, report) \<Rightarrow>
          let archive = ev_zip env (sorted_bundle files)
          in (case publish_zip fails partial output archive s of
                (Inl e, states) \<Rightarrow> (Inl e, states)
              | (Inr _, states) \<Rightarrow> (Inr (report, ev_sha256 env archive), states)))"

text \<open>\<open>main\<close>: a missing input and every \<open>ValueError\<close> are usage errors.\<close>

definition select_release :: "bundle_env \<Rightarrow> release list \<Rightarrow> string \<Rightarrow> bytes \<Rightarrow> release result" where
  "select_release env releases release_id input =
     (if release_id \<noteq> [] then release_by_id release_id releases
      else release_by_input_sha256 (ev_sha256 env input) releases)"

definition usage_error :: "'a result \<Rightarrow> 'a result" where
  "usage_error result =
     (case result of
        Inl (ValueError m) \<Rightarrow> Inl (SystemExit ''2'')
      | Inl UnicodeError \<Rightarrow> Inl (SystemExit ''2'')
      | _ \<Rightarrow> result)"

definition bundle_main ::
  "catalog \<Rightarrow> bundle_env \<Rightarrow> (zip_step \<Rightarrow> bool) \<Rightarrow> bytes \<Rightarrow> bundle_options \<Rightarrow> release list \<Rightarrow> string \<Rightarrow> store \<Rightarrow> path \<Rightarrow>
   path \<Rightarrow> store \<Rightarrow> (build_report \<times> string) result \<times> store list" where
  "bundle_main cat env fails partial opts releases release_id repo input output s =
     (case s input of
        None \<Rightarrow> (Inl (SystemExit ''2''), [s])
      | Some data \<Rightarrow>
          (case select_release env releases release_id data of
             Inl e \<Rightarrow> (usage_error (Inl e), [s])
           | Inr r \<Rightarrow>
               (case build_bundle cat env fails partial opts r repo data output s of
                  (result, states) \<Rightarrow> (usage_error result, states))))"

end
