(* ===== verification/BundleProperties.thy ===== *)
theory BundleProperties
imports Bundle
begin

text \<open>
  What the bundle builder guarantees: which options are accepted and what they select, what a bundle
  contains, what the input and the kernel have been checked for when a report is returned, and how the
  ZIP file is published.
\<close>

section \<open>Bundles as maps\<close>

lemma map_of_put_file [simp]: "map_of (put_file p b files) = (map_of files)(p \<mapsto> b)"
proof
  fix q
  have "map_of (filter (\<lambda>(x, _). x \<noteq> p) files) q = (if q = p then None else map_of files q)"
    by (induction files) auto
  then show "map_of (put_file p b files) q = ((map_of files)(p \<mapsto> b)) q"
    by (auto simp: put_file_def map_add_def split: option.splits)
qed

lemma distinct_put_file [simp]: "distinct (map fst files) \<Longrightarrow> distinct (map fst (put_file p b files))"
  by (auto simp: put_file_def distinct_map_filter)

lemma restrict_map_add: "(f |` A) ++ (f |` B) = f |` (A \<union> B)"
  by (rule ext) (simp add: map_add_def restrict_map_def split: option.split)

lemma copy_files_Inr:
  "copy_files repo e ps files = Inr files' \<Longrightarrow>
   (\<forall>p \<in> set ps. repo p \<noteq> None) \<and> map_of files' = map_of files ++ (repo |` set ps) \<and>
   (distinct (map fst files) \<longrightarrow> distinct (map fst files'))"
proof (induction repo e ps files arbitrary: files' rule: copy_files.induct)
  case (2 repo e p ps files)
  then obtain b where b: "repo p = Some b" "copy_files repo e ps (put_file p b files) = Inr files'"
    by (auto split: option.splits)
  have m: "map_of (put_file p b files) ++ (repo |` set ps) = map_of files ++ (repo |` set (p # ps))"
    unfolding map_of_put_file using b(1) by (auto simp: map_add_def restrict_map_def fun_eq_iff split: option.splits)
  show ?case using "2.IH" [OF b] b(1) unfolding m by simp
qed (simp add: restrict_map_def map_add_def)

lemma copy_files_Inl:
  "copy_files repo e ps files = Inl e' \<longleftrightarrow> e' = e \<and> (\<exists>p \<in> set ps. repo p = None)"
  by (induction repo e ps files rule: copy_files.induct) (auto split: option.splits)

lemma copy_tree_safe_Inr:
  assumes "copy_tree_safe repo [] = Inr files"
  shows "map_of files = repo |` set (REPO_FILES @ HOST_FILES)" "distinct (map fst files)"
    "\<forall>p \<in> set (REPO_FILES @ HOST_FILES). repo p \<noteq> None"
proof -
  from assms obtain mid where
    m: "copy_files repo (ValueError ''repository file missing'') REPO_FILES [] = Inr mid"
      "copy_files repo (OSError ''copy'') HOST_FILES mid = Inr files"
    by (auto simp: copy_tree_safe_def bindE_Inr_iff)
  note c1 = copy_files_Inr [OF m(1)] and c2 = copy_files_Inr [OF m(2)]
  show "map_of files = repo |` set (REPO_FILES @ HOST_FILES)"
    using c1 c2 by (simp add: restrict_map_add)
  show "distinct (map fst files)" using c1 c2 by simp
  show "\<forall>p \<in> set (REPO_FILES @ HOST_FILES). repo p \<noteq> None" using c1 c2 by (simp add: ball_Un)
qed

lemma copy_tree_safe_Inl:
  "copy_tree_safe repo [] = Inl e \<longleftrightarrow>
     (\<exists>p \<in> set REPO_FILES. repo p = None) \<and> e = ValueError ''repository file missing'' \<or>
     (\<forall>p \<in> set REPO_FILES. repo p \<noteq> None) \<and> (\<exists>p \<in> set HOST_FILES. repo p = None) \<and> e = OSError ''copy''"
proof (cases "copy_files repo (ValueError ''repository file missing'') REPO_FILES []")
  case (Inl e')
  with copy_files_Inl [of repo _ REPO_FILES "[]" e'] have
    "e' = ValueError ''repository file missing''" "\<exists>p \<in> set REPO_FILES. repo p = None" by simp_all
  then show ?thesis using Inl by (auto simp: copy_tree_safe_def)
next
  case (Inr mid)
  then show ?thesis using copy_files_Inr [OF Inr] by (auto simp: copy_tree_safe_def copy_files_Inl)
qed

section \<open>Publishing\<close>

lemma publish_zip_error:
  assumes "publish_zip fails partial output archive s = (Inl e, states)" "s (tmp_sibling output) = None"
  shows "\<forall>st \<in> set states. differs_only_at (tmp_sibling output) s st"
    "\<not> fails ZipUnlink \<Longrightarrow> hd states = s"
  using assms differs_only_at_unlink [of s "tmp_sibling output" s]
  by (auto simp: publish_zip_def Let_def differs_only_at_unlink differs_only_at_def fs.content_unlink fs.content_put
      split: if_splits intro!: ext)

lemma publish_zip_done:
  assumes "publish_zip fails partial output archive s = (Inr u, states)" "s (tmp_sibling output) = None"
  shows "hd states = s(output := Some archive)"
    "\<forall>st \<in> set (tl states). differs_only_at (tmp_sibling output) s st" "states \<noteq> []"
  using assms differs_only_at_replace [OF _ tmp_sibling_neq(1), of s _ "fs_put (tmp_sibling output) archive s" archive]
  by (auto simp: publish_zip_def Let_def fs_put_def differs_only_at_def split: if_splits)

section \<open>The steps of a build\<close>

text \<open>\<open>make-boot-initrd.sh\<close> adds the boot initramfs and leaves the other files alone.\<close>

definition initrd_contract :: "bundle_env \<Rightarrow> bool" where
  "initrd_contract env \<longleftrightarrow>
     (\<forall>files files'. ev_initrd env files = Inr files' \<longrightarrow>
        (distinct (map fst files) \<longrightarrow> distinct (map fst files')) \<and>
        (\<exists>b. map_of files' = (map_of files)(''image/bootinitramfs.gz'' \<mapsto> b)))"

definition IMAGE_FILES :: "path list" where
  "IMAGE_FILES =
     [''image/restoreinitramfs.gz'', ''image/rootfs.ext2'', ''image/vmlinux'', ''image/bzImage'',
      ''image/bootinitramfs.gz'', ''image/zd-payload.tar.gz'']"

definition BUNDLE_FILES :: "path list" where
  "BUNDLE_FILES = REPO_FILES @ HOST_FILES @ IMAGE_FILES @ [''README-FIRST.md'', ''build-report.json'']"

lemma generated_not_copied:
  "set (IMAGE_FILES @ [''README-FIRST.md'', ''build-report.json'']) \<inter> set (REPO_FILES @ HOST_FILES) = {}"
  by code_simp

lemma open_input_Inr:
  assumes "open_input env r input = Inr (archive, kind)"
  shows "case kind of
      DecryptedGzipTar \<Rightarrow> take 3 input = GZIP_MAGIC \<and> archive = input
    | EncryptedTac \<Rightarrow> rl_encrypted_sha256 r = Some (ev_sha256 env input) \<and>
        (\<exists>plain. decrypt_bytes input = Inr plain \<and> archive = take (length plain - tac_padding plain) plain)"
proof (cases "take 3 input = GZIP_MAGIC")
  case True
  with assms show ?thesis by (auto simp: open_input_def)
next
  case False
  let ?s = "[''input'' \<mapsto> input] :: store"
  obtain res states where run:
    "decrypt_file no_failure ''decrypted.tmp'' ''input'' ''decrypted.img.tgz'' ?s = (res, states)"
    by (metis surj_pair)
  from assms False run obtain w where w: "res = Inr w" "hd states ''decrypted.img.tgz'' = Some archive"
    "kind = EncryptedTac" "rl_encrypted_sha256 r = Some (ev_sha256 env input)"
    by (auto simp: open_input_def bindE_Inr_iff verify_encrypted_input_def split: sum.splits option.splits if_splits)
  from decrypt_file_Inr [OF run [unfolded w(1)]] obtain plain where "decrypt_bytes input = Inr plain"
    "w = length plain - tac_padding plain" "hd states = ?s(''decrypted.img.tgz'' := Some (take w plain))"
    by auto
  with w show ?thesis by auto
qed

lemma extract_verified_archive_Inr:
  assumes "extract_verified_archive env r archive = Inr v"
  shows "\<exists>members names. rl_decrypted_sha256 r = Some (ev_sha256 env archive) \<and>
    ev_untar env archive = Some members \<and> list_all member_allowed members \<and> distinct names \<and>
    list_all2 (\<lambda>m n. safe_member_name (tm_name m) = Inr n) members names \<and>
    rstrip_slash ` set (rl_required_paths r) \<subseteq> set names \<and>
    ev_unpack env archive = Inr v \<and> vn_files v ''metadata'' \<noteq> None"
proof -
  from assms obtain members count metadata where v: "rl_decrypted_sha256 r = Some (ev_sha256 env archive)"
    "ev_untar env archive = Some members" "check_archive r members = Inr (count, metadata)"
    "ev_unpack env archive = Inr v" "vn_files v ''metadata'' \<noteq> None"
    by (auto simp: extract_verified_archive_def verify_decrypted_archive_def bindE_Inr_iff
        split: option.splits if_splits)
  from check_archive_Inr [OF v(3)] v show ?thesis by blast
qed

lemma patch_kernel_Inr:
  assumes "patch_kernel cat dz gz sha256 source = Inr (kern, payload, log)"
  obtains ctx patched changed reports where
    "extract_artifact cat dz source ''zd1200_kernel_elf'' = Inr (payload, ctx)"
    "apply_artifact cat payload ''zd1200_kernel_elf'' = Inr (patched, changed, reports)"
    "rebuild_artifact cat gz source patched ''zd1200_kernel_elf'' ctx = Inr kern"
    "log = map KernelEngine reports @ [KernelDigest (sha256 kern), KernelChanged changed]"
  using assms by (auto simp: patch_kernel_def bindE_Inr_iff)

lemma assemble_Inr:
  assumes "assemble cat env opts r repo input = Inr (files, report)"
  obtains archive kind v base kern log models status warnings vfiles payload names where
    "open_input env r input = Inr (archive, kind)" "extract_verified_archive env r archive = Inr v"
    "base_bundle cat env repo v = Inr (base, kern, log)"
    "scorpion_step cat env opts r v = Inr (models, status, warnings, vfiles)"
    "make_payload (ev_tgz env) r (vn_tree v) vfiles = Inr payload" "kernel_rule_names cat = Inr names"
    "report = \<lparr>br_release_id = rl_release_id r, br_input_kind = kind,
       br_input_sha256 = ev_sha256 env input, br_decrypted_sha256 = ev_sha256 env archive,
       br_kernel_rules = names, br_kernel_sha256 = ev_sha256 env kern,
       br_kernel_messages = log, br_scorpion = status, br_warnings = warnings\<rparr>"
    "files = put_file ''build-report.json'' (ev_json env report)
       (put_file ''README-FIRST.md'' (first_readme r models) (put_file ''image/zd-payload.tar.gz'' payload base))"
  using assms unfolding assemble_def
  by - (erule bindE_pairE, erule bindE_InrE, erule bindE_tripleE, erule bindE_quadE, erule bindE_InrE,
    erule bindE_InrE, simp only: Let_def sum.inject prod.inject, elim conjE, rule that, assumption+,
    erule sym, simp only:)

lemma base_bundle_Inr:
  assumes "base_bundle cat env repo v = Inr (base, kern, log)" "initrd_contract env"
  obtains copied initramfs rootfs bz vmlinux boot where
    "copy_tree_safe repo [] = Inr copied" "vn_files v ''bzImage'' = Some bz"
    "patch_kernel cat (ev_gunzip env) (ev_gzip env) (ev_sha256 env) bz = Inr (kern, vmlinux, log)"
    "distinct (map fst base)"
    "map_of base = (map_of copied)(''image/restoreinitramfs.gz'' \<mapsto> initramfs, ''image/rootfs.ext2'' \<mapsto> rootfs,
       ''image/vmlinux'' \<mapsto> vmlinux, ''image/bzImage'' \<mapsto> kern, ''image/bootinitramfs.gz'' \<mapsto> boot)"
    "vn_files v ''restoreinitramfs.gz'' = Some initramfs"
    "vn_files v ''rootfs.i386.ext2.director1200.img'' = Some rootfs"
proof -
  obtain copied initramfs rootfs bz vmlinux where
    b: "copy_tree_safe repo [] = Inr copied" "vendor_file v ''restoreinitramfs.gz'' = Inr initramfs"
      "vendor_file v ''rootfs.i386.ext2.director1200.img'' = Inr rootfs" "vendor_file v ''bzImage'' = Inr bz"
      "patch_kernel cat (ev_gunzip env) (ev_gzip env) (ev_sha256 env) bz = Inr (kern, vmlinux, log)"
    and i: "ev_initrd env
              (put_file ''image/bzImage'' kern
                (put_file ''image/vmlinux'' vmlinux
                  (put_file ''image/rootfs.ext2'' rootfs
                    (put_file ''image/restoreinitramfs.gz'' initramfs copied)))) = Inr base"
    using assms(1) unfolding base_bundle_def
    by - (erule bindE_InrE, erule bindE_InrE, erule bindE_InrE, erule bindE_InrE, erule bindE_tripleE,
      erule bindE_InrE, simp only: sum.inject prod.inject)
  from b(2-4) have f: "vn_files v ''restoreinitramfs.gz'' = Some initramfs"
    "vn_files v ''rootfs.i386.ext2.director1200.img'' = Some rootfs" "vn_files v ''bzImage'' = Some bz"
    by (auto simp: vendor_file_def split: option.splits)
  let ?before = "put_file ''image/bzImage'' kern
      (put_file ''image/vmlinux'' vmlinux
        (put_file ''image/rootfs.ext2'' rootfs
          (put_file ''image/restoreinitramfs.gz'' initramfs copied)))"
  have "distinct (map fst ?before)"
    by (intro distinct_put_file copy_tree_safe_Inr(2) [OF b(1)])
  with assms(2) i have d: "distinct (map fst base)" unfolding initrd_contract_def by blast
  from assms(2) i obtain boot where "map_of base = (map_of ?before)(''image/bootinitramfs.gz'' \<mapsto> boot)"
    unfolding initrd_contract_def by blast
  then have "map_of base = (map_of copied)(''image/restoreinitramfs.gz'' \<mapsto> initramfs, ''image/rootfs.ext2'' \<mapsto> rootfs,
       ''image/vmlinux'' \<mapsto> vmlinux, ''image/bzImage'' \<mapsto> kern, ''image/bootinitramfs.gz'' \<mapsto> boot)"
    unfolding map_of_put_file .
  then show thesis by (rule that [OF b(1) f(3) b(5) d _ f(1,2)])
qed

lemma build_bundle_Inr:
  assumes "build_bundle cat env fails partial opts r repo input output s = (Inr (report, digest), states)"
  obtains files where "check_bundle_options opts = Inr ()" "assemble cat env opts r repo input = Inr (files, report)"
    "publish_zip fails partial output (ev_zip env (sorted_bundle files)) s = (Inr (), states)"
    "digest = ev_sha256 env (ev_zip env (sorted_bundle files))"
  using assms
  by (auto simp: build_bundle_def Let_def bindE_Inr_iff split: sum.splits prod.splits)

section \<open>Properties\<close>

text \<open>
  The copy of the repository's files is complete: it succeeds exactly when every listed file exists,
  and the bundle then has one file for each listed name, with the contents in the repository, and no
  other.  A missing listed file is a usage error; a missing host helper is the error of the copy.
\<close>

theorem copy_tree_exact:
  "case copy_tree_safe repo [] of
     Inr files \<Rightarrow> distinct (map fst files) \<and> map_of files = repo |` set (REPO_FILES @ HOST_FILES) \<and>
       None \<notin> repo ` set (REPO_FILES @ HOST_FILES)
   | Inl e \<Rightarrow> (None \<in> repo ` set REPO_FILES \<and> e = ValueError ''repository file missing'') \<or>
       (None \<notin> repo ` set REPO_FILES \<and> None \<in> repo ` set HOST_FILES \<and> e = OSError ''copy'')"
proof (cases "copy_tree_safe repo []")
  case (Inl e)
  have "(\<exists>p \<in> A. repo p = None) \<longleftrightarrow> None \<in> repo ` A" for A by (metis image_iff)
  with Inl copy_tree_safe_Inl [of repo e] show ?thesis by auto
next
  case (Inr files)
  note c = copy_tree_safe_Inr [OF Inr]
  from c(3) have "None \<notin> repo ` set (REPO_FILES @ HOST_FILES)" by (metis image_iff)
  with c(1,2) Inr show ?thesis by simp
qed



text \<open>
  The options decide what happens to the AP payload exactly as this table says: it is transformed with
  an override image alone, or with both tools and, in automatic mode, for a release that needs it; it is
  left alone with no tool and no override, or in automatic mode for a release that does not need it; every
  other combination is a usage error.  So whenever it is transformed there is exactly one source for it.
\<close>

theorem bundle_options_exact:
  "bindE (check_bundle_options opts) (\<lambda>_. choose_scorpion opts r) =
     (case (bo_r600_bl7 opts, bo_unsquashfs opts, bo_mksquashfs opts, bo_auto_r600_mesh opts) of
        (Some bl7, False, False, False) \<Rightarrow> Inr True
      | (Some bl7, False, False, True) \<Rightarrow>
          Inl (ValueError ''--auto-r600-mesh cannot be combined with --r600-bl7'')
      | (Some bl7, _, _, _) \<Rightarrow> Inl (ValueError ''--r600-bl7 cannot be combined with SquashFS tool paths'')
      | (None, True, True, automatic) \<Rightarrow> Inr (if automatic then mesh_repair_supported r else True)
      | (None, False, False, automatic) \<Rightarrow>
          if automatic \<and> mesh_repair_supported r then
            Inl (ValueError ''--auto-r600-mesh requires both SquashFS tool paths'')
          else Inr False
      | (None, _, _, _) \<Rightarrow> Inl (ValueError ''--unsquashfs and --mksquashfs must be supplied together''))"
  by (cases "bo_r600_bl7 opts"; cases "bo_unsquashfs opts"; cases "bo_mksquashfs opts"; cases "bo_auto_r600_mesh opts")
     (simp_all add: check_bundle_options_def choose_scorpion_def)

section \<open>A whole build\<close>

text \<open>A small build: a plain archive, no AP payload tools, and the test kernel of the artifact theory.\<close>

definition demo_release :: release where
  "demo_release = sample_release\<lparr>rl_decrypted_sha256 := Some (replicate 64 CHR ''b'')\<rparr>"

definition demo_vendor :: vendor where
  "demo_vendor = \<lparr>vn_tree = [(''metadata'', VFile), (''firmwares'', VDir), (''ap-models'', VDir),
       (''file_list.txt'', VFile)],
     vn_view = [], vn_files = (\<lambda>p. Some (if p = ''bzImage'' then sample_image else [1]))\<rparr>"

definition demo_env :: bundle_env where
  "demo_env = \<lparr>ev_sha256 = (\<lambda>_. replicate 64 CHR ''b''), ev_md5 = (\<lambda>_. []), ev_gunzip = toy_gunzip,
     ev_gzip = toy_gzip, ev_untar = (\<lambda>_. Some archive_members), ev_unpack = (\<lambda>_. Inr demo_vendor),
     ev_initrd = (\<lambda>files. Inr (put_file ''image/bootinitramfs.gz'' [2] files)),
     ev_tools = \<lparr>sq_extract = (\<lambda>_. Inl (ProcessError ''unsquashfs'')), sq_make = (\<lambda>_. Inl (ProcessError ''mksquashfs''))\<rparr>,
     ev_tgz = (\<lambda>_. [3]), ev_json = (\<lambda>_. [4]), ev_zip = (\<lambda>files. concat (map snd files))\<rparr>"

definition demo_options :: bundle_options where
  "demo_options = \<lparr>bo_unsquashfs = False, bo_mksquashfs = False, bo_r600_bl7 = None, bo_auto_r600_mesh = False\<rparr>"

definition demo_input :: bytes where
  "demo_input = [0x1F, 0x8B, 8, 1]"

lemma demo_initrd: "initrd_contract demo_env"
  by (auto simp: initrd_contract_def demo_env_def)

lemma demo_steps:
  "open_input demo_env demo_release demo_input = Inr (demo_input, DecryptedGzipTar)"
  "extract_verified_archive demo_env demo_release demo_input = Inr demo_vendor"
  "\<exists>files. copy_tree_safe (\<lambda>_. Some [9]) [] = Inr files"
  "\<exists>log. patch_kernel sample_kernel_catalog toy_gunzip toy_gzip (ev_sha256 demo_env) sample_image =
     Inr ([7, 0x1F, 0x8B, 8, 9] @ toy_gzip [0x7F, 0x45, 0x4C, 0x46, 1, 0xCC, 5, 0xBB] @ [0, 0, 3], sample_elf, log)"
  "\<exists>warnings status. scorpion_step sample_kernel_catalog demo_env demo_options demo_release demo_vendor =
     Inr (None, status, warnings, vn_files demo_vendor)"
  "make_payload (ev_tgz demo_env) demo_release (vn_tree demo_vendor) (vn_files demo_vendor) = Inr [3]"
  "kernel_rule_names sample_kernel_catalog = Inr [''first'']"
proof -
  show "open_input demo_env demo_release demo_input = Inr (demo_input, DecryptedGzipTar)"
    by (simp add: open_input_def demo_input_def GZIP_MAGIC_def)
  have "map_sum (\<lambda>_. ()) (\<lambda>_. ()) (verify_decrypted_archive (\<lambda>_. replicate 64 CHR ''b'') (\<lambda>_. Some archive_members)
      demo_input demo_release) = Inr ()" by code_simp
  then obtain x where "verify_decrypted_archive (ev_sha256 demo_env) (ev_untar demo_env) demo_input demo_release = Inr x"
    by (cases "verify_decrypted_archive (ev_sha256 demo_env) (ev_untar demo_env) demo_input demo_release")
      (auto simp: demo_env_def)
  then show "extract_verified_archive demo_env demo_release demo_input = Inr demo_vendor"
    by (simp add: extract_verified_archive_def) (simp add: demo_env_def demo_vendor_def)
  show "\<exists>files. copy_tree_safe (\<lambda>_. Some [9]) [] = Inr files"
    using copy_tree_safe_Inl [of "\<lambda>_. Some [9]"] by (cases "copy_tree_safe (\<lambda>_. Some [9]) []") auto
  from sample_main obtain payload ctx payload' log where
    "extract_artifact sample_kernel_catalog toy_gunzip sample_image ''zd1200_kernel_elf'' = Inr (payload, ctx)"
    "apply_artifact sample_kernel_catalog payload ''zd1200_kernel_elf'' = Inr (payload', True, log)"
    "rebuild_artifact sample_kernel_catalog toy_gzip sample_image payload' ''zd1200_kernel_elf'' ctx =
      Inr ([7, 0x1F, 0x8B, 8, 9] @ toy_gzip [0x7F, 0x45, 0x4C, 0x46, 1, 0xCC, 5, 0xBB] @ [0, 0, 3])"
    by (rule patch_main_Inr)
  moreover have "extract_artifact sample_kernel_catalog toy_gunzip sample_image ''zd1200_kernel_elf'' =
      Inr (sample_elf, Some (5, 40))"
    by (simp add: extract_artifact_def sample_kernel_catalog_def sample_member)
  ultimately show "\<exists>log. patch_kernel sample_kernel_catalog toy_gunzip toy_gzip (ev_sha256 demo_env) sample_image =
      Inr ([7, 0x1F, 0x8B, 8, 9] @ toy_gzip [0x7F, 0x45, 0x4C, 0x46, 1, 0xCC, 5, 0xBB] @ [0, 0, 3], sample_elf, log)"
    by (simp add: patch_kernel_def)
  show "\<exists>warnings status. scorpion_step sample_kernel_catalog demo_env demo_options demo_release demo_vendor =
      Inr (None, status, warnings, vn_files demo_vendor)"
    by (simp add: scorpion_step_def choose_scorpion_def demo_options_def)
  have "make_payload (\<lambda>_. [3]) demo_release (vn_tree demo_vendor) (vn_files demo_vendor) = Inr [3]"
    by code_simp
  then show "make_payload (ev_tgz demo_env) demo_release (vn_tree demo_vendor) (vn_files demo_vendor) = Inr [3]"
    by (simp add: demo_env_def)
  show "kernel_rule_names sample_kernel_catalog = Inr [''first'']" by code_simp
qed

lemma demo_assemble:
  "\<exists>files report. assemble sample_kernel_catalog demo_env demo_options demo_release (\<lambda>_. Some [9]) demo_input = Inr (files, report)"
proof -
  obtain copied where c: "copy_tree_safe (\<lambda>_. Some [9]) [] = Inr copied" using demo_steps(3) by blast
  obtain kern payload log where k: "patch_kernel sample_kernel_catalog toy_gunzip toy_gzip (ev_sha256 demo_env) sample_image =
      Inr (kern, payload, log)" using demo_steps(4) by blast
  obtain warnings status where w: "scorpion_step sample_kernel_catalog demo_env demo_options demo_release demo_vendor =
      Inr (None, status, warnings, vn_files demo_vendor)" using demo_steps(5) by blast
  have f: "vendor_file demo_vendor p = Inr (if p = ''bzImage'' then sample_image else [1])" for p
    by (simp add: vendor_file_def demo_vendor_def)
  have e: "ev_gunzip demo_env = toy_gunzip" "ev_gzip demo_env = toy_gzip"
    "ev_initrd demo_env = (\<lambda>files. Inr (put_file ''image/bootinitramfs.gz'' [2] files))"
    by (simp_all add: demo_env_def)
  have "\<exists>base. base_bundle sample_kernel_catalog demo_env (\<lambda>_. Some [9]) demo_vendor = Inr (base, kern, log)"
    by (simp add: base_bundle_def c f k e)
  then show ?thesis
    using demo_steps(1,2,6,7) w by (auto simp: assemble_def Let_def)
qed

lemma demo_build:
  obtains files report digest states where
    "assemble sample_kernel_catalog demo_env demo_options demo_release (\<lambda>_. Some [9]) demo_input = Inr (files, report)"
    "build_bundle sample_kernel_catalog demo_env (\<lambda>_. False) [] demo_options demo_release (\<lambda>_. Some [9])
       demo_input ''/out.zip'' Map.empty = (Inr (report, digest), states)"
proof -
  obtain files report where a: "assemble sample_kernel_catalog demo_env demo_options demo_release
      (\<lambda>_. Some [9]) demo_input = Inr (files, report)" using demo_assemble by blast
  have "check_bundle_options demo_options = Inr ()"
    by (simp add: check_bundle_options_def demo_options_def)
  with a have "\<exists>digest states. build_bundle sample_kernel_catalog demo_env (\<lambda>_. False) [] demo_options demo_release
      (\<lambda>_. Some [9]) demo_input ''/out.zip'' Map.empty = (Inr (report, digest), states)"
    by (simp add: build_bundle_def Let_def publish_zip_def)
  with a show thesis by (elim exE) (rule that)
qed

section \<open>Properties of a build\<close>



lemma assembled_contents:
  assumes run: "assemble cat env opts r repo input = Inr (files, report)" and initrd: "initrd_contract env"
  shows "distinct (map fst files) \<and> fst ` set files = set BUNDLE_FILES \<and>
    map_of files |` set (REPO_FILES @ HOST_FILES) = repo |` set (REPO_FILES @ HOST_FILES) \<and>
    map_of files ''build-report.json'' = Some (ev_json env report)"
proof -
  from run obtain v base kern log models payload where
    b: "base_bundle cat env repo v = Inr (base, kern, log)"
    and fs: "files = put_file ''build-report.json'' (ev_json env report)
       (put_file ''README-FIRST.md'' (first_readme r models) (put_file ''image/zd-payload.tar.gz'' payload base))"
    by (rule assemble_Inr)
  from b initrd obtain copied initramfs rootfs vmlinux boot where c: "copy_tree_safe repo [] = Inr copied"
    and d: "distinct (map fst base)"
    and base: "map_of base = (map_of copied)(''image/restoreinitramfs.gz'' \<mapsto> initramfs,
       ''image/rootfs.ext2'' \<mapsto> rootfs, ''image/vmlinux'' \<mapsto> vmlinux, ''image/bzImage'' \<mapsto> kern,
       ''image/bootinitramfs.gz'' \<mapsto> boot)"
    by (rule base_bundle_Inr)
  let ?C = "set (REPO_FILES @ HOST_FILES)"
  have m: "map_of files = (repo |` ?C)(''image/restoreinitramfs.gz'' \<mapsto> initramfs,
       ''image/rootfs.ext2'' \<mapsto> rootfs, ''image/vmlinux'' \<mapsto> vmlinux, ''image/bzImage'' \<mapsto> kern,
       ''image/bootinitramfs.gz'' \<mapsto> boot, ''image/zd-payload.tar.gz'' \<mapsto> payload,
       ''README-FIRST.md'' \<mapsto> first_readme r models, ''build-report.json'' \<mapsto> ev_json env report)"
    unfolding fs map_of_put_file base copy_tree_safe_Inr(1) [OF c] ..
  have repo: "dom (repo |` ?C) = ?C"
    using copy_tree_safe_Inr(3) [OF c] by auto
  have "dom (map_of files) = set BUNDLE_FILES"
    unfolding m dom_fun_upd repo BUNDLE_FILES_def IMAGE_FILES_def by auto
  moreover have "map_of files |` ?C = repo |` ?C"
    using generated_not_copied unfolding m IMAGE_FILES_def by (auto simp: restrict_map_def fun_eq_iff)
  moreover have "distinct (map fst files)" unfolding fs by (intro distinct_put_file d)
  moreover have "map_of files ''build-report.json'' = Some (ev_json env report)" unfolding m by simp
  ultimately show ?thesis by (simp add: dom_map_of_conv_image_fst)
qed



text \<open>A rule is settled in a file when a patched site is found nowhere and a validated one exactly once.\<close>

definition settled :: "bytes \<Rightarrow> patch_rule \<Rightarrow> bool" where
  "settled fin rule \<longleftrightarrow>
     (\<exists>sig. parse_masked_hex (pr_signature_hex rule) = Inr sig \<and>
        (if pr_replacement_hex rule = None then \<exists>!i. matches_at fin i sig else \<forall>i. \<not> matches_at fin i sig))"

lemma apply_rules_settled:
  assumes "apply_rules src rules = Inr (fin, changed, log)" "rule \<in> set rules"
  shows "settled fin rule"
proof -
  from assms have "verify_rule fin rule = Inr ()" by (auto elim: apply_rules_Inr)
  then obtain sig where sig: "parse_masked_hex (pr_signature_hex rule) = Inr sig"
    by (auto simp: verify_rule_def bindE_Inr_iff)
  from apply_rules_post [OF assms sig] sig show ?thesis by (auto simp: settled_def split: option.splits)
qed

lemma assembled_kernel:
  assumes run: "assemble cat env opts r repo input = Inr (files, report)" and initrd: "initrd_contract env"
  shows "\<exists>archive v bz kern original ctx patched changed log.
    ev_unpack env archive = Inr v \<and> vn_files v ''bzImage'' = Some bz \<and>
    extract_artifact cat (ev_gunzip env) bz ''zd1200_kernel_elf'' = Inr (original, ctx) \<and>
    apply_artifact cat original ''zd1200_kernel_elf'' = Inr (patched, changed, log) \<and>
    rebuild_artifact cat (ev_gzip env) bz patched ''zd1200_kernel_elf'' ctx = Inr kern \<and>
    map_of files ''image/bzImage'' = Some kern \<and> map_of files ''image/vmlinux'' = Some original \<and>
    br_kernel_sha256 report = ev_sha256 env kern \<and> kernel_rule_names cat = Inr (br_kernel_rules report)"
proof -
  from run obtain archive v base kern klog models payload names where
    x: "extract_verified_archive env r archive = Inr v" "base_bundle cat env repo v = Inr (base, kern, klog)"
      "kernel_rule_names cat = Inr names" "br_kernel_rules report = names" "br_kernel_sha256 report = ev_sha256 env kern"
    and fs: "files = put_file ''build-report.json'' (ev_json env report)
       (put_file ''README-FIRST.md'' (first_readme r models) (put_file ''image/zd-payload.tar.gz'' payload base))"
    by (rule assemble_Inr) simp
  from x(2) initrd obtain copied initramfs rootfs bz original boot where bz: "vn_files v ''bzImage'' = Some bz"
    and k: "patch_kernel cat (ev_gunzip env) (ev_gzip env) (ev_sha256 env) bz = Inr (kern, original, klog)"
    and base: "map_of base = (map_of copied)(''image/restoreinitramfs.gz'' \<mapsto> initramfs,
       ''image/rootfs.ext2'' \<mapsto> rootfs, ''image/vmlinux'' \<mapsto> original, ''image/bzImage'' \<mapsto> kern,
       ''image/bootinitramfs.gz'' \<mapsto> boot)"
    by (rule base_bundle_Inr)
  from k obtain ctx patched changed log where
    e: "extract_artifact cat (ev_gunzip env) bz ''zd1200_kernel_elf'' = Inr (original, ctx)"
      "apply_artifact cat original ''zd1200_kernel_elf'' = Inr (patched, changed, log)"
      "rebuild_artifact cat (ev_gzip env) bz patched ''zd1200_kernel_elf'' ctx = Inr kern"
    by (rule patch_kernel_Inr)
  have unpack: "ev_unpack env archive = Inr v"
    using extract_verified_archive_Inr [OF x(1)] by blast
  have names: "map_of files ''image/bzImage'' = Some kern" "map_of files ''image/vmlinux'' = Some original"
    unfolding fs map_of_put_file base by simp_all
  have rules: "kernel_rule_names cat = Inr (br_kernel_rules report)" using x(3,4) by simp
  show ?thesis
    by (rule exI [of _ archive], rule exI [of _ v], rule exI [of _ bz], rule exI [of _ kern],
        rule exI [of _ original], rule exI [of _ ctx], rule exI [of _ patched], rule exI [of _ changed],
        rule exI [of _ log], intro conjI)
      (fact unpack bz e names x(5) rules)+
qed



section \<open>The command\<close>

lemma usage_error_Inl: "usage_error result = Inl e \<Longrightarrow> e \<notin> range ValueError \<and> e \<noteq> UnicodeError"
  by (auto simp: usage_error_def split: sum.splits exn.splits)

lemma usage_error_Inr: "usage_error result = Inr y \<longleftrightarrow> result = Inr y"
  by (auto simp: usage_error_def split: sum.splits exn.splits)

lemma select_release_Inr:
  assumes "select_release env releases release_id input = Inr r"
  shows "r \<in> set releases \<and>
    (if release_id = [] then records_digest (ev_sha256 env input) r else rl_release_id r = release_id)"
proof (cases "release_id = []")
  case True
  with assms have "filter (records_digest (ev_sha256 env input)) releases = [r]"
    by (auto simp: select_release_def release_by_input_sha256_def split: list.splits)
  then have "r \<in> set (filter (records_digest (ev_sha256 env input)) releases)" by simp
  with True show ?thesis by simp
next
  case False
  with assms release_by_id_sound show ?thesis by (auto simp: select_release_def)
qed

lemma build_bundle_Inl:
  assumes "build_bundle cat env fails partial opts r repo input output s = (Inl e, states)"
    and "s (tmp_sibling output) = None" "\<not> fails ZipUnlink"
  shows "hd states = s"
  using assms publish_zip_error(2) [where fails = fails and s = s]
  by (auto simp: build_bundle_def Let_def split: sum.splits prod.splits)

lemma bundle_main_cases:
  assumes "bundle_main cat env fails partial opts releases release_id repo input output s = (result, states)"
  obtains e where "result = usage_error (Inl e)" "states = [s]"
  | data r raw where "s input = Some data" "select_release env releases release_id data = Inr r"
      "build_bundle cat env fails partial opts r repo data output s = (raw, states)" "result = usage_error raw"
proof (cases "s input")
  case None
  with assms have "result = usage_error (Inl (SystemExit ''2''))" "states = [s]"
    by (auto simp: bundle_main_def usage_error_def)
  then show thesis by (rule that(1))
next
  case (Some data)
  show thesis
  proof (cases "select_release env releases release_id data")
    case (Inl e)
    with assms Some have "result = usage_error (Inl e)" "states = [s]" by (auto simp: bundle_main_def)
    then show thesis by (rule that(1))
  next
    case (Inr r)
    with assms Some show thesis
      by (cases "build_bundle cat env fails partial opts r repo data output s")
        (auto simp: bundle_main_def intro: that(2))
  qed
qed

text \<open>
  The command never ends with a \<open>ValueError\<close>: it reports a digest or stops, and when it stops the store is
  as it was, unless removing the temporary file failed.  A report is for a listed release: the one named
  on the command line, or one that records the digest of the input.
\<close>

theorem bundle_main_outcome:
  assumes run: "bundle_main cat env fails partial opts releases release_id repo input output s = (result, states)"
    and tmp: "s (tmp_sibling output) = None"
  shows "case result of
      Inl e \<Rightarrow> e \<notin> range ValueError \<and> e \<noteq> UnicodeError \<and> (fails ZipUnlink \<or> hd states = s)
    | Inr (report, digest) \<Rightarrow> \<exists>data r archive. s input = Some data \<and> r \<in> set releases \<and>
        br_release_id report = rl_release_id r \<and> br_input_sha256 report = ev_sha256 env data \<and>
        (if release_id = [] then records_digest (ev_sha256 env data) r else rl_release_id r = release_id) \<and>
        hd states = s(output \<mapsto> archive) \<and> digest = ev_sha256 env archive"
proof (cases result)
  case (Inl e)
  from run show ?thesis
  proof (cases rule: bundle_main_cases)
    case (1 e')
    with Inl usage_error_Inl [of "Inl e'" e] show ?thesis by simp
  next
    case (2 data r raw)
    have "raw \<noteq> Inr x" for x using 2(4) Inl usage_error_Inr [of raw x] by auto
    then obtain e' where e': "raw = Inl e'" by (cases raw) auto
    from 2(4) Inl usage_error_Inl [of raw e] have "e \<notin> range ValueError \<and> e \<noteq> UnicodeError" by simp
    moreover have "fails ZipUnlink \<or> hd states = s"
      using build_bundle_Inl [OF 2(3) [unfolded e'] tmp] by blast
    ultimately show ?thesis using Inl by simp
  qed
next
  case (Inr out)
  obtain report digest where out: "out = (report, digest)" by (cases out)
  from run show ?thesis
  proof (cases rule: bundle_main_cases)
    case (2 data r raw)
    with Inr out have b: "build_bundle cat env fails partial opts r repo data output s = (Inr (report, digest), states)"
      by (metis usage_error_Inr)
    then obtain files where f: "assemble cat env opts r repo data = Inr (files, report)"
      "publish_zip fails partial output (ev_zip env (sorted_bundle files)) s = (Inr (), states)"
      "digest = ev_sha256 env (ev_zip env (sorted_bundle files))" by (rule build_bundle_Inr)
    from f(1) have "br_release_id report = rl_release_id r" "br_input_sha256 report = ev_sha256 env data"
      by (rule assemble_Inr; simp)+
    with 2(1) select_release_Inr [OF 2(2)] publish_zip_done(1) [OF f(2) tmp] f(3) show ?thesis
      unfolding Inr out sum.case prod.case
      by (intro exI [of _ data] exI [of _ r] exI [of _ "ev_zip env (sorted_bundle files)"]) simp
  next
    case (1 e)
    then have "result \<noteq> Inr out" using usage_error_Inr [of "Inl e" out] by simp
    then show ?thesis using Inr by simp
  qed
qed

theorem bundle_main_outcome_witness:
  "\<exists>report digest states. bundle_main sample_kernel_catalog demo_env (\<lambda>_. False) [] demo_options [demo_release] []
     (\<lambda>_. Some [9]) ''/in.tgz'' ''/out.zip'' [''/in.tgz'' \<mapsto> demo_input] = (Inr (report, digest), states) \<and>
   br_release_id report = ''zd_a'' \<and> hd states ''/in.tgz'' = Some demo_input"
proof -
  let ?s = "[''/in.tgz'' \<mapsto> demo_input] :: store"
  obtain files report where a: "assemble sample_kernel_catalog demo_env demo_options demo_release
      (\<lambda>_. Some [9]) demo_input = Inr (files, report)" using demo_assemble by blast
  have o: "check_bundle_options demo_options = Inr ()"
    by (simp add: check_bundle_options_def demo_options_def)
  have "records_digest (ev_sha256 demo_env demo_input) demo_release"
    by (simp add: records_digest_def demo_env_def demo_release_def)
  then have "select_release demo_env [demo_release] [] demo_input = Inr demo_release"
    by (simp add: select_release_def release_by_input_sha256_def)
  with a o obtain digest states where run: "bundle_main sample_kernel_catalog demo_env (\<lambda>_. False) [] demo_options
      [demo_release] [] (\<lambda>_. Some [9]) ''/in.tgz'' ''/out.zip'' ?s = (Inr (report, digest), states)"
    by (simp add: bundle_main_def build_bundle_def Let_def publish_zip_def usage_error_def)
  have tmp: "?s (tmp_sibling ''/out.zip'') = None" by (simp add: tmp_sibling_def)
  obtain r archive where "r \<in> set [demo_release]" "br_release_id report = rl_release_id r"
    "hd states = ?s(''/out.zip'' \<mapsto> archive)"
    using bundle_main_outcome [OF run tmp, unfolded sum.case prod.case] by (elim exE conjE) (rule that)
  then have "br_release_id report = rl_release_id demo_release" "hd states ''/in.tgz'' = Some demo_input"
    by simp_all
  moreover have "rl_release_id demo_release = ''zd_a''"
    by (simp add: demo_release_def sample_release_def)
  ultimately show ?thesis using run by auto
qed

section \<open>What the bundle lacks\<close>

text \<open>
  The README of the bundle tells the operator to run \<open>docker compose build\<close> in it.  The Dockerfile it contains
  copies these three files from its directory, and the runtime preparation script it contains runs the
  other two; none of them is in any bundle.
\<close>

definition DOCKER_SOURCES :: "path list" where
  "DOCKER_SOURCES =
     [''analytics/zd1200-ping-monitor.c'', ''analytics/zd1200-ping-export.c'', ''analytics/zd1200-local-getstat.c'']"

definition PREPARE_SOURCES :: "path list" where
  "PREPARE_SOURCES = [''resolve-source-revision.sh'', ''build_zd1200_bundle.py'']"

theorem bundle_lacks_build_inputs:
  assumes "assemble cat env opts r repo input = Inr (files, report)" "initrd_contract env"
  shows "{''Dockerfile'', ''docker-compose.yml'', ''prepare-compose-runtime.sh''} \<subseteq> fst ` set files"
    and "set (DOCKER_SOURCES @ PREPARE_SOURCES) \<inter> fst ` set files = {}"
proof -
  have f: "fst ` set files = set BUNDLE_FILES" using assembled_contents [OF assms] by blast
  have "set (DOCKER_SOURCES @ PREPARE_SOURCES) \<inter> set BUNDLE_FILES = {}" by code_simp
  then show "set (DOCKER_SOURCES @ PREPARE_SOURCES) \<inter> fst ` set files = {}" unfolding f .
  have "{''Dockerfile'', ''docker-compose.yml'', ''prepare-compose-runtime.sh''} \<subseteq> set BUNDLE_FILES"
    by code_simp
  then show "{''Dockerfile'', ''docker-compose.yml'', ''prepare-compose-runtime.sh''} \<subseteq> fst ` set files" unfolding f .
qed

end
