(* ===== verification/RuntimeKernel.thy ===== *)
theory RuntimeKernel
imports Repatch BundleProperties
begin

text \<open>
  From the build to the start: \<open>run-zd1200-web.sh\<close> runs the patch command on the bundle's
  \<open>image/bzImage\<close>, which the builder has patched already, and gives it the bundle's
  \<open>image/vmlinux\<close>, the payload from before patching, to compare with.
\<close>

definition KERNEL_ARTIFACT :: string where
  "KERNEL_ARTIFACT = ''zd1200_kernel_elf''"

text \<open>The command line of the script, on the files of the bundle: what lands in the state directory.\<close>

definition prepare_kernel ::
  "catalog \<Rightarrow> gunzip \<Rightarrow> (bytes \<Rightarrow> bytes) \<Rightarrow> bundle_files \<Rightarrow> (bytes \<times> bool \<times> vmlinux_note) result" where
  "prepare_kernel cat dz gz files =
     (case map_of files ''image/bzImage'' of
        None \<Rightarrow> Inl (OSError ''read'')
      | Some source \<Rightarrow> patch_main cat dz gz (map_of files ''image/vmlinux'') KERNEL_ARTIFACT source)"

section \<open>Properties\<close>



end
