(* ===== verification/ShippedData.thy ===== *)
theory ShippedData
imports BundleProperties
begin

text \<open>
  The data files the tools are shipped with, \<open>binary_patch_catalog.json\<close> and \<open>release_manifest.json\<close>, as
  the JSON values they hold, what the loaders make of them, and what follows for the tools when they run
  on exactly this data.
\<close>

section \<open>The patch catalog\<close>

definition artifact_ap_11n_scorpion_wlan_ko :: json where
  "artifact_ap_11n_scorpion_wlan_ko =
     JObj [(''artifact_id'', JStr ''ap_11n_scorpion_wlan_ko''),
      (''description'', JStr ''ap-11n-scorpion firmware ELF32 big-endian MIPS wlan.ko''),
      (''handler'', JStr ''raw'')]"

definition artifact_zd1200_kernel_elf :: json where
  "artifact_zd1200_kernel_elf =
     JObj [(''artifact_id'', JStr ''zd1200_kernel_elf''),
      (''description'', JStr ''decompressed ZD1200 ELF32 little-endian x86 kernel''),
      (''handler'', JStr ''zd1200_bzimage_gzip_elf'')]"

definition patch_ap_11n_scorpion_mesh_vlan_rx :: json where
  "patch_ap_11n_scorpion_mesh_vlan_rx =
     JObj [(''artifact_id'', JStr ''ap_11n_scorpion_wlan_ko''),
      (''name'', JStr ''ap_11n_scorpion_mesh_vlan_rx''),
      (''signature_hex'', JStr ''90 42 00 0c 90 63 00 0d 00 02 12 00 00 62 18 25 34 02 81 00 54 62 ?? ?? 8e a2 01 08 8e a5 01 08 3c 02 ?? ?? 24 06 00 10 24 42 ?? ?? 00 40 f8 09 24 a4 00 02 24 05 00 02 02 00 f8 09 02 a0 20 21''),
      (''patch_offset'', JInt 20),
      (''expected_hex'', JStr ''54 62 ?? ??''),
      (''replacement_hex'', JStr ''10 00 ?? ??''),
      (''description'', JStr ''bypass destructive VLAN inner-EtherType removal'')]"

definition patch_kernel_halt :: json where
  "patch_kernel_halt =
     JObj [(''artifact_id'', JStr ''zd1200_kernel_elf''),
      (''name'', JStr ''kernel_halt''),
      (''signature_hex'', JStr ''b80200000083ec04e8????????e8????????c70424????????e8????????83c404e9????????''),
      (''patch_offset'', JInt 0),
      (''expected_hex'', JStr ''b8''),
      (''replacement_hex'', JStr ''c3''),
      (''description'', JStr ''kernel_halt(): ignore unsafe halt requests from appliance LED/watchdog probes; reboot uses machine_restart()'')]"

definition patch_rks_pkt_trace_init :: json where
  "patch_rks_pkt_trace_init =
     JObj [(''artifact_id'', JStr ''zd1200_kernel_elf''),
      (''name'', JStr ''rks_pkt_trace_init''),
      (''signature_hex'', JStr ''83ec08e8????????85c0741fc7442404????????c70424????????e8????????e8????????31c083c408c3''),
      (''patch_offset'', JInt 0),
      (''expected_hex'', JStr ''83ec08''),
      (''replacement_hex'', JStr ''31c0c3''),
      (''description'', JStr ''rks_pkt_trace_init(): skip tif0 path'')]"

definition patch_nar5520_wdt_init :: json where
  "patch_nar5520_wdt_init =
     JObj [(''artifact_id'', JStr ''zd1200_kernel_elf''),
      (''name'', JStr ''nar5520_wdt_init''),
      (''signature_hex'', JStr ''55 57 56 53 83 ec 14 e8 ?? ?? ?? ?? 83 f8 01 89 c5 0f 84 ?? ?? ?? ?? 83 f8 03 0f 84 ?? ?? ?? ?? ba ?? ?? ?? ?? b8 ?? ?? ?? ?? c7 05 ?? ?? ?? ?? 00 00 00 00 e8 ?? ?? ?? ??''),
      (''patch_offset'', JInt 0),
      (''expected_hex'', JStr ''55 57 56''),
      (''replacement_hex'', JStr ''31 c0 c3''),
      (''description'', JStr ''skip physical NAR5520 watchdog initialization'')]"

definition patch_nar5520_wdt_thread :: json where
  "patch_nar5520_wdt_thread =
     JObj [(''artifact_id'', JStr ''zd1200_kernel_elf''),
      (''name'', JStr ''nar5520_wdt_thread''),
      (''signature_hex'', JStr ''57 56 89 c6 53 b8 01 00 00 00 83 ec 18 64 8b 1d ?? ?? ?? ?? 87 03 0f b6 16 89 d0 c0 e8 07 01 d0 d0 f8''),
      (''patch_offset'', JInt 0),
      (''expected_hex'', JStr ''57 56 89''),
      (''replacement_hex'', JStr ''c3 ?? ??''),
      (''description'', JStr ''skip NAR5520 watchdog worker'')]"

definition patch_machine_restart_qemu :: json where
  "patch_machine_restart_qemu =
     JObj [(''artifact_id'', JStr ''zd1200_kernel_elf''),
      (''name'', JStr ''machine_restart_qemu''),
      (''signature_hex'', JStr ''?? ec 04 c7 04 24 ?? ?? ?? ?? e8 ?? ?? ?? ?? 8b 0d ?? ?? ?? ?? 85 c9 75 06 ff 15 ?? ?? ?? ?? c7 05 ?? ?? ?? ?? 00 00 00 00 ff 15 ?? ?? ?? ?? 83 c4 04 c3''),
      (''patch_offset'', JInt 0),
      (''expected_hex'', JStr ''?? ec 04 c7 04 24 ??''),
      (''replacement_hex'', JStr ''b0 fe e6 64 f4 eb fd''),
      (''description'', JStr ''machine_restart(): preserve guest reboot by requesting a QEMU i8042 system reset'')]"

definition patch_elf_section_name_tuning :: json where
  "patch_elf_section_name_tuning =
     JObj [(''artifact_id'', JStr ''zd1200_kernel_elf''),
      (''name'', JStr ''elf_section_name_tuning''),
      (''signature_hex'', JStr ''00 2e 73 68 73 74 72 74 61 62 00 2e 72 65 6c 2e 74 65 78 74 00 2e 6e 6f 74 65 73 00''),
      (''patch_offset'', JInt 1),
      (''expected_hex'', JStr ''2e 73 68 73 74 72 74 61 62''),
      (''replacement_hex'', JStr ''00 00 00 00 00 00 00 00 00''),
      (''description'', JStr ''non-allocated ELF section-name bytes preserve fixed bzImage gzip capacity'')]"

definition patch_board_data_retry :: json where
  "patch_board_data_retry =
     JObj [(''artifact_id'', JStr ''zd1200_kernel_elf''),
      (''name'', JStr ''board_data_retry''),
      (''signature_hex'', JStr ''31c083c4185b5e5fc3c70424????????e8????????b801000000e8????????b8????????e8????????e9????????''),
      (''patch_offset'', JInt 9),
      (''expected_hex'', JStr ''c70424????''),
      (''replacement_hex'', JStr ''e9????????''),
      (''description'', JStr ''skip physical board-data retry/recovery path''),
      (''rel32_exit'', JInt 41)]"

definition SHIPPED_CATALOG :: "json option" where
  "SHIPPED_CATALOG = Some (JObj
     [(''catalog_version'', JInt 1),
      (''artifacts'', JArr [artifact_ap_11n_scorpion_wlan_ko, artifact_zd1200_kernel_elf]),
      (''patches'', JArr
        [patch_ap_11n_scorpion_mesh_vlan_rx,
         patch_kernel_halt,
         patch_rks_pkt_trace_init,
         patch_nar5520_wdt_init,
         patch_nar5520_wdt_thread,
         patch_machine_restart_qemu,
         patch_elf_section_name_tuning,
         patch_board_data_retry])])"

section \<open>The release manifest\<close>

definition release_zd1200_10_1_2_0_318 :: json where
  "release_zd1200_10_1_2_0_318 =
     JObj [(''release_id'', JStr ''zd1200_10_1_2_0_318''),
      (''product'', JStr ''zd1200''),
      (''version'', JStr ''10.1.2.0''),
      (''build'', JInt 318),
      (''support_status'', JStr ''experimental''),
      (''encrypted_sha256'', JStr ''0e06015d85a004c42a512dee2a3be0aee9a3851999ff7221d9fda6626e592069''),
      (''decrypted_sha256'', JStr ''5e7ddfbf8fa1e893bbe0a4de9c536677daf4c58e02dad58cce704fa99872772f''),
      (''archive_format'', JStr ''gzip_tar''),
      (''metadata'', JObj [(''VERSION'', JStr ''10.1.2.0''),
        (''BUILD'', JStr ''318''),
        (''REQUIRE_PLATFORM'', JStr ''nar5520''),
        (''REQUIRE_SUBPLATFORM'', JStr ''cob7402''),
        (''KERNEL_MD5SUM'', JStr ''9ade5b109e95f5a9fb6099ea559849e6''),
        (''ROOTFS_MD5SUM'', JStr ''db6225934eaaab6b9a1caee03badafdd'')]),
      (''required_paths'', JArr [JStr ''bzImage'', JStr ''restoreinitramfs.gz'', JStr ''rootfs.i386.ext2.director1200.img'', JStr ''metadata'', JStr ''file_list.txt'', JStr ''ap-models'', JStr ''firmwares/'']),
      (''artifact_ids'', JArr [JStr ''zd1200_kernel_elf'']),
      (''features'', JObj [(''archive_aidfs_layout'', JStr ''rootfs_only''),
        (''ftp_ap_delivery'', JStr ''verified_legacy_ftp_r600''),
        (''r600_mesh_receive_repair'', JStr ''not_required_before_10_5_1_0_276''),
        (''runtime_ftp_bootstrap'', JStr ''vendor_state''),
        (''runtime_root_ssh'', JStr ''not_supported'')])]"

definition release_zd1200_10_2_1_0_232 :: json where
  "release_zd1200_10_2_1_0_232 =
     JObj [(''release_id'', JStr ''zd1200_10_2_1_0_232''),
      (''product'', JStr ''zd1200''),
      (''version'', JStr ''10.2.1.0''),
      (''build'', JInt 232),
      (''support_status'', JStr ''experimental''),
      (''encrypted_sha256'', JStr ''110703c3c4492db0b31be0c265fffed9e468fa2b9bd733a518d09577f31eba67''),
      (''decrypted_sha256'', JStr ''89b7857dcc1817758ef766f0becb81e8f57c477acf71f95a5a18f6abb918171a''),
      (''archive_format'', JStr ''gzip_tar''),
      (''metadata'', JObj [(''VERSION'', JStr ''10.2.1.0''),
        (''BUILD'', JStr ''232''),
        (''REQUIRE_PLATFORM'', JStr ''nar5520''),
        (''REQUIRE_SUBPLATFORM'', JStr ''cob7402''),
        (''KERNEL_MD5SUM'', JStr ''18053863c289e052d657db665b5dee38''),
        (''ROOTFS_MD5SUM'', JStr ''2b61dd1d32990463ea61219f080fe6d8'')]),
      (''required_paths'', JArr [JStr ''bzImage'', JStr ''restoreinitramfs.gz'', JStr ''rootfs.i386.ext2.director1200.img'', JStr ''metadata'', JStr ''aidfs/file_list.txt'', JStr ''file_list.txt'', JStr ''ap-models'', JStr ''firmwares/'']),
      (''artifact_ids'', JArr [JStr ''zd1200_kernel_elf'']),
      (''features'', JObj [(''ftp_ap_delivery'', JStr ''verified_legacy_ftp_r600''),
        (''r600_mesh_receive_repair'', JStr ''not_required_before_10_5_1_0_276''),
        (''runtime_ftp_bootstrap'', JStr ''vendor_state''),
        (''runtime_root_ssh'', JStr ''not_supported'')])]"

definition release_zd1200_10_3_1_0_42 :: json where
  "release_zd1200_10_3_1_0_42 =
     JObj [(''release_id'', JStr ''zd1200_10_3_1_0_42''),
      (''product'', JStr ''zd1200''),
      (''version'', JStr ''10.3.1.0''),
      (''build'', JInt 42),
      (''support_status'', JStr ''experimental''),
      (''encrypted_sha256'', JStr ''55605ad5baefd237bc7a7018fc01991e60c7390cc20e46959976556e2511a8e1''),
      (''decrypted_sha256'', JStr ''8567fd6f7802ee58785054e306e753089933b18e6131bda9e0a7832f9c726d60''),
      (''archive_format'', JStr ''gzip_tar''),
      (''metadata'', JObj [(''VERSION'', JStr ''10.3.1.0''),
        (''BUILD'', JStr ''42''),
        (''REQUIRE_PLATFORM'', JStr ''nar5520''),
        (''REQUIRE_SUBPLATFORM'', JStr ''cob7402''),
        (''KERNEL_MD5SUM'', JStr ''2f04847536141910b91cdfc1268e77be''),
        (''ROOTFS_MD5SUM'', JStr ''e481eec1c139f41f6819d53ded5c9c6c'')]),
      (''required_paths'', JArr [JStr ''bzImage'', JStr ''restoreinitramfs.gz'', JStr ''rootfs.i386.ext2.director1200.img'', JStr ''metadata'', JStr ''aidfs/file_list.txt'', JStr ''file_list.txt'', JStr ''ap-models'', JStr ''firmwares/'']),
      (''artifact_ids'', JArr [JStr ''zd1200_kernel_elf'']),
      (''features'', JObj [(''ftp_ap_delivery'', JStr ''verified_legacy_ftp_r600''),
        (''r600_mesh_receive_repair'', JStr ''not_required_before_10_5_1_0_276''),
        (''runtime_ftp_bootstrap'', JStr ''vendor_state''),
        (''runtime_root_ssh'', JStr ''not_supported''),
        (''fixture_note'', JStr ''10_3_1_0_42_is_not_the_final_10_3_1_refresh'')])]"

definition release_zd1200_10_5_1_0_282 :: json where
  "release_zd1200_10_5_1_0_282 =
     JObj [(''release_id'', JStr ''zd1200_10_5_1_0_282''),
      (''product'', JStr ''zd1200''),
      (''version'', JStr ''10.5.1.0''),
      (''build'', JInt 282),
      (''support_status'', JStr ''known''),
      (''encrypted_sha256'', JStr ''d18591e40c535f3ac0f3a6c767708c0f40ae4e347fc2fdfb51e28fba11b26c90''),
      (''decrypted_sha256'', JStr ''64dfbf4d67cc65cafa0e258e426c664c7387b1219209ec893b9b1e41ab202cb8''),
      (''archive_format'', JStr ''gzip_tar''),
      (''metadata'', JObj [(''VERSION'', JStr ''10.5.1.0''),
        (''BUILD'', JStr ''282''),
        (''REQUIRE_PLATFORM'', JStr ''nar5520''),
        (''REQUIRE_SUBPLATFORM'', JStr ''cob7402''),
        (''KERNEL_MD5SUM'', JStr ''465cf7435e7f1928fb8aa2c448092b80''),
        (''ROOTFS_MD5SUM'', JStr ''c74f36f652ef8914789fee1284697cbb'')]),
      (''required_paths'', JArr [JStr ''bzImage'', JStr ''restoreinitramfs.gz'', JStr ''rootfs.i386.ext2.director1200.img'', JStr ''metadata'', JStr ''aidfs/file_list.txt'', JStr ''file_list.txt'', JStr ''ap-models'', JStr ''firmwares/'']),
      (''artifact_ids'', JArr [JStr ''zd1200_kernel_elf'']),
      (''features'', JObj [(''ftp_ap_delivery'', JStr ''verified_legacy_ftp_r600''),
        (''r600_mesh_receive_repair'', JStr ''available_when_ap_payload_is_repacked''),
        (''runtime_ftp_bootstrap'', JStr ''vendor_state''),
        (''runtime_root_ssh'', JStr ''vendor_dropbear_root_key'')])]"

definition SHIPPED_MANIFEST :: "json option" where
  "SHIPPED_MANIFEST = Some (JObj
     [(''manifest_version'', JInt 1),
      (''releases'', JArr
        [release_zd1200_10_1_2_0_318,
         release_zd1200_10_2_1_0_232,
         release_zd1200_10_3_1_0_42,
         release_zd1200_10_5_1_0_282])])"

section \<open>The loaded values\<close>

definition shipped_artifacts :: "(string \<times> artifact) list" where
  "shipped_artifacts =
       [(''ap_11n_scorpion_wlan_ko'', \<lparr>ar_artifact_id = ''ap_11n_scorpion_wlan_ko'', ar_description = ''ap-11n-scorpion firmware ELF32 big-endian MIPS wlan.ko'',
          ar_handler = ''raw''\<rparr>),
        (''zd1200_kernel_elf'', \<lparr>ar_artifact_id = ''zd1200_kernel_elf'', ar_description = ''decompressed ZD1200 ELF32 little-endian x86 kernel'',
          ar_handler = ''zd1200_bzimage_gzip_elf''\<rparr>)]"

definition rule_ap_11n_scorpion_mesh_vlan_rx :: patch_rule where
  "rule_ap_11n_scorpion_mesh_vlan_rx =
       \<lparr>pr_artifact_id = ''ap_11n_scorpion_wlan_ko'', pr_name = ''ap_11n_scorpion_mesh_vlan_rx'',
        pr_signature_hex = ''90 42 00 0c 90 63 00 0d 00 02 12 00 00 62 18 25 34 02 81 00 54 62 ?? ?? 8e a2 01 08 8e a5 01 08 3c 02 ?? ?? 24 06 00 10 24 42 ?? ?? 00 40 f8 09 24 a4 00 02 24 05 00 02 02 00 f8 09 02 a0 20 21'',
        pr_patch_offset = 20, pr_expected_hex = ''54 62 ?? ??'', pr_replacement_hex = Some ''10 00 ?? ??'',
        pr_description = ''bypass destructive VLAN inner-EtherType removal'',
        pr_rel32_exit = 0\<rparr>"

definition rule_kernel_halt :: patch_rule where
  "rule_kernel_halt =
       \<lparr>pr_artifact_id = ''zd1200_kernel_elf'', pr_name = ''kernel_halt'',
        pr_signature_hex = ''b80200000083ec04e8????????e8????????c70424????????e8????????83c404e9????????'',
        pr_patch_offset = 0, pr_expected_hex = ''b8'', pr_replacement_hex = Some ''c3'',
        pr_description = ''kernel_halt(): ignore unsafe halt requests from appliance LED/watchdog probes; reboot uses machine_restart()'',
        pr_rel32_exit = 0\<rparr>"

definition rule_rks_pkt_trace_init :: patch_rule where
  "rule_rks_pkt_trace_init =
       \<lparr>pr_artifact_id = ''zd1200_kernel_elf'', pr_name = ''rks_pkt_trace_init'',
        pr_signature_hex = ''83ec08e8????????85c0741fc7442404????????c70424????????e8????????e8????????31c083c408c3'',
        pr_patch_offset = 0, pr_expected_hex = ''83ec08'', pr_replacement_hex = Some ''31c0c3'',
        pr_description = ''rks_pkt_trace_init(): skip tif0 path'',
        pr_rel32_exit = 0\<rparr>"

definition rule_nar5520_wdt_init :: patch_rule where
  "rule_nar5520_wdt_init =
       \<lparr>pr_artifact_id = ''zd1200_kernel_elf'', pr_name = ''nar5520_wdt_init'',
        pr_signature_hex = ''55 57 56 53 83 ec 14 e8 ?? ?? ?? ?? 83 f8 01 89 c5 0f 84 ?? ?? ?? ?? 83 f8 03 0f 84 ?? ?? ?? ?? ba ?? ?? ?? ?? b8 ?? ?? ?? ?? c7 05 ?? ?? ?? ?? 00 00 00 00 e8 ?? ?? ?? ??'',
        pr_patch_offset = 0, pr_expected_hex = ''55 57 56'', pr_replacement_hex = Some ''31 c0 c3'',
        pr_description = ''skip physical NAR5520 watchdog initialization'',
        pr_rel32_exit = 0\<rparr>"

definition rule_nar5520_wdt_thread :: patch_rule where
  "rule_nar5520_wdt_thread =
       \<lparr>pr_artifact_id = ''zd1200_kernel_elf'', pr_name = ''nar5520_wdt_thread'',
        pr_signature_hex = ''57 56 89 c6 53 b8 01 00 00 00 83 ec 18 64 8b 1d ?? ?? ?? ?? 87 03 0f b6 16 89 d0 c0 e8 07 01 d0 d0 f8'',
        pr_patch_offset = 0, pr_expected_hex = ''57 56 89'', pr_replacement_hex = Some ''c3 ?? ??'',
        pr_description = ''skip NAR5520 watchdog worker'',
        pr_rel32_exit = 0\<rparr>"

definition rule_machine_restart_qemu :: patch_rule where
  "rule_machine_restart_qemu =
       \<lparr>pr_artifact_id = ''zd1200_kernel_elf'', pr_name = ''machine_restart_qemu'',
        pr_signature_hex = ''?? ec 04 c7 04 24 ?? ?? ?? ?? e8 ?? ?? ?? ?? 8b 0d ?? ?? ?? ?? 85 c9 75 06 ff 15 ?? ?? ?? ?? c7 05 ?? ?? ?? ?? 00 00 00 00 ff 15 ?? ?? ?? ?? 83 c4 04 c3'',
        pr_patch_offset = 0, pr_expected_hex = ''?? ec 04 c7 04 24 ??'', pr_replacement_hex = Some ''b0 fe e6 64 f4 eb fd'',
        pr_description = ''machine_restart(): preserve guest reboot by requesting a QEMU i8042 system reset'',
        pr_rel32_exit = 0\<rparr>"

definition rule_elf_section_name_tuning :: patch_rule where
  "rule_elf_section_name_tuning =
       \<lparr>pr_artifact_id = ''zd1200_kernel_elf'', pr_name = ''elf_section_name_tuning'',
        pr_signature_hex = ''00 2e 73 68 73 74 72 74 61 62 00 2e 72 65 6c 2e 74 65 78 74 00 2e 6e 6f 74 65 73 00'',
        pr_patch_offset = 1, pr_expected_hex = ''2e 73 68 73 74 72 74 61 62'', pr_replacement_hex = Some ''00 00 00 00 00 00 00 00 00'',
        pr_description = ''non-allocated ELF section-name bytes preserve fixed bzImage gzip capacity'',
        pr_rel32_exit = 0\<rparr>"

definition rule_board_data_retry :: patch_rule where
  "rule_board_data_retry =
       \<lparr>pr_artifact_id = ''zd1200_kernel_elf'', pr_name = ''board_data_retry'',
        pr_signature_hex = ''31c083c4185b5e5fc3c70424????????e8????????b801000000e8????????b8????????e8????????e9????????'',
        pr_patch_offset = 9, pr_expected_hex = ''c70424????'', pr_replacement_hex = Some ''e9????????'',
        pr_description = ''skip physical board-data retry/recovery path'',
        pr_rel32_exit = 41\<rparr>"

definition shipped_rules :: "patch_rule list" where
  "shipped_rules =
     [rule_ap_11n_scorpion_mesh_vlan_rx,
      rule_kernel_halt,
      rule_rks_pkt_trace_init,
      rule_nar5520_wdt_init,
      rule_nar5520_wdt_thread,
      rule_machine_restart_qemu,
      rule_elf_section_name_tuning,
      rule_board_data_retry]"

definition shipped_catalog :: catalog where
  "shipped_catalog = \<lparr>cat_artifacts = shipped_artifacts, cat_patches = shipped_rules\<rparr>"

definition loaded_zd1200_10_1_2_0_318 :: release where
  "loaded_zd1200_10_1_2_0_318 =
       \<lparr>rl_release_id = ''zd1200_10_1_2_0_318'', rl_product = ''zd1200'', rl_version = ''10.1.2.0'', rl_build = 318,
        rl_support_status = ''experimental'',
        rl_encrypted_sha256 = Some ''0e06015d85a004c42a512dee2a3be0aee9a3851999ff7221d9fda6626e592069'',
        rl_decrypted_sha256 = Some ''5e7ddfbf8fa1e893bbe0a4de9c536677daf4c58e02dad58cce704fa99872772f'',
        rl_archive_format = ''gzip_tar'',
        rl_metadata = [(''VERSION'', ''10.1.2.0''), (''BUILD'', ''318''), (''REQUIRE_PLATFORM'', ''nar5520''), (''REQUIRE_SUBPLATFORM'', ''cob7402''), (''KERNEL_MD5SUM'', ''9ade5b109e95f5a9fb6099ea559849e6''), (''ROOTFS_MD5SUM'', ''db6225934eaaab6b9a1caee03badafdd'')],
        rl_required_paths = [''bzImage'', ''restoreinitramfs.gz'', ''rootfs.i386.ext2.director1200.img'', ''metadata'', ''file_list.txt'', ''ap-models'', ''firmwares/''],
        rl_artifact_ids = [''zd1200_kernel_elf''],
        rl_features = [(''archive_aidfs_layout'', ''rootfs_only''), (''ftp_ap_delivery'', ''verified_legacy_ftp_r600''), (''r600_mesh_receive_repair'', ''not_required_before_10_5_1_0_276''), (''runtime_ftp_bootstrap'', ''vendor_state''), (''runtime_root_ssh'', ''not_supported'')]\<rparr>"

definition loaded_zd1200_10_2_1_0_232 :: release where
  "loaded_zd1200_10_2_1_0_232 =
       \<lparr>rl_release_id = ''zd1200_10_2_1_0_232'', rl_product = ''zd1200'', rl_version = ''10.2.1.0'', rl_build = 232,
        rl_support_status = ''experimental'',
        rl_encrypted_sha256 = Some ''110703c3c4492db0b31be0c265fffed9e468fa2b9bd733a518d09577f31eba67'',
        rl_decrypted_sha256 = Some ''89b7857dcc1817758ef766f0becb81e8f57c477acf71f95a5a18f6abb918171a'',
        rl_archive_format = ''gzip_tar'',
        rl_metadata = [(''VERSION'', ''10.2.1.0''), (''BUILD'', ''232''), (''REQUIRE_PLATFORM'', ''nar5520''), (''REQUIRE_SUBPLATFORM'', ''cob7402''), (''KERNEL_MD5SUM'', ''18053863c289e052d657db665b5dee38''), (''ROOTFS_MD5SUM'', ''2b61dd1d32990463ea61219f080fe6d8'')],
        rl_required_paths = [''bzImage'', ''restoreinitramfs.gz'', ''rootfs.i386.ext2.director1200.img'', ''metadata'', ''aidfs/file_list.txt'', ''file_list.txt'', ''ap-models'', ''firmwares/''],
        rl_artifact_ids = [''zd1200_kernel_elf''],
        rl_features = [(''ftp_ap_delivery'', ''verified_legacy_ftp_r600''), (''r600_mesh_receive_repair'', ''not_required_before_10_5_1_0_276''), (''runtime_ftp_bootstrap'', ''vendor_state''), (''runtime_root_ssh'', ''not_supported'')]\<rparr>"

definition loaded_zd1200_10_3_1_0_42 :: release where
  "loaded_zd1200_10_3_1_0_42 =
       \<lparr>rl_release_id = ''zd1200_10_3_1_0_42'', rl_product = ''zd1200'', rl_version = ''10.3.1.0'', rl_build = 42,
        rl_support_status = ''experimental'',
        rl_encrypted_sha256 = Some ''55605ad5baefd237bc7a7018fc01991e60c7390cc20e46959976556e2511a8e1'',
        rl_decrypted_sha256 = Some ''8567fd6f7802ee58785054e306e753089933b18e6131bda9e0a7832f9c726d60'',
        rl_archive_format = ''gzip_tar'',
        rl_metadata = [(''VERSION'', ''10.3.1.0''), (''BUILD'', ''42''), (''REQUIRE_PLATFORM'', ''nar5520''), (''REQUIRE_SUBPLATFORM'', ''cob7402''), (''KERNEL_MD5SUM'', ''2f04847536141910b91cdfc1268e77be''), (''ROOTFS_MD5SUM'', ''e481eec1c139f41f6819d53ded5c9c6c'')],
        rl_required_paths = [''bzImage'', ''restoreinitramfs.gz'', ''rootfs.i386.ext2.director1200.img'', ''metadata'', ''aidfs/file_list.txt'', ''file_list.txt'', ''ap-models'', ''firmwares/''],
        rl_artifact_ids = [''zd1200_kernel_elf''],
        rl_features = [(''ftp_ap_delivery'', ''verified_legacy_ftp_r600''), (''r600_mesh_receive_repair'', ''not_required_before_10_5_1_0_276''), (''runtime_ftp_bootstrap'', ''vendor_state''), (''runtime_root_ssh'', ''not_supported''), (''fixture_note'', ''10_3_1_0_42_is_not_the_final_10_3_1_refresh'')]\<rparr>"

definition loaded_zd1200_10_5_1_0_282 :: release where
  "loaded_zd1200_10_5_1_0_282 =
       \<lparr>rl_release_id = ''zd1200_10_5_1_0_282'', rl_product = ''zd1200'', rl_version = ''10.5.1.0'', rl_build = 282,
        rl_support_status = ''known'',
        rl_encrypted_sha256 = Some ''d18591e40c535f3ac0f3a6c767708c0f40ae4e347fc2fdfb51e28fba11b26c90'',
        rl_decrypted_sha256 = Some ''64dfbf4d67cc65cafa0e258e426c664c7387b1219209ec893b9b1e41ab202cb8'',
        rl_archive_format = ''gzip_tar'',
        rl_metadata = [(''VERSION'', ''10.5.1.0''), (''BUILD'', ''282''), (''REQUIRE_PLATFORM'', ''nar5520''), (''REQUIRE_SUBPLATFORM'', ''cob7402''), (''KERNEL_MD5SUM'', ''465cf7435e7f1928fb8aa2c448092b80''), (''ROOTFS_MD5SUM'', ''c74f36f652ef8914789fee1284697cbb'')],
        rl_required_paths = [''bzImage'', ''restoreinitramfs.gz'', ''rootfs.i386.ext2.director1200.img'', ''metadata'', ''aidfs/file_list.txt'', ''file_list.txt'', ''ap-models'', ''firmwares/''],
        rl_artifact_ids = [''zd1200_kernel_elf''],
        rl_features = [(''ftp_ap_delivery'', ''verified_legacy_ftp_r600''), (''r600_mesh_receive_repair'', ''available_when_ap_payload_is_repacked''), (''runtime_ftp_bootstrap'', ''vendor_state''), (''runtime_root_ssh'', ''vendor_dropbear_root_key'')]\<rparr>"

definition shipped_releases :: "release list" where
  "shipped_releases =
     [loaded_zd1200_10_1_2_0_318,
      loaded_zd1200_10_2_1_0_232,
      loaded_zd1200_10_3_1_0_42,
      loaded_zd1200_10_5_1_0_282]"

section \<open>Evaluating the loaders\<close>

text \<open>The characters of the patterns, the identifiers and the digests, classified once.\<close>

lemma hex_characters:
  "\<not> py_isspace (CHR ''0'')" "hex_value (CHR ''0'') = Some 0"
  "\<not> py_isspace (CHR ''1'')" "hex_value (CHR ''1'') = Some 1"
  "\<not> py_isspace (CHR ''2'')" "hex_value (CHR ''2'') = Some 2"
  "\<not> py_isspace (CHR ''3'')" "hex_value (CHR ''3'') = Some 3"
  "\<not> py_isspace (CHR ''4'')" "hex_value (CHR ''4'') = Some 4"
  "\<not> py_isspace (CHR ''5'')" "hex_value (CHR ''5'') = Some 5"
  "\<not> py_isspace (CHR ''6'')" "hex_value (CHR ''6'') = Some 6"
  "\<not> py_isspace (CHR ''7'')" "hex_value (CHR ''7'') = Some 7"
  "\<not> py_isspace (CHR ''8'')" "hex_value (CHR ''8'') = Some 8"
  "\<not> py_isspace (CHR ''9'')" "hex_value (CHR ''9'') = Some 9"
  "\<not> py_isspace (CHR ''a'')" "hex_value (CHR ''a'') = Some 10"
  "\<not> py_isspace (CHR ''b'')" "hex_value (CHR ''b'') = Some 11"
  "\<not> py_isspace (CHR ''c'')" "hex_value (CHR ''c'') = Some 12"
  "\<not> py_isspace (CHR ''d'')" "hex_value (CHR ''d'') = Some 13"
  "\<not> py_isspace (CHR ''e'')" "hex_value (CHR ''e'') = Some 14"
  "\<not> py_isspace (CHR ''f'')" "hex_value (CHR ''f'') = Some 15"
  "py_isspace (CHR '' '')" "\<not> py_isspace (CHR ''?'')"
  by code_simp+

lemma identifier_characters:
  "identifier_char (CHR ''0'')"
  "identifier_char (CHR ''1'')"
  "identifier_char (CHR ''2'')"
  "identifier_char (CHR ''3'')"
  "identifier_char (CHR ''4'')"
  "identifier_char (CHR ''5'')"
  "identifier_char (CHR ''8'')"
  "identifier_char (CHR ''_'')"
  "identifier_char (CHR ''a'')"
  "identifier_char (CHR ''b'')"
  "identifier_char (CHR ''c'')"
  "identifier_char (CHR ''d'')"
  "identifier_char (CHR ''e'')"
  "identifier_char (CHR ''f'')"
  "identifier_char (CHR ''g'')"
  "identifier_char (CHR ''h'')"
  "identifier_char (CHR ''i'')"
  "identifier_char (CHR ''k'')"
  "identifier_char (CHR ''l'')"
  "identifier_char (CHR ''m'')"
  "identifier_char (CHR ''n'')"
  "identifier_char (CHR ''o'')"
  "identifier_char (CHR ''p'')"
  "identifier_char (CHR ''q'')"
  "identifier_char (CHR ''r'')"
  "identifier_char (CHR ''s'')"
  "identifier_char (CHR ''t'')"
  "identifier_char (CHR ''u'')"
  "identifier_char (CHR ''v'')"
  "identifier_char (CHR ''w'')"
  "identifier_char (CHR ''x'')"
  "identifier_char (CHR ''y'')"
  "identifier_char (CHR ''z'')"
  "is_ascii_lower (CHR ''a'')" "is_ascii_lower (CHR ''e'')" "is_ascii_lower (CHR ''b'')" "is_ascii_lower (CHR ''k'')" "is_ascii_lower (CHR ''m'')" "is_ascii_lower (CHR ''n'')" "is_ascii_lower (CHR ''r'')" "is_ascii_lower (CHR ''z'')"
  by code_simp+

lemma digest_characters:
  "sha256_char (CHR ''0'')"
  "sha256_char (CHR ''1'')"
  "sha256_char (CHR ''2'')"
  "sha256_char (CHR ''3'')"
  "sha256_char (CHR ''4'')"
  "sha256_char (CHR ''5'')"
  "sha256_char (CHR ''6'')"
  "sha256_char (CHR ''7'')"
  "sha256_char (CHR ''8'')"
  "sha256_char (CHR ''9'')"
  "sha256_char (CHR ''a'')"
  "sha256_char (CHR ''b'')"
  "sha256_char (CHR ''c'')"
  "sha256_char (CHR ''d'')"
  "sha256_char (CHR ''e'')"
  "sha256_char (CHR ''f'')"
  "is_ascii_digit (CHR ''0'')"
  "is_ascii_digit (CHR ''1'')"
  "is_ascii_digit (CHR ''2'')"
  "is_ascii_digit (CHR ''3'')"
  "is_ascii_digit (CHR ''5'')"
  by code_simp+

lemma validate_masked_hex_filter:
  "validate_masked_hex s =
     (let compact = filter (\<lambda>c. \<not> py_isspace c) s
      in if compact = [] \<or> odd (length compact) then
           Inl (ValueError ''catalog field is not a byte pattern'')
         else if \<not> valid_tokens compact then
           Inl (ValueError ''catalog field has invalid byte token'')
         else Inr (int (length compact div 2)))"
  by (simp only: validate_masked_hex_def concat_py_split_ws)

lemmas field_evaluation = raise_if_def json_get_def unknown_fields_def identifier_characters is_identifier_def

lemmas patch_evaluation = field_evaluation load_patch_def check_fields_def PATCH_FIELDS_def required_string_def
  required_int_def optional_string_def check_rule_patterns_def validate_masked_hex_filter hex_characters

lemmas artifact_evaluation = field_evaluation load_artifact_def check_fields_def ARTIFACT_FIELDS_def
  required_string_def SUPPORTED_HANDLERS_def

lemmas release_evaluation = field_evaluation load_release_def manifest_fields_def RELEASE_FIELDS_def
  manifest_string_def optional_hash_def manifest_map_def manifest_strings_def required_feature_def
  SUPPORT_STATUSES_def RUNTIME_FTP_BOOTSTRAP_VALUES_def RUNTIME_ROOT_SSH_VALUES_def is_version_def is_sha256_def
  digest_characters

lemma load_patch_ap_11n_scorpion_mesh_vlan_rx:
  "load_patch shipped_artifacts names patch_ap_11n_scorpion_mesh_vlan_rx =
     (if ''ap_11n_scorpion_mesh_vlan_rx'' \<in> set names then Inl (ValueError ''duplicate patch name'') else Inr rule_ap_11n_scorpion_mesh_vlan_rx)"
  by (simp add: patch_ap_11n_scorpion_mesh_vlan_rx_def rule_ap_11n_scorpion_mesh_vlan_rx_def shipped_artifacts_def patch_evaluation)

lemma load_patch_kernel_halt:
  "load_patch shipped_artifacts names patch_kernel_halt =
     (if ''kernel_halt'' \<in> set names then Inl (ValueError ''duplicate patch name'') else Inr rule_kernel_halt)"
  by (simp add: patch_kernel_halt_def rule_kernel_halt_def shipped_artifacts_def patch_evaluation)

lemma load_patch_rks_pkt_trace_init:
  "load_patch shipped_artifacts names patch_rks_pkt_trace_init =
     (if ''rks_pkt_trace_init'' \<in> set names then Inl (ValueError ''duplicate patch name'') else Inr rule_rks_pkt_trace_init)"
  by (simp add: patch_rks_pkt_trace_init_def rule_rks_pkt_trace_init_def shipped_artifacts_def patch_evaluation)

lemma load_patch_nar5520_wdt_init:
  "load_patch shipped_artifacts names patch_nar5520_wdt_init =
     (if ''nar5520_wdt_init'' \<in> set names then Inl (ValueError ''duplicate patch name'') else Inr rule_nar5520_wdt_init)"
  by (simp add: patch_nar5520_wdt_init_def rule_nar5520_wdt_init_def shipped_artifacts_def patch_evaluation)

lemma load_patch_nar5520_wdt_thread:
  "load_patch shipped_artifacts names patch_nar5520_wdt_thread =
     (if ''nar5520_wdt_thread'' \<in> set names then Inl (ValueError ''duplicate patch name'') else Inr rule_nar5520_wdt_thread)"
  by (simp add: patch_nar5520_wdt_thread_def rule_nar5520_wdt_thread_def shipped_artifacts_def patch_evaluation)

lemma load_patch_machine_restart_qemu:
  "load_patch shipped_artifacts names patch_machine_restart_qemu =
     (if ''machine_restart_qemu'' \<in> set names then Inl (ValueError ''duplicate patch name'') else Inr rule_machine_restart_qemu)"
  by (simp add: patch_machine_restart_qemu_def rule_machine_restart_qemu_def shipped_artifacts_def patch_evaluation)

lemma load_patch_elf_section_name_tuning:
  "load_patch shipped_artifacts names patch_elf_section_name_tuning =
     (if ''elf_section_name_tuning'' \<in> set names then Inl (ValueError ''duplicate patch name'') else Inr rule_elf_section_name_tuning)"
  by (simp add: patch_elf_section_name_tuning_def rule_elf_section_name_tuning_def shipped_artifacts_def patch_evaluation)

lemma load_patch_board_data_retry:
  "load_patch shipped_artifacts names patch_board_data_retry =
     (if ''board_data_retry'' \<in> set names then Inl (ValueError ''duplicate patch name'') else Inr rule_board_data_retry)"
  by (simp add: patch_board_data_retry_def rule_board_data_retry_def shipped_artifacts_def patch_evaluation)

lemma load_release_zd1200_10_1_2_0_318:
  "load_release (map fst shipped_artifacts) ids release_zd1200_10_1_2_0_318 =
     (if ''zd1200_10_1_2_0_318'' \<in> set ids then Inl (ValueError ''invalid or duplicate release_id'') else Inr loaded_zd1200_10_1_2_0_318)"
  by (simp add: release_zd1200_10_1_2_0_318_def loaded_zd1200_10_1_2_0_318_def shipped_artifacts_def release_evaluation)

lemma load_release_zd1200_10_2_1_0_232:
  "load_release (map fst shipped_artifacts) ids release_zd1200_10_2_1_0_232 =
     (if ''zd1200_10_2_1_0_232'' \<in> set ids then Inl (ValueError ''invalid or duplicate release_id'') else Inr loaded_zd1200_10_2_1_0_232)"
  by (simp add: release_zd1200_10_2_1_0_232_def loaded_zd1200_10_2_1_0_232_def shipped_artifacts_def release_evaluation)

lemma load_release_zd1200_10_3_1_0_42:
  "load_release (map fst shipped_artifacts) ids release_zd1200_10_3_1_0_42 =
     (if ''zd1200_10_3_1_0_42'' \<in> set ids then Inl (ValueError ''invalid or duplicate release_id'') else Inr loaded_zd1200_10_3_1_0_42)"
  by (simp add: release_zd1200_10_3_1_0_42_def loaded_zd1200_10_3_1_0_42_def shipped_artifacts_def release_evaluation)

lemma load_release_zd1200_10_5_1_0_282:
  "load_release (map fst shipped_artifacts) ids release_zd1200_10_5_1_0_282 =
     (if ''zd1200_10_5_1_0_282'' \<in> set ids then Inl (ValueError ''invalid or duplicate release_id'') else Inr loaded_zd1200_10_5_1_0_282)"
  by (simp add: release_zd1200_10_5_1_0_282_def loaded_zd1200_10_5_1_0_282_def shipped_artifacts_def release_evaluation)

lemma load_shipped_artifacts:
  "load_artifacts [] [artifact_ap_11n_scorpion_wlan_ko, artifact_zd1200_kernel_elf] = Inr shipped_artifacts"
  by (simp add: artifact_ap_11n_scorpion_wlan_ko_def artifact_zd1200_kernel_elf_def shipped_artifacts_def artifact_evaluation)

lemma load_shipped_catalog: "load_catalog SHIPPED_CATALOG = Inr shipped_catalog"
proof -
  have "load_patches shipped_artifacts []
      [patch_ap_11n_scorpion_mesh_vlan_rx,
       patch_kernel_halt,
       patch_rks_pkt_trace_init,
       patch_nar5520_wdt_init,
       patch_nar5520_wdt_thread,
       patch_machine_restart_qemu,
       patch_elf_section_name_tuning,
       patch_board_data_retry] = Inr shipped_rules"
    by (simp add: load_patch_ap_11n_scorpion_mesh_vlan_rx
        load_patch_kernel_halt
        load_patch_rks_pkt_trace_init
        load_patch_nar5520_wdt_init
        load_patch_nar5520_wdt_thread
        load_patch_machine_restart_qemu
        load_patch_elf_section_name_tuning
        load_patch_board_data_retry shipped_rules_def
        rule_ap_11n_scorpion_mesh_vlan_rx_def
        rule_kernel_halt_def
        rule_rks_pkt_trace_init_def
        rule_nar5520_wdt_init_def
        rule_nar5520_wdt_thread_def
        rule_machine_restart_qemu_def
        rule_elf_section_name_tuning_def
        rule_board_data_retry_def)
  with load_shipped_artifacts show ?thesis
    by (simp add: load_catalog_def SHIPPED_CATALOG_def check_fields_def unknown_fields_def TOP_LEVEL_FIELDS_def
        json_get_def shipped_catalog_def shipped_rules_def shipped_artifacts_def)
qed

lemma load_shipped_manifest:
  "load_release_manifest (map fst shipped_artifacts) SHIPPED_MANIFEST = Inr shipped_releases"
  by (simp add: load_release_manifest_def SHIPPED_MANIFEST_def manifest_fields_def unknown_fields_def
      MANIFEST_ROOT_FIELDS_def json_get_def shipped_releases_def load_release_zd1200_10_1_2_0_318
      load_release_zd1200_10_2_1_0_232
      load_release_zd1200_10_3_1_0_42
      load_release_zd1200_10_5_1_0_282
      loaded_zd1200_10_1_2_0_318_def
      loaded_zd1200_10_2_1_0_232_def
      loaded_zd1200_10_3_1_0_42_def
      loaded_zd1200_10_5_1_0_282_def)

section \<open>What follows for the tools\<close>

lemma shipped_rules_write: "\<forall>rule \<in> set shipped_rules. pr_replacement_hex rule \<noteq> None"
  by (simp add: shipped_rules_def
      rule_ap_11n_scorpion_mesh_vlan_rx_def
      rule_kernel_halt_def
      rule_rks_pkt_trace_init_def
      rule_nar5520_wdt_init_def
      rule_nar5520_wdt_thread_def
      rule_machine_restart_qemu_def
      rule_elf_section_name_tuning_def
      rule_board_data_retry_def)

text \<open>The files that the builder copies or packs, and the metadata it looks for.\<close>

definition BUILD_INPUTS :: "path list" where
  "BUILD_INPUTS =
     [''bzImage'', ''restoreinitramfs.gz'', ''rootfs.i386.ext2.director1200.img'', ''metadata'', ''firmwares'',
      ''ap-models'', ''file_list.txt'']"

lemma shipped_required_paths:
  "\<forall>r \<in> set shipped_releases. set BUILD_INPUTS \<subseteq> rstrip_slash ` set (rl_required_paths r)"
proof -
  have "list_all (\<lambda>r. list_all (\<lambda>p. p \<in> set (map rstrip_slash (rl_required_paths r))) BUILD_INPUTS) shipped_releases"
    by code_simp
  then show ?thesis by (auto simp: list_all_iff)
qed

lemma filter_distinct_concat:
  "distinct (concat (map f xs)) \<Longrightarrow> x \<in> set xs \<Longrightarrow> d \<in> set (f x) \<Longrightarrow> filter (\<lambda>y. d \<in> set (f y)) xs = [x]"
  by (induction xs) (auto simp: filter_empty_conv)

lemma shipped_digests_distinct:
  "distinct (concat (map (\<lambda>r. [rl_encrypted_sha256 r, rl_decrypted_sha256 r]) shipped_releases))"
  by (simp add: shipped_releases_def
      loaded_zd1200_10_1_2_0_318_def
      loaded_zd1200_10_2_1_0_232_def
      loaded_zd1200_10_3_1_0_42_def
      loaded_zd1200_10_5_1_0_282_def)

lemma shipped_digests:
  assumes "r \<in> set shipped_releases" "records_digest d r"
  shows "release_by_input_sha256 d shipped_releases = Inr r"
proof -
  have "records_digest d = (\<lambda>r. Some d \<in> set [rl_encrypted_sha256 r, rl_decrypted_sha256 r])"
    by (auto simp: records_digest_def)
  with filter_distinct_concat [OF shipped_digests_distinct assms(1), of "Some d"] assms(2)
  have "filter (records_digest d) shipped_releases = [r]" by simp
  then show ?thesis by (simp add: release_by_input_sha256_def)
qed

lemma shipped_mesh_repair:
  "r \<in> set shipped_releases \<Longrightarrow> mesh_repair_supported r \<longleftrightarrow> rl_release_id r = ''zd1200_10_5_1_0_282''"
  by (auto simp: shipped_releases_def mesh_repair_supported_def
      loaded_zd1200_10_1_2_0_318_def
      loaded_zd1200_10_2_1_0_232_def
      loaded_zd1200_10_3_1_0_42_def
      loaded_zd1200_10_5_1_0_282_def)


text \<open>A file with the one site of the AP rule: its signature, the bytes left open being 0.\<close>

definition shipped_module :: bytes where
  "shipped_module =
     [0x90, 0x42, 0x00, 0x0C, 0x90, 0x63, 0x00, 0x0D, 0x00, 0x02, 0x12, 0x00, 0x00, 0x62, 0x18, 0x25,
      0x34, 0x02, 0x81, 0x00, 0x54, 0x62, 0, 0, 0x8E, 0xA2, 0x01, 0x08, 0x8E, 0xA5, 0x01, 0x08, 0x3C,
      0x02, 0, 0, 0x24, 0x06, 0x00, 0x10, 0x24, 0x42, 0, 0, 0x00, 0x40, 0xF8, 0x09, 0x24, 0xA4, 0x00,
      0x02, 0x24, 0x05, 0x00, 0x02, 0x02, 0x00, 0xF8, 0x09, 0x02, 0xA0, 0x20, 0x21]"

lemma shipped_module_patched:
  "\<exists>fin log. apply_artifact shipped_catalog shipped_module ''ap_11n_scorpion_wlan_ko'' = Inr (fin, True, log)"
proof -
  have "map_sum id (\<lambda>(fin, changed, _). (take 24 fin, changed))
      (apply_artifact shipped_catalog shipped_module ''ap_11n_scorpion_wlan_ko'') =
    Inr (take 20 shipped_module @ [0x10, 0, 0, 0], True)" by code_simp
  then show ?thesis
    by (cases "apply_artifact shipped_catalog shipped_module ''ap_11n_scorpion_wlan_ko''") auto
qed


text \<open>
  The shipped manifest loads against the shipped catalog and is complete for the builder: every release
  requires each file the builder copies or packs, a digest that a release records selects that release,
  never two, and the mesh repair is asked for by the 10.5.1 release alone.
\<close>

theorem shipped_manifest_complete:
  assumes "load_catalog SHIPPED_CATALOG = Inr cat"
    and "load_release_manifest (map fst (cat_artifacts cat)) SHIPPED_MANIFEST = Inr releases" "r \<in> set releases"
  shows "set BUILD_INPUTS \<subseteq> rstrip_slash ` set (rl_required_paths r) \<and>
    (\<forall>d. records_digest d r \<longrightarrow> release_by_input_sha256 d releases = Inr r) \<and>
    (mesh_repair_supported r \<longleftrightarrow> rl_release_id r = ''zd1200_10_5_1_0_282'')"
proof -
  have "cat_artifacts cat = shipped_artifacts"
    using assms(1) load_shipped_catalog by (auto simp: shipped_catalog_def)
  then have rs: "releases = shipped_releases" using assms(2) load_shipped_manifest by simp
  with assms(3) shipped_required_paths shipped_digests shipped_mesh_repair show ?thesis by blast
qed

theorem shipped_manifest_complete_witness:
  "load_release_manifest (map fst shipped_artifacts) SHIPPED_MANIFEST = Inr shipped_releases \<and>
   mesh_repair_supported loaded_zd1200_10_5_1_0_282 \<and>
   release_by_input_sha256 (the (rl_encrypted_sha256 loaded_zd1200_10_5_1_0_282)) shipped_releases =
     Inr loaded_zd1200_10_5_1_0_282"
proof -
  let ?r = "loaded_zd1200_10_5_1_0_282"
  have m: "load_release_manifest (map fst (cat_artifacts shipped_catalog)) SHIPPED_MANIFEST = Inr shipped_releases"
    using load_shipped_manifest by (simp add: shipped_catalog_def)
  have "?r \<in> set shipped_releases" by (simp add: shipped_releases_def)
  from shipped_manifest_complete [OF load_shipped_catalog m this] load_shipped_manifest
  show ?thesis by (simp add: loaded_zd1200_10_5_1_0_282_def records_digest_def)
qed

end
