(* ===== verification/BuilderErrors.thy ===== *)
theory BuilderErrors
imports ShippedData
begin

text \<open>
  Which exceptions can leave the bundle builder.  \<open>raises P m\<close> says that whatever \<open>m\<close> raises
  satisfies \<open>P\<close>; its rules follow the sequencing of the model, so every module is taken apart the way
  it is composed.
\<close>

section \<open>A calculus of exceptions\<close>

definition raises :: "(exn \<Rightarrow> bool) \<Rightarrow> 'a result \<Rightarrow> bool" where
  "raises P m \<longleftrightarrow> (\<forall>e. m = Inl e \<longrightarrow> P e)"

lemma raisesI: "(\<And>e. m = Inl e \<Longrightarrow> P e) \<Longrightarrow> raises P m"
  by (simp add: raises_def)

lemma raises_simps [simp]:
  "raises P (Inr x)" "raises P (Inl e) \<longleftrightarrow> P e" "raises P (raise_if c e) \<longleftrightarrow> (c \<longrightarrow> P e)"
  by (auto simp: raises_def)

lemma raises_bindE: "raises P m \<Longrightarrow> (\<And>x. m = Inr x \<Longrightarrow> raises P (f x)) \<Longrightarrow> raises P (bindE m f)"
  by (cases m) auto

lemma raises_mapE: "(\<And>x. x \<in> set xs \<Longrightarrow> raises P (f x)) \<Longrightarrow> raises P (mapE f xs)"
  using mapE_Inl_in by (fastforce simp: raises_def)

text \<open>
  The errors a caller expects: everything but a missing key or index, an overflow, or a failed assertion
  other than the three the engine makes about its own output.
\<close>

definition usual_error :: "exn \<Rightarrow> bool" where
  "usual_error e \<longleftrightarrow>
     (case e of
        KeyError _ \<Rightarrow> False
      | IndexError \<Rightarrow> False
      | OverflowError \<Rightarrow> False
      | AssertionError _ \<Rightarrow> e \<in> set verify_errors
      | _ \<Rightarrow> True)"

lemma usual_error_simps [simp]:
  "usual_error (ValueError m)" "usual_error UnicodeError" "usual_error (OSError m)" "usual_error StructError"
  "usual_error (ProcessError m)" "usual_error (SystemExit m)"
  by (simp_all add: usual_error_def)

abbreviation usual :: "'a result \<Rightarrow> bool" where
  "usual \<equiv> raises usual_error"

lemma usual_verify: "e \<in> set verify_errors \<Longrightarrow> usual_error e"
  by (auto simp: verify_errors_def usual_error_def)

lemma usual_resolve: "e \<in> set resolve_errors \<Longrightarrow> usual_error e"
  by (auto simp: resolve_errors_def)

section \<open>The modules\<close>

lemma usual_apply_artifact: "load_catalog file = Inr cat \<Longrightarrow> usual (apply_artifact cat src aid)"
  by (rule raisesI) (use apply_artifact_errors usual_verify usual_resolve in fastforce)

lemma usual_rules_for_artifact: "usual (rules_for_artifact cat aid)"
  by (simp add: rules_for_artifact_def Let_def)

lemma usual_find_elf_member: "usual (find_elf_member dz data)"
  by (rule raisesI) (auto dest!: find_elf_member_errors)

lemma usual_extract_artifact:
  "map_of (cat_artifacts cat) aid \<noteq> None \<Longrightarrow> usual (extract_artifact cat dz src aid)"
  by (auto simp: extract_artifact_def intro!: raises_bindE usual_find_elf_member split: option.splits)

lemma usual_rebuild_artifact:
  "map_of (cat_artifacts cat) aid \<noteq> None \<Longrightarrow> usual (rebuild_artifact cat gz src payload aid ctx)"
  by (auto simp: rebuild_artifact_def rebuild_member_def Let_def split: option.splits)

lemma usual_patch_kernel:
  assumes "load_catalog file = Inr cat" "map_of (cat_artifacts cat) ''zd1200_kernel_elf'' \<noteq> None"
  shows "usual (patch_kernel cat dz gz sha256 src)"
  unfolding patch_kernel_def
  by (auto intro!: raises_bindE usual_extract_artifact usual_apply_artifact usual_rebuild_artifact assms)

lemma usual_decode_ascii: "usual (decode_ascii bs)"
  by (simp add: decode_ascii_def)

lemma usual_encode_ascii: "usual (encode_ascii s)"
  by (simp add: encode_ascii_def)

text \<open>A function that returns what it raises beside the states it went through.\<close>

lemma raises_fst: "raises P (fst p) \<Longrightarrow> p = (Inl e, x) \<Longrightarrow> P e"
  by (simp add: raises_def)

lemma raises_snd: "raises P (snd p) \<Longrightarrow> p = (x, Inl e) \<Longrightarrow> P e"
  by (simp add: raises_def)

lemma usual_decrypt_stream: "usual (snd (decrypt_stream no_failure n src))"
proof (rule raisesI)
  fix e assume "snd (decrypt_stream no_failure n src) = Inl e"
  then obtain outs where "n < 8 \<and> e = ValueError ''chunk_size must be at least eight bytes'' \<or>
      decrypt_loop no_failure (n - n mod 8) 0 src 0 INITIAL_XOR 0 = (outs, Inl e)"
    by (cases "decrypt_loop no_failure (n - n mod 8) 0 src 0 INITIAL_XOR 0")
       (auto simp: decrypt_stream_def split: if_splits)
  then show "usual_error e" by (auto dest: decrypt_loop_no_failure_error)
qed

lemma usual_strip_padding: "usual (fst (strip_padding no_failure tmp n h))"
  by (simp add: strip_padding_def Let_def)

lemma usual_decrypt_body: "usual (fst (decrypt_body no_failure tmp dst data h))"
  using raises_snd [OF usual_decrypt_stream] raises_fst [OF usual_strip_padding]
  by (auto simp: decrypt_body_def no_failure_def [of "OpenSource"] no_failure_def [of "SyncData"]
      no_failure_def [of "Replace"] Let_def split: prod.splits sum.splits)

lemma usual_decrypt_file: "usual (fst (decrypt_file no_failure tmp src dst s))"
  using raises_fst [OF usual_decrypt_body]
  by (auto simp: decrypt_file_def Let_def split: prod.splits sum.splits option.splits)

lemma usual_open_input: "usual (open_input env r input)"
proof (cases "take 3 input = GZIP_MAGIC")
  case False
  have v: "usual (verify_encrypted_input (ev_sha256 env) input r)"
    by (simp add: verify_encrypted_input_def split: option.splits)
  show ?thesis unfolding open_input_def if_not_P [OF False]
  proof (rule raises_bindE [OF v])
    fix u
    obtain res states where run: "decrypt_file no_failure ''decrypted.tmp'' ''input'' ''decrypted.img.tgz''
        [''input'' \<mapsto> input] = (res, states)" by (rule prod.exhaust)
    then show "usual (case decrypt_file no_failure ''decrypted.tmp'' ''input'' ''decrypted.img.tgz'' [''input'' \<mapsto> input] of
        (Inl e, _) \<Rightarrow> Inl e
      | (Inr _, states) \<Rightarrow> (case hd states ''decrypted.img.tgz'' of
          None \<Rightarrow> Inl (OSError ''read'') | Some decrypted \<Rightarrow> Inr (decrypted, EncryptedTac)))"
      using usual_decrypt_file [of "''decrypted.tmp''" "''input''" "''decrypted.img.tgz''" "[''input'' \<mapsto> input]"]
      by (cases res) (auto split: option.splits)
  qed
qed (simp add: open_input_def)

section \<open>The archive, the AP payload and the release payload\<close>

lemma usual_safe_member_name: "usual (safe_member_name name)"
  by (simp add: safe_member_name_def unsafe_path_def Let_def)

lemma usual_safe_link_target: "usual (safe_link_target name target)"
  by (simp add: safe_link_target_def unsafe_link_def Let_def)

lemma usual_check_members: "usual (check_members names raw ms)"
proof (induction names raw ms rule: check_members.induct)
  case (2 names raw m ms)
  have "usual (check_member names raw m)"
    unfolding check_member_def
    by (intro raises_bindE usual_safe_member_name) (auto intro!: raises_bindE usual_safe_link_target split: option.splits)
  with "2.IH" show ?case by (auto intro!: raises_bindE)
qed simp

lemma usual_parse_metadata: "usual (parse_metadata raw)"
proof -
  have "usual (metadata_lines vals lines)" for vals lines
    by (induction vals lines rule: metadata_lines.induct) (auto split: prod.splits)
  then show ?thesis by (simp add: parse_metadata_def split: sum.splits)
qed

lemma usual_verify_decrypted_archive: "usual (verify_decrypted_archive sha256 untar archive r)"
  unfolding verify_decrypted_archive_def check_archive_def
  by (auto intro!: raises_bindE usual_check_members usual_parse_metadata split: option.splits)

lemma usual_parse_bl7: "usual (parse_bl7 md5 data)"
  by (simp add: parse_bl7_def Let_def)

lemma usual_signed_to_ui: "usual (signed_to_ui md5 data)"
  by (simp add: signed_to_ui_def Let_def)

lemma usual_rebuild: "usual (rebuild md5 img kern rootfs)"
proof -
  have "usual (pack_be n v)" for n v by (simp add: pack_be_def)
  moreover have "usual (image_type img)" by (simp add: image_type_def unpack_be32_def)
  ultimately show ?thesis unfolding rebuild_def Let_def by (auto intro!: raises_bindE)
qed

definition usual_tools :: "squash_tools \<Rightarrow> bool" where
  "usual_tools tools \<longleftrightarrow> (\<forall>b. usual (sq_extract tools b)) \<and> (\<forall>tree. usual (sq_make tools tree))"

lemma usual_r600_transform:
  assumes "load_catalog file = Inr cat" "usual_tools tools"
  shows "usual (r600_transform cat md5 tools original)"
proof -
  have engine: "usual (bindE (rules_for_artifact cat aid) (\<lambda>rules. bindE (apply_rules src rules) f))"
    if "\<And>x. usual (f x)" for aid src and f :: "bytes \<times> bool \<times> report list \<Rightarrow> 'a result"
  proof -
    have "bindE (rules_for_artifact cat aid) (\<lambda>rules. bindE (apply_rules src rules) f) =
        bindE (apply_artifact cat src aid) f"
      by (cases "rules_for_artifact cat aid") (simp_all add: apply_artifact_def)
    then show ?thesis by (auto intro!: raises_bindE usual_apply_artifact assms(1) that)
  qed
  have "usual (patch_rootfs cat tools rootfs)" for rootfs
    unfolding patch_rootfs_def using assms(2)
    by (auto intro!: raises_bindE engine simp: usual_tools_def split: list.splits prod.splits)
  then show ?thesis
    unfolding r600_transform_def to_unsigned_def Let_def
    by (auto intro!: raises_bindE usual_signed_to_ui usual_parse_bl7 usual_rebuild split: prod.splits)
qed

lemma usual_patch_image:
  assumes "load_catalog file = Inr cat" "usual_tools tools"
  shows "usual (fst (patch_image cat md5 tools fails n src dst s))"
proof -
  have "usual (fst (publish_image fails n dst out s))" for out
    by (simp add: publish_image_def Let_def)
  from raises_fst [OF this] usual_r600_transform [OF assms] show ?thesis
    by (auto simp: patch_image_def raises_def split: option.splits sum.splits prod.splits)
qed

lemma usual_patch_candidates:
  assumes "load_catalog file = Inr cat" "usual_tools tools"
  shows "usual (fst (patch_candidates cat md5 tools fails ps s))"
proof (induction ps arbitrary: s)
  case (Cons p ps)
  with raises_fst [OF usual_patch_image [OF assms]] raises_fst [OF Cons] show ?case
    by (auto split: prod.splits sum.splits)
qed simp

lemma usual_update_controls: "usual (fst (update_controls n cs s))"
proof (induction cs arbitrary: s)
  case (Cons c cs)
  have "usual (fst (update_control n c s))" for s
    using usual_decode_ascii usual_encode_ascii
    by (auto simp: update_control_def raises_def split: option.splits sum.splits prod.splits)
  from raises_fst [OF this] raises_fst [OF Cons] show ?case
    by (auto split: prod.splits sum.splits)
qed simp

lemma usual_with_controls: "usual (fst (with_controls view aliases n ms s))"
  using raises_fst [OF usual_update_controls]
  by (auto simp: with_controls_def update_scorpion_control_files_def Let_def split: prod.splits sum.splits)

lemma usual_patch_scorpion_payload:
  assumes "load_catalog file = Inr cat" "\<forall>t. tools = Some t \<longrightarrow> usual_tools t"
  shows "usual (fst (patch_scorpion_payload cat md5 fails view tools override s))"
proof (cases "scorpion_payload_paths view")
  case (Inl e)
  then show ?thesis
    by (auto simp: patch_scorpion_payload_def scorpion_payload_paths_def Let_def split: if_splits)
next
  case (Inr ca)
  show ?thesis
  proof (cases override)
    case (Some replacement)
    with Inr usual_parse_bl7 [of md5 replacement] show ?thesis
      by (auto simp: patch_scorpion_payload_def usual_with_controls split: prod.splits sum.splits)
  next
    case None
    show ?thesis
    proof (cases tools)
      case (Some t)
      with assms(2) have t: "usual_tools t" by simp
      from raises_fst [OF usual_patch_candidates [OF assms(1) t]] Some None Inr show ?thesis
        by (auto simp: patch_scorpion_payload_def usual_with_controls split: prod.splits sum.splits option.splits)
    qed (use Inr None in \<open>simp add: patch_scorpion_payload_def split: prod.splits\<close>)
  qed
qed

lemma usual_make_payload:
  assumes "wf_release known r"
  shows "usual (make_payload tgz r tree s)"
proof -
  have "usual (payload_member s e)" for e
    by (auto simp: payload_member_def split: prod.splits vendor_node.splits option.splits)
  then have "usual (add_name tree s name)" for name
    by (auto simp: add_name_def intro: raises_mapE)
  moreover from assms obtain ftp ssh where "feature r ''runtime_ftp_bootstrap'' = Inr ftp"
    "feature r ''runtime_root_ssh'' = Inr ssh" by (rule wf_release_features)
  then have "usual (release_info r b)" for b
    by (simp add: release_info_def usual_encode_ascii)
  ultimately show ?thesis
    unfolding make_payload_def payload_members_def by (auto intro!: raises_bindE raises_mapE)
qed

section \<open>The builder\<close>

text \<open>The programs and library calls the builder is given fail, if they do, in one of the usual ways.\<close>

definition usual_env :: "bundle_env \<Rightarrow> bool" where
  "usual_env env \<longleftrightarrow>
     (\<forall>b. usual (ev_unpack env b)) \<and> (\<forall>files. usual (ev_initrd env files)) \<and> usual_tools (ev_tools env)"

lemma usual_copy_tree_safe: "usual (copy_tree_safe repo files)"
proof -
  have "usual (copy_files repo e ps files)" if "usual_error e" for e ps files
    using that by (auto simp: raises_def copy_files_Inl)
  then show ?thesis unfolding copy_tree_safe_def by (auto intro!: raises_bindE)
qed

lemma usual_base_bundle:
  assumes "load_catalog file = Inr cat" "map_of (cat_artifacts cat) ''zd1200_kernel_elf'' \<noteq> None" "usual_env env"
  shows "usual (base_bundle cat env repo v)"
proof -
  have "usual (vendor_file v p)" for p by (simp add: vendor_file_def split: option.splits)
  with assms(3) show ?thesis
    unfolding base_bundle_def
    by (auto simp: usual_env_def intro!: raises_bindE usual_copy_tree_safe usual_patch_kernel [OF assms(1,2)]
        split: prod.splits)
qed

lemma usual_scorpion_step:
  assumes "load_catalog file = Inr cat" "usual_env env"
  shows "usual (scorpion_step cat env opts r v)"
proof -
  have "usual (choose_scorpion opts r)" by (simp add: choose_scorpion_def Let_def)
  moreover have "usual_tools (ev_tools env)" using assms(2) by (simp add: usual_env_def)
  then have "usual (fst (patch_scorpion_payload cat md5 f view (Some (ev_tools env)) b s))"
    "usual (fst (patch_scorpion_payload cat md5 f view None b s))" for md5 f view b s
    by (auto intro!: usual_patch_scorpion_payload [OF assms(1)])
  note patched = this [THEN raises_fst]
  ultimately show ?thesis unfolding scorpion_step_def Let_def
    by (intro raises_bindE) (auto dest: patched split: prod.splits sum.splits)
qed

lemma usual_assemble:
  assumes "load_catalog file = Inr cat" "map_of (cat_artifacts cat) ''zd1200_kernel_elf'' \<noteq> None"
    and "usual_env env" "wf_release known r"
  shows "usual (assemble cat env opts r repo input)"
proof -
  have "usual (extract_verified_archive env r archive)" for archive
    unfolding extract_verified_archive_def using assms(3)
    by (auto simp: usual_env_def intro!: raises_bindE usual_verify_decrypted_archive)
  moreover have "usual (kernel_rule_names cat)"
    by (auto simp: kernel_rule_names_def intro!: raises_bindE usual_rules_for_artifact)
  ultimately show ?thesis unfolding assemble_def Let_def
    by (auto intro!: raises_bindE usual_open_input usual_base_bundle [OF assms(1-3)]
        usual_scorpion_step [OF assms(1,3)] usual_make_payload [OF assms(4)] split: prod.splits)
qed

lemma usual_build_bundle:
  assumes "load_catalog file = Inr cat" "map_of (cat_artifacts cat) ''zd1200_kernel_elf'' \<noteq> None"
    and "usual_env env" "wf_release known r"
  shows "usual (fst (build_bundle cat env fails partial opts r repo input output s))"
proof -
  have "usual (bindE (check_bundle_options opts) (\<lambda>_. assemble cat env opts r repo input))"
    by (rule raises_bindE) (simp_all add: check_bundle_options_def usual_assemble [OF assms])
  moreover have "usual (fst (publish_zip fails partial output archive s))" for archive
    by (simp add: publish_zip_def Let_def)
  from raises_fst [OF this] show ?thesis
    using calculation by (auto simp: build_bundle_def Let_def raises_def split: sum.splits prod.splits)
qed

section \<open>Properties\<close>



end
