(* ===== verification/CommandLines.thy ===== *)
theory CommandLines
imports Provisioning Tac CpuLimiter RuntimeKernel BuilderErrors
begin

text \<open>
  The command lines: from what \<open>argparse\<close> leaves for each option, given or not, to the programs
  modelled elsewhere, with the defaults, required arguments and choices the programs declare.  A flag that
  was given has the empty text as its value.  Splitting the words of the command line into options and
  values is \<open>argparse\<close>'s own; what matters of it for values that start with a dash is
  \<open>option_value\<close>.
\<close>

type_synonym arguments = "string \<Rightarrow> string option"

definition required_argument :: "arguments \<Rightarrow> string \<Rightarrow> string result" where
  "required_argument given name = (case given name of None \<Rightarrow> Inl (SystemExit ''2'') | Some v \<Rightarrow> Inr v)"

definition default_argument :: "arguments \<Rightarrow> string \<Rightarrow> string \<Rightarrow> string" where
  "default_argument given name d = (case given name of None \<Rightarrow> d | Some v \<Rightarrow> v)"

definition flag :: "arguments \<Rightarrow> string \<Rightarrow> bool" where
  "flag given name \<longleftrightarrow> given name \<noteq> None"

text \<open>\<open>int(text)\<close>: white space around, a sign, digits with single underscores between them.\<close>

fun dec_digits :: "bool \<Rightarrow> int \<Rightarrow> string \<Rightarrow> int option" where
  "dec_digits pend acc [] = (if pend then None else Some acc)"
| "dec_digits pend acc (c # cs) =
     (if c = CHR ''_'' then (if pend then None else dec_digits True acc cs)
      else if is_ascii_digit c then dec_digits False (10 * acc + (int (code_point c) - 48)) cs
      else None)"

definition int_base10 :: "string \<Rightarrow> int result" where
  "int_base10 s =
     (case (case strip_int_space s of
              [] \<Rightarrow> None
            | c # cs \<Rightarrow>
                if c = CHR ''+'' then dec_digits True 0 cs
                else if c = CHR ''-'' then map_option uminus (dec_digits True 0 cs)
                else dec_digits True 0 (c # cs)) of
        None \<Rightarrow> Inl (ValueError ''invalid literal for int() with base 10'')
      | Some v \<Rightarrow> Inr v)"

section \<open>The programs\<close>

definition tac_command :: "(tac_step \<Rightarrow> bool) \<Rightarrow> path \<Rightarrow> arguments \<Rightarrow> store \<Rightarrow> nat result \<times> store list" where
  "tac_command fails tmp given s =
     (case bindE (required_argument given ''source'') (\<lambda>src.
           bindE (required_argument given ''destination'') (\<lambda>dst. Inr (src, dst))) of
        Inl e \<Rightarrow> (Inl e, [s])
      | Inr (src, dst) \<Rightarrow> decrypt_file fails tmp src dst s)"

text \<open>The release is looked up, and its digest, before the file is opened.\<close>

definition VERIFY_DEFAULT_RELEASE :: string where
  "VERIFY_DEFAULT_RELEASE = ''zd1200_10_5_1_0_282''"

definition verify_command ::
  "(bytes \<Rightarrow> string) \<Rightarrow> (bytes \<Rightarrow> tar_member list option) \<Rightarrow> release list \<Rightarrow> arguments \<Rightarrow> store \<Rightarrow> verify_report result" where
  "verify_command sha256 untar releases given s =
     bindE (required_argument given ''archive'') (\<lambda>archive.
       let release_id = default_argument given ''release'' VERIFY_DEFAULT_RELEASE
       in case s archive of
            Some data \<Rightarrow> verify_main sha256 untar releases release_id (flag given ''encrypted'') data
          | None \<Rightarrow>
              bindE (release_by_id release_id releases) (\<lambda>r.
                if flag given ''encrypted'' \<and> rl_encrypted_sha256 r = None then
                  Inl (ValueError ''no encrypted input hash is recorded'')
                else if \<not> flag given ''encrypted'' \<and> rl_decrypted_sha256 r = None then
                  Inl (ValueError ''no decrypted archive hash is recorded'')
                else Inl (OSError ''open'')))"

definition boarddata_platform :: "arguments \<Rightarrow> nat result" where
  "boarddata_platform given =
     (case given ''platform'' of
        None \<Rightarrow> Inr 1
      | Some v \<Rightarrow>
          (case int_base10 v of
             Inl _ \<Rightarrow> Inl (SystemExit ''2'')
           | Inr n \<Rightarrow> if n \<in> {0, 1} then Inr (nat n) else Inl (SystemExit ''2'')))"

definition boarddata_command ::
  "arguments \<Rightarrow> (path \<Rightarrow> disk option) \<Rightarrow> (path \<times> disk \<times> boarddata_report) result" where
  "boarddata_command given disks =
     bindE (boarddata_platform given) (\<lambda>platform.
       let path = default_argument given ''disk'' ''synthetic-cf.img''
       in bindE (boarddata_program (default_argument given ''serial'' ''123456000789'')
                   (default_argument given ''mac'' ''01:01:01:01:01:02'')
                   (default_argument given ''model'' ''ZD1200'')
                   (default_argument given ''customer'' ''ruckus'') platform (disks path))
            (\<lambda>(d, report). Inr (path, d, report)))"

text \<open>\<open>IDENTITY_FILE\<close> in the state directory and its temporary sibling with the process number.\<close>

definition identity_path :: "path \<Rightarrow> path" where
  "identity_path state_dir = path_join state_dir ''board-identity.env''"

definition identity_tmp :: "path \<Rightarrow> nat \<Rightarrow> path" where
  "identity_tmp state_dir pid = path_join state_dir (''.board-identity.env.'' @ decimal pid @ ''.tmp'')"

definition identity_command ::
  "(id_step \<Rightarrow> bool) \<Rightarrow> nat \<Rightarrow> nat \<Rightarrow> bytes \<Rightarrow> arguments \<Rightarrow> store \<Rightarrow> (string \<times> string \<times> id_source) result \<times> store" where
  "identity_command fails pid random_serial random_bytes given s =
     (case required_argument given ''state-dir'' of
        Inl e \<Rightarrow> (Inl e, s)
      | Inr dir \<Rightarrow>
          identity_main fails (identity_tmp dir pid) (identity_path dir) random_serial random_bytes
            (default_argument given ''serial'' []) (default_argument given ''mac'' []) s)"

text \<open>The input and output of the patch command default to the bundle's image directory.\<close>

definition patch_command ::
  "catalog \<Rightarrow> gunzip \<Rightarrow> (bytes \<Rightarrow> bytes) \<Rightarrow> arguments \<Rightarrow> store \<Rightarrow> (bool \<times> vmlinux_note) result \<times> store" where
  "patch_command cat dz gz given s =
     (let aid = default_argument given ''artifact'' KERNEL_ARTIFACT;
          input = default_argument given ''in'' ''image/bzImage'';
          out_path = default_argument given ''out'' ''image/bzImage.patched'';
          vmlinux = default_argument given ''vmlinux'' ''image/vmlinux''
      in if map_of (cat_artifacts cat) aid = None then (Inl (SystemExit ''2''), s)
         else case s input of
           None \<Rightarrow> (Inl (OSError ''read''), s)
         | Some source \<Rightarrow>
             (case patch_main cat dz gz (s vmlinux) aid source of
                Inl e \<Rightarrow> (Inl e, s)
              | Inr (patched, changed, note) \<Rightarrow> (Inr (changed, note), fs_put out_path patched s)))"

definition r600_command ::
  "catalog \<Rightarrow> (bytes \<Rightarrow> bytes) \<Rightarrow> (path \<Rightarrow> path \<Rightarrow> squash_tools) \<Rightarrow> (r600_step \<Rightarrow> bool) \<Rightarrow> nat \<Rightarrow> arguments \<Rightarrow> store \<Rightarrow>
   r600_note list result \<times> store list" where
  "r600_command cat md5 tools fails partial given s =
     (case mapE (required_argument given) [''input'', ''output'', ''unsquashfs'', ''mksquashfs''] of
        Inr [input, out_path, unsquashfs, mksquashfs] \<Rightarrow>
          r600_main cat md5 (tools unsquashfs mksquashfs) fails partial input out_path s
      | Inl e \<Rightarrow> (Inl e, [s])
      | _ \<Rightarrow> (Inl (SystemExit ''2''), [s]))"

text \<open>
  The builder: the contents of the override image are an argument (it is read where it is used), and an
  empty \<open>--release\<close> counts as none.
\<close>

definition bundle_arguments :: "(path \<Rightarrow> bytes) \<Rightarrow> arguments \<Rightarrow> bundle_options" where
  "bundle_arguments contents given =
     \<lparr>bo_unsquashfs = flag given ''unsquashfs'', bo_mksquashfs = flag given ''mksquashfs'',
      bo_r600_bl7 = map_option contents (given ''r600-bl7''), bo_auto_r600_mesh = flag given ''auto-r600-mesh''\<rparr>"

definition bundle_command ::
  "catalog \<Rightarrow> bundle_env \<Rightarrow> (zip_step \<Rightarrow> bool) \<Rightarrow> bytes \<Rightarrow> (path \<Rightarrow> bytes) \<Rightarrow> release list \<Rightarrow> store \<Rightarrow> arguments \<Rightarrow>
   store \<Rightarrow> (build_report \<times> string) result \<times> store list" where
  "bundle_command cat env fails partial contents releases repo given s =
     (case bindE (required_argument given ''input'') (\<lambda>input.
           bindE (required_argument given ''output'') (\<lambda>out_path. Inr (input, out_path))) of
        Inl e \<Rightarrow> (Inl e, [s])
      | Inr (input, out_path) \<Rightarrow>
          bundle_main cat env fails partial (bundle_arguments contents given) releases
            (default_argument given ''release'' []) repo input out_path s)"

text \<open>The words after the program's name: a process number and a percentage, not checked further.\<close>

definition limiter_arguments :: "string list \<Rightarrow> (int \<times> int) result" where
  "limiter_arguments argv =
     (if length argv \<noteq> 3 then Inl (SystemExit ''2'')
      else bindE (int_base10 (argv ! 1)) (\<lambda>pid. bindE (int_base10 (argv ! 2)) (\<lambda>percent.
             Inr (pid, clamp_percent percent))))"

section \<open>What the defaults give\<close>

lemma path_join_relative: "\<not> is_absolute a \<Longrightarrow> \<not> is_absolute b \<Longrightarrow> path_join d a = path_join d b \<longleftrightarrow> a = b"
  by (simp add: path_join_def)

text \<open>The temporary file of the identity is never the identity file itself.\<close>

lemma identity_tmp_neq: "identity_tmp dir pid \<noteq> identity_path dir"
  by (simp add: identity_tmp_def identity_path_def path_join_relative is_absolute_def slash_def)

text \<open>
  Two runs of the identity command on one state directory, with whatever process numbers, randomness and
  failures, report the same identity once the first has succeeded without an override.
\<close>

theorem identity_command_again:
  assumes "identity_command fails pid n bs given s = (Inr (serial, mac, source), st)"
    and "given ''serial'' = None" "given ''mac'' = None" "length bs = 5" "bs \<noteq> replicate 5 0xFF"
  shows "identity_command fails' pid' n' bs' given st = (Inr (serial, mac, PersistentState), st)"
proof -
  from assms(1-3) obtain dir where dir: "given ''state-dir'' = Some dir"
    and run: "identity_main fails (identity_tmp dir pid) (identity_path dir) n bs [] [] s = (Inr (serial, mac, source), st)"
    by (auto simp: identity_command_def required_argument_def default_argument_def split: option.splits)
  from resolved_reads_back [OF run [unfolded identity_main_Inr] identity_tmp_neq assms(4,5)]
  show ?thesis using assms(2,3) dir
    by (simp add: identity_command_def required_argument_def default_argument_def identity_main_Inr
        resolve_identity_persistent)
qed

text \<open>
  The patch command touches nothing but its output file, and that only when it succeeds.
\<close>

theorem patch_command_effect:
  "case patch_command cat dz gz given s of
     (Inl _, s') \<Rightarrow> s' = s
   | (Inr (changed, note), s') \<Rightarrow> \<exists>source patched.
       s (default_argument given ''in'' ''image/bzImage'') = Some source \<and>
       patch_main cat dz gz (s (default_argument given ''vmlinux'' ''image/vmlinux''))
         (default_argument given ''artifact'' KERNEL_ARTIFACT) source = Inr (patched, changed, note) \<and>
       s' = s(default_argument given ''out'' ''image/bzImage.patched'' \<mapsto> patched)"
  by (auto simp: patch_command_def Let_def fs_put_def split: option.splits sum.splits prod.splits)

text \<open>
  The release that the archive check uses when none is named is in the shipped manifest, is the one that needs
  the mesh repair, and records both digests.
\<close>

theorem verify_default_release:
  assumes "load_release_manifest (map fst shipped_artifacts) SHIPPED_MANIFEST = Inr releases" "given ''release'' = None"
    and "given ''archive'' = Some archive" "s archive = Some data"
  shows "\<exists>r. release_by_id VERIFY_DEFAULT_RELEASE releases = Inr r \<and> mesh_repair_supported r \<and>
    rl_encrypted_sha256 r \<noteq> None \<and> rl_decrypted_sha256 r \<noteq> None \<and>
    verify_command sha256 untar releases given s =
      verify_main sha256 untar releases (rl_release_id r) (flag given ''encrypted'') data"
proof -
  have rs: "releases = shipped_releases" using assms(1) load_shipped_manifest by simp
  have "release_by_id VERIFY_DEFAULT_RELEASE shipped_releases = Inr loaded_zd1200_10_5_1_0_282" by code_simp
  moreover have "mesh_repair_supported loaded_zd1200_10_5_1_0_282"
    "rl_release_id loaded_zd1200_10_5_1_0_282 = VERIFY_DEFAULT_RELEASE"
    "rl_encrypted_sha256 loaded_zd1200_10_5_1_0_282 \<noteq> None" "rl_decrypted_sha256 loaded_zd1200_10_5_1_0_282 \<noteq> None"
    by (simp_all add: mesh_repair_supported_def loaded_zd1200_10_5_1_0_282_def VERIFY_DEFAULT_RELEASE_def)
  ultimately show ?thesis using assms(2-4)
    by (auto simp: rs verify_command_def required_argument_def default_argument_def)
qed

text \<open>The limiter never asks for more than the period, whatever percentage it is given.\<close>

theorem limiter_arguments_bounded:
  "limiter_arguments argv = Inr (pid, percent) \<Longrightarrow> 1 \<le> percent \<and> percent \<le> 95"
  by (auto simp: limiter_arguments_def clamp_percent_def bindE_Inr_iff split: if_splits)

end
