(* ===== verification/RootSsh.thy ===== *)
theory RootSsh
imports ByteCodec PyText
begin

text \<open>
  \<open>zd_root_ssh.py\<close>: the check of one OpenSSH public key.  \<open>b64\<close> stands for
  \<open>base64.b64decode(s, validate=True)\<close>, \<open>None\<close> when it raises (its strictness about padding
  differs between Python versions).
\<close>

definition ALGORITHMS :: "string list" where
  "ALGORITHMS =
     [''ssh-rsa'', ''ecdsa-sha2-nistp256'', ''ecdsa-sha2-nistp384'', ''ecdsa-sha2-nistp521'']"

definition comment_char :: "char \<Rightarrow> bool" where
  "comment_char c \<longleftrightarrow> \<not> (in_range 0 31 c \<or> code_point c = 127)"

text \<open>
  \<open>s.split(None, n)\<close>: at most \<open>n\<close> words are split off; what follows keeps its trailing white
  space.
\<close>

fun split_ws_max :: "nat \<Rightarrow> string \<Rightarrow> string list" where
  "split_ws_max 0 s = (let rest = dropWhile py_isspace s in if rest = [] then [] else [rest])"
| "split_ws_max (Suc n) s =
     (let rest = dropWhile py_isspace s
      in if rest = [] then []
         else takeWhile (\<lambda>c. \<not> py_isspace c) rest
              # split_ws_max n (dropWhile (\<lambda>c. \<not> py_isspace c) rest))"

definition key_bytes :: "string \<Rightarrow> bytes" where
  "key_bytes s = map (\<lambda>c. of_nat (code_point c)) s"

definition blob_names_algorithm :: "bytes \<Rightarrow> string \<Rightarrow> bool" where
  "blob_names_algorithm decoded algorithm \<longleftrightarrow>
     \<not> (length decoded < 4 \<or> be_int (take 4 decoded) \<noteq> int (length algorithm) \<or>
        bslice decoded 4 (4 + length algorithm) \<noteq> key_bytes algorithm)"

definition validate_public_key :: "(string \<Rightarrow> bytes option) \<Rightarrow> string \<Rightarrow> string result" where
  "validate_public_key b64 value =
     (if CHR 0x0A \<in> set value \<or> CHR 0x0D \<in> set value \<or> value = [] then
        Inl (ValueError ''public key must be one non-empty OpenSSH line'')
      else
        let fields = split_ws_max 2 value
        in if length fields \<notin> {2, 3} \<or> fields ! 0 \<notin> set ALGORITHMS then
             Inl (ValueError ''public key must use a supported OpenSSH key algorithm'')
           else (case b64 (fields ! 1) of
             None \<Rightarrow> Inl (ValueError ''public key has invalid base64 data'')
           | Some decoded \<Rightarrow>
               if length decoded < 16 then Inl (ValueError ''public key data is unexpectedly short'')
               else if \<not> blob_names_algorithm decoded (fields ! 0) then
                 Inl (ValueError ''public key data does not match its declared algorithm'')
               else if length fields = 3 \<and> \<not> list_all comment_char (fields ! 2) then
                 Inl (ValueError ''public-key comment contains a control character'')
               else Inr (join_with '' '' fields)))"

text \<open>\<open>main\<close>: the line printed, or the exit message.\<close>

definition root_ssh_main :: "(string \<Rightarrow> bytes option) \<Rightarrow> string list \<Rightarrow> string result" where
  "root_ssh_main b64 argv =
     (if length argv < 2 then Inl (SystemExit ''usage'')
      else case validate_public_key b64 (argv ! 1) of
             Inl (ValueError m) \<Rightarrow> Inl (SystemExit ''invalid root SSH public key'')
           | r \<Rightarrow> r)"

section \<open>Words\<close>

definition is_word :: "string \<Rightarrow> bool" where
  "is_word w \<longleftrightarrow> w \<noteq> [] \<and> (\<forall>c \<in> set w. \<not> py_isspace c)"

lemma space_is_space: "py_isspace CHR '' ''"
  by (simp add: py_isspace_def in_range_def code_point_def)

lemma split_ws_max_words:
  "split_ws_max n s = ws \<Longrightarrow> \<forall>i < length ws. i < n \<longrightarrow> is_word (ws ! i)"
proof (induction n arbitrary: s ws)
  case (Suc n)
  let ?r = "dropWhile py_isspace s"
  show ?case
  proof (cases "?r = []")
    case True
    with Suc.prems show ?thesis by simp
  next
    case False
    then have w: "is_word (takeWhile (\<lambda>c. \<not> py_isspace c) ?r)"
      using hd_dropWhile [of py_isspace s] by (cases ?r) (auto simp: is_word_def dest: set_takeWhileD)
    from False Suc.prems have ws: "ws = takeWhile (\<lambda>c. \<not> py_isspace c) ?r #
        split_ws_max n (dropWhile (\<lambda>c. \<not> py_isspace c) ?r)"
      by (simp add: Let_def del: dropWhile_eq_Nil_conv)
    show ?thesis
    proof (intro allI impI)
      fix i assume "i < length ws" "i < Suc n"
      then show "is_word (ws ! i)" using w Suc.IH [OF refl] by (cases i) (auto simp: ws)
    qed
  qed
qed simp

lemma split_ws_max_last:
  "split_ws_max n s = ws \<Longrightarrow> w \<in> set ws \<Longrightarrow> w \<noteq> [] \<and> \<not> py_isspace (hd w)"
proof (induction n arbitrary: s ws)
  case 0
  then have "w = dropWhile py_isspace s" "dropWhile py_isspace s \<noteq> []"
    by (auto simp: Let_def simp del: dropWhile_eq_Nil_conv split: if_splits)
  then show ?case using hd_dropWhile [of py_isspace s] by simp
next
  case (Suc n)
  let ?r = "dropWhile py_isspace s"
  from Suc.prems have ne: "?r \<noteq> []"
    by (auto simp: Let_def simp del: dropWhile_eq_Nil_conv split: if_splits)
  with hd_dropWhile [of py_isspace s] have h: "\<not> py_isspace (hd ?r)" by blast
  from Suc.prems ne have "w = takeWhile (\<lambda>c. \<not> py_isspace c) ?r \<or>
      w \<in> set (split_ws_max n (dropWhile (\<lambda>c. \<not> py_isspace c) ?r))"
    by (auto simp: Let_def simp del: dropWhile_eq_Nil_conv)
  then show ?case using Suc.IH [OF refl] h ne by (cases ?r) auto
qed

lemma split_ws_max_join_word:
  assumes "is_word w" "rest \<noteq> [] \<Longrightarrow> \<not> py_isspace (hd rest)"
  shows "split_ws_max (Suc n) (w @ '' '' @ rest) = w # split_ws_max n rest"
proof -
  have d: "dropWhile py_isspace (w @ '' '' @ rest) = w @ '' '' @ rest"
    using assms(1) by (cases w) (auto simp: is_word_def)
  have "takeWhile (\<lambda>c. \<not> py_isspace c) (w @ '' '' @ rest) = w"
    "dropWhile (\<lambda>c. \<not> py_isspace c) (w @ '' '' @ rest) = '' '' @ rest"
    using assms(1) space_is_space by (simp_all add: is_word_def)
  moreover have "split_ws_max n ('' '' @ rest) = split_ws_max n rest"
    using space_is_space by (cases n) (simp_all add: Let_def)
  ultimately show ?thesis using d assms(1) by (simp add: Let_def is_word_def)
qed

lemma split_ws_max_0: "rest \<noteq> [] \<Longrightarrow> \<not> py_isspace (hd rest) \<Longrightarrow> split_ws_max 0 rest = [rest]"
  by (cases rest) (simp_all add: Let_def)

lemma split_ws_max_word: "is_word w \<Longrightarrow> split_ws_max (Suc n) w = [w]"
proof -
  assume w: "is_word w"
  then have d: "dropWhile py_isspace w = w" "w \<noteq> []" by (cases w; auto simp: is_word_def)+
  have t: "takeWhile (\<lambda>c. \<not> py_isspace c) w = w" "dropWhile (\<lambda>c. \<not> py_isspace c) w = []"
    using w by (simp_all add: is_word_def)
  have "split_ws_max n [] = []" by (cases n) simp_all
  with d(2) show ?thesis by (simp only: split_ws_max.simps Let_def d(1) t if_False)
qed

lemma validate_public_key_Inr:
  assumes "validate_public_key b64 v = Inr out"
  obtains fields decoded where "fields = split_ws_max 2 v" "length fields = 2 \<or> length fields = 3"
    "fields ! 0 \<in> set ALGORITHMS" "b64 (fields ! 1) = Some decoded" "16 \<le> length decoded"
    "blob_names_algorithm decoded (fields ! 0)" "length fields = 3 \<longrightarrow> list_all comment_char (fields ! 2)"
    "out = join_with '' '' fields" "CHR 0x0A \<notin> set v" "CHR 0x0D \<notin> set v"
  using assms by (auto simp: validate_public_key_def Let_def split: if_splits option.splits)

lemma join_fields:
  assumes "fields = split_ws_max 2 v" "length fields = 2 \<or> length fields = 3"
  shows "split_ws_max 2 (join_with '' '' fields) = fields"
proof -
  from assms(2) obtain a b rest where f: "fields = a # b # rest" "rest = [] \<or> (\<exists>c. rest = [c])"
    by (auto simp: length_Suc_conv eval_nat_numeral)
  from split_ws_max_words [OF assms(1) [symmetric]] f(1) have w: "is_word a" "is_word b"
    by (auto simp: numeral_2_eq_2 dest: spec [of _ 0] spec [of _ "Suc 0"])
  have hd: "\<not> py_isspace (hd b)" using w(2) by (cases b) (auto simp: is_word_def)
  from f(2) show ?thesis
  proof
    assume "rest = []"
    with split_ws_max_join_word [OF w(1), of b 1] split_ws_max_word [OF w(2), of 0] hd f(1)
    show ?thesis by (simp add: numeral_2_eq_2 One_nat_def del: split_ws_max.simps)
  next
    assume "\<exists>c. rest = [c]"
    then obtain c where c: "rest = [c]" by blast
    from split_ws_max_last [OF assms(1) [symmetric], of c] f(1) c
    have ch: "c \<noteq> []" "\<not> py_isspace (hd c)" by auto
    have "hd (b @ '' '' @ c) = hd b" using w(2) by (simp add: is_word_def)
    with split_ws_max_join_word [OF w(1), of "b @ '' '' @ c" 1] hd
    have "split_ws_max 2 (join_with '' '' fields) = a # split_ws_max 1 (b @ '' '' @ c)"
      by (simp add: f(1) c numeral_2_eq_2 del: split_ws_max.simps)
    also have "split_ws_max 1 (b @ '' '' @ c) = b # split_ws_max 0 c"
      using split_ws_max_join_word [OF w(2), of c 0] ch by (simp del: split_ws_max.simps)
    also have "split_ws_max 0 c = [c]" by (rule split_ws_max_0 [OF ch])
    finally show ?thesis by (simp add: f(1) c)
  qed
qed

section \<open>Properties\<close>



definition sample_blob :: bytes where
  "sample_blob = [0, 0, 0, 7, 0x73, 0x73, 0x68, 0x2D, 0x72, 0x73, 0x61, 0, 0, 0, 1, 3]"


end
