(* ===== verification/Hygiene.thy ===== *)
theory Hygiene
imports PosixPath ByteCodec
begin

text \<open>
  \<open>check_repository_hygiene.py\<close>: the tracked files, one verdict per file, and the command.  The
  output of \<open>git ls-files -z\<close> is an argument, \<open>utf8\<close> stands for \<open>bytes.decode("utf-8")\<close>, and
  \<open>contents\<close> gives the bytes of a tracked file, \<open>None\<close> when it cannot be read.
\<close>

definition FORBIDDEN_SUFFIXES :: "string list" where
  "FORBIDDEN_SUFFIXES =
     [''.img'', ''.bl7'', ''.ko'', ''.qcow2'', ''.tgz'', ''.tar'', ''.zip'', ''.pem'', ''.key'', ''.p12'', ''.pfx'']"

definition FORBIDDEN_PATHS :: "string list" where
  "FORBIDDEN_PATHS =
     [''zd-dropbear2222/dropbear'', ''zd-dropbear2222/dropbearconvert'',
      ''zd-dropbear2222/dropbearkey'', ''zd-dropbear2222/sftp-server'']"

text \<open>The two markers, a private key and an OpenSSH private key.\<close>

definition PRIVATE_MARKERS :: "bytes list" where
  "PRIVATE_MARKERS =
    [[45, 45, 45, 45, 45, 66, 69, 71, 73, 78, 32, 80, 82, 73, 86, 65, 84, 69, 32, 75, 69, 89,
      45, 45, 45, 45, 45],
     [45, 45, 45, 45, 45, 66, 69, 71, 73, 78, 32, 79, 80, 69, 78, 83, 83, 72, 32, 80, 82, 73,
      86, 65, 84, 69, 32, 75, 69, 89, 45, 45, 45, 45, 45]]"

text \<open>\<open>result.stdout.split(b"\0")\<close>\<close>

fun split_nul :: "bytes \<Rightarrow> bytes list" where
  "split_nul [] = [[]]"
| "split_nul (b # bs) =
     (if b = 0 then [] # split_nul bs
      else case split_nul bs of [] \<Rightarrow> [[b]] | w # ws \<Rightarrow> (b # w) # ws)"

definition tracked_files :: "(bytes \<Rightarrow> string result) \<Rightarrow> bytes \<Rightarrow> string list result" where
  "tracked_files utf8 stdout = mapE utf8 (filter (\<lambda>item. item \<noteq> []) (split_nul stdout))"

datatype violation =
    ForbiddenSuffix string
  | UnprovenancedPayload string
  | CannotInspect string
  | PrivateKeyMarker string

text \<open>The body of the loop: at most one finding per file.\<close>

definition file_violation :: "(string \<Rightarrow> bytes option) \<Rightarrow> string \<Rightarrow> violation option" where
  "file_violation contents relative =
     (let portable = as_posix relative
      in if py_lower (path_suffix relative) \<in> set FORBIDDEN_SUFFIXES then Some (ForbiddenSuffix portable)
         else if portable \<in> set FORBIDDEN_PATHS then Some (UnprovenancedPayload portable)
         else (case contents portable of
           None \<Rightarrow> Some (CannotInspect portable)
         | Some data \<Rightarrow>
             if list_ex (\<lambda>marker. bytes_find data marker 0 \<noteq> None) PRIVATE_MARKERS
             then Some (PrivateKeyMarker portable) else None))"

definition violations :: "(string \<Rightarrow> bytes option) \<Rightarrow> string list \<Rightarrow> violation list" where
  "violations contents files = List.map_filter (file_violation contents) files"

definition hygiene_main ::
  "(bytes \<Rightarrow> string result) \<Rightarrow> bytes option \<Rightarrow> (string \<Rightarrow> bytes option) \<Rightarrow> unit result" where
  "hygiene_main utf8 git_output contents =
     (case git_output of
        None \<Rightarrow> Inl (ProcessError ''git'')
      | Some stdout \<Rightarrow>
          bindE (tracked_files utf8 stdout) (\<lambda>files.
            raise_if (violations contents files \<noteq> []) (SystemExit ''1'')))"

section \<open>What a clean tree is\<close>

definition clean_file :: "(string \<Rightarrow> bytes option) \<Rightarrow> string \<Rightarrow> bool" where
  "clean_file contents p \<longleftrightarrow>
     py_lower (path_suffix p) \<notin> set FORBIDDEN_SUFFIXES \<and> as_posix p \<notin> set FORBIDDEN_PATHS \<and>
     (\<exists>data. contents (as_posix p) = Some data \<and>
        (\<forall>marker \<in> set PRIVATE_MARKERS. \<forall>pre post. data \<noteq> pre @ marker @ post))"

lemma bytes_find_anywhere: "bytes_find data sub 0 = None \<longleftrightarrow> (\<forall>pre post. data \<noteq> pre @ sub @ post)"
proof -
  have "(\<exists>i. i + length sub \<le> length data \<and> occurs_at data sub i) \<longleftrightarrow> (\<exists>pre post. data = pre @ sub @ post)"
  proof
    assume "\<exists>i. i + length sub \<le> length data \<and> occurs_at data sub i"
    then obtain i where "take (length sub) (drop i data) = sub" by (auto simp: occurs_at_def)
    then have "data = take i data @ sub @ drop (length sub) (drop i data)"
      by (metis append_take_drop_id)
    then show "\<exists>pre post. data = pre @ sub @ post" by blast
  next
    assume "\<exists>pre post. data = pre @ sub @ post"
    then obtain pre post where d: "data = pre @ sub @ post" by blast
    show "\<exists>i. i + length sub \<le> length data \<and> occurs_at data sub i"
      by (rule exI [of _ "length pre"]) (simp add: d occurs_at_def)
  qed
  then show ?thesis by (auto simp: bytes_find_None_iff)
qed

lemma file_violation_None: "file_violation contents p = None \<longleftrightarrow> clean_file contents p"
  by (auto simp: file_violation_def clean_file_def Let_def list_ex_iff bytes_find_anywhere
      split: option.splits)

lemma violations_Nil: "violations contents files = [] \<longleftrightarrow> (\<forall>p \<in> set files. clean_file contents p)"
  by (induction files) (auto simp: violations_def map_filter_simps file_violation_None [symmetric] split: option.splits)

lemma split_nul_nonempty [simp]: "split_nul bs \<noteq> []"
  by (induction bs) (auto split: list.splits)

text \<open>The names \<open>git\<close> prints, each ended by a NUL.\<close>

definition nul_terminated :: "bytes list \<Rightarrow> bytes" where
  "nul_terminated items = concat (map (\<lambda>item. item @ [0]) items)"

lemma split_nul_item: "0 \<notin> set item \<Longrightarrow> split_nul (item @ 0 # rest) = item # split_nul rest"
  by (induction item) auto

lemma split_nul_terminated:
  "\<forall>item \<in> set items. 0 \<notin> set item \<Longrightarrow> split_nul (nul_terminated items) = items @ [[]]"
  by (induction items) (simp_all add: nul_terminated_def split_nul_item)

section \<open>Properties\<close>

text \<open>
  On the list of names \<open>git\<close> prints (not empty, free of NUL), the command passes exactly when every name
  decodes and every tracked file is clean: an allowed suffix and path, readable, and no private-key
  marker anywhere in its bytes; otherwise it fails.
\<close>

theorem hygiene_exact:
  assumes "\<forall>item \<in> set items. item \<noteq> [] \<and> 0 \<notin> set item"
  shows "hygiene_main utf8 (Some (nul_terminated items)) contents = Inr () \<longleftrightarrow>
    (\<forall>item \<in> set items. \<exists>p. utf8 item = Inr p \<and> clean_file contents p)"
proof -
  have "filter (\<lambda>item. item \<noteq> []) (split_nul (nul_terminated items)) = items"
    using assms by (simp add: split_nul_terminated filter_id_conv)
  then have "hygiene_main utf8 (Some (nul_terminated items)) contents = Inr () \<longleftrightarrow>
      (\<exists>files. mapE utf8 items = Inr files \<and> (\<forall>p \<in> set files. clean_file contents p))"
    by (simp add: hygiene_main_def tracked_files_def bindE_Inr_iff violations_Nil)
  also have "\<dots> \<longleftrightarrow> (\<forall>item \<in> set items. \<exists>p. utf8 item = Inr p \<and> clean_file contents p)"
    by (induction items) (auto simp: bindE_Inr_iff)
  finally show ?thesis .
qed

definition sample_utf8 :: "bytes \<Rightarrow> string result" where
  "sample_utf8 bs = Inr (map (\<lambda>b. char_of (unat b)) bs)"

theorem hygiene_exact_witness:
  "hygiene_main sample_utf8 (Some (nul_terminated [[0x61], [0x62]])) (\<lambda>_. Some [1, 2, 3]) = Inr () \<and>
   hygiene_main sample_utf8 (Some (nul_terminated [[0x61, 0x2E, 0x4B, 0x4F]])) (\<lambda>_. Some []) \<noteq> Inr ()"
proof -
  have "clean_file (\<lambda>_. Some [1, 2, 3]) ''a'' \<and> clean_file (\<lambda>_. Some [1, 2, 3]) ''b''"
    unfolding file_violation_None [symmetric] by code_simp
  moreover have "file_violation (\<lambda>_. Some []) ''a.KO'' = Some (ForbiddenSuffix ''a.KO'')" by code_simp
  then have "\<not> clean_file (\<lambda>_. Some []) ''a.KO''" unfolding file_violation_None [symmetric] by simp
  moreover have "sample_utf8 [0x61] = Inr ''a''" "sample_utf8 [0x62] = Inr ''b''"
    "sample_utf8 [0x61, 0x2E, 0x4B, 0x4F] = Inr ''a.KO''" by code_simp+
  ultimately show ?thesis
    using hygiene_exact [of "[[0x61], [0x62]]" sample_utf8 "\<lambda>_. Some [1, 2, 3]"]
      hygiene_exact [of "[[0x61, 0x2E, 0x4B, 0x4F]]" sample_utf8 "\<lambda>_. Some []"] by simp
qed

text \<open>
  The markers are the two literal headers: the header of an RSA private key in the older form is neither,
  and a file whose whole name is a forbidden suffix has no suffix.  Both pass.
\<close>

theorem rsa_private_key_passes:
  "violations (\<lambda>_. Some [45, 45, 45, 45, 45, 66, 69, 71, 73, 78, 32, 82, 83, 65, 32, 80, 82, 73, 86, 65, 84, 69,
      32, 75, 69, 89, 45, 45, 45, 45, 45, 10])
     [''deploy_rsa'', ''.pem''] = []"
  by code_simp

end
