(* ===== verification/Digest.thy ===== *)
theory Digest
imports Artifact
begin

text \<open>
  \<open>sha256_file\<close>, which two programs define alike: a digest fed with blocks of one mebibyte until a read
  returns nothing.  The locale states what \<open>hashlib\<close> documents of an incremental digest; the CRC-32 of the
  kernel container is one.
\<close>

unbundle bit_operations_syntax

definition BLOCK_SIZE :: nat where
  "BLOCK_SIZE = 1024 * 1024"

text \<open>\<open>iter(lambda: stream.read(n), b"")\<close>\<close>

function read_blocks :: "nat \<Rightarrow> bytes \<Rightarrow> bytes list" where
  "read_blocks n stream =
     (let block = take n stream
      in if block = [] then [] else block # read_blocks n (drop n stream))"
  by pat_completeness auto

termination
  by (relation "measure (\<lambda>(n, stream). length stream)") (auto simp: Let_def)

declare read_blocks.simps [simp del]

definition sha256_file :: "'s \<Rightarrow> ('s \<Rightarrow> bytes \<Rightarrow> 's) \<Rightarrow> ('s \<Rightarrow> 'd) \<Rightarrow> bytes \<Rightarrow> 'd" where
  "sha256_file init update hexdigest stream = hexdigest (foldl update init (read_blocks BLOCK_SIZE stream))"

lemma concat_read_blocks: "0 < n \<Longrightarrow> concat (read_blocks n stream) = stream"
proof (induction n stream rule: read_blocks.induct)
  case (1 n stream)
  then show ?case by (subst read_blocks.simps) (auto simp: Let_def)
qed

lemma length_read_blocks: "0 < n \<Longrightarrow> length (read_blocks n stream) = (length stream + n - 1) div n"
proof (induction n stream rule: read_blocks.induct)
  case (1 n stream)
  show ?case
  proof (cases "stream = []")
    case True
    then show ?thesis using 1 by (subst read_blocks.simps) (auto simp: Let_def)
  next
    case False
    with 1 have "length (read_blocks n stream) = Suc ((length stream - n + n - 1) div n)"
      by (subst read_blocks.simps) (auto simp: Let_def)
    also have "\<dots> = (length stream + n - 1) div n"
    proof (cases "length stream \<le> n")
      case True
      moreover from this False "1.prems" have "(length stream + n - 1) div n = 1"
        by (cases stream) (auto intro: div_nat_eqI)
      ultimately show ?thesis using "1.prems" by simp
    next
      case False
      then have "length stream + n - 1 = (length stream - n + n - 1) + n" using "1.prems" by simp
      then show ?thesis using "1.prems" by (metis Suc_eq_plus1 div_add_self2 less_not_refl2)
    qed
    finally show ?thesis .
  qed
qed

locale incremental_digest =
  fixes init :: 's and update :: "'s \<Rightarrow> bytes \<Rightarrow> 's" and digest :: "'s \<Rightarrow> 'd"
  assumes update_append: "update (update s a) b = update s (a @ b)"
    and update_nothing: "update s [] = s"
begin

lemma update_blocks: "foldl update s blocks = update s (concat blocks)"
  by (induction blocks arbitrary: s) (simp_all add: update_nothing update_append)

lemma file_digest: "sha256_file init update digest stream = digest (update init stream)"
  by (simp add: sha256_file_def update_blocks concat_read_blocks BLOCK_SIZE_def)

end

interpretation crc: incremental_digest "0xFFFFFFFF :: int" "foldl crc32_byte" "\<lambda>c. c XOR 0xFFFFFFFF"
  by unfold_locales simp_all

text \<open>
  Reading a file in blocks makes no difference: for a digest whose updates can be joined, as \<open>hashlib\<close>
  documents, the loop ends after one read for each started block and yields the digest of the whole file.
\<close>

theorem sha256_file_of_blocks:
  assumes "\<forall>s a b. update (update s a) b = update s (a @ b)" "\<forall>s. update s [] = s"
  shows "sha256_file init update hexdigest stream = hexdigest (update init stream) \<and>
    length (read_blocks BLOCK_SIZE stream) = (length stream + BLOCK_SIZE - 1) div BLOCK_SIZE"
proof -
  have "incremental_digest update" using assms by unfold_locales blast+
  then show ?thesis
    using incremental_digest.file_digest length_read_blocks [of BLOCK_SIZE stream] by (auto simp: BLOCK_SIZE_def)
qed

theorem sha256_file_of_blocks_witness:
  "sha256_file 0xFFFFFFFF (foldl crc32_byte) (\<lambda>c. c XOR 0xFFFFFFFF) [0x31, 0x32, 0x33] = crc32 [0x31, 0x32, 0x33] \<and>
   length (read_blocks BLOCK_SIZE [0x31, 0x32, 0x33]) = 1"
  using sha256_file_of_blocks [of "foldl crc32_byte" "0xFFFFFFFF" "\<lambda>c. c XOR 0xFFFFFFFF" "[0x31, 0x32, 0x33]"]
  by (simp add: crc32_def BLOCK_SIZE_def)

end
