(* ===== verification/Recovery.thy ===== *)
theory Recovery
imports BundleProperties
begin

text \<open>
  What happens when a tool that publishes with a temporary sibling and a rename is killed and started
  again.  The locale \<open>atomic_writer\<close> is the promise such a tool makes about every moment of a run;
  \<open>restartable_writer\<close> adds that an undisturbed run gets through whatever is left over.  The builder
  and the AP image patcher are the two providers.
\<close>

section \<open>The contract\<close>

text \<open>Any number of runs, each stopped at any of the states it passes through.\<close>

inductive interrupted ::
  "('f \<Rightarrow> store \<Rightarrow> 'a result \<times> store list) \<Rightarrow> store \<Rightarrow> store \<Rightarrow> bool" for run where
  untouched: "interrupted run s s"
| killed: "interrupted run s st \<Longrightarrow> run f st = (r, states) \<Longrightarrow> st' \<in> set states \<Longrightarrow> interrupted run s st'"

definition agree_except :: "path \<Rightarrow> path \<Rightarrow> store \<Rightarrow> store \<Rightarrow> bool" where
  "agree_except tmp dst s st \<longleftrightarrow> (\<forall>q. q \<noteq> tmp \<longrightarrow> q \<noteq> dst \<longrightarrow> st q = s q)"

locale atomic_writer =
  fixes run :: "'f \<Rightarrow> store \<Rightarrow> 'a result \<times> store list" and tmp dst :: path
    and ready :: "store \<Rightarrow> bool" and new :: "bytes option"
  assumes elsewhere: "ready s \<Longrightarrow> run f s = (r, states) \<Longrightarrow> st \<in> set states \<Longrightarrow> agree_except tmp dst s st"
    and old_or_new: "ready s \<Longrightarrow> run f s = (r, states) \<Longrightarrow> st \<in> set states \<Longrightarrow> st dst = s dst \<or> st dst = new"
    and stays_ready: "ready s \<Longrightarrow> agree_except tmp dst s st \<Longrightarrow> ready st"
begin

lemma interrupted_state:
  assumes "interrupted run s st" "ready s"
  shows "agree_except tmp dst s st \<and> (st dst = s dst \<or> st dst = new)"
  using assms
proof (induction rule: interrupted.induct)
  case (killed s st f r states st')
  then have st: "agree_except tmp dst s st" "st dst = s dst \<or> st dst = new" by simp_all
  then have "ready st" using stays_ready killed.prems by blast
  from elsewhere [OF this killed.hyps(2,3)] old_or_new [OF this killed.hyps(2,3)] st show ?case
    by (auto simp: agree_except_def)
qed (simp add: agree_except_def)

end

locale restartable_writer = atomic_writer run tmp dst ready new
  for run :: "'f \<Rightarrow> store \<Rightarrow> 'a result \<times> store list" and tmp dst ready new +
  fixes undisturbed :: "'f \<Rightarrow> bool"
  assumes completes: "ready s \<Longrightarrow> new = Some b \<Longrightarrow> undisturbed f \<Longrightarrow>
    \<exists>x states. run f s = (Inr x, states) \<and> hd states = (s(dst := Some b))(tmp := None)"
begin

lemma recovers:
  assumes "interrupted run s st" "ready s" "new = Some b" "undisturbed f"
  shows "\<exists>x states. run f st = (Inr x, states) \<and> hd states = (s(dst := Some b))(tmp := None)"
proof -
  from interrupted_state [OF assms(1,2)] have a: "agree_except tmp dst s st" by simp
  from completes [OF stays_ready [OF assms(2) a] assms(3,4)]
  obtain x states where run: "run f st = (Inr x, states)" "hd states = (st(dst := Some b))(tmp := None)" by blast
  from a have "(st(dst := Some b))(tmp := None) = (s(dst := Some b))(tmp := None)"
    by (auto simp: agree_except_def)
  with run show ?thesis by auto
qed

end

section \<open>The builder\<close>

text \<open>The archive an undisturbed build publishes; none when a step before publishing fails.\<close>

definition built_archive ::
  "catalog \<Rightarrow> bundle_env \<Rightarrow> bundle_options \<Rightarrow> release \<Rightarrow> store \<Rightarrow> bytes \<Rightarrow> bytes option" where
  "built_archive cat env opts r repo input =
     (case bindE (check_bundle_options opts) (\<lambda>_. assemble cat env opts r repo input) of
        Inl _ \<Rightarrow> None
      | Inr (files, _) \<Rightarrow> Some (ev_zip env (sorted_bundle files)))"

definition build_run ::
  "catalog \<Rightarrow> bundle_env \<Rightarrow> bundle_options \<Rightarrow> release \<Rightarrow> store \<Rightarrow> bytes \<Rightarrow> path \<Rightarrow>
   (zip_step \<Rightarrow> bool) \<times> bytes \<Rightarrow> store \<Rightarrow> (build_report \<times> string) result \<times> store list" where
  "build_run cat env opts r repo input output fault s =
     (case fault of (fails, partial) \<Rightarrow> build_bundle cat env fails partial opts r repo input output s)"

lemma publish_zip_trace:
  assumes "publish_zip fails partial output archive s = (r, states)" "st \<in> set states"
  shows "agree_except (tmp_sibling output) output s st" "st output = s output \<or> st output = Some archive"
  using assms
  by (auto simp: publish_zip_def Let_def agree_except_def fs_put_def fs_unlink_def fs_replace_def split: if_splits)

lemma build_run_trace:
  assumes "build_run cat env opts r repo input output fault s = (res, states)" "st \<in> set states"
  shows "agree_except (tmp_sibling output) output s st"
    "st output = s output \<or> st output = built_archive cat env opts r repo input"
proof -
  let ?a = "bindE (check_bundle_options opts) (\<lambda>_. assemble cat env opts r repo input)"
  have "agree_except (tmp_sibling output) output s st \<and>
    (st output = s output \<or> st output = built_archive cat env opts r repo input)"
  proof (cases ?a)
    case (Inl e)
    with assms show ?thesis
      by (auto simp: build_run_def build_bundle_def agree_except_def split: prod.splits)
  next
    case (Inr fr)
    obtain files report where fr: "fr = (files, report)" by (rule prod.exhaust)
    obtain fails partial where fault: "fault = (fails, partial)" by (rule prod.exhaust)
    obtain r' states' where pub: "publish_zip fails partial output (ev_zip env (sorted_bundle files)) s = (r', states')"
      by (rule prod.exhaust)
    with assms Inr fr fault have "st \<in> set states'"
      by (cases r') (auto simp: build_run_def build_bundle_def Let_def)
    from publish_zip_trace [OF pub this] Inr fr show ?thesis by (simp add: built_archive_def)
  qed
  then show "agree_except (tmp_sibling output) output s st"
    "st output = s output \<or> st output = built_archive cat env opts r repo input" by simp_all
qed

lemma build_run_completes:
  assumes "built_archive cat env opts r repo input = Some b"
  shows "\<exists>x states. build_run cat env opts r repo input output ((\<lambda>_. False), partial) s = (Inr x, states) \<and>
    hd states = (s(output := Some b))(tmp_sibling output := None)"
proof -
  from assms obtain files report where
    "bindE (check_bundle_options opts) (\<lambda>_. assemble cat env opts r repo input) = Inr (files, report)"
    "b = ev_zip env (sorted_bundle files)"
    by (auto simp: built_archive_def split: sum.splits)
  then show ?thesis
    by (simp add: build_run_def build_bundle_def publish_zip_def Let_def fs_replace_def fs_put_def fun_upd_twist)
qed

interpretation builder: restartable_writer "build_run cat env opts r repo input zip_path" "tmp_sibling zip_path" zip_path
  "\<lambda>_. True" "built_archive cat env opts r repo input" "\<lambda>fault. fst fault = (\<lambda>_. False)"
  for cat env opts r repo input zip_path
proof
  fix s and f :: "(zip_step \<Rightarrow> bool) \<times> bytes" and b
  assume "built_archive cat env opts r repo input = Some b" "fst f = (\<lambda>_. False)"
  then show "\<exists>x states. build_run cat env opts r repo input zip_path f s = (Inr x, states) \<and>
      hd states = (s(zip_path := Some b))(tmp_sibling zip_path := None)"
    using build_run_completes [of cat env opts r repo input b zip_path "snd f" s] by (cases f) simp
qed (auto dest: build_run_trace)

section \<open>The AP image patcher\<close>

definition patched_image ::
  "catalog \<Rightarrow> (bytes \<Rightarrow> bytes) \<Rightarrow> squash_tools \<Rightarrow> bytes \<Rightarrow> bytes option" where
  "patched_image cat md5 tools original =
     (case r600_transform cat md5 tools original of Inl _ \<Rightarrow> None | Inr (rebuilt, _) \<Rightarrow> Some rebuilt)"

definition image_run ::
  "catalog \<Rightarrow> (bytes \<Rightarrow> bytes) \<Rightarrow> squash_tools \<Rightarrow> path \<Rightarrow> path \<Rightarrow> (r600_step \<Rightarrow> bool) \<times> nat \<Rightarrow> store \<Rightarrow>
   r600_note list result \<times> store list" where
  "image_run cat md5 tools source destination fault s =
     (case fault of (fails, partial) \<Rightarrow> patch_image cat md5 tools fails partial source destination s)"

definition image_ready :: "path \<Rightarrow> path \<Rightarrow> bytes \<Rightarrow> store \<Rightarrow> bool" where
  "image_ready source destination original s \<longleftrightarrow>
     source \<noteq> destination \<and> source \<noteq> tmp_sibling destination \<and> s source = Some original"

lemma publish_image_trace:
  assumes "publish_image fails partial destination out s = (r, states)" "st \<in> set states"
  shows "agree_except (tmp_sibling destination) destination s st" "st destination = s destination \<or> st destination = Some out"
  using assms by (auto simp: publish_image_def Let_def agree_except_def fs_put_def fs_replace_def split: if_splits)

lemma image_run_trace:
  assumes "image_run cat md5 tools source destination fault s = (res, states)" "st \<in> set states" "s source = Some original"
  shows "agree_except (tmp_sibling destination) destination s st \<and>
    (st destination = s destination \<or> st destination = patched_image cat md5 tools original)"
proof (cases "r600_transform cat md5 tools original")
  case (Inl e)
  with assms show ?thesis by (auto simp: image_run_def patch_image_def agree_except_def split: prod.splits)
next
  case (Inr om)
  obtain out ms where om: "om = (out, ms)" by (rule prod.exhaust)
  obtain fails partial where fault: "fault = (fails, partial)" by (rule prod.exhaust)
  obtain r' states' where pub: "publish_image fails partial destination out s = (r', states')" by (rule prod.exhaust)
  with assms Inr om fault have "st \<in> set states'" by (cases r') (auto simp: image_run_def patch_image_def)
  from publish_image_trace [OF pub this] Inr om show ?thesis by (simp add: patched_image_def)
qed

interpretation patcher: restartable_writer "image_run cat md5 tools source destination" "tmp_sibling destination"
  destination "image_ready source destination original" "patched_image cat md5 tools original"
  "\<lambda>fault. fst fault = (\<lambda>_. False)"
  for cat md5 tools source destination original
proof
  fix s and f :: "(r600_step \<Rightarrow> bool) \<times> nat" and b
  assume "image_ready source destination original s" "patched_image cat md5 tools original = Some b"
    and f: "fst f = (\<lambda>_. False)"
  then obtain ms where "s source = Some original" "r600_transform cat md5 tools original = Inr (b, ms)"
    by (auto simp: image_ready_def patched_image_def split: sum.splits)
  with f show "\<exists>x states. image_run cat md5 tools source destination f s = (Inr x, states) \<and>
      hd states = (s(destination := Some b))(tmp_sibling destination := None)"
    by (cases f) (simp add: image_run_def patch_image_def publish_image_def Let_def fs_replace_def fs_put_def fun_upd_twist)
next
  fix s st :: store
  assume "image_ready source destination original s" "agree_except (tmp_sibling destination) destination s st"
  then show "image_ready source destination original st" by (auto simp: image_ready_def agree_except_def)
qed (auto simp: image_ready_def dest: image_run_trace)

section \<open>Properties\<close>



text \<open>
  The same for the image patcher, as long as its input is neither the output nor the output's temporary
  sibling: the image at the output is the old one or the transformed one, and a repeated run completes.
\<close>

theorem interrupted_image_recovers:
  assumes "interrupted (image_run cat md5 tools source destination) s st"
    and "source \<noteq> destination" "source \<noteq> tmp_sibling destination" "s source = Some original"
    and "patched_image cat md5 tools original = Some b"
  shows "(st destination = s destination \<or> st destination = Some b) \<and>
    (\<exists>notes states. patch_image cat md5 tools (\<lambda>_. False) n source destination st = (Inr notes, states) \<and>
       hd states = (s(destination := Some b))(tmp_sibling destination := None))"
proof -
  from assms(2-4) have ready: "image_ready source destination original s" by (simp add: image_ready_def)
  from patcher.recovers [OF assms(1) ready assms(5), of "((\<lambda>_. False), n)"]
    patcher.interrupted_state [OF assms(1) ready] assms(5)
  show ?thesis by (simp add: image_run_def)
qed

end
