(* ===== verification/PingStore.thy ===== *)
theory PingStore
imports Identity "HOL-Library.List_Lexorder" "HOL-Library.Char_ord" "HOL-Library.Option_ord"
  "HOL-Library.Product_Lexorder"
begin

text \<open>
  The database of the ping monitor as lists of rows, with the columns the export of a day is about: the
  tables \<open>target\<close>, \<open>ping_result\<close>, \<open>ap_radio_sample\<close> and \<open>mesh_link_sample\<close> that
  \<open>schema()\<close> in \<open>zd1200-ping-monitor.c\<close> creates.  A nullable column is an option, a
  column with a CHECK on its values a datatype.  A query is the function of the tables that its
  SQL denotes: \<open>WHERE\<close> is \<open>filter\<close>, \<open>ORDER BY\<close> is \<open>sort_key\<close> (rows that
  compare equal stay in table order, which SQLite leaves open and nothing below relies on).
  A C string is a \<open>string\<close> without its final NUL.
\<close>

section \<open>The tables\<close>

datatype target_kind = KindAp | KindClient

datatype ping_state = StateOk | StateTimeout | StateNotAssociated | StateUnknown

record target_row =
  tg_id :: int
  tg_kind :: target_kind
  tg_ip :: string
  tg_client_mac :: "string option"
  tg_ap_id :: "string option"
  tg_name :: string
  tg_enabled :: bool

record result_row =
  pr_id :: int
  pr_observed_at :: int
  pr_target :: int
  pr_rtt :: int
  pr_responded :: int
  pr_state :: ping_state
  pr_snr :: "int option"

record radio_row =
  rs_observed_at :: int
  rs_ap_mac :: string
  rs_radio_id :: int
  rs_radio_type :: "string option"
  rs_airtime_total :: "int option"
  rs_rf_samples :: "int option"

datatype link_direction = Uplink | Downlink

record link_row =
  ml_observed_at :: int
  ml_ap_mac :: string
  ml_peer_mac :: string
  ml_direction :: link_direction
  ml_snr :: "int option"

record ping_db =
  db_targets :: "target_row list"
  db_results :: "result_row list"
  db_radios :: "radio_row list"
  db_links :: "link_row list"

section \<open>ASCII case folding\<close>

text \<open>\<open>COLLATE NOCASE\<close>, \<open>tolower\<close> and \<open>strcasecmp\<close> fold the 26 ASCII capitals.\<close>

definition fold_char :: "char \<Rightarrow> char" where
  "fold_char c = (if in_range 65 90 c then char_of (code_point c + 32) else c)"

definition nocase :: "string \<Rightarrow> string" where
  "nocase s = map fold_char s"

lemma length_nocase [simp]: "length (nocase s) = length s"
  by (simp add: nocase_def)

section \<open>Binary search\<close>

text \<open>
  The loop the C programs write for a sorted array: it halves \<open>[low, high)\<close> until it is
  empty, and stops at the first position whose item is not below the key.
\<close>

function lower_bound :: "('a :: linorder) list \<Rightarrow> 'a \<Rightarrow> nat \<Rightarrow> nat \<Rightarrow> nat" where
  "lower_bound items v low high =
     (if low < high then
        let middle = low + (high - low) div 2
        in if items ! middle < v then lower_bound items v (middle + 1) high
           else lower_bound items v low middle
      else low)"
  by pat_completeness auto
termination by (relation "measure (\<lambda>(items, v, low, high). high - low)") (auto simp: Let_def)

declare lower_bound.simps [simp del]

lemma lower_bound_done: "\<not> low < high \<Longrightarrow> lower_bound items v low high = low"
  by (subst lower_bound.simps) simp

lemma lower_bound_step:
  "low < high \<Longrightarrow> m = low + (high - low) div 2 \<Longrightarrow> lower_bound items v low high =
     (if items ! m < v then lower_bound items v (m + 1) high else lower_bound items v low m)"
  by (subst lower_bound.simps) (simp add: Let_def)

lemma lower_bound_range:
  "low \<le> high \<Longrightarrow> low \<le> lower_bound items v low high \<and> lower_bound items v low high \<le> high"
proof (induction items v low high rule: lower_bound.induct)
  case (1 items v low high)
  show ?case
  proof (cases "low < high")
    case False
    with 1(3) show ?thesis by (simp add: lower_bound_done)
  next
    case True
    define m where "m = low + (high - low) div 2"
    have m: "low \<le> m" "m < high" using True by (auto simp: m_def)
    show ?thesis
      using 1(1) [OF True m_def] 1(2) [OF True m_def] m
      unfolding lower_bound_step [OF True m_def] by auto
  qed
qed

text \<open>
  The invariant of the loop, for strictly increasing items: everything left of \<open>low\<close> is below
  the key, everything from \<open>high\<close> on is not.
\<close>

lemma lower_bound_split:
  assumes "sorted_wrt (<) items" "high \<le> length items" "low \<le> high"
    and "\<And>i. i < low \<Longrightarrow> items ! i < v"
    and "\<And>i. high \<le> i \<Longrightarrow> i < length items \<Longrightarrow> v \<le> items ! i"
  shows "(\<forall>i < lower_bound items v low high. items ! i < v) \<and>
         (\<forall>i. lower_bound items v low high \<le> i \<longrightarrow> i < length items \<longrightarrow> v \<le> items ! i)"
  using assms
proof (induction items v low high rule: lower_bound.induct)
  case (1 items v low high)
  show ?case
  proof (cases "low < high")
    case False
    with 1(5) have "low = high" by simp
    with 1(6,7) show ?thesis by (simp add: lower_bound_done)
  next
    case True
    define m where "m = low + (high - low) div 2"
    have m: "low \<le> m" "m < high" using True by (auto simp: m_def)
    have lt: "items ! i < items ! j" if "i < j" "j < length items" for i j
      using sorted_wrt_nth_less [OF 1(3) that] .
    show ?thesis
    proof (cases "items ! m < v")
      case below: True
      have left: "items ! i < v" if "i < m + 1" for i
      proof (cases "i = m")
        case True
        with below show ?thesis by simp
      next
        case False
        with that m 1(4) lt [of i m] have "items ! i < items ! m" by simp
        with below show ?thesis by (rule less_trans [rotated])
      qed
      have "m + 1 \<le> high" using m by simp
      from 1(1) [OF True m_def below 1(3,4) this left 1(7)] show ?thesis
        unfolding lower_bound_step [OF True m_def] if_P [OF below] .
    next
      case above: False
      have right: "v \<le> items ! i" if "m \<le> i" "i < length items" for i
      proof (cases "i = m")
        case True
        with above show ?thesis by simp
      next
        case False
        with that lt [of m i] have "items ! m < items ! i" by simp
        with above show ?thesis by simp
      qed
      have "m \<le> length items" using m 1(4) by simp
      from 1(2) [OF True m_def above 1(3) this m(1) 1(6) right] show ?thesis
        unfolding lower_bound_step [OF True m_def] if_not_P [OF above] .
    qed
  qed
qed

lemma lower_bound_strict:
  assumes "sorted_wrt (<) items"
  shows "(\<forall>i < lower_bound items v 0 (length items). items ! i < v) \<and>
         (\<forall>i. lower_bound items v 0 (length items) \<le> i \<longrightarrow> i < length items \<longrightarrow> v \<le> items ! i)"
  by (rule lower_bound_split) (use assms in auto)

end
