(* ===== verification/DailyExport.thy ===== *)
theory DailyExport
imports PingStore "HOL-Library.Signed_Division"
begin

text \<open>
  \<open>zd1200-ping-export.c\<close>: the export of one UTC day of ping history into the binary file the
  browser reads.  Times and 32-bit fields are integers, with the casts to \<open>uint32_t\<close> written
  out by \<open>u32\<close>; sizes are naturals, because the code computes every offset in 64 bits before it
  checks that it fits 32.  \<open>lround(101.0 * pow(ratio, i))\<close> of the mathematical library is the
  parameter \<open>cell\<close>.  Memory allocation, the database connection and the output stream are
  taken to succeed.
\<close>

section \<open>Identities\<close>

definition u32 :: "int \<Rightarrow> int" where
  "u32 v = v mod 2 ^ 32"

definition mac_octet :: "string \<Rightarrow> nat \<Rightarrow> byte option" where
  "mac_octet text i =
     (if i \<noteq> 0 \<and> text ! (i * 3 - 1) \<noteq> CHR '':'' then None
      else case (hex_value (text ! (i * 3)), hex_value (text ! (i * 3 + 1))) of
             (Some high, Some low) \<Rightarrow> Some (word_of_nat (high * 16 + low))
           | _ \<Rightarrow> None)"

definition parse_mac_text :: "string \<Rightarrow> (bytes \<times> string) option" where
  "parse_mac_text text =
     (if length text \<noteq> 17 then None
      else case those (map (mac_octet text) [0..<6]) of
             None \<Rightarrow> None
           | Some out \<Rightarrow> Some (out, format_mac out))"

record export_target =
  et_id :: int
  et_mac :: bytes
  et_text :: string

definition target_append :: "int \<Rightarrow> string option \<Rightarrow> export_target list" where
  "target_append i mac =
     (case mac of
        None \<Rightarrow> []
      | Some text \<Rightarrow>
          (case parse_mac_text text of
             None \<Rightarrow> []
           | Some (out, canonical) \<Rightarrow> [\<lparr>et_id = i, et_mac = out, et_text = canonical\<rparr>]))"

section \<open>The queries\<close>

definition in_period :: "int \<Rightarrow> int \<Rightarrow> int \<Rightarrow> bool" where
  "in_period start finish t \<longleftrightarrow> start \<le> t \<and> t < finish"

definition load_rounds :: "ping_db \<Rightarrow> int \<Rightarrow> int \<Rightarrow> int list" where
  "load_rounds db start finish =
     map u32 (sort (remdups (map pr_observed_at
       (filter (\<lambda>p. in_period start finish (pr_observed_at p)) (db_results db)))))"

definition has_result :: "ping_db \<Rightarrow> int \<Rightarrow> int \<Rightarrow> target_row \<Rightarrow> bool" where
  "has_result db start finish t \<longleftrightarrow>
     (\<exists>p \<in> set (db_results db). pr_target p = tg_id t \<and> in_period start finish (pr_observed_at p))"

definition target_identity :: "target_row \<Rightarrow> string option" where
  "target_identity t = (if tg_kind t = KindClient then tg_client_mac t else tg_ap_id t)"

definition load_targets :: "ping_db \<Rightarrow> int \<Rightarrow> int \<Rightarrow> export_target list" where
  "load_targets db start finish =
     concat (map (\<lambda>t. target_append (tg_id t) (target_identity t))
       (sort_key (\<lambda>t. map_option nocase (target_identity t))
         (filter (has_result db start finish) (db_targets db))))"

definition load_ap_targets :: "ping_db \<Rightarrow> int \<Rightarrow> int \<Rightarrow> export_target list" where
  "load_ap_targets db start finish =
     concat (map (\<lambda>t. target_append (tg_id t) (tg_ap_id t))
       (sort_key (\<lambda>t. map_option nocase (tg_ap_id t))
         (filter (\<lambda>t. tg_kind t = KindAp \<and> has_result db start finish t) (db_targets db))))"

definition result_rows :: "ping_db \<Rightarrow> int \<Rightarrow> int \<Rightarrow> int \<Rightarrow> result_row list" where
  "result_rows db target start finish =
     sort_key (\<lambda>p. (pr_observed_at p, pr_id p))
       (filter (\<lambda>p. pr_target p = target \<and> in_period start finish (pr_observed_at p)) (db_results db))"

definition radio_rows :: "ping_db \<Rightarrow> string \<Rightarrow> int \<Rightarrow> int \<Rightarrow> radio_row list" where
  "radio_rows db mac start finish =
     sort_key rs_observed_at
       (filter (\<lambda>r. rs_ap_mac r = mac \<and> in_period start finish (rs_observed_at r)) (db_radios db))"

definition uplink_rows :: "ping_db \<Rightarrow> string \<Rightarrow> int \<Rightarrow> int \<Rightarrow> link_row list" where
  "uplink_rows db mac start finish =
     sort_key ml_observed_at
       (filter (\<lambda>l. ml_ap_mac l = mac \<and> ml_direction l = Uplink \<and>
                    in_period start finish (ml_observed_at l)) (db_links db))"

section \<open>Codes\<close>

definition CODE_COUNT :: nat where "CODE_COUNT = 254"

definition make_codebook :: "(nat \<Rightarrow> int) \<Rightarrow> int list" where
  "make_codebook cell =
     (map (\<lambda>i. int i + 1) [0..<100] @ map (\<lambda>i. cell i mod 2 ^ 16) [0..<154])[100 := 101, 253 := 2000]"

definition encode_latency :: "int list \<Rightarrow> int \<Rightarrow> nat" where
  "encode_latency codebook milliseconds =
     (let ms = (if milliseconds < 1 then 1 else milliseconds)
      in if 2000 \<le> ms then CODE_COUNT
         else
           let low = lower_bound codebook ms 0 CODE_COUNT
           in if low = 0 then 1
              else if low = CODE_COUNT then CODE_COUNT
              else if ms - codebook ! (low - 1) \<le> codebook ! low - ms then low
              else low + 1)"

definition find_round :: "int list \<Rightarrow> int \<Rightarrow> nat option" where
  "find_round rounds timestamp =
     (let low = lower_bound rounds timestamp 0 (length rounds)
      in if length rounds \<le> low \<or> rounds ! low \<noteq> timestamp then None else Some low)"

definition encode_snr :: "int \<Rightarrow> nat" where
  "encode_snr v = nat (min 100 (max 0 v)) + 1"

definition encode_percent_tenths :: "int \<Rightarrow> nat" where
  "encode_percent_tenths v = nat ((min 1000 (max 0 v) + 5) div 10) + 1"

definition is_five_ghz :: "int \<Rightarrow> string option \<Rightarrow> nat" where
  "is_five_ghz radio_id radio_type =
     (if (case radio_type of
            None \<Rightarrow> False
          | Some s \<Rightarrow> \<exists>sub \<in> set [''11a'', ''ac'', ''5G'']. bytes_find s sub 0 \<noteq> None)
      then 1 else if radio_id = 1 then 1 else 0)"

section \<open>The rows of the matrices\<close>

definition put_cell :: "int list \<Rightarrow> int \<Rightarrow> nat \<Rightarrow> bytes \<Rightarrow> bytes" where
  "put_cell rounds observed_at code row =
     (case find_round rounds (u32 observed_at) of
        None \<Rightarrow> row
      | Some position \<Rightarrow> row[position := word_of_nat code])"

definition zero_row :: "int list \<Rightarrow> bytes" where
  "zero_row rounds = replicate (length rounds) 0"

definition latency_code :: "int list \<Rightarrow> result_row \<Rightarrow> nat" where
  "latency_code codebook p =
     (if pr_responded p \<noteq> 0 \<and> pr_state p = StateOk then encode_latency codebook (pr_rtt p)
      else if pr_state p = StateTimeout then 255
      else 0)"

definition latency_row :: "int list \<Rightarrow> int list \<Rightarrow> result_row list \<Rightarrow> bytes" where
  "latency_row codebook rounds rows =
     fold (\<lambda>p. put_cell rounds (pr_observed_at p) (latency_code codebook p)) rows (zero_row rounds)"

definition snr_row :: "int list \<Rightarrow> result_row list \<Rightarrow> bytes" where
  "snr_row rounds rows =
     fold (\<lambda>p row. case pr_snr p of
                      None \<Rightarrow> row
                    | Some v \<Rightarrow> put_cell rounds (pr_observed_at p) (encode_snr v) row)
       rows (zero_row rounds)"

definition state_code :: "result_row \<Rightarrow> nat" where
  "state_code p =
     (if pr_state p = StateNotAssociated then 2 else if pr_state p \<noteq> StateUnknown then 1 else 0)"

definition state_row :: "int list \<Rightarrow> result_row list \<Rightarrow> bytes" where
  "state_row rounds rows =
     fold (\<lambda>p. put_cell rounds (pr_observed_at p) (state_code p)) rows (zero_row rounds)"

text \<open>
  The airtime counter of one radio: \<open>air_step\<close> turns a pair of accumulated total and sample
  count into the average since the previous poll.
\<close>

record air_state =
  have_base :: bool
  base_total :: int
  base_samples :: int
  last_average :: int

definition air_start :: air_state where
  "air_start = \<lparr>have_base = False, base_total = 0, base_samples = 0, last_average = 0\<rparr>"

definition air_step :: "air_state \<Rightarrow> int \<Rightarrow> int \<Rightarrow> air_state" where
  "air_step s tot samples =
     (if \<not> have_base s \<or> samples < base_samples s then
        \<lparr>have_base = True, base_total = tot, base_samples = samples,
         last_average = (tot + samples sdiv 2) sdiv samples\<rparr>
      else if samples = base_samples s then s
      else
        let delta_total = tot - base_total s; delta_samples = samples - base_samples s
        in s\<lparr>base_total := tot, base_samples := samples,
             last_average := (delta_total + delta_samples sdiv 2) sdiv delta_samples\<rparr>)"

definition air_cell :: "int list \<Rightarrow> nat \<Rightarrow> radio_row \<Rightarrow> air_state \<times> bytes \<Rightarrow> air_state \<times> bytes" where
  "air_cell rounds band r = (\<lambda>(s, row).
     if is_five_ghz (rs_radio_id r) (rs_radio_type r) \<noteq> band then (s, row)
     else case (rs_airtime_total r, rs_rf_samples r) of
            (Some tot, Some samples) \<Rightarrow>
              if samples \<le> 0 then (s, row)
              else
                let s' = air_step s tot samples
                in (s', put_cell rounds (rs_observed_at r) (encode_percent_tenths (last_average s')) row)
          | _ \<Rightarrow> (s, row))"

definition air_row :: "int list \<Rightarrow> nat \<Rightarrow> radio_row list \<Rightarrow> bytes" where
  "air_row rounds band rows = snd (fold (air_cell rounds band) rows (air_start, zero_row rounds))"

definition mesh_row :: "int list \<Rightarrow> link_row list \<Rightarrow> bytes" where
  "mesh_row rounds rows =
     fold (\<lambda>l row. case ml_snr l of
                      None \<Rightarrow> row
                    | Some v \<Rightarrow> put_cell rounds (ml_observed_at l) (encode_snr v) row)
       rows (zero_row rounds)"

section \<open>The layout\<close>

definition DAY_HEADER_SIZE :: nat where "DAY_HEADER_SIZE = 640"

text \<open>\<open>(x + 3) & ~3\<close>\<close>

definition align4 :: "nat \<Rightarrow> nat" where
  "align4 n = (n + 3) div 4 * 4"

record day_layout =
  macs_offset :: nat
  samples_offset :: nat
  snr_offset :: nat
  state_offset :: nat
  ap_macs_offset :: nat
  air24_offset :: nat
  air5_offset :: nat
  mesh_snr_offset :: nat
  file_end :: nat

definition layout_day :: "nat \<Rightarrow> nat \<Rightarrow> nat \<Rightarrow> day_layout" where
  "layout_day rounds targets aps =
     (let macs = DAY_HEADER_SIZE + rounds * 4;
          samples = align4 (macs + targets * 6);
          snr = samples + targets * rounds;
          state = snr + targets * rounds;
          ap_macs = align4 (state + targets * rounds);
          air24 = align4 (ap_macs + aps * 6);
          air5 = air24 + aps * rounds;
          mesh = air5 + aps * rounds;
          end = mesh + aps * rounds
      in \<lparr>macs_offset = macs, samples_offset = samples, snr_offset = snr, state_offset = state,
          ap_macs_offset = ap_macs, air24_offset = air24, air5_offset = air5,
          mesh_snr_offset = mesh, file_end = end\<rparr>)"

text \<open>The nine checks against \<open>UINT32_MAX\<close>.\<close>

definition layout_fits :: "day_layout \<Rightarrow> bool" where
  "layout_fits l \<longleftrightarrow>
     (\<forall>off \<in> set [macs_offset l, samples_offset l, snr_offset l, state_offset l, ap_macs_offset l,
                  air24_offset l, air5_offset l, mesh_snr_offset l, file_end l]. off < 2 ^ 32)"

section \<open>The file\<close>

definition day_magic :: bytes where
  "day_magic = map (\<lambda>c. word_of_nat (code_point c)) ''ZDPMDAY'' @ [0]"

definition put_fields :: "(nat \<times> int) list \<Rightarrow> bytes" where
  "put_fields fs = concat (map (\<lambda>(width, v). le_bytes width v) fs)"

definition header_fields :: "int \<Rightarrow> int \<Rightarrow> int list \<Rightarrow> nat \<Rightarrow> nat \<Rightarrow> day_layout \<Rightarrow> (nat \<times> int) list" where
  "header_fields start finish rounds targets aps l =
     [(2, 2), (2, int DAY_HEADER_SIZE), (4, 31), (4, start), (4, finish), (4, int (length rounds)),
      (4, int targets), (2, 2000), (2, int CODE_COUNT), (4, int DAY_HEADER_SIZE), (4, int (macs_offset l)),
      (4, int (samples_offset l)), (4, if rounds \<noteq> [] then last rounds else start),
      (4, int (snr_offset l)), (4, int (state_offset l)), (4, int aps), (4, int (ap_macs_offset l)),
      (4, int (air24_offset l)), (4, int (air5_offset l)), (4, int (mesh_snr_offset l)),
      (4, int (file_end l))]"

definition export_day :: "(nat \<Rightarrow> int) \<Rightarrow> ping_db \<Rightarrow> int \<Rightarrow> bytes option" where
  "export_day cell db start =
     (let finish = u32 (start + 86400);
          rounds = load_rounds db start finish;
          targets = load_targets db start finish;
          aps = load_ap_targets db start finish;
          l = layout_day (length rounds) (length targets) (length aps);
          codebook = make_codebook cell
      in if \<not> layout_fits l then None
         else Some
           (day_magic @ put_fields (header_fields start finish rounds (length targets) (length aps) l)
            @ replicate 48 0
            @ concat (map (le_bytes 2) codebook)
            @ concat (map (le_bytes 4) rounds)
            @ concat (map et_mac targets)
            @ replicate (samples_offset l - (macs_offset l + length targets * 6)) 0
            @ concat (map (\<lambda>t. latency_row codebook rounds (result_rows db (et_id t) start finish)) targets)
            @ concat (map (\<lambda>t. snr_row rounds (result_rows db (et_id t) start finish)) targets)
            @ concat (map (\<lambda>t. state_row rounds (result_rows db (et_id t) start finish)) targets)
            @ replicate (ap_macs_offset l - (state_offset l + length targets * length rounds)) 0
            @ concat (map et_mac aps)
            @ replicate (air24_offset l - (ap_macs_offset l + length aps * 6)) 0
            @ concat (map (\<lambda>t. air_row rounds 0 (radio_rows db (et_text t) start finish)) aps)
            @ concat (map (\<lambda>t. air_row rounds 1 (radio_rows db (et_text t) start finish)) aps)
            @ concat (map (\<lambda>t. mesh_row rounds (uplink_rows db (et_text t) start finish)) aps)))"

end
