(* ===== verification/DailyReader.thy ===== *)
theory DailyReader
imports DailyExport
begin

text \<open>
  \<open>ping-monitor-worker.js\<close>: the decoder of a daily file in the browser.  A \<open>DataView\<close> getter
  raises a RangeError outside the buffer, a byte outside it is \<open>undefined\<close>, whose
  \<open>toString\<close> is a TypeError.  The numbers are exact naturals: a product of two 32-bit
  counts that a JavaScript number would round is above every file size, so the comparisons
  with it give the same result.
\<close>

datatype js_error = JsError string | JsRangeError | JsTypeError

section \<open>Reading the buffer\<close>

text \<open>\<open>view.getUint16\<close> and \<open>view.getUint32\<close>, little-endian, of \<open>n\<close> bytes.\<close>

definition get_uint :: "nat \<Rightarrow> bytes \<Rightarrow> nat \<Rightarrow> js_error + nat" where
  "get_uint n buf off =
     (if off + n \<le> length buf then Inr (nat (le_int (bslice buf off (off + n)))) else Inl JsRangeError)"

definition mac_at :: "bytes \<Rightarrow> nat \<Rightarrow> js_error + string" where
  "mac_at buf off =
     (if off + 6 \<le> length buf then Inr (format_mac (bslice buf off (off + 6)))
      else Inl JsTypeError)"

record day_header =
  dh_version :: nat
  dh_size :: nat
  dh_flags :: nat
  dh_start :: nat
  dh_end :: nat
  dh_rounds :: nat
  dh_targets :: nat
  dh_timeout :: nat
  dh_codes :: nat
  dh_timestamps_offset :: nat
  dh_macs_offset :: nat
  dh_samples_offset :: nat
  dh_generation :: nat

definition read_header :: "bytes \<Rightarrow> js_error + day_header" where
  "read_header b =
     bindE (get_uint 2 b 8) (\<lambda>version. bindE (get_uint 2 b 10) (\<lambda>header_size.
     bindE (get_uint 4 b 12) (\<lambda>flags. bindE (get_uint 4 b 16) (\<lambda>start.
     bindE (get_uint 4 b 20) (\<lambda>finish. bindE (get_uint 4 b 24) (\<lambda>rounds.
     bindE (get_uint 4 b 28) (\<lambda>targets. bindE (get_uint 2 b 32) (\<lambda>timeout.
     bindE (get_uint 2 b 34) (\<lambda>codes. bindE (get_uint 4 b 36) (\<lambda>timestamps.
     bindE (get_uint 4 b 40) (\<lambda>macs. bindE (get_uint 4 b 44) (\<lambda>samples.
     bindE (get_uint 4 b 48) (\<lambda>generation.
       Inr \<lparr>dh_version = version, dh_size = header_size, dh_flags = flags, dh_start = start,
            dh_end = finish, dh_rounds = rounds, dh_targets = targets, dh_timeout = timeout,
            dh_codes = codes, dh_timestamps_offset = timestamps, dh_macs_offset = macs,
            dh_samples_offset = samples, dh_generation = generation\<rparr>)))))))))))))"

record telemetry =
  tm_snr :: nat
  tm_state :: nat
  tm_aps :: nat
  tm_ap_macs :: nat
  tm_air24 :: nat
  tm_air5 :: nat
  tm_mesh :: nat
  tm_file_end :: nat

definition telemetry_error :: js_error where
  "telemetry_error = JsError ''Invalid Performance History telemetry offsets.''"

text \<open>A version 1 file has no telemetry: its offsets are 0 and the samples end it.\<close>

definition read_telemetry :: "bytes \<Rightarrow> day_header \<Rightarrow> js_error + telemetry" where
  "read_telemetry b h =
     (let matrix = dh_targets h * dh_rounds h
      in if dh_version h \<noteq> 2 then
           Inr \<lparr>tm_snr = 0, tm_state = 0, tm_aps = 0, tm_ap_macs = 0, tm_air24 = 0, tm_air5 = 0,
                tm_mesh = 0, tm_file_end = dh_samples_offset h + matrix\<rparr>
         else
           bindE (raise_if (dh_flags h \<noteq> 31)
                    (JsError ''Unsupported Performance History telemetry flags.'')) (\<lambda>_.
           bindE (get_uint 4 b 52) (\<lambda>snr. bindE (get_uint 4 b 56) (\<lambda>state.
           bindE (get_uint 4 b 60) (\<lambda>aps. bindE (get_uint 4 b 64) (\<lambda>ap_macs.
           bindE (get_uint 4 b 68) (\<lambda>air24. bindE (get_uint 4 b 72) (\<lambda>air5.
           bindE (get_uint 4 b 76) (\<lambda>mesh. bindE (get_uint 4 b 80) (\<lambda>file_end.
           bindE (raise_if
                    (snr \<noteq> dh_samples_offset h + matrix \<or> state \<noteq> snr + matrix \<or>
                     ap_macs < state + matrix \<or> air24 < ap_macs + aps * 6 \<or>
                     air5 \<noteq> air24 + aps * dh_rounds h \<or> mesh \<noteq> air5 + aps * dh_rounds h \<or>
                     file_end \<noteq> mesh + aps * dh_rounds h) telemetry_error) (\<lambda>_.
             Inr \<lparr>tm_snr = snr, tm_state = state, tm_aps = aps, tm_ap_macs = ap_macs,
                  tm_air24 = air24, tm_air5 = air5, tm_mesh = mesh,
                  tm_file_end = file_end\<rparr>)))))))))))"

section \<open>The tables of the file\<close>

text \<open>
  The four loops of the decoder have one shape: read item \<open>i\<close>, raise when it does not fit the
  item before it, go on.
\<close>

fun scan_items ::
    "(nat \<Rightarrow> js_error + 'a) \<Rightarrow> (nat \<Rightarrow> 'a \<Rightarrow> 'a \<Rightarrow> bool) \<Rightarrow> js_error \<Rightarrow> 'a \<Rightarrow> nat list \<Rightarrow> js_error + 'a list" where
  "scan_items get bad e previous [] = Inr []"
| "scan_items get bad e previous (i # is) =
     bindE (get i) (\<lambda>v.
     bindE (raise_if (bad i previous v) e) (\<lambda>_.
     bindE (scan_items get bad e v is) (\<lambda>vs. Inr (v # vs))))"

definition read_codebook :: "bytes \<Rightarrow> nat \<Rightarrow> nat \<Rightarrow> nat \<Rightarrow> js_error + nat list" where
  "read_codebook b timeout off n =
     scan_items (\<lambda>i. get_uint 2 b (off + i * 2)) (\<lambda>i previous v. v \<le> previous \<or> timeout < v)
       (JsError ''Invalid Performance History latency codebook.'') 0 [0..<n]"

definition read_timestamps :: "bytes \<Rightarrow> day_header \<Rightarrow> js_error + nat list" where
  "read_timestamps b h =
     scan_items (\<lambda>i. get_uint 4 b (dh_timestamps_offset h + i * 4))
       (\<lambda>i previous v. (i \<noteq> 0 \<and> v \<le> previous) \<or> v < dh_start h \<or> dh_end h \<le> v)
       (JsError ''Invalid Performance History round timestamps.'') 0 [0..<dh_rounds h]"

definition read_macs :: "bytes \<Rightarrow> js_error \<Rightarrow> nat \<Rightarrow> nat \<Rightarrow> js_error + string list" where
  "read_macs b e off n =
     scan_items (\<lambda>i. mac_at b (off + i * 6)) (\<lambda>i previous v. previous \<noteq> [] \<and> v \<le> previous) e []
       [0..<n]"

definition target_order_error :: js_error where
  "target_order_error = JsError ''Invalid Performance History target order.''"

definition ap_order_error :: js_error where
  "ap_order_error = JsError ''Invalid Performance History AP order.''"

record day_file =
  df_version :: nat
  df_bytes :: bytes
  df_codebook :: "nat list"
  df_start :: nat
  df_end :: nat
  df_generation :: nat
  df_timestamps :: "nat list"
  df_macs :: "string list"
  df_samples :: nat
  df_ap_macs :: "string list"
  df_telemetry :: telemetry

definition parse_day :: "bytes \<Rightarrow> js_error + day_file" where
  "parse_day b =
     bindE (raise_if (length b < 576 \<or> take 8 b \<noteq> day_magic)
              (JsError ''Invalid Performance History daily file magic.'')) (\<lambda>_.
     bindE (read_header b) (\<lambda>h.
     bindE (raise_if (dh_version h \<notin> {1, 2} \<or>
                      dh_size h \<noteq> (if dh_version h = 1 then 576 else 640) \<or>
                      dh_codes h \<noteq> 254 \<or> int (dh_end h) - int (dh_start h) \<noteq> 86400)
              (JsError ''Unsupported Performance History daily format.'')) (\<lambda>_.
     bindE (raise_if (dh_version h = 1 \<and> dh_flags h \<noteq> 1)
              (JsError ''Unsupported Performance History daily flags.'')) (\<lambda>_.
     bindE (read_telemetry b h) (\<lambda>tm.
     bindE (raise_if (dh_timestamps_offset h \<noteq> dh_size h \<or>
                      dh_macs_offset h \<noteq> dh_timestamps_offset h + dh_rounds h * 4 \<or>
                      dh_samples_offset h < dh_macs_offset h + dh_targets h * 6 \<or>
                      tm_file_end tm \<noteq> length b)
              (JsError ''Invalid Performance History daily offsets.'')) (\<lambda>_.
     bindE (read_codebook b (dh_timeout h) (if dh_version h = 1 then 64 else 132) (dh_codes h))
       (\<lambda>codebook.
     bindE (read_timestamps b h) (\<lambda>timestamps.
     bindE (read_macs b target_order_error (dh_macs_offset h) (dh_targets h)) (\<lambda>macs.
     bindE (read_macs b ap_order_error (tm_ap_macs tm) (tm_aps tm)) (\<lambda>ap_macs.
       Inr \<lparr>df_version = dh_version h, df_bytes = b, df_codebook = codebook, df_start = dh_start h,
            df_end = dh_end h, df_generation = dh_generation h, df_timestamps = timestamps,
            df_macs = macs, df_samples = dh_samples_offset h, df_ap_macs = ap_macs,
            df_telemetry = tm\<rparr>))))))))))"

text \<open>The cell of a matrix: \<open>day.bytes[offset + source * day.roundCount + round]\<close>.\<close>

definition day_byte :: "day_file \<Rightarrow> nat \<Rightarrow> nat \<Rightarrow> nat \<Rightarrow> byte" where
  "day_byte d off source round = df_bytes d ! (off + source * length (df_timestamps d) + round)"

section \<open>The loop\<close>

text \<open>Every item is readable: the loop returns all of them, or its error when one does not fit.\<close>

lemma bindE_If: "bindE (if c then Inl e else Inr x) f = (if c then Inl e else f x)"
  by simp

lemma scan_items_from:
  assumes "\<And>i. i < n \<Longrightarrow> get i = Inr (vs ! i)" "k \<le> n" "length vs = n"
  shows "scan_items get bad e previous [k..<n] =
    (if \<exists>i. k \<le> i \<and> i < n \<and> bad i (if i = k then previous else vs ! (i - 1)) (vs ! i) then Inl e
     else Inr (drop k vs))"
  using assms(2)
proof (induction "n - k" arbitrary: k previous)
  case 0
  with assms(3) show ?case by simp
next
  case (Suc m)
  from Suc.hyps(2) have k: "k < n" by linarith
  let ?bad = "\<lambda>k previous i. bad i (if i = k then previous else vs ! (i - 1)) (vs ! i)"
  have IH: "scan_items get bad e (vs ! k) [Suc k..<n] =
    (if \<exists>i. Suc k \<le> i \<and> i < n \<and> ?bad (Suc k) (vs ! k) i then Inl e else Inr (drop (Suc k) vs))"
    by (rule Suc.hyps(1)) (use Suc.hyps(2) in linarith)+
  have same: "?bad (Suc k) (vs ! k) i = ?bad k previous i" if "Suc k \<le> i" for i
    using that by auto
  have step: "scan_items get bad e previous [k..<n] =
      bindE (raise_if (bad k previous (vs ! k)) e) (\<lambda>_.
      bindE (scan_items get bad e (vs ! k) [Suc k..<n]) (\<lambda>ws. Inr (vs ! k # ws)))"
    using k by (simp only: upt_conv_Cons scan_items.simps assms(1) bindE.simps)
  have drop: "drop k vs = vs ! k # drop (Suc k) vs"
    using k assms(3) by (simp only: Cons_nth_drop_Suc)
  show ?case
  proof (cases "bad k previous (vs ! k)")
    case True
    then have "\<exists>i. k \<le> i \<and> i < n \<and> ?bad k previous i" using k by auto
    moreover from True have "scan_items get bad e previous [k..<n] = Inl e"
      by (simp only: step raise_if_cond_simps bindE.simps)
    ultimately show ?thesis by (simp only: if_True)
  next
    case False
    have "(\<exists>i. k \<le> i \<and> i < n \<and> ?bad k previous i) \<longleftrightarrow>
        (\<exists>i. Suc k \<le> i \<and> i < n \<and> ?bad (Suc k) (vs ! k) i)" (is "?l = ?r")
    proof
      assume ?l
      then obtain i where i: "k \<le> i" "i < n" "?bad k previous i" by blast
      with False have "Suc k \<le> i" by (cases "i = k") auto
      with i same show ?r by blast
    next
      assume ?r
      with same show ?l using Suc_leD by blast
    qed
    then show ?thesis
      unfolding step IH drop raise_if_cond_simps(2) [OF False] bindE.simps bindE_If by (simp only:)
  qed
qed

lemma scan_items_all:
  assumes "\<And>i. i < n \<Longrightarrow> get i = Inr (vs ! i)" "length vs = n"
  shows "scan_items get bad e previous [0..<n] =
    (if \<exists>i < n. bad i (if i = 0 then previous else vs ! (i - 1)) (vs ! i) then Inl e else Inr vs)"
  using scan_items_from [of n get vs 0 bad e previous] assms by auto

lemma scan_items_good:
  assumes "\<And>i. i < n \<Longrightarrow> get i = Inr (vs ! i)" "length vs = n"
    and "\<And>i. i < n \<Longrightarrow> \<not> bad i (if i = 0 then previous else vs ! (i - 1)) (vs ! i)"
  shows "scan_items get bad e previous [0..<n] = Inr vs"
  using scan_items_all [OF assms(1,2)] assms(3) by (simp only: if_P if_not_P) auto

text \<open>Neighbours of a list are in order exactly when the list is.\<close>

lemma sorted_wrt_neighbours:
  fixes vs :: "'a :: linorder list"
  shows "sorted_wrt (<) vs \<longleftrightarrow> (\<forall>i < length vs. i \<noteq> 0 \<longrightarrow> vs ! (i - 1) < vs ! i)"
proof
  assume "sorted_wrt (<) vs"
  then show "\<forall>i < length vs. i \<noteq> 0 \<longrightarrow> vs ! (i - 1) < vs ! i"
    by (auto simp: sorted_wrt_iff_nth_less)
next
  assume n: "\<forall>i < length vs. i \<noteq> 0 \<longrightarrow> vs ! (i - 1) < vs ! i"
  have "vs ! i < vs ! Suc i" if "Suc i < length vs" for i
    using n [rule_format, OF that] by simp
  then show "sorted_wrt (<) vs"
    by (intro iffD2 [OF sorted_wrt_iff_nth_Suc_transp]) auto
qed

end
