(* ===== verification/DailyFormat.thy ===== *)
theory DailyFormat
imports DailyReader
begin

text \<open>
  The daily file as a sequence of sections, and the decoder on it: a file that lays its sections
  out as the exporter does is accepted exactly when its two MAC tables are strictly increasing.
\<close>

section \<open>Sections of a file\<close>

lemma bslice_section:
  assumes "k < length secs" "a + n \<le> length (secs ! k)"
  shows "bslice (concat secs) (length (concat (take k secs)) + a) (length (concat (take k secs)) + a + n)
         = bslice (secs ! k) a (a + n)"
proof -
  have "secs = take k secs @ secs ! k # drop (Suc k) secs"
    using assms(1) by (rule id_take_nth_drop)
  then have "concat secs = concat (take k secs) @ secs ! k @ concat (drop (Suc k) secs)"
    by (metis concat.simps(2) concat_append)
  then show ?thesis using assms(2) by (simp add: bslice_def)
qed

lemma get_uint_section:
  assumes "0 < n" "k < length secs" "a + n \<le> length (secs ! k)"
    "off = length (concat (take k secs)) + a"
    "bslice (secs ! k) a (a + n) = le_bytes n v"
  shows "get_uint n (concat secs) off = Inr (nat (v mod 256 ^ n))"
proof -
  have slice: "bslice (concat secs) off (off + n) = le_bytes n v"
    using bslice_section [OF assms(2,3)] assms(4,5) by simp
  have "length (bslice (concat secs) off (off + n)) = n" unfolding slice by simp
  with assms(1) have "off + n \<le> length (concat secs)" by auto
  then show ?thesis by (simp add: get_uint_def slice le_int_le_bytes)
qed

text \<open>A table of items of one size.\<close>

lemma length_concat_rows: "(\<And>x. x \<in> set rows \<Longrightarrow> length x = n) \<Longrightarrow> length (concat rows) = length rows * n"
  by (induction rows) auto

lemma bslice_row:
  assumes "\<And>x. x \<in> set rows \<Longrightarrow> length x = n" "i < length rows"
  shows "bslice (concat rows) (i * n) (i * n + n) = rows ! i"
proof -
  have "length (concat (take i rows)) = i * n"
    using assms by (subst length_concat_rows [of _ n]) (auto dest: in_set_takeD)
  moreover have "length (rows ! i) = n" using assms by simp
  ultimately show ?thesis using bslice_section [of i rows 0 n] assms(2) by (simp add: bslice_def)
qed

lemma nth_row:
  assumes "\<And>x. x \<in> set rows \<Longrightarrow> length x = n" "i < length rows" "j < n"
  shows "concat rows ! (i * n + j) = rows ! i ! j"
proof -
  have "i * n + n \<le> length rows * n" using assms(2) by (metis Suc_leI add.commute mult_Suc mult_le_mono1)
  then have "bslice (concat rows) (i * n) (i * n + n) ! j = concat rows ! (i * n + j)"
    using assms by (intro nth_bslice) (auto simp: length_concat_rows)
  then show ?thesis using bslice_row [OF assms(1,2)] by simp
qed

section \<open>The file of a day\<close>

text \<open>
  The contents of a file, its tables as lists: what the exporter writes after it has read the
  database.
\<close>

record day_contents =
  dc_start :: int
  dc_end :: int
  dc_codebook :: "int list"
  dc_rounds :: "int list"
  dc_macs :: "bytes list"
  dc_latency :: "bytes list"
  dc_snr :: "bytes list"
  dc_state :: "bytes list"
  dc_ap_macs :: "bytes list"
  dc_air24 :: "bytes list"
  dc_air5 :: "bytes list"
  dc_mesh :: "bytes list"

definition contents_layout :: "day_contents \<Rightarrow> day_layout" where
  "contents_layout c = layout_day (length (dc_rounds c)) (length (dc_macs c)) (length (dc_ap_macs c))"

definition day_sections :: "day_contents \<Rightarrow> bytes list" where
  "day_sections c =
     (let l = contents_layout c
      in day_magic
         # map (\<lambda>(width, v). le_bytes width v)
             (header_fields (dc_start c) (dc_end c) (dc_rounds c) (length (dc_macs c)) (length (dc_ap_macs c)) l)
         @ [replicate 48 0, concat (map (le_bytes 2) (dc_codebook c)),
            concat (map (le_bytes 4) (dc_rounds c)), concat (dc_macs c),
            replicate (samples_offset l - (macs_offset l + length (dc_macs c) * 6)) 0,
            concat (dc_latency c), concat (dc_snr c), concat (dc_state c),
            replicate (ap_macs_offset l - (state_offset l + length (dc_macs c) * length (dc_rounds c))) 0,
            concat (dc_ap_macs c),
            replicate (air24_offset l - (ap_macs_offset l + length (dc_ap_macs c) * 6)) 0,
            concat (dc_air24 c), concat (dc_air5 c), concat (dc_mesh c)])"

definition well_sized :: "day_contents \<Rightarrow> bool" where
  "well_sized c \<longleftrightarrow>
     length (dc_codebook c) = 254 \<and>
     (\<forall>m \<in> set (dc_macs c) \<union> set (dc_ap_macs c). length m = 6) \<and>
     (\<forall>m \<in> {dc_latency c, dc_snr c, dc_state c}.
        length m = length (dc_macs c) \<and> (\<forall>r \<in> set m. length r = length (dc_rounds c))) \<and>
     (\<forall>m \<in> {dc_air24 c, dc_air5 c, dc_mesh c}.
        length m = length (dc_ap_macs c) \<and> (\<forall>r \<in> set m. length r = length (dc_rounds c)))"

definition day_contents_of :: "(nat \<Rightarrow> int) \<Rightarrow> ping_db \<Rightarrow> int \<Rightarrow> day_contents" where
  "day_contents_of cell db start =
     (let finish = u32 (start + 86400);
          rounds = load_rounds db start finish;
          targets = load_targets db start finish;
          aps = load_ap_targets db start finish;
          codebook = make_codebook cell
      in \<lparr>dc_start = start, dc_end = finish, dc_codebook = codebook, dc_rounds = rounds,
          dc_macs = map et_mac targets,
          dc_latency = map (\<lambda>t. latency_row codebook rounds (result_rows db (et_id t) start finish)) targets,
          dc_snr = map (\<lambda>t. snr_row rounds (result_rows db (et_id t) start finish)) targets,
          dc_state = map (\<lambda>t. state_row rounds (result_rows db (et_id t) start finish)) targets,
          dc_ap_macs = map et_mac aps,
          dc_air24 = map (\<lambda>t. air_row rounds 0 (radio_rows db (et_text t) start finish)) aps,
          dc_air5 = map (\<lambda>t. air_row rounds 1 (radio_rows db (et_text t) start finish)) aps,
          dc_mesh = map (\<lambda>t. mesh_row rounds (uplink_rows db (et_text t) start finish)) aps\<rparr>)"

lemma export_day_sections:
  "export_day cell db start =
     (if layout_fits (contents_layout (day_contents_of cell db start))
      then Some (concat (day_sections (day_contents_of cell db start))) else None)"
  by (simp add: export_day_def day_contents_of_def day_sections_def contents_layout_def put_fields_def
      Let_def split_beta)

lemma align4_ge: "n \<le> align4 n"
  unfolding align4_def by linarith

lemma length_day_magic [simp]: "length day_magic = 8"
  by (simp add: day_magic_def)

text \<open>The offset of every section is the sum of the lengths before it.\<close>

lemma section_lengths:
  assumes "well_sized c"
  defines "secs \<equiv> day_sections c" and "l \<equiv> contents_layout c"
  shows "length secs = 36" "length (concat (take 23 secs)) = 132" "length (concat (take 24 secs)) = 640"
    "length (concat (take 25 secs)) = macs_offset l" "length (concat (take 27 secs)) = samples_offset l"
    "length (concat (take 28 secs)) = snr_offset l" "length (concat (take 29 secs)) = state_offset l"
    "length (concat (take 31 secs)) = ap_macs_offset l" "length (concat (take 33 secs)) = air24_offset l"
    "length (concat (take 34 secs)) = air5_offset l" "length (concat (take 35 secs)) = mesh_snr_offset l"
    "length (concat secs) = file_end l"
proof -
  have sizes: "length (concat (map (le_bytes 2) (dc_codebook c))) = 508"
    "length (concat (map (le_bytes 4) (dc_rounds c))) = length (dc_rounds c) * 4"
    "length (concat (dc_macs c)) = length (dc_macs c) * 6"
    "length (concat (dc_latency c)) = length (dc_macs c) * length (dc_rounds c)"
    "length (concat (dc_snr c)) = length (dc_macs c) * length (dc_rounds c)"
    "length (concat (dc_state c)) = length (dc_macs c) * length (dc_rounds c)"
    "length (concat (dc_ap_macs c)) = length (dc_ap_macs c) * 6"
    "length (concat (dc_air24 c)) = length (dc_ap_macs c) * length (dc_rounds c)"
    "length (concat (dc_air5 c)) = length (dc_ap_macs c) * length (dc_rounds c)"
    "length (concat (dc_mesh c)) = length (dc_ap_macs c) * length (dc_rounds c)"
    using assms(1) by (subst length_concat_rows; force simp: well_sized_def)+
  define R T A M N where "R = length (dc_rounds c)" and "T = length (dc_macs c)"
    and "A = length (dc_ap_macs c)" and "M = T * R" and "N = A * R"
  define x y z where "x = align4 (640 + R * 4 + T * 6)" and "y = align4 (x + M + M + M)"
    and "z = align4 (y + A * 6)"
  have ge: "640 + R * 4 + T * 6 \<le> x" "x + M + M + M \<le> y" "y + A * 6 \<le> z"
    by (simp_all add: x_def y_def z_def align4_ge)
  have l: "macs_offset l = 640 + R * 4" "samples_offset l = x" "snr_offset l = x + M"
    "state_offset l = x + M + M" "ap_macs_offset l = y" "air24_offset l = z" "air5_offset l = z + N"
    "mesh_snr_offset l = z + N + N" "file_end l = z + N + N + N"
    by (simp_all add: l_def contents_layout_def layout_day_def DAY_HEADER_SIZE_def Let_def
        R_def T_def A_def M_def N_def x_def y_def z_def)
  have lens: "map length secs = [8, 2, 2, 4, 4, 4, 4, 4, 2, 2, 4, 4, 4, 4, 4, 4, 4, 4, 4, 4, 4, 4, 48,
      508, R * 4, T * 6, x - (640 + R * 4 + T * 6), M, M, M, y - (x + M + M + M), A * 6,
      z - (y + A * 6), N, N, N]"
    unfolding secs_def day_sections_def l_def [symmetric] Let_def
    using sizes
    by (simp add: header_fields_def R_def [symmetric] T_def [symmetric] A_def [symmetric]
        M_def [symmetric] N_def [symmetric] l del: length_concat)
  have total: "length (concat (take k secs)) = sum_list (take k (map length secs))" for k
    by (simp add: length_concat take_map)
  from arg_cong [OF lens, of length] show "length secs = 36" by simp
  show "length (concat (take 23 secs)) = 132" "length (concat (take 24 secs)) = 640"
    "length (concat (take 25 secs)) = macs_offset l" "length (concat (take 27 secs)) = samples_offset l"
    "length (concat (take 28 secs)) = snr_offset l" "length (concat (take 29 secs)) = state_offset l"
    "length (concat (take 31 secs)) = ap_macs_offset l" "length (concat (take 33 secs)) = air24_offset l"
    "length (concat (take 34 secs)) = air5_offset l" "length (concat (take 35 secs)) = mesh_snr_offset l"
    using ge by (simp_all only: total lens l) simp_all
  have "length (concat secs) = sum_list (map length secs)" by (simp add: length_concat)
  then show "length (concat secs) = file_end l" using ge by (simp only: lens l) simp
qed

section \<open>The header\<close>

lemma header_uint:
  fixes c :: day_contents
  defines "hfs \<equiv> header_fields (dc_start c) (dc_end c) (dc_rounds c) (length (dc_macs c))
                       (length (dc_ap_macs c)) (contents_layout c)"
  assumes "k < 21" "hfs ! k = (w, v)" "0 < w" "off = 8 + sum_list (map fst (take k hfs))"
  shows "get_uint w (concat (day_sections c)) off = Inr (nat (v mod 256 ^ w))"
proof (rule get_uint_section)
  have "\<exists>rest. day_sections c = day_magic # map (\<lambda>(width, v). le_bytes width v) hfs @ rest"
    unfolding day_sections_def hfs_def Let_def by blast
  then obtain rest where secs: "day_sections c = day_magic # map (\<lambda>(width, v). le_bytes width v) hfs @ rest"
    by blast
  have n: "length hfs = 21" by (simp add: hfs_def header_fields_def)
  show "0 < w" by fact
  show "Suc k < length (day_sections c)" using assms(2) n by (simp add: secs)
  have item: "day_sections c ! Suc k = le_bytes w v"
    using assms(2,3) n by (simp add: secs nth_append)
  then show "0 + w \<le> length (day_sections c ! Suc k)" by simp
  from item show "bslice (day_sections c ! Suc k) 0 (0 + w) = le_bytes w v" by (simp add: bslice_def)
  have "map length (take k (map (\<lambda>(width, v). le_bytes width v) hfs)) = map fst (take k hfs)"
    by (simp add: take_map case_prod_beta)
  then have "length (concat (take (Suc k) (day_sections c))) = 8 + sum_list (map fst (take k hfs))"
    using assms(2) n by (simp add: secs length_concat)
  with assms(5) show "off = length (concat (take (Suc k) (day_sections c))) + 0" by simp
qed

text \<open>What the header of a file holds, for values that fit their fields.\<close>

definition fitting :: "day_contents \<Rightarrow> bool" where
  "fitting c \<longleftrightarrow>
     0 \<le> dc_start c \<and> dc_start c < 2 ^ 32 \<and> 0 \<le> dc_end c \<and> dc_end c < 2 ^ 32 \<and>
     (\<forall>t \<in> set (dc_rounds c). 0 \<le> t \<and> t < 2 ^ 32) \<and>
     (\<forall>v \<in> set (dc_codebook c). 0 \<le> v \<and> v < 2 ^ 16) \<and> layout_fits (contents_layout c)"

lemma day_header_read:
  assumes "fitting c" "length (dc_rounds c) < 2 ^ 32" "length (dc_macs c) < 2 ^ 32"
  shows "read_header (concat (day_sections c)) =
    Inr \<lparr>dh_version = 2, dh_size = 640, dh_flags = 31, dh_start = nat (dc_start c),
         dh_end = nat (dc_end c), dh_rounds = length (dc_rounds c), dh_targets = length (dc_macs c),
         dh_timeout = 2000, dh_codes = 254, dh_timestamps_offset = 640,
         dh_macs_offset = macs_offset (contents_layout c),
         dh_samples_offset = samples_offset (contents_layout c),
         dh_generation = nat (if dc_rounds c \<noteq> [] then last (dc_rounds c) else dc_start c)\<rparr>"
proof -
  let ?b = "concat (day_sections c)" and ?l = "contents_layout c"
  note f = header_uint [of _ c, unfolded header_fields_def]
  have n: "nat (int m mod 4294967296) = m" if "m < 4294967296" for m using that by simp
  have lay: "macs_offset ?l < 4294967296" "samples_offset ?l < 4294967296"
    using assms(1) by (simp_all add: fitting_def layout_fits_def)
  have gen: "0 \<le> (if dc_rounds c \<noteq> [] then last (dc_rounds c) else dc_start c)"
    "(if dc_rounds c \<noteq> [] then last (dc_rounds c) else dc_start c) < 4294967296"
    using assms(1) by (auto simp: fitting_def)
  have u: "get_uint 2 ?b 8 = Inr 2" "get_uint 2 ?b 10 = Inr 640" "get_uint 4 ?b 12 = Inr 31"
    "get_uint 4 ?b 16 = Inr (nat (dc_start c))" "get_uint 4 ?b 20 = Inr (nat (dc_end c))"
    "get_uint 4 ?b 24 = Inr (length (dc_rounds c))" "get_uint 4 ?b 28 = Inr (length (dc_macs c))"
    "get_uint 2 ?b 32 = Inr 2000" "get_uint 2 ?b 34 = Inr 254" "get_uint 4 ?b 36 = Inr 640"
    "get_uint 4 ?b 40 = Inr (macs_offset ?l)" "get_uint 4 ?b 44 = Inr (samples_offset ?l)"
    "get_uint 4 ?b 48 = Inr (nat (if dc_rounds c \<noteq> [] then last (dc_rounds c) else dc_start c))"
    using f [of 0 2 2 8] f [of 1 2 640 10] f [of 2 4 31 12] f [of 3 4 "dc_start c" 16]
      f [of 4 4 "dc_end c" 20] f [of 5 4 "int (length (dc_rounds c))" 24]
      f [of 6 4 "int (length (dc_macs c))" 28] f [of 7 2 2000 32] f [of 8 2 254 34] f [of 9 4 640 36]
      f [of 10 4 "int (macs_offset ?l)" 40] f [of 11 4 "int (samples_offset ?l)" 44]
      f [of 12 4 "if dc_rounds c \<noteq> [] then last (dc_rounds c) else dc_start c" 48]
      assms n lay gen
    by (simp_all add: DAY_HEADER_SIZE_def CODE_COUNT_def fitting_def del: int_nat_eq)
  show ?thesis by (simp only: read_header_def u bindE.simps)
qed

lemma layout_sizes:
  assumes "fitting c"
  shows "length (dc_rounds c) < 2 ^ 32" "length (dc_macs c) < 2 ^ 32" "length (dc_ap_macs c) < 2 ^ 32"
proof -
  let ?l = "contents_layout c"
  have fits: "macs_offset ?l < 2 ^ 32" "samples_offset ?l < 2 ^ 32" "air24_offset ?l < 2 ^ 32"
    using assms by (simp_all add: fitting_def layout_fits_def)
  have "length (dc_rounds c) * 4 \<le> macs_offset ?l"
    by (simp add: contents_layout_def layout_day_def Let_def)
  moreover have "length (dc_macs c) * 6 \<le> samples_offset ?l"
    using align4_ge [of "macs_offset ?l + length (dc_macs c) * 6"]
    by (simp add: contents_layout_def layout_day_def Let_def)
  moreover have "length (dc_ap_macs c) * 6 \<le> air24_offset ?l"
    using align4_ge [of "ap_macs_offset ?l + length (dc_ap_macs c) * 6"]
    by (simp add: contents_layout_def layout_day_def Let_def)
  ultimately show "length (dc_rounds c) < 2 ^ 32" "length (dc_macs c) < 2 ^ 32"
    "length (dc_ap_macs c) < 2 ^ 32"
    using fits by linarith+
qed

definition contents_telemetry :: "day_contents \<Rightarrow> telemetry" where
  "contents_telemetry c =
     (let l = contents_layout c
      in \<lparr>tm_snr = snr_offset l, tm_state = state_offset l, tm_aps = length (dc_ap_macs c),
          tm_ap_macs = ap_macs_offset l, tm_air24 = air24_offset l, tm_air5 = air5_offset l,
          tm_mesh = mesh_snr_offset l, tm_file_end = file_end l\<rparr>)"

lemma day_telemetry_read:
  assumes "fitting c" "dh_version h = 2" "dh_flags h = 31" "dh_rounds h = length (dc_rounds c)"
    "dh_targets h = length (dc_macs c)" "dh_samples_offset h = samples_offset (contents_layout c)"
  shows "read_telemetry (concat (day_sections c)) h = Inr (contents_telemetry c)"
proof -
  let ?b = "concat (day_sections c)" and ?l = "contents_layout c"
  note f = header_uint [of _ c, unfolded header_fields_def]
  have n: "nat (int m mod 4294967296) = m" if "m < 4294967296" for m using that by simp
  have lay: "snr_offset ?l < 4294967296" "state_offset ?l < 4294967296" "ap_macs_offset ?l < 4294967296"
    "air24_offset ?l < 4294967296" "air5_offset ?l < 4294967296" "mesh_snr_offset ?l < 4294967296"
    "file_end ?l < 4294967296"
    using assms(1) by (simp_all add: fitting_def layout_fits_def)
  have u: "get_uint 4 ?b 52 = Inr (snr_offset ?l)" "get_uint 4 ?b 56 = Inr (state_offset ?l)"
    "get_uint 4 ?b 60 = Inr (length (dc_ap_macs c))" "get_uint 4 ?b 64 = Inr (ap_macs_offset ?l)"
    "get_uint 4 ?b 68 = Inr (air24_offset ?l)" "get_uint 4 ?b 72 = Inr (air5_offset ?l)"
    "get_uint 4 ?b 76 = Inr (mesh_snr_offset ?l)" "get_uint 4 ?b 80 = Inr (file_end ?l)"
    using f [of 13 4 "int (snr_offset ?l)" 52] f [of 14 4 "int (state_offset ?l)" 56]
      f [of 15 4 "int (length (dc_ap_macs c))" 60] f [of 16 4 "int (ap_macs_offset ?l)" 64]
      f [of 17 4 "int (air24_offset ?l)" 68] f [of 18 4 "int (air5_offset ?l)" 72]
      f [of 19 4 "int (mesh_snr_offset ?l)" 76] f [of 20 4 "int (file_end ?l)" 80]
      layout_sizes(3) [OF assms(1)] n lay
    by simp_all
  have "ap_macs_offset ?l \<ge> state_offset ?l + length (dc_macs c) * length (dc_rounds c)"
    "air24_offset ?l \<ge> ap_macs_offset ?l + length (dc_ap_macs c) * 6"
    using align4_ge by (simp_all add: contents_layout_def layout_day_def Let_def)
  moreover have "snr_offset ?l = samples_offset ?l + length (dc_macs c) * length (dc_rounds c)"
    "state_offset ?l = snr_offset ?l + length (dc_macs c) * length (dc_rounds c)"
    "air5_offset ?l = air24_offset ?l + length (dc_ap_macs c) * length (dc_rounds c)"
    "mesh_snr_offset ?l = air5_offset ?l + length (dc_ap_macs c) * length (dc_rounds c)"
    "file_end ?l = mesh_snr_offset ?l + length (dc_ap_macs c) * length (dc_rounds c)"
    by (simp_all add: contents_layout_def layout_day_def Let_def)
  ultimately show ?thesis
    using assms(2-) by (simp add: read_telemetry_def u contents_telemetry_def Let_def)
qed

section \<open>The tables\<close>

text \<open>A table of integers of one width, read item by item.\<close>

lemma table_uint:
  assumes "0 < n" "k < length secs" "secs ! k = concat (map (le_bytes n) vs)" "i < length vs"
    "off = length (concat (take k secs))" "0 \<le> vs ! i" "vs ! i < 256 ^ n"
  shows "get_uint n (concat secs) (off + i * n) = Inr (nat (vs ! i))"
proof -
  have row: "bslice (secs ! k) (i * n) (i * n + n) = le_bytes n (vs ! i)"
    unfolding assms(3) using assms(4) by (subst bslice_row) auto
  have "length (secs ! k) = length vs * n"
    unfolding assms(3) by (subst length_concat_rows) auto
  moreover have "Suc i * n \<le> length vs * n" using assms(4) by (intro mult_le_mono1) simp
  ultimately have "i * n + n \<le> length (secs ! k)" by simp
  from get_uint_section [OF assms(1,2) this _ row] assms(5-7) show ?thesis by simp
qed

lemma table_mac:
  assumes "k < length secs" "secs ! k = concat macs" "i < length macs" "\<And>m. m \<in> set macs \<Longrightarrow> length m = 6"
    "off = length (concat (take k secs))"
  shows "mac_at (concat secs) (off + i * 6) = Inr (format_mac (macs ! i))"
proof -
  have row: "bslice (secs ! k) (i * 6) (i * 6 + 6) = macs ! i"
    unfolding assms(2) using bslice_row [of macs 6 i] assms(3,4) by simp
  have "length (secs ! k) = length macs * 6"
    unfolding assms(2) using assms(4) by (rule length_concat_rows)
  then have "i * 6 + 6 \<le> length (secs ! k)" using assms(3) by simp
  from bslice_section [OF assms(1) this] row assms(5)
  have slice: "bslice (concat secs) (off + i * 6) (off + i * 6 + 6) = macs ! i" by simp
  have "length (bslice (concat secs) (off + i * 6) (off + i * 6 + 6)) = 6"
    unfolding slice using assms(3,4) by simp
  then have "off + i * 6 + 6 \<le> length (concat secs)" by auto
  then show ?thesis by (simp add: mac_at_def slice)
qed

lemma format_mac_nonempty: "length m = 6 \<Longrightarrow> format_mac m \<noteq> []"
  by (cases m; cases "tl m") (auto simp: format_mac_def hex2_def)

lemma read_macs_table:
  assumes "k < length secs" "secs ! k = concat macs" "\<And>m. m \<in> set macs \<Longrightarrow> length m = 6"
    "off = length (concat (take k secs))"
  shows "read_macs (concat secs) e off (length macs) =
    (if sorted_wrt (<) (map format_mac macs) then Inr (map format_mac macs) else Inl e)"
proof -
  let ?vs = "map format_mac macs"
  have "scan_items (\<lambda>i. mac_at (concat secs) (off + i * 6)) (\<lambda>i previous v. previous \<noteq> [] \<and> v \<le> previous)
          e [] [0..<length macs] =
    (if \<exists>i < length macs. (if i = 0 then [] else ?vs ! (i - 1)) \<noteq> [] \<and>
                          ?vs ! i \<le> (if i = 0 then [] else ?vs ! (i - 1)) then Inl e else Inr ?vs)"
    by (rule scan_items_all) (use table_mac [OF assms(1,2) _ assms(3,4)] in auto)
  moreover have "(\<exists>i < length macs. (if i = 0 then [] else ?vs ! (i - 1)) \<noteq> [] \<and>
                          ?vs ! i \<le> (if i = 0 then [] else ?vs ! (i - 1))) \<longleftrightarrow> \<not> sorted_wrt (<) ?vs"
    unfolding sorted_wrt_neighbours using assms(3) format_mac_nonempty by (auto simp: not_less)
  ultimately show ?thesis by (simp add: read_macs_def)
qed

section \<open>The decoder on a file\<close>

definition readable :: "day_contents \<Rightarrow> bool" where
  "readable c \<longleftrightarrow>
     well_sized c \<and> fitting c \<and> dc_end c = dc_start c + 86400 \<and>
     sorted_wrt (<) (dc_codebook c) \<and> (\<forall>v \<in> set (dc_codebook c). 1 \<le> v \<and> v \<le> 2000) \<and>
     sorted_wrt (<) (dc_rounds c) \<and> (\<forall>t \<in> set (dc_rounds c). dc_start c \<le> t \<and> t < dc_end c)"

definition decoded :: "day_contents \<Rightarrow> day_file" where
  "decoded c =
     \<lparr>df_version = 2, df_bytes = concat (day_sections c), df_codebook = map nat (dc_codebook c),
      df_start = nat (dc_start c), df_end = nat (dc_end c),
      df_generation = nat (if dc_rounds c \<noteq> [] then last (dc_rounds c) else dc_start c),
      df_timestamps = map nat (dc_rounds c), df_macs = map format_mac (dc_macs c),
      df_samples = samples_offset (contents_layout c), df_ap_macs = map format_mac (dc_ap_macs c),
      df_telemetry = contents_telemetry c\<rparr>"

lemma sections_nth:
  "day_sections c ! 23 = concat (map (le_bytes 2) (dc_codebook c))"
  "day_sections c ! 24 = concat (map (le_bytes 4) (dc_rounds c))"
  "day_sections c ! 25 = concat (dc_macs c)"
  "day_sections c ! 27 = concat (dc_latency c)" "day_sections c ! 28 = concat (dc_snr c)"
  "day_sections c ! 29 = concat (dc_state c)" "day_sections c ! 31 = concat (dc_ap_macs c)"
  "day_sections c ! 33 = concat (dc_air24 c)" "day_sections c ! 34 = concat (dc_air5 c)"
  "day_sections c ! 35 = concat (dc_mesh c)"
  by (simp_all add: day_sections_def header_fields_def Let_def)

lemma sorted_wrt_map_nat:
  assumes "\<forall>v \<in> set vs. 0 \<le> v" "sorted_wrt (<) vs"
  shows "sorted_wrt (<) (map nat vs)"
  unfolding sorted_wrt_map
proof (rule sorted_wrt_mono_rel [OF _ assms(2)])
  fix x y assume "x \<in> set vs" "y \<in> set vs" "x < y"
  moreover from this assms(1) have "0 \<le> x" by blast
  ultimately show "nat x < nat y" by simp
qed

lemma read_codebook_day:
  assumes "readable c"
  shows "read_codebook (concat (day_sections c)) 2000 132 254 = Inr (map nat (dc_codebook c))"
proof -
  let ?vs = "map nat (dc_codebook c)"
  have n: "length (dc_codebook c) = 254" and w: "well_sized c"
    using assms by (simp_all add: readable_def well_sized_def)
  have b: "1 \<le> dc_codebook c ! i \<and> dc_codebook c ! i \<le> 2000" if "i < 254" for i
    using assms that n by (simp add: readable_def)
  have "get_uint 2 (concat (day_sections c)) (132 + i * 2) = Inr (?vs ! i)" if "i < 254" for i
    using table_uint [of 2 23 "day_sections c" "dc_codebook c" i 132] that n b [OF that]
      section_lengths [OF w] by (simp add: sections_nth)
  moreover have "sorted_wrt (<) ?vs"
    using assms by (intro sorted_wrt_map_nat) (auto simp: readable_def)
  then have "(if i = 0 then 0 else ?vs ! (i - 1)) < ?vs ! i" if "i < 254" for i
    using that n b [OF that] by (auto simp: sorted_wrt_neighbours)
  moreover have "?vs ! i \<le> 2000" if "i < 254" for i using b [OF that] that n by (simp add: nat_le_iff)
  ultimately show ?thesis
    unfolding read_codebook_def using n
    by (intro scan_items_good) (auto simp only: length_map not_le not_less de_Morgan_disj)
qed

lemma read_timestamps_day:
  assumes "readable c" "dh_timestamps_offset h = 640" "dh_rounds h = length (dc_rounds c)"
    "dh_start h = nat (dc_start c)" "dh_end h = nat (dc_end c)"
  shows "read_timestamps (concat (day_sections c)) h = Inr (map nat (dc_rounds c))"
proof -
  let ?vs = "map nat (dc_rounds c)"
  have w: "well_sized c" and s: "0 \<le> dc_start c" using assms(1) by (simp_all add: readable_def fitting_def)
  have b: "dc_start c \<le> dc_rounds c ! i \<and> dc_rounds c ! i < dc_end c" "0 \<le> dc_rounds c ! i"
    "dc_rounds c ! i < 2 ^ 32" if "i < length (dc_rounds c)" for i
    using assms(1) that by (auto simp: readable_def fitting_def)
  have "get_uint 4 (concat (day_sections c)) (640 + i * 4) = Inr (?vs ! i)"
    if "i < length (dc_rounds c)" for i
    using table_uint [of 4 24 "day_sections c" "dc_rounds c" i 640] that b [OF that]
      section_lengths [OF w] by (simp add: sections_nth)
  moreover have "sorted_wrt (<) ?vs"
    using assms(1) by (intro sorted_wrt_map_nat) (auto simp: readable_def fitting_def)
  then have "i = 0 \<or> ?vs ! (i - 1) < ?vs ! i" if "i < length (dc_rounds c)" for i
    using that by (auto simp: sorted_wrt_neighbours)
  moreover have "nat (dc_start c) \<le> ?vs ! i \<and> ?vs ! i < nat (dc_end c)"
    if "i < length (dc_rounds c)" for i
    using b [OF that] that s by (auto simp: nat_le_iff)
  ultimately have items: "get_uint 4 (concat (day_sections c)) (640 + i * 4) = Inr (?vs ! i)"
    "\<not> ((i \<noteq> 0 \<and> ?vs ! i \<le> (if i = 0 then 0 else ?vs ! (i - 1))) \<or>
        ?vs ! i < nat (dc_start c) \<or> nat (dc_end c) \<le> ?vs ! i)"
    if "i < length (dc_rounds c)" for i
    using that by (cases "i = 0"; force)+
  show ?thesis
    unfolding read_timestamps_def assms(2-) by (rule scan_items_good) (simp_all only: items length_map simp_thms)
qed

theorem parse_day_sections:
  assumes "readable c"
  shows "parse_day (concat (day_sections c)) =
    (if \<not> sorted_wrt (<) (map format_mac (dc_macs c)) then Inl target_order_error
     else if \<not> sorted_wrt (<) (map format_mac (dc_ap_macs c)) then Inl ap_order_error
     else Inr (decoded c))"
proof -
  let ?b = "concat (day_sections c)" and ?l = "contents_layout c"
  have w: "well_sized c" and f: "fitting c" and e: "dc_end c = dc_start c + 86400"
    using assms by (simp_all add: readable_def)
  note lens = section_lengths [OF w]
  have size: "length ?b = file_end ?l" by (simp add: lens)
  have "length (concat (take 24 (day_sections c))) \<le> length ?b"
    by (metis append_take_drop_id concat_append length_append le_add1)
  then have big: "\<not> file_end ?l < 576" unfolding lens(3) size by linarith
  have magic: "take 8 ?b = day_magic" by (simp add: day_sections_def Let_def)
  have "macs_offset ?l = 640 + length (dc_rounds c) * 4"
    by (simp add: contents_layout_def layout_day_def DAY_HEADER_SIZE_def Let_def)
  moreover have "macs_offset ?l + length (dc_macs c) * 6 \<le> samples_offset ?l"
    using align4_ge by (simp add: contents_layout_def layout_day_def Let_def)
  ultimately have offsets: "(macs_offset ?l \<noteq> 640 + length (dc_rounds c) * 4) = False"
    "(samples_offset ?l < macs_offset ?l + length (dc_macs c) * 6) = False" by simp_all
  have six: "m \<in> set (dc_macs c) \<Longrightarrow> length m = 6" "m \<in> set (dc_ap_macs c) \<Longrightarrow> length m = 6" for m
    using w by (auto simp: well_sized_def)
  have macs: "read_macs ?b target_order_error (macs_offset ?l) (length (dc_macs c)) =
      (if sorted_wrt (<) (map format_mac (dc_macs c)) then Inr (map format_mac (dc_macs c))
       else Inl target_order_error)"
    by (rule read_macs_table [of 25]) (simp_all add: lens sections_nth six)
  have aps: "read_macs ?b ap_order_error (ap_macs_offset ?l) (length (dc_ap_macs c)) =
      (if sorted_wrt (<) (map format_mac (dc_ap_macs c)) then Inr (map format_mac (dc_ap_macs c))
       else Inl ap_order_error)"
    by (rule read_macs_table [of 31]) (simp_all add: lens sections_nth six)
  have times: "(int (nat (dc_end c)) - int (nat (dc_start c)) \<noteq> 86400) = False"
    using f e by (simp add: fitting_def)
  have supported: "(2 :: nat) \<in> {1, 2}" "(2 :: nat) \<noteq> 1" by simp_all
  have tm: "tm_file_end (contents_telemetry c) = length ?b" "tm_aps (contents_telemetry c) = length (dc_ap_macs c)"
    "tm_ap_macs (contents_telemetry c) = ap_macs_offset ?l"
    by (simp_all only: size) (simp_all add: contents_telemetry_def Let_def)
  show ?thesis
    unfolding parse_day_def
    by (simp only: big size magic day_header_read [OF f layout_sizes(1,2) [OF f]] bindE.simps
        raise_if_False times day_header.simps supported tm offsets
        day_telemetry_read [OF f] read_codebook_day [OF assms] read_timestamps_day [OF assms] macs aps
        simp_thms if_False if_True) (simp add: decoded_def)
qed

end
