(* ===== verification/DailyCodes.thy ===== *)
theory DailyCodes
imports Complex_Main DailyExport
begin

text \<open>
  The one-byte codes of the daily file: the latency code book is strictly increasing for any
  mathematical library that rounds its powers accurately, the latency code is the nearest
  entry, and the binary search for a round is exact.
\<close>

section \<open>The code book\<close>

text \<open>
  What the exporter relies on in \<open>lround(101.0 * pow(ratio, i))\<close>: the result is the exact power
  rounded to an integer, up to a thousandth for the floating-point error.
\<close>

definition accurate_cells :: "(nat \<Rightarrow> int) \<Rightarrow> bool" where
  "accurate_cells cell \<longleftrightarrow>
     (\<forall>i < 154. \<bar>real_of_int (cell i) - 101 * (2000 / 101) powr (real i / 153)\<bar> \<le> 501 / 1000)"

definition code_ratio :: real where
  "code_ratio = (2000 / 101) powr (1 / 153)"

lemma code_power: "(2000 / 101) powr (real i / 153) = code_ratio ^ i"
proof -
  have "code_ratio ^ i = code_ratio powr real i"
    by (rule powr_realpow [symmetric]) (simp add: code_ratio_def)
  also have "\<dots> = (2000 / 101) powr (real i / 153)"
    by (simp add: code_ratio_def powr_powr)
  finally show ?thesis by simp
qed

lemma code_ratio_power: "code_ratio ^ 153 = 2000 / 101"
  using code_power [of 153] by simp

lemma code_ratio_lower: "65 / 64 \<le> code_ratio"
proof (rule power_le_imp_le_base)
  have "(65 / 64 :: real) ^ 153 = ((65 / 64) ^ 17) ^ 9" by (simp flip: power_mult)
  also have "\<dots> \<le> (131 / 100) ^ 9" by (rule power_mono) (simp_all add: power_divide)
  also have "\<dots> \<le> 2000 / 101" by (simp add: power_divide)
  finally show "(65 / 64) ^ Suc 152 \<le> code_ratio ^ Suc 152" by (simp add: code_ratio_power)
  show "0 \<le> code_ratio" by (simp add: code_ratio_def)
qed

lemma code_ratio_upper: "code_ratio \<le> 51 / 50"
proof (rule power_le_imp_le_base)
  have "(2000 / 101 :: real) \<le> (7 / 5) ^ 9" by (simp add: power_divide)
  also have "\<dots> \<le> ((51 / 50) ^ 17) ^ 9" by (rule power_mono) (simp_all add: power_divide)
  also have "\<dots> = (51 / 50) ^ 153" by (simp flip: power_mult)
  finally show "code_ratio ^ Suc 152 \<le> (51 / 50) ^ Suc 152" by (simp add: code_ratio_power)
  show "(0 :: real) \<le> 51 / 50" by simp
qed

lemma code_step:
  "101 * code_ratio ^ i + 101 / 64 \<le> 101 * code_ratio ^ Suc i"
  "101 * code_ratio ^ Suc i \<le> (51 / 50) * (101 * code_ratio ^ i)"
proof -
  have one: "1 \<le> code_ratio ^ i" using code_ratio_lower by (intro one_le_power) simp
  have "1 * (1 / 64) \<le> code_ratio ^ i * (code_ratio - 1)"
    using one code_ratio_lower by (intro mult_mono) simp_all
  then show "101 * code_ratio ^ i + 101 / 64 \<le> 101 * code_ratio ^ Suc i"
    by (simp add: algebra_simps)
  have "code_ratio ^ i * code_ratio \<le> code_ratio ^ i * (51 / 50)"
    using one code_ratio_upper by (intro mult_left_mono) simp_all
  then show "101 * code_ratio ^ Suc i \<le> (51 / 50) * (101 * code_ratio ^ i)"
    by (simp add: algebra_simps)
qed

lemma cell_near:
  assumes "accurate_cells cell" "i < 154"
  shows "real_of_int (cell i) \<le> 101 * code_ratio ^ i + 501 / 1000"
    and "101 * code_ratio ^ i \<le> real_of_int (cell i) + 501 / 1000"
proof -
  have "\<bar>real_of_int (cell i) - 101 * code_ratio ^ i\<bar> \<le> 501 / 1000"
    using assms by (simp add: accurate_cells_def code_power)
  then show "real_of_int (cell i) \<le> 101 * code_ratio ^ i + 501 / 1000"
    and "101 * code_ratio ^ i \<le> real_of_int (cell i) + 501 / 1000"
    by (simp_all only: abs_le_iff) linarith+
qed

lemma cell_first: "accurate_cells cell \<Longrightarrow> cell 0 = 101"
  using cell_near [of cell 0] by simp

lemma cell_last: "accurate_cells cell \<Longrightarrow> cell 153 = 2000"
  using cell_near [of cell 153] by (simp add: code_ratio_power)

lemma cell_less:
  assumes "accurate_cells cell" "Suc i < 154"
  shows "cell i < cell (Suc i)"
proof -
  have "real_of_int (cell i) < real_of_int (cell (Suc i))"
    using cell_near(1) [OF assms(1) Suc_lessD [OF assms(2)]] cell_near(2) [OF assms]
      code_step(1) [of i] by linarith
  then show ?thesis by simp
qed

text \<open>Twice the gap between neighbours is at most a fiftieth of the lower one, and two.\<close>

lemma cell_gap:
  assumes "accurate_cells cell" "Suc i < 154"
  shows "50 * (cell (Suc i) - cell i) \<le> cell i + 50"
proof -
  have gap: "50 * (d - c) \<le> c + 50601 / 1000"
    if "x \<le> c + 501 / 1000" "d \<le> y + 501 / 1000" "y \<le> 51 / 50 * x" for c d x y :: real
    using that by argo
  have "50 * (real_of_int (cell (Suc i)) - real_of_int (cell i)) \<le> real_of_int (cell i) + 50601 / 1000"
    by (rule gap [OF cell_near(2) [OF assms(1) Suc_lessD [OF assms(2)]] cell_near(1) [OF assms]
          code_step(2) [of i]])
  then have "real_of_int (50 * (cell (Suc i) - cell i)) \<le> real_of_int (cell i) + 50601 / 1000"
    by simp
  then show ?thesis by linarith
qed

lemma cell_mono: "accurate_cells cell \<Longrightarrow> i < j \<Longrightarrow> j < 154 \<Longrightarrow> cell i < cell j"
proof (induction j)
  case (Suc j)
  then have "cell j < cell (Suc j)" by (simp add: cell_less)
  with Suc show ?case by (cases "i = j") auto
qed simp

lemma cell_bounds: "accurate_cells cell \<Longrightarrow> i < 154 \<Longrightarrow> 101 \<le> cell i \<and> cell i \<le> 2000"
  using cell_mono [of cell 0 i] cell_mono [of cell i 153] cell_first [of cell] cell_last [of cell]
  by (cases "i = 0"; cases "i = 153") auto

lemma cell_bounds_shift:
  "accurate_cells cell \<Longrightarrow> i < 254 \<Longrightarrow> 101 \<le> cell (i - 100) \<and> cell (i - 100) \<le> 2000"
  by (rule cell_bounds) auto

lemma length_make_codebook [simp]: "length (make_codebook cell) = 254"
  by (simp add: make_codebook_def)

lemma make_codebook_nth:
  assumes "accurate_cells cell" "i < 254"
  shows "make_codebook cell ! i = (if i < 100 then int i + 1 else cell (i - 100))"
proof -
  have "cell (i - 100) mod 2 ^ 16 = cell (i - 100)" if "100 \<le> i"
    using cell_bounds_shift [OF assms] by simp
  with assms cell_first [OF assms(1)] cell_last [OF assms(1)] show ?thesis
    by (auto simp: make_codebook_def nth_list_update nth_append)
qed

lemma make_codebook_sorted: "accurate_cells cell \<Longrightarrow> sorted_wrt (<) (make_codebook cell)"
proof -
  assume c: "accurate_cells cell"
  have "make_codebook cell ! i < make_codebook cell ! j" if "i < j" "j < 254" for i j
    using that cell_mono [OF c, of "i - 100" "j - 100"] cell_bounds_shift [OF c, of j]
    by (auto simp: make_codebook_nth [OF c])
  then show ?thesis by (simp add: sorted_wrt_iff_nth_less)
qed

lemma make_codebook_bounds:
  assumes "accurate_cells cell" "i < 254"
  shows "1 \<le> make_codebook cell ! i" "make_codebook cell ! i \<le> 2000"
  using assms cell_bounds_shift [OF assms] by (auto simp: make_codebook_nth)

text \<open>A library that rounds the exact power is such a library.\<close>

definition rounded_cells :: "nat \<Rightarrow> int" where
  "rounded_cells i = round (101 * (2000 / 101) powr (real i / 153))"

lemma rounded_cells_accurate: "accurate_cells rounded_cells"
  unfolding accurate_cells_def rounded_cells_def
proof (intro allI impI)
  fix i
  show "\<bar>real_of_int (round (101 * (2000 / 101) powr (real i / 153)))
           - 101 * (2000 / 101) powr (real i / 153)\<bar> \<le> 501 / 1000"
    using of_int_round_abs_le [of "101 * (2000 / 101) powr (real i / 153)"] by linarith
qed

section \<open>The latency code\<close>

text \<open>
  Where the search stops: the entry before is below the value, the entry itself is not, so the
  nearest entry is one of the two.
\<close>

lemma encode_latency_neighbours:
  assumes c: "accurate_cells cell" and ms: "1 < ms" "ms < 2000"
  obtains low where "0 < low" "low < 254" "make_codebook cell ! (low - 1) < ms"
    "ms \<le> make_codebook cell ! low"
    "encode_latency (make_codebook cell) ms =
       (if ms - make_codebook cell ! (low - 1) \<le> make_codebook cell ! low - ms then low else low + 1)"
proof -
  let ?cb = "make_codebook cell"
  define low where "low = lower_bound ?cb ms 0 254"
  have split: "(\<forall>i < low. ?cb ! i < ms) \<and> (\<forall>i. low \<le> i \<longrightarrow> i < 254 \<longrightarrow> ms \<le> ?cb ! i)"
    using lower_bound_strict [OF make_codebook_sorted [OF c], of ms] by (simp add: low_def)
  have first: "?cb ! 0 = 1" and last: "?cb ! 253 = 2000"
    using cell_last [OF c] by (simp_all add: make_codebook_nth [OF c])
  have "0 < low" using split [THEN conjunct2, rule_format, of 0] first ms(1) by (cases "low = 0") auto
  moreover have "low < 254"
  proof (rule ccontr)
    assume "\<not> low < 254"
    then have "?cb ! 253 < ms" using split by simp
    with last ms(2) show False by simp
  qed
  moreover have "?cb ! (low - 1) < ms" "ms \<le> ?cb ! low"
    using split \<open>0 < low\<close> \<open>low < 254\<close> by auto
  moreover have "encode_latency ?cb ms =
      (if ms - ?cb ! (low - 1) \<le> ?cb ! low - ms then low else low + 1)"
    using ms \<open>0 < low\<close> \<open>low < 254\<close>
    by (simp add: encode_latency_def CODE_COUNT_def low_def [symmetric] Let_def)
  ultimately show ?thesis by (rule that)
qed

lemma encode_latency_clipped:
  "ms \<le> 1 \<Longrightarrow> encode_latency cb ms = encode_latency cb 1"
  "2000 \<le> ms \<Longrightarrow> encode_latency cb ms = 254"
  by (simp_all add: encode_latency_def CODE_COUNT_def)

lemma encode_latency_one: "accurate_cells cell \<Longrightarrow> encode_latency (make_codebook cell) 1 = 1"
proof -
  assume c: "accurate_cells cell"
  let ?low = "lower_bound (make_codebook cell) 1 0 254"
  have "make_codebook cell ! 0 = 1" by (simp add: make_codebook_nth [OF c])
  then have "\<not> 0 < ?low"
    using lower_bound_strict [OF make_codebook_sorted [OF c], of 1] by auto
  then show ?thesis by (simp add: encode_latency_def CODE_COUNT_def)
qed

text \<open>Every code of a reply is between 1 and 254: 0 and 255 keep their meaning.\<close>

lemma encode_latency_range:
  assumes c: "accurate_cells cell"
  shows "1 \<le> encode_latency (make_codebook cell) ms \<and> encode_latency (make_codebook cell) ms \<le> 254"
proof -
  consider "ms \<le> 1" | "2000 \<le> ms" | "1 < ms" "ms < 2000" by linarith
  then show ?thesis
  proof cases
    case 1
    then show ?thesis by (simp add: encode_latency_clipped(1) encode_latency_one [OF c])
  next
    case 2
    then show ?thesis by (simp add: encode_latency_clipped(2))
  next
    case 3
    obtain low where "0 < low" "low < 254"
      "encode_latency (make_codebook cell) ms =
       (if ms - make_codebook cell ! (low - 1) \<le> make_codebook cell ! low - ms then low else low + 1)"
      using encode_latency_neighbours [OF c 3] by blast
    then show ?thesis by auto
  qed
qed

lemma nearest_of_neighbours:
  fixes ms :: int
  assumes cb: "sorted_wrt (<) cb" "0 < low" "low < length cb" "cb ! (low - 1) < ms" "ms \<le> cb ! low"
    and near: "near = (if ms - cb ! (low - 1) \<le> cb ! low - ms then low else low + 1)" "v \<in> set cb"
  shows "\<bar>cb ! (near - 1) - ms\<bar> \<le> \<bar>v - ms\<bar>"
proof -
  obtain i where i: "v = cb ! i" "i < length cb" using near(2) by (auto simp: in_set_conv_nth)
  have "cb ! i \<le> cb ! (low - 1) \<or> cb ! low \<le> cb ! i"
  proof (cases "i < low")
    case True
    then have "i = low - 1 \<or> i < low - 1" "low - 1 < length cb" using cb(3) by linarith+
    then show ?thesis
      using sorted_wrt_nth_less [OF cb(1), of i "low - 1"] by auto
  next
    case False
    then show ?thesis
      using sorted_wrt_nth_less [OF cb(1), of low i] i(2) by (cases "i = low") auto
  qed
  with cb(4,5) near(1) i(1) show ?thesis by auto
qed

lemma neighbour_error:
  assumes c: "accurate_cells cell" and low: "0 < low" "low < 254"
    and ms: "make_codebook cell ! (low - 1) < ms" "ms \<le> make_codebook cell ! low"
    and near: "near = (if ms - make_codebook cell ! (low - 1) \<le> make_codebook cell ! low - ms
                       then low else low + 1)"
  shows "(ms \<le> 101 \<longrightarrow> make_codebook cell ! (near - 1) = ms) \<and>
         100 * \<bar>make_codebook cell ! (near - 1) - ms\<bar> \<le> ms + 50"
proof (cases "low \<le> 100")
  case True
  then have "make_codebook cell ! (low - 1) = int low" "make_codebook cell ! low = int low + 1"
    using low cell_first [OF c] by (auto simp: make_codebook_nth [OF c])
  with ms near show ?thesis by auto
next
  case False
  define i where "i = low - 101"
  then have i: "low = i + 101" "Suc i < 154" using False low by auto
  have "make_codebook cell ! (low - 1) = cell i" "make_codebook cell ! low = cell (Suc i)"
    using i by (simp_all add: make_codebook_nth [OF c])
  moreover have "50 * (cell (Suc i) - cell i) \<le> cell i + 50" by (rule cell_gap [OF c i(2)])
  moreover have "101 \<le> cell i" using cell_bounds [OF c, of i] i(2) by simp
  ultimately show ?thesis using ms near by (auto simp: abs_le_iff)
qed

text \<open>
  C28. The latency code is the nearest one: every code is between 1 and 254, the entry of the code
  book that the browser reads for it is at least as close to the measured time, clipped to 1 to
  2000 milliseconds, as any other entry; up to 101 milliseconds it is exact, above it is off by at
  most one per cent and half a millisecond.
\<close>

theorem latency_code_nearest:
  assumes "accurate_cells cell"
  shows "let codebook = make_codebook cell; code = encode_latency codebook milliseconds;
             ms = max 1 (min 2000 milliseconds); back = codebook ! (code - 1)
         in 1 \<le> code \<and> code \<le> 254 \<and> (\<forall>v \<in> set codebook. \<bar>back - ms\<bar> \<le> \<bar>v - ms\<bar>) \<and>
            (ms \<le> 101 \<longrightarrow> back = ms) \<and> 100 * \<bar>back - ms\<bar> \<le> ms + 50"
proof -
  note c = assms
  let ?cb = "make_codebook cell" and ?code = "encode_latency (make_codebook cell) milliseconds"
  consider "milliseconds \<le> 1" | "2000 \<le> milliseconds" | "1 < milliseconds" "milliseconds < 2000"
    by linarith
  then have "(\<forall>v \<in> set ?cb. \<bar>?cb ! (?code - 1) - max 1 (min 2000 milliseconds)\<bar>
                 \<le> \<bar>v - max 1 (min 2000 milliseconds)\<bar>) \<and>
    (max 1 (min 2000 milliseconds) \<le> 101 \<longrightarrow> ?cb ! (?code - 1) = max 1 (min 2000 milliseconds)) \<and>
    100 * \<bar>?cb ! (?code - 1) - max 1 (min 2000 milliseconds)\<bar> \<le> max 1 (min 2000 milliseconds) + 50"
  proof cases
    case 1
    then show ?thesis
      by (simp add: encode_latency_clipped(1) encode_latency_one [OF c] make_codebook_nth [OF c])
  next
    case 2
    then show ?thesis
      using cell_last [OF c] by (simp add: encode_latency_clipped(2) make_codebook_nth [OF c])
  next
    case 3
    then have "max 1 (min 2000 milliseconds) = milliseconds" by simp
    moreover obtain low where low: "0 < low" "low < 254" "?cb ! (low - 1) < milliseconds"
      "milliseconds \<le> ?cb ! low"
      "?code = (if milliseconds - ?cb ! (low - 1) \<le> ?cb ! low - milliseconds then low else low + 1)"
      using encode_latency_neighbours [OF c 3] by blast
    ultimately show ?thesis
      using nearest_of_neighbours [OF make_codebook_sorted [OF c] low(1) _ low(3,4,5)]
        neighbour_error [OF c low] low(2) by simp
  qed
  with encode_latency_range [OF c, of milliseconds] show ?thesis by (simp add: Let_def)
qed

theorem latency_code_nearest_witness:
  "let codebook = make_codebook rounded_cells;
       code = encode_latency codebook 137; ms = max 1 (min 2000 137); back = codebook ! (code - 1)
   in 1 \<le> code \<and> code \<le> 254 \<and> (\<forall>v \<in> set codebook. \<bar>back - ms\<bar> \<le> \<bar>v - ms\<bar>) \<and>
      (ms \<le> 101 \<longrightarrow> back = ms) \<and> 100 * \<bar>back - ms\<bar> \<le> ms + 50"
  using latency_code_nearest [OF rounded_cells_accurate, of 137] by simp

section \<open>The position of a round\<close>

lemma find_round_Some_iff:
  assumes "sorted_wrt (<) rounds"
  shows "find_round rounds t = Some j \<longleftrightarrow> j < length rounds \<and> rounds ! j = t"
proof -
  define low where "low = lower_bound rounds t 0 (length rounds)"
  have split: "(\<forall>i < low. rounds ! i < t) \<and> (\<forall>i. low \<le> i \<longrightarrow> i < length rounds \<longrightarrow> t \<le> rounds ! i)"
    using lower_bound_strict [OF assms, of t] by (simp add: low_def)
  have "low = j" if "j < length rounds" "rounds ! j = t"
  proof (rule ccontr)
    assume "low \<noteq> j"
    then consider "j < low" | "low < j" by linarith
    then show False
    proof cases
      case 1
      with split that show False by auto
    next
      case 2
      then have "rounds ! low < t" using sorted_wrt_nth_less [OF assms 2 that(1)] that(2) by simp
      with split 2 that(1) show False by force
    qed
  qed
  then show ?thesis by (auto simp: find_round_def low_def [symmetric] Let_def)
qed

end
