(* ===== verification/DailyRoundTrip.thy ===== *)
theory DailyRoundTrip
imports DailyFormat DailyCodes "HOL-Library.Multiset"
begin

text \<open>
  The exporter and the decoder together: what the browser reads in the file of a day is what the
  database holds of that day.
\<close>

section \<open>Identities\<close>

lemma fold_char_hex: "hex_value c = Some v \<Longrightarrow> hex_digit v = fold_char c"
  by (auto simp: hex_value_def hex_digit_def fold_char_def in_range_def code_point_def
      split: if_splits)

lemma unat_byte: "m < 256 \<Longrightarrow> unat (word_of_nat m :: byte) = m"
  by (simp add: unat_of_nat)

lemma hex2_octet:
  assumes "hex_value c = Some h" "hex_value d = Some l"
  shows "hex2 (word_of_nat (h * 16 + l)) = [fold_char c, fold_char d]"
proof -
  have "h < 16" "l < 16" using assms by (auto dest: hex_value_bound)
  then have "unat (word_of_nat (h * 16 + l) :: byte) = h * 16 + l" by (intro unat_byte) linarith
  with \<open>l < 16\<close> show ?thesis
    by (simp add: hex2_def fold_char_hex [OF assms(1)] fold_char_hex [OF assms(2)]
        del: of_nat_add of_nat_mult)
qed

lemma mac_octet_Some:
  assumes "mac_octet s i = Some b"
  shows "hex2 b = [fold_char (s ! (i * 3)), fold_char (s ! (i * 3 + 1))]"
    "i \<noteq> 0 \<Longrightarrow> s ! (i * 3 - 1) = CHR '':''"
proof -
  obtain h l where hl: "hex_value (s ! (i * 3)) = Some h" "hex_value (s ! (i * 3 + 1)) = Some l"
    "b = word_of_nat (h * 16 + l)"
    using assms
    by (auto simp: mac_octet_def split: if_splits option.splits simp del: of_nat_add of_nat_mult)
  show "hex2 b = [fold_char (s ! (i * 3)), fold_char (s ! (i * 3 + 1))]"
    unfolding hl(3) by (rule hex2_octet [OF hl(1,2)])
  show "i \<noteq> 0 \<Longrightarrow> s ! (i * 3 - 1) = CHR '':''"
    using assms by (auto simp: mac_octet_def split: if_splits)
qed

text \<open>The canonical form of an accepted MAC is its text in lower case.\<close>

lemma parse_mac_text_Some:
  assumes "parse_mac_text s = Some (out, canonical)"
  shows "length out = 6" "canonical = format_mac out" "canonical = nocase s"
proof -
  have n: "length s = 17" and out: "those (map (mac_octet s) [0..<6]) = Some out"
    and c: "canonical = format_mac out"
    using assms by (auto simp: parse_mac_text_def split: if_splits option.splits)
  show "canonical = format_mac out" by (rule c)
  obtain b0 b1 b2 b3 b4 b5 where b: "out = [b0, b1, b2, b3, b4, b5]"
    "mac_octet s 0 = Some b0" "mac_octet s 1 = Some b1" "mac_octet s 2 = Some b2"
    "mac_octet s 3 = Some b3" "mac_octet s 4 = Some b4" "mac_octet s 5 = Some b5"
    using out by (auto simp: upt_rec eval_nat_numeral split: option.splits)
  then show "length out = 6" by simp
  have colon: "fold_char CHR '':'' = CHR '':''" by (simp add: fold_char_def in_range_def code_point_def)
  have "nocase s = map (\<lambda>i. fold_char (s ! i)) [0..<17]"
    unfolding nocase_def n [symmetric] by (rule nth_equalityI) simp_all
  also have "[0..<17] = [0, 1, 2, 3, 4, 5, 6, 7, 8, 9, 10, 11, 12, 13, 14, 15, 16]" by code_simp
  also have "map (\<lambda>i. fold_char (s ! i)) \<dots> = format_mac out"
    using mac_octet_Some [OF b(2)] mac_octet_Some [OF b(3)] mac_octet_Some [OF b(4)]
      mac_octet_Some [OF b(5)] mac_octet_Some [OF b(6)] mac_octet_Some [OF b(7)]
    by (simp add: b(1) format_mac_def colon)
  finally show "canonical = nocase s" using c by simp
qed

section \<open>The tables of identities\<close>

lemma target_append_elem:
  assumes "e \<in> set (target_append i mac)"
  obtains s where "mac = Some s" "parse_mac_text s = Some (et_mac e, et_text e)" "et_id e = i"
    "target_append i mac = [e]"
proof -
  obtain s where s: "mac = Some s" using assms by (cases mac) (auto simp: target_append_def)
  obtain out canonical where p: "parse_mac_text s = Some (out, canonical)"
    using assms s by (cases "parse_mac_text s") (auto simp: target_append_def)
  have "target_append i mac = [\<lparr>et_id = i, et_mac = out, et_text = canonical\<rparr>]"
    by (simp add: target_append_def s p)
  with assms that [OF s] p show ?thesis by simp
qed

lemma target_append_Some:
  assumes "e \<in> set (target_append i mac)"
  shows "length (et_mac e) = 6" "et_text e = format_mac (et_mac e)"
    "map_option nocase mac = Some (et_text e)"
proof -
  obtain s where s: "mac = Some s" "parse_mac_text s = Some (et_mac e, et_text e)"
    using assms by (rule target_append_elem)
  show "length (et_mac e) = 6" "et_text e = format_mac (et_mac e)"
    "map_option nocase mac = Some (et_text e)"
    using parse_mac_text_Some [OF s(2)] s(1) by simp_all
qed

text \<open>Dropping the unreadable identities keeps the order of the query.\<close>

lemma sorted_targets:
  assumes "sorted (map (\<lambda>t. map_option nocase (key t)) ts)"
  shows "sorted (map et_text (concat (map (\<lambda>t. target_append (tg_id t) (key t)) ts)))"
  using assms
proof (induction ts)
  case (Cons t ts)
  have "et_text e \<le> et_text f"
    if "e \<in> set (target_append (tg_id t) (key t))" "u \<in> set ts" "f \<in> set (target_append (tg_id u) (key u))"
    for e f u
  proof -
    have "map_option nocase (key t) \<le> map_option nocase (key u)" using Cons.prems that(2) by auto
    then show ?thesis
      by (simp only: target_append_Some(3) [OF that(1)] target_append_Some(3) [OF that(3)] less_eq_option_Some)
  qed
  moreover have "sorted (map et_text (target_append (tg_id t) (key t)))"
    by (auto simp: target_append_def split: option.splits)
  ultimately show ?case using Cons by (auto simp: sorted_append)
qed simp

lemma sorted_load_targets: "sorted (map et_text (load_targets db start finish))"
  unfolding load_targets_def by (rule sorted_targets) simp

lemma sorted_load_ap_targets: "sorted (map et_text (load_ap_targets db start finish))"
  unfolding load_ap_targets_def by (rule sorted_targets) simp

lemma load_targets_elem:
  assumes "e \<in> set (load_targets db start finish)"
  obtains t s where "t \<in> set (db_targets db)" "has_result db start finish t" "et_id e = tg_id t"
    "target_identity t = Some s" "parse_mac_text s = Some (et_mac e, et_text e)"
proof -
  obtain t where t: "t \<in> set (db_targets db)" "has_result db start finish t"
    "e \<in> set (target_append (tg_id t) (target_identity t))"
    using assms by (auto simp: load_targets_def)
  from target_append_elem [OF t(3)] t(1,2) show ?thesis by (metis that)
qed

text \<open>The canonical MAC of a device, if it has one.\<close>

definition target_mac :: "target_row \<Rightarrow> string option" where
  "target_mac t =
     (case target_identity t of None \<Rightarrow> None | Some s \<Rightarrow> map_option snd (parse_mac_text s))"

lemma target_mac_Some:
  "target_mac t = Some m \<longleftrightarrow> (\<exists>s out. target_identity t = Some s \<and> parse_mac_text s = Some (out, m))"
  by (auto simp: target_mac_def split: option.splits)

lemma load_targets_row:
  assumes "t \<in> set (db_targets db)" "has_result db start finish t" "target_mac t = Some m"
  obtains e where "e \<in> set (load_targets db start finish)" "et_id e = tg_id t" "et_text e = m"
proof -
  obtain s out where s: "target_identity t = Some s" "parse_mac_text s = Some (out, m)"
    using assms(3) by (auto simp: target_mac_Some)
  then have "\<lparr>et_id = tg_id t, et_mac = out, et_text = m\<rparr> \<in> set (load_targets db start finish)"
    using assms(1,2) by (auto simp: load_targets_def target_append_def intro!: bexI [of _ t])
  from that [OF this] show ?thesis by simp
qed

lemma load_targets_texts:
  "set (map et_text (load_targets db start finish)) =
   {m. \<exists>t \<in> set (db_targets db). has_result db start finish t \<and> target_mac t = Some m}"
proof (intro equalityI subsetI)
  fix x assume "x \<in> set (map et_text (load_targets db start finish))"
  then obtain e where e: "e \<in> set (load_targets db start finish)" "x = et_text e" by auto
  obtain t s where "t \<in> set (db_targets db)" "has_result db start finish t"
    "target_identity t = Some s" "parse_mac_text s = Some (et_mac e, et_text e)"
    using load_targets_elem [OF e(1)] by metis
  with e(2) show "x \<in> {m. \<exists>t \<in> set (db_targets db). has_result db start finish t \<and> target_mac t = Some m}"
    by (auto simp: target_mac_Some)
next
  fix x assume "x \<in> {m. \<exists>t \<in> set (db_targets db). has_result db start finish t \<and> target_mac t = Some m}"
  then obtain t where t: "t \<in> set (db_targets db)" "has_result db start finish t" "target_mac t = Some x"
    by blast
  from load_targets_row [OF this] show "x \<in> set (map et_text (load_targets db start finish))" by force
qed

text \<open>The access points are among the devices, so distinct devices are distinct access points.\<close>

lemma mset_concat_map_sort: "mset (concat (map f (sort_key k xs))) = mset (concat (map f xs))"
proof -
  have "mset (concat (map f ys)) = (\<Sum>x\<in>#mset ys. mset (f x))" for ys
    by (induction ys) auto
  then show ?thesis by simp
qed

lemma mset_concat_map_filter:
  "mset (concat (map f (filter (\<lambda>x. Q x \<and> P x) xs))) \<subseteq># mset (concat (map f (filter P xs)))"
  by (induction xs) (auto intro: subset_mset.add_mono subset_mset.add_increasing)

lemma distinct_subseteq_mset:
  assumes "mset xs \<subseteq># mset ys" "distinct ys"
  shows "distinct xs"
  unfolding distinct_count_atmost_1
proof
  fix a
  have "count (mset xs) a \<le> count (mset ys) a" using assms(1) by (rule mset_subset_eq_count)
  also have "\<dots> \<le> 1" using assms(2) by (simp add: distinct_count_atmost_1)
  finally show "count (mset xs) a = (if a \<in> set xs then 1 else 0)"
    by (auto simp: le_Suc_eq count_mset_0_iff)
qed

lemma distinct_aps:
  assumes "distinct (map et_text (load_targets db start finish))"
  shows "distinct (map et_text (load_ap_targets db start finish))"
proof -
  let ?f = "\<lambda>t. target_append (tg_id t) (target_identity t)"
  have ap: "concat (map (\<lambda>t. target_append (tg_id t) (tg_ap_id t)) ts) = concat (map ?f ts)"
    if "\<forall>t \<in> set ts. tg_kind t = KindAp" for ts
    using that by (induction ts) (auto simp: target_identity_def)
  have "mset (load_ap_targets db start finish) =
      mset (concat (map ?f (filter (\<lambda>t. tg_kind t = KindAp \<and> has_result db start finish t) (db_targets db))))"
    unfolding load_ap_targets_def mset_concat_map_sort by (rule arg_cong [OF ap]) simp
  also have "\<dots> \<subseteq># mset (load_targets db start finish)"
    unfolding load_targets_def mset_concat_map_sort by (rule mset_concat_map_filter)
  finally have "mset (map et_text (load_ap_targets db start finish))
      \<subseteq># mset (map et_text (load_targets db start finish))"
    by (simp add: image_mset_subseteq_mono)
  then show ?thesis using assms by (rule distinct_subseteq_mset)
qed

lemma format_targets:
  "map format_mac (map et_mac (load_targets db start finish)) = map et_text (load_targets db start finish)"
  "map format_mac (map et_mac (load_ap_targets db start finish)) = map et_text (load_ap_targets db start finish)"
  by (auto simp: load_targets_def load_ap_targets_def dest: target_append_Some(2))

lemma length_et_mac:
  "e \<in> set (load_targets db start finish) \<union> set (load_ap_targets db start finish) \<Longrightarrow> length (et_mac e) = 6"
  by (auto simp: load_targets_def load_ap_targets_def dest: target_append_Some(1))

section \<open>The times\<close>

lemma load_rounds_day:
  assumes "0 \<le> start" "finish < 2 ^ 32"
  shows "load_rounds db start finish =
      sort (remdups (filter (in_period start finish) (map pr_observed_at (db_results db))))"
    "sorted_wrt (<) (load_rounds db start finish)"
    "set (load_rounds db start finish) =
      {\<tau>. start \<le> \<tau> \<and> \<tau> < finish \<and> (\<exists>p \<in> set (db_results db). pr_observed_at p = \<tau>)}"
proof -
  let ?ts = "filter (in_period start finish) (map pr_observed_at (db_results db))"
  have "map u32 (sort (remdups ?ts)) = sort (remdups ?ts)"
    using assms by (intro map_idI) (auto simp: u32_def in_period_def)
  then show eq: "load_rounds db start finish = sort (remdups ?ts)"
    by (simp add: load_rounds_def filter_map o_def)
  show "sorted_wrt (<) (load_rounds db start finish)"
    unfolding eq strict_sorted_iff by simp
  show "set (load_rounds db start finish) =
      {\<tau>. start \<le> \<tau> \<and> \<tau> < finish \<and> (\<exists>p \<in> set (db_results db). pr_observed_at p = \<tau>)}"
    unfolding eq by (auto simp: in_period_def)
qed

section \<open>The rows\<close>

lemma length_put_cell [simp]: "length (put_cell rounds \<tau> code row) = length row"
  by (simp add: put_cell_def split: option.splits)

lemma length_zero_row [simp]: "length (zero_row rounds) = length rounds"
  by (simp add: zero_row_def)

lemma length_fold_row: "(\<And>x row. length (f x row) = length row) \<Longrightarrow> length (fold f xs row) = length row"
  by (induction xs arbitrary: row) auto

lemma row_lengths [simp]:
  "length (latency_row cb rounds rows) = length rounds" "length (snr_row rounds rows) = length rounds"
  "length (state_row rounds rows) = length rounds" "length (mesh_row rounds links) = length rounds"
  by (simp_all add: latency_row_def snr_row_def state_row_def mesh_row_def length_fold_row
      split: option.split)

lemma length_air_cell: "length (snd (air_cell rounds band r s)) = length (snd s)"
  by (cases s) (auto simp: air_cell_def Let_def split: option.split)

lemma length_air_row [simp]: "length (air_row rounds band rows) = length rounds"
proof -
  have "length (snd (fold (air_cell rounds band) rows s)) = length (snd s)" for s
    by (induction rows arbitrary: s) (simp_all add: length_air_cell)
  then show ?thesis by (simp add: air_row_def)
qed

text \<open>A cell holds the code of the last row of its round that has one.\<close>

lemma fold_put_cell:
  assumes "sorted_wrt (<) rounds" "j < length rounds" "length row = length rounds"
  shows "fold (\<lambda>x row. case f x of None \<Rightarrow> row | Some v \<Rightarrow> put_cell rounds (time x) (code v) row) xs row ! j =
    (let ms = filter (\<lambda>x. u32 (time x) = rounds ! j \<and> f x \<noteq> None) xs
     in if ms = [] then row ! j else word_of_nat (code (the (f (last ms)))))"
proof (induction xs rule: rev_induct)
  case Nil
  show ?case by simp
next
  case (snoc x xs)
  let ?step = "\<lambda>x row. case f x of None \<Rightarrow> row | Some v \<Rightarrow> put_cell rounds (time x) (code v) row"
  let ?row = "fold ?step xs row"
  have n: "length ?row = length rounds"
    using assms(3) by (subst length_fold_row) (auto split: option.split)
  show ?case
  proof (cases "f x")
    case None
    with snoc show ?thesis by simp
  next
    case (Some v)
    have "put_cell rounds (time x) (code v) ?row ! j =
        (if u32 (time x) = rounds ! j then word_of_nat (code v) else ?row ! j)"
    proof (cases "find_round rounds (u32 (time x))")
      case None
      then have "u32 (time x) \<noteq> rounds ! j"
        using find_round_Some_iff [OF assms(1), of "u32 (time x)" j] assms(2) by auto
      with None show ?thesis by (simp add: put_cell_def)
    next
      case (Some i)
      then have i: "i < length rounds" "rounds ! i = u32 (time x)"
        using find_round_Some_iff [OF assms(1)] by simp_all
      have "i = j \<longleftrightarrow> u32 (time x) = rounds ! j"
        using find_round_Some_iff [OF assms(1), of "u32 (time x)" j] Some assms(2) i by auto
      with Some i n show ?thesis by (auto simp: put_cell_def nth_list_update)
    qed
    with Some snoc show ?thesis by (simp add: Let_def)
  qed
qed

text \<open>The last row of one time is the one with the greatest id.\<close>

definition last_result :: "(result_row \<Rightarrow> bool) \<Rightarrow> ping_db \<Rightarrow> int \<Rightarrow> int \<Rightarrow> result_row option" where
  "last_result P db target \<tau> =
     (case filter (\<lambda>p. pr_target p = target \<and> pr_observed_at p = \<tau> \<and> P p) (db_results db) of
        [] \<Rightarrow> None
      | p # ps \<Rightarrow> Some (last (sort_key pr_id (p # ps))))"

lemma insort_key_cong:
  "(\<And>y. y \<in> set ys \<Longrightarrow> (f x \<le> f y) = (g x \<le> g y)) \<Longrightarrow> insort_key f x ys = insort_key g x ys"
  by (induction ys) auto

lemma sort_key_cong:
  "(\<And>x y. x \<in> set xs \<Longrightarrow> y \<in> set xs \<Longrightarrow> (f x \<le> f y) = (g x \<le> g y)) \<Longrightarrow> sort_key f xs = sort_key g xs"
  by (induction xs) (auto intro!: insort_key_cong)

lemma last_result_rows:
  assumes "start \<le> \<tau>" "\<tau> < finish" "0 \<le> start" "finish < 2 ^ 32"
  shows "(let ms = filter (\<lambda>p. u32 (pr_observed_at p) = \<tau> \<and> P p) (result_rows db target start finish)
          in if ms = [] then None else Some (last ms)) = last_result P db target \<tau>"
proof -
  let ?sel = "filter (\<lambda>p. pr_target p = target \<and> pr_observed_at p = \<tau> \<and> P p) (db_results db)"
  have "filter (\<lambda>p. u32 (pr_observed_at p) = \<tau> \<and> P p) (result_rows db target start finish) =
      sort_key (\<lambda>p. (pr_observed_at p, pr_id p))
        (filter (\<lambda>p. (pr_target p = target \<and> in_period start finish (pr_observed_at p)) \<and>
                     u32 (pr_observed_at p) = \<tau> \<and> P p) (db_results db))"
    by (simp add: result_rows_def filter_sort)
  also have "filter (\<lambda>p. (pr_target p = target \<and> in_period start finish (pr_observed_at p)) \<and>
                     u32 (pr_observed_at p) = \<tau> \<and> P p) (db_results db) = ?sel"
    using assms by (intro filter_cong) (auto simp: in_period_def u32_def)
  also have "sort_key (\<lambda>p. (pr_observed_at p, pr_id p)) ?sel = sort_key pr_id ?sel"
    by (rule sort_key_cong) auto
  finally have "filter (\<lambda>p. u32 (pr_observed_at p) = \<tau> \<and> P p) (result_rows db target start finish) =
      sort_key pr_id ?sel" .
  moreover have "sort_key pr_id xs = [] \<longleftrightarrow> xs = []" for xs :: "result_row list"
    by (metis length_sort length_0_conv)
  ultimately show ?thesis
    by (cases ?sel) (auto simp: last_result_def Let_def)
qed

section \<open>The file of a day is read back\<close>

definition day_end :: "int \<Rightarrow> int" where
  "day_end start = start + 86400"

text \<open>The canonical identities of the devices that have a result on the day, in the file's order.\<close>

definition day_devices :: "ping_db \<Rightarrow> int \<Rightarrow> string list" where
  "day_devices db start = map et_text (load_targets db start (day_end start))"

definition day_rounds :: "ping_db \<Rightarrow> int \<Rightarrow> int list" where
  "day_rounds db start = load_rounds db start (day_end start)"

lemma u32_day_end: "0 \<le> start \<Longrightarrow> start + 86400 < 2 ^ 32 \<Longrightarrow> u32 (start + 86400) = day_end start"
  by (simp add: u32_def day_end_def)

lemma contents_layout_day:
  "contents_layout (day_contents_of cell db start) =
     layout_day (length (load_rounds db start (u32 (start + 86400))))
       (length (load_targets db start (u32 (start + 86400))))
       (length (load_ap_targets db start (u32 (start + 86400))))"
  by (simp add: contents_layout_def day_contents_of_def Let_def)

lemma readable_day:
  assumes c: "accurate_cells cell" and s: "0 \<le> start" "start + 86400 < 2 ^ 32"
    and fits: "layout_fits (contents_layout (day_contents_of cell db start))"
  shows "readable (day_contents_of cell db start)"
proof -
  let ?c = "day_contents_of cell db start"
  have e: "u32 (start + 86400) = start + 86400" using s by (simp add: u32_def)
  note rounds = load_rounds_day [OF s(1) s(2), of db]
  have codes: "\<forall>v \<in> set (make_codebook cell). 1 \<le> v \<and> v \<le> 2000"
    using make_codebook_bounds [OF c] by (auto simp: in_set_conv_nth)
  have "well_sized ?c"
    using length_et_mac [of _ db start "start + 86400"]
    by (auto simp: well_sized_def day_contents_of_def Let_def e)
  moreover have "fitting ?c"
    using fits s codes rounds(3) by (auto simp: fitting_def day_contents_of_def Let_def e)
  ultimately show ?thesis
    using rounds codes make_codebook_sorted [OF c]
    by (auto simp: readable_def day_contents_of_def Let_def e)
qed

lemma export_day_reads:
  assumes "accurate_cells cell" "0 \<le> start" "start + 86400 < 2 ^ 32"
    and b: "export_day cell db start = Some b"
  shows "readable (day_contents_of cell db start)" "b = concat (day_sections (day_contents_of cell db start))"
    "parse_day b = (if distinct (day_devices db start) then Inr (decoded (day_contents_of cell db start))
                    else Inl target_order_error)"
proof -
  let ?c = "day_contents_of cell db start"
  show r: "readable ?c" and bytes: "b = concat (day_sections ?c)"
    using b readable_day [OF assms(1-3), of db] by (auto simp: export_day_sections split: if_splits)
  have e: "u32 (start + 86400) = day_end start" using assms by (intro u32_day_end) auto
  have texts: "map format_mac (dc_macs ?c) = day_devices db start"
    "map format_mac (dc_ap_macs ?c) = map et_text (load_ap_targets db start (day_end start))"
    using format_targets [of db start "day_end start"]
    by (simp_all add: day_contents_of_def day_devices_def Let_def e)
  have "sorted_wrt (<) (day_devices db start) \<longleftrightarrow> distinct (day_devices db start)"
    "sorted_wrt (<) (map et_text (load_ap_targets db start (day_end start))) \<longleftrightarrow>
     distinct (map et_text (load_ap_targets db start (day_end start)))"
    using sorted_load_targets [of db start "day_end start"]
      sorted_load_ap_targets [of db start "day_end start"]
    by (auto simp: strict_sorted_iff day_devices_def)
  with distinct_aps [of db start "day_end start"] parse_day_sections [OF r]
  show "parse_day b = (if distinct (day_devices db start) then Inr (decoded ?c) else Inl target_order_error)"
    by (auto simp: bytes texts day_devices_def)
qed

text \<open>The three matrices of the devices in the decoded file.\<close>

lemma section_byte:
  assumes "k < length secs" "secs ! k = concat rows" "\<And>r. r \<in> set rows \<Longrightarrow> length r = n" "i < length rows"
    "j < n" "off = length (concat (take k secs))"
  shows "concat secs ! (off + i * n + j) = rows ! i ! j"
proof -
  have "i * n + n \<le> length rows * n" using assms(4) by (metis Suc_leI add.commute mult_Suc mult_le_mono1)
  then have in_row: "i * n + j < length (secs ! k)"
    unfolding assms(2) using assms(5) length_concat_rows [OF assms(3)] by simp
  have "secs = take k secs @ secs ! k # drop (Suc k) secs" using assms(1) by (rule id_take_nth_drop)
  then have "concat secs = concat (take k secs) @ secs ! k @ concat (drop (Suc k) secs)"
    by (metis concat.simps(2) concat_append)
  then have "concat secs ! (off + i * n + j) = secs ! k ! (i * n + j)"
    using in_row by (simp add: assms(6) nth_append add.assoc)
  also have "\<dots> = rows ! i ! j" unfolding assms(2) using assms(3-5) by (rule nth_row)
  finally show ?thesis .
qed

lemma decoded_bytes:
  assumes "readable c" "j < length (dc_rounds c)"
  shows "i < length (dc_macs c) \<Longrightarrow>
      day_byte (decoded c) (df_samples (decoded c)) i j = dc_latency c ! i ! j \<and>
      day_byte (decoded c) (tm_snr (df_telemetry (decoded c))) i j = dc_snr c ! i ! j \<and>
      day_byte (decoded c) (tm_state (df_telemetry (decoded c))) i j = dc_state c ! i ! j"
    and "i < length (dc_ap_macs c) \<Longrightarrow>
      day_byte (decoded c) (tm_air24 (df_telemetry (decoded c))) i j = dc_air24 c ! i ! j \<and>
      day_byte (decoded c) (tm_air5 (df_telemetry (decoded c))) i j = dc_air5 c ! i ! j \<and>
      day_byte (decoded c) (tm_mesh (df_telemetry (decoded c))) i j = dc_mesh c ! i ! j"
proof -
  have w: "well_sized c" using assms(1) by (simp add: readable_def)
  note lens = section_lengths [OF w]
  note rd = day_byte_def decoded_def contents_telemetry_def Let_def
  have sizes: "length (dc_latency c) = length (dc_macs c)" "length (dc_snr c) = length (dc_macs c)"
    "length (dc_state c) = length (dc_macs c)" "length (dc_air24 c) = length (dc_ap_macs c)"
    "length (dc_air5 c) = length (dc_ap_macs c)" "length (dc_mesh c) = length (dc_ap_macs c)"
    "r \<in> set (dc_latency c) \<union> set (dc_snr c) \<union> set (dc_state c) \<union> set (dc_air24 c) \<union> set (dc_air5 c) \<union>
       set (dc_mesh c) \<Longrightarrow> length r = length (dc_rounds c)" for r
    using w by (auto simp: well_sized_def)
  note byte = section_byte [OF _ _ _ _ assms(2), of _ "day_sections c"]
  show "day_byte (decoded c) (df_samples (decoded c)) i j = dc_latency c ! i ! j \<and>
      day_byte (decoded c) (tm_snr (df_telemetry (decoded c))) i j = dc_snr c ! i ! j \<and>
      day_byte (decoded c) (tm_state (df_telemetry (decoded c))) i j = dc_state c ! i ! j"
    if "i < length (dc_macs c)"
    using that byte [of 27 "dc_latency c" i] byte [of 28 "dc_snr c" i] byte [of 29 "dc_state c" i]
    by (simp add: rd lens sections_nth sizes del: length_concat)
  show "day_byte (decoded c) (tm_air24 (df_telemetry (decoded c))) i j = dc_air24 c ! i ! j \<and>
      day_byte (decoded c) (tm_air5 (df_telemetry (decoded c))) i j = dc_air5 c ! i ! j \<and>
      day_byte (decoded c) (tm_mesh (df_telemetry (decoded c))) i j = dc_mesh c ! i ! j"
    if "i < length (dc_ap_macs c)"
    using that byte [of 33 "dc_air24 c" i] byte [of 34 "dc_air5 c" i] byte [of 35 "dc_mesh c" i]
    by (simp add: rd lens sections_nth sizes del: length_concat)
qed

text \<open>
  What a decoded file must hold: the bounds of the day, its rounds and devices in increasing
  order, and for every device and round the codes of the last result that the database has of the
  two (for the signal, the last one with a reading), or 0 when it has none.
\<close>

definition result_code :: "(result_row \<Rightarrow> nat) \<Rightarrow> result_row option \<Rightarrow> byte" where
  "result_code code r = (case r of None \<Rightarrow> 0 | Some p \<Rightarrow> word_of_nat (code p))"

definition cell_matches :: "(nat \<Rightarrow> int) \<Rightarrow> ping_db \<Rightarrow> day_file \<Rightarrow> nat \<Rightarrow> nat \<Rightarrow> bool" where
  "cell_matches cell db d i j \<longleftrightarrow>
     (\<exists>t \<in> set (db_targets db).
        has_result db (int (df_start d)) (int (df_end d)) t \<and> target_mac t = Some (df_macs d ! i) \<and>
        (let last = (\<lambda>P. last_result P db (tg_id t) (int (df_timestamps d ! j)))
         in day_byte d (df_samples d) i j =
              result_code (latency_code (make_codebook cell)) (last (\<lambda>p. True)) \<and>
            day_byte d (tm_snr (df_telemetry d)) i j =
              result_code (\<lambda>p. encode_snr (the (pr_snr p))) (last (\<lambda>p. pr_snr p \<noteq> None)) \<and>
            day_byte d (tm_state (df_telemetry d)) i j = result_code state_code (last (\<lambda>p. True))))"

definition day_matches :: "(nat \<Rightarrow> int) \<Rightarrow> ping_db \<Rightarrow> int \<Rightarrow> day_file \<Rightarrow> bool" where
  "day_matches cell db start d \<longleftrightarrow>
     int (df_start d) = start \<and> int (df_end d) = day_end start \<and>
     map int (df_codebook d) = make_codebook cell \<and>
     sorted_wrt (<) (df_timestamps d) \<and>
     int ` set (df_timestamps d) =
       {\<tau>. start \<le> \<tau> \<and> \<tau> < day_end start \<and> (\<exists>p \<in> set (db_results db). pr_observed_at p = \<tau>)} \<and>
     sorted_wrt (<) (df_macs d) \<and>
     set (df_macs d) =
       {m. \<exists>t \<in> set (db_targets db). has_result db start (day_end start) t \<and> target_mac t = Some m} \<and>
     (\<forall>i < length (df_macs d). \<forall>j < length (df_timestamps d). cell_matches cell db d i j)"

lemma row_result_code:
  fixes target :: int and db :: ping_db and cb :: "int list"
  assumes s: "0 \<le> start" "finish < 2 ^ 32" and j: "j < length (load_rounds db start finish)"
  defines "rounds \<equiv> load_rounds db start finish" and "rows \<equiv> result_rows db target start finish"
  shows "latency_row cb rounds rows ! j =
      result_code (latency_code cb) (last_result (\<lambda>p. True) db target (rounds ! j))"
    and "snr_row rounds rows ! j =
      result_code (\<lambda>p. encode_snr (the (pr_snr p))) (last_result (\<lambda>p. pr_snr p \<noteq> None) db target (rounds ! j))"
    and "state_row rounds rows ! j =
      result_code state_code (last_result (\<lambda>p. True) db target (rounds ! j))"
proof -
  note rounds = load_rounds_day [OF s, of db]
  have sorted: "sorted_wrt (<) rounds" and n: "j < length rounds" "length (zero_row rounds) = length rounds"
    using rounds(2) j by (simp_all add: rounds_def)
  have "rounds ! j \<in> set (load_rounds db start finish)" using j by (simp add: rounds_def)
  then have day: "start \<le> rounds ! j" "rounds ! j < finish" unfolding rounds(3) by auto
  note last = last_result_rows [OF day s, of _ db target, symmetric]
  have zero: "zero_row rounds ! j = 0" using n(1) by (simp add: zero_row_def)
  have all: "fold (\<lambda>p. put_cell rounds (pr_observed_at p) (code p)) rows (zero_row rounds) ! j =
      result_code code (last_result (\<lambda>p. True) db target (rounds ! j))" for code
    using fold_put_cell [OF sorted n, where f = Some and time = pr_observed_at and code = code and xs = rows]
    by (simp add: last rows_def [symmetric] Let_def result_code_def zero)
  show "latency_row cb rounds rows ! j =
      result_code (latency_code cb) (last_result (\<lambda>p. True) db target (rounds ! j))"
    "state_row rounds rows ! j = result_code state_code (last_result (\<lambda>p. True) db target (rounds ! j))"
    by (simp_all add: latency_row_def state_row_def all)
  show "snr_row rounds rows ! j =
      result_code (\<lambda>p. encode_snr (the (pr_snr p))) (last_result (\<lambda>p. pr_snr p \<noteq> None) db target (rounds ! j))"
    using fold_put_cell [OF sorted n, where f = pr_snr and time = pr_observed_at and code = encode_snr and xs = rows]
    by (simp add: snr_row_def last rows_def [symmetric] Let_def result_code_def zero)
qed

lemma decoded_matches:
  assumes c: "accurate_cells cell" and s: "0 \<le> start" "start + 86400 < 2 ^ 32"
    and r: "readable (day_contents_of cell db start)" and dist: "distinct (day_devices db start)"
  shows "day_matches cell db start (decoded (day_contents_of cell db start))"
proof -
  let ?c = "day_contents_of cell db start" and ?f = "day_end start"
  let ?d = "decoded ?c"
  have e: "u32 (start + 86400) = ?f" using s by (intro u32_day_end) auto
  have f: "?f < 2 ^ 32" using s by (simp add: day_end_def)
  note rounds = load_rounds_day [OF s(1) f, of db]
  have pos: "\<forall>\<tau> \<in> set (load_rounds db start ?f). 0 \<le> \<tau>" using s(1) rounds(3) by auto
  have times: "df_timestamps ?d = map nat (load_rounds db start ?f)"
    and macs: "df_macs ?d = day_devices db start"
    using format_targets(1) [of db start ?f]
    by (simp_all add: decoded_def day_contents_of_def day_devices_def Let_def e)
  have "\<forall>v \<in> set (make_codebook cell). 0 \<le> v"
    using make_codebook_bounds(1) [OF c] by (fastforce simp: in_set_conv_nth)
  then have codes: "map int (df_codebook ?d) = make_codebook cell"
    by (simp add: decoded_def day_contents_of_def Let_def map_idI)
  have bounds: "int (df_start ?d) = start" "int (df_end ?d) = ?f"
    using s by (simp_all add: decoded_def day_contents_of_def e Let_def day_end_def)
  have cell: "cell_matches cell db ?d i j" if ij: "i < length (df_macs ?d)" "j < length (df_timestamps ?d)" for i j
  proof -
    define t where "t = load_targets db start ?f ! i"
    have i: "i < length (load_targets db start ?f)" and j: "j < length (load_rounds db start ?f)"
      using ij by (simp_all add: macs times day_devices_def)
    then have t: "t \<in> set (load_targets db start ?f)" by (simp add: t_def)
    from load_targets_elem [OF t] obtain row s where row: "row \<in> set (db_targets db)"
      "et_id t = tg_id row" "target_identity row = Some s" "parse_mac_text s = Some (et_mac t, et_text t)"
      and has: "has_result db start ?f row"
      by metis
    have mac: "target_mac row = Some (df_macs ?d ! i)"
      using i row(3,4) by (simp add: macs day_devices_def t_def target_mac_def)
    have \<tau>: "int (df_timestamps ?d ! j) = load_rounds db start ?f ! j"
      using j pos by (simp add: times)
    have sizes: "i < length (dc_macs ?c)" "j < length (dc_rounds ?c)"
      using i j by (simp_all add: day_contents_of_def Let_def e)
    note bytes = decoded_bytes(1) [OF r sizes(2,1)]
    have rows: "dc_latency ?c ! i = latency_row (make_codebook cell) (load_rounds db start ?f)
        (result_rows db (tg_id row) start ?f)"
      "dc_snr ?c ! i = snr_row (load_rounds db start ?f) (result_rows db (tg_id row) start ?f)"
      "dc_state ?c ! i = state_row (load_rounds db start ?f) (result_rows db (tg_id row) start ?f)"
      using i row(2) by (simp_all add: day_contents_of_def Let_def e t_def)
    show ?thesis
      unfolding cell_matches_def
      using row(1) has bytes row_result_code [OF s(1) f j]
      by (intro bexI [of _ row]) (simp_all add: mac \<tau> rows Let_def bounds)
  qed
  have sets: "int ` set (df_timestamps ?d) = set (load_rounds db start ?f)"
    using pos by (force simp: times)
  have sorted: "sorted_wrt (<) (df_timestamps ?d)" "sorted_wrt (<) (df_macs ?d)"
    using sorted_wrt_map_nat [OF pos rounds(2)] dist sorted_load_targets [of db start ?f]
    by (simp_all add: times macs day_devices_def strict_sorted_iff)
  have devices: "set (df_macs ?d) =
       {m. \<exists>t \<in> set (db_targets db). has_result db start ?f t \<and> target_mac t = Some m}"
    unfolding macs day_devices_def by (rule load_targets_texts)
  show ?thesis
    unfolding day_matches_def
    using bounds codes sorted sets [unfolded rounds(3)] devices cell by (intro conjI allI impI)
qed

text \<open>
  C25. The browser reads back the day that the controller exported: the decoder rejects the file,
  for the order of its targets, exactly when two devices with results on the day have the same
  MAC up to case; otherwise it returns the bounds of the day, the rounds and devices of the
  database in increasing order, and for every device and round the latency, signal and state codes
  of the last result the database has of them.
\<close>

theorem daily_file_reads_back:
  assumes "accurate_cells cell" "0 \<le> start" "start + 86400 < 2 ^ 32"
    and "export_day cell db start = Some b"
  shows "case parse_day b of
           Inl e \<Rightarrow> e = target_order_error \<and> \<not> distinct (day_devices db start)
         | Inr d \<Rightarrow> distinct (day_devices db start) \<and> day_matches cell db start d"
  using export_day_reads(3) [OF assms] decoded_matches [OF assms(1-3) export_day_reads(1) [OF assms]]
  by simp

text \<open>A small database: an access point and a client, two rounds.\<close>

definition sample_target :: "int \<Rightarrow> target_kind \<Rightarrow> string \<Rightarrow> target_row" where
  "sample_target i kind mac =
     \<lparr>tg_id = i, tg_kind = kind, tg_ip = ''10.0.0.1'',
      tg_client_mac = (if kind = KindClient then Some mac else None),
      tg_ap_id = (if kind = KindClient then None else Some mac), tg_name = mac, tg_enabled = True\<rparr>"

definition sample_result :: "int \<Rightarrow> int \<Rightarrow> int \<Rightarrow> ping_state \<Rightarrow> result_row" where
  "sample_result i \<tau> target state =
     \<lparr>pr_id = i, pr_observed_at = \<tau>, pr_target = target, pr_rtt = (if state = StateOk then 7 else 1000),
      pr_responded = (if state = StateOk then 1 else 0), pr_state = state, pr_snr = None\<rparr>"

definition sample_db :: "string \<Rightarrow> ping_db" where
  "sample_db mac =
     \<lparr>db_targets = [sample_target 1 KindClient mac, sample_target 2 KindAp ''00:11:22:33:44:55''],
      db_results = [sample_result 1 86410 1 StateOk, sample_result 2 86410 2 StateTimeout,
                    sample_result 3 86440 2 StateOk],
      db_radios = [], db_links = []\<rparr>"

lemmas mac_eval = parse_mac_text_def mac_octet_def hex_value_def in_range_def code_point_def upt_rec
  format_mac_def hex2_def hex_digit_def char_of_def bit_0 nocase_def fold_char_def

lemma sample_macs:
  "parse_mac_text ''AA:BB:CC:DD:EE:FF'' = Some ([0xAA, 0xBB, 0xCC, 0xDD, 0xEE, 0xFF], ''aa:bb:cc:dd:ee:ff'')"
  "parse_mac_text ''00:11:22:33:44:55'' = Some ([0, 0x11, 0x22, 0x33, 0x44, 0x55], ''00:11:22:33:44:55'')"
  "nocase ''AA:BB:CC:DD:EE:FF'' = ''aa:bb:cc:dd:ee:ff''"
  "nocase ''00:11:22:33:44:55'' = ''00:11:22:33:44:55''"
  by (simp_all add: mac_eval)

lemmas sample_defs = sample_db_def sample_target_def sample_result_def has_result_def in_period_def
  target_identity_def target_append_def

lemma sample_loads:
  "map et_text (load_targets (sample_db ''AA:BB:CC:DD:EE:FF'') 86400 172800) =
     [''00:11:22:33:44:55'', ''aa:bb:cc:dd:ee:ff'']"
  "length (load_ap_targets (sample_db ''AA:BB:CC:DD:EE:FF'') 86400 172800) = 1"
  "load_rounds (sample_db ''AA:BB:CC:DD:EE:FF'') 86400 172800 = [86410, 86440]"
  by (simp_all add: load_targets_def load_ap_targets_def load_rounds_def sample_defs sample_macs u32_def)

lemma sample_exports:
  "export_day rounded_cells (sample_db ''AA:BB:CC:DD:EE:FF'') 86400 \<noteq> None"
proof -
  have "length (load_targets (sample_db ''AA:BB:CC:DD:EE:FF'') 86400 172800) = 2"
    using arg_cong [OF sample_loads(1), of length] by simp
  then have "contents_layout (day_contents_of rounded_cells (sample_db ''AA:BB:CC:DD:EE:FF'') 86400) =
      layout_day 2 2 1"
    by (simp add: contents_layout_day sample_loads u32_def numeral_2_eq_2)
  moreover have "layout_fits (layout_day 2 2 1)"
    by (simp add: layout_fits_def layout_day_def align4_def DAY_HEADER_SIZE_def Let_def)
  ultimately show ?thesis by (simp add: export_day_sections)
qed

theorem daily_file_reads_back_witness:
  "\<exists>b d. export_day rounded_cells (sample_db ''AA:BB:CC:DD:EE:FF'') 86400 = Some b \<and>
         parse_day b = Inr d \<and> day_matches rounded_cells (sample_db ''AA:BB:CC:DD:EE:FF'') 86400 d"
proof -
  obtain b where b: "export_day rounded_cells (sample_db ''AA:BB:CC:DD:EE:FF'') 86400 = Some b"
    using sample_exports by blast
  have "distinct (day_devices (sample_db ''AA:BB:CC:DD:EE:FF'') 86400)"
    by (simp add: day_devices_def day_end_def sample_loads)
  with daily_file_reads_back [OF rounded_cells_accurate _ _ b] b show ?thesis
    by (auto split: sum.splits)
qed

text \<open>Two rows with results on the day and one MAC are one device.\<close>

lemma distinct_device_id:
  assumes "distinct (day_devices db start)"
    and t: "t \<in> set (db_targets db)" "has_result db start (day_end start) t" "target_mac t = Some m"
    and u: "u \<in> set (db_targets db)" "has_result db start (day_end start) u" "target_mac u = Some m"
  shows "tg_id t = tg_id u"
proof -
  obtain e where e: "e \<in> set (load_targets db start (day_end start))" "et_id e = tg_id t" "et_text e = m"
    using t by (rule load_targets_row)
  obtain f where f: "f \<in> set (load_targets db start (day_end start))" "et_id f = tg_id u" "et_text f = m"
    using u by (rule load_targets_row)
  have "inj_on et_text (set (load_targets db start (day_end start)))"
    using assms(1) by (simp add: day_devices_def distinct_map)
  then have "e = f" using e(1,3) f(1,3) by (simp add: inj_on_def)
  with e(2) f(2) show ?thesis by simp
qed

text \<open>
  Two targets with one MAC in different case, as a configured client and the same client
  discovered later can be, hide the whole day: the decoder rejects the file.
\<close>

theorem duplicate_identity_hides_day:
  assumes "accurate_cells cell" "0 \<le> start" "start + 86400 < 2 ^ 32"
    and "export_day cell db start = Some b"
    and "t \<in> set (db_targets db)" "has_result db start (day_end start) t" "target_mac t = Some m"
    and "u \<in> set (db_targets db)" "has_result db start (day_end start) u" "target_mac u = Some m"
    and "tg_id t \<noteq> tg_id u"
  shows "parse_day b = Inl target_order_error"
  using export_day_reads(3) [OF assms(1-4)] distinct_device_id [OF _ assms(5-10)] assms(11) by auto

text \<open>
  The airtime of an access point is looked up under its canonical identity: rows that were
  recorded under a MAC with a capital letter are never found.
\<close>

theorem capital_mac_loses_airtime:
  assumes "\<forall>r \<in> set (db_radios db). rs_ap_mac r \<noteq> nocase (rs_ap_mac r)"
    and "e \<in> set (load_ap_targets db start finish)"
  shows "air_row rounds band (radio_rows db (et_text e) start finish) = zero_row rounds"
proof -
  obtain i mac where "e \<in> set (target_append i mac)"
    using assms(2) by (auto simp: load_ap_targets_def)
  then obtain s where "parse_mac_text s = Some (et_mac e, et_text e)" by (rule target_append_elem)
  then have canonical: "et_text e = nocase s" by (rule parse_mac_text_Some(3))
  have "fold_char (fold_char c) = fold_char c" for c
    by (auto simp: fold_char_def in_range_def code_point_char_of)
  then have "nocase (et_text e) = et_text e" by (simp add: canonical nocase_def)
  with assms(1) have "filter (\<lambda>r. rs_ap_mac r = et_text e \<and> in_period start finish (rs_observed_at r))
      (db_radios db) = []"
    by (auto simp: filter_empty_conv)
  then show ?thesis by (simp only: radio_rows_def) (simp add: air_row_def)
qed

end
