(* ===== verification/DailyAirtime.thy ===== *)
theory DailyAirtime
imports DailyRoundTrip
begin

text \<open>
  The airtime matrices against the counters they come from.  A radio takes readings, in tenths of a
  per cent, and adds them up: a poll returns the sum and the number of the readings since the
  radio's last reset.  The exporter sees only the polls; what it publishes for a round is the
  rounded mean of the readings since the poll before.
\<close>

section \<open>The series of one band\<close>

text \<open>The rows that count, and what each contributes.\<close>

definition air_useful :: "nat \<Rightarrow> radio_row \<Rightarrow> bool" where
  "air_useful band r \<longleftrightarrow>
     is_five_ghz (rs_radio_id r) (rs_radio_type r) = band \<and> rs_airtime_total r \<noteq> None \<and>
     (case rs_rf_samples r of None \<Rightarrow> False | Some n \<Rightarrow> 0 < n)"

fun air_series :: "air_state \<Rightarrow> (int \<times> int \<times> int) list \<Rightarrow> (int \<times> int) list" where
  "air_series s [] = []"
| "air_series s ((\<tau>, acc, n) # ps) =
     (let s' = air_step s acc n in (\<tau>, last_average s') # air_series s' ps)"

definition poll_of :: "radio_row \<Rightarrow> int \<times> int \<times> int" where
  "poll_of r = (rs_observed_at r, the (rs_airtime_total r), the (rs_rf_samples r))"

definition put_average :: "int list \<Rightarrow> int \<times> int \<Rightarrow> bytes \<Rightarrow> bytes" where
  "put_average rounds = (\<lambda>(\<tau>, average) row. put_cell rounds \<tau> (encode_percent_tenths average) row)"

lemma air_cell_useful:
  "air_useful band r \<Longrightarrow> poll_of r = (\<tau>, acc, n) \<Longrightarrow> air_cell rounds band r (s, row) =
     (air_step s acc n, put_average rounds (\<tau>, last_average (air_step s acc n)) row)"
  by (auto simp: air_useful_def air_cell_def poll_of_def put_average_def Let_def split: option.splits)

lemma air_cell_useless: "\<not> air_useful band r \<Longrightarrow> air_cell rounds band r (s, row) = (s, row)"
  by (auto simp: air_useful_def air_cell_def split: option.splits)

lemma air_row_series:
  "air_row rounds band rows =
     fold (put_average rounds) (air_series air_start (map poll_of (filter (air_useful band) rows)))
       (zero_row rounds)"
proof -
  have "snd (fold (air_cell rounds band) rows (s, row)) =
      fold (put_average rounds) (air_series s (map poll_of (filter (air_useful band) rows))) row" for s row
  proof (induction rows arbitrary: s row)
    case (Cons r rows)
    obtain \<tau> acc n where p: "poll_of r = (\<tau>, acc, n)" by (cases "poll_of r")
    with Cons show ?case
      by (cases "air_useful band r") (simp_all add: air_cell_useful [OF _ p] air_cell_useless Let_def)
  qed simp
  then show ?thesis by (simp add: air_row_def)
qed

lemma length_air_series [simp]: "length (air_series s ps) = length ps"
  by (induction s ps rule: air_series.induct) (auto simp: Let_def)

lemma map_fst_air_series: "map fst (air_series s ps) = map fst ps"
  by (induction s ps rule: air_series.induct) (auto simp: Let_def)

section \<open>The counter\<close>

text \<open>
  A poll of the counter: its time, the number of the reset before it and the number of readings
  since then; \<open>q e k\<close> is reading \<open>k\<close> after reset \<open>e\<close>.
\<close>

type_synonym poll = "int \<times> nat \<times> nat"

definition counter_value :: "(nat \<Rightarrow> nat \<Rightarrow> int) \<Rightarrow> poll \<Rightarrow> int \<times> int \<times> int" where
  "counter_value q = (\<lambda>(\<tau>, e, n). (\<tau>, \<Sum>k<n. q e k, int n))"

text \<open>
  A reset is visible: after it the radio has taken fewer readings than it had before.  The code
  can only see such resets.
\<close>

fun visible_resets :: "poll list \<Rightarrow> bool" where
  "visible_resets ((\<tau>, e, n) # (\<tau>', e', n') # ps) \<longleftrightarrow>
     (if e' = e then n \<le> n' else n' < n) \<and> visible_resets ((\<tau>', e', n') # ps)"
| "visible_resets ps \<longleftrightarrow> True"

text \<open>The reading from which poll \<open>i\<close> averages: where the poll before it stopped, or the reset.\<close>

definition window_start :: "poll list \<Rightarrow> nat \<Rightarrow> nat" where
  "window_start ps i =
     (if i \<noteq> 0 \<and> fst (snd (ps ! (i - 1))) = fst (snd (ps ! i)) then snd (snd (ps ! (i - 1))) else 0)"

text \<open>
  The averages are right: a poll without new readings repeats the average before it, any other
  has the mean of its new readings, rounded to the nearest tenth of a per cent.
\<close>

definition mean_of :: "(nat \<Rightarrow> int) \<Rightarrow> nat \<Rightarrow> nat \<Rightarrow> int \<Rightarrow> int \<Rightarrow> bool" where
  "mean_of readings a n before average \<longleftrightarrow>
     0 \<le> average \<and> average \<le> 1000 \<and>
     (if a = n then average = before
      else a < n \<and> 2 * \<bar>average * int (n - a) - (\<Sum>k = a..<n. readings k)\<bar> \<le> int (n - a))"

definition right_average :: "(nat \<Rightarrow> nat \<Rightarrow> int) \<Rightarrow> poll list \<Rightarrow> int list \<Rightarrow> nat \<Rightarrow> bool" where
  "right_average q ps avgs i \<longleftrightarrow>
     (case ps ! i of (\<tau>, e, n) \<Rightarrow> mean_of (q e) (window_start ps i) n (avgs ! (i - 1)) (avgs ! i))"

lemma sdiv_nonneg: "0 \<le> a \<Longrightarrow> 0 < b \<Longrightarrow> a sdiv b = a div (b :: int)"
  by (cases "a = 0") (simp_all add: signed_divide_int_def)

lemma rounded_mean:
  assumes "0 < n" "0 \<le> x" "x \<le> 1000 * n"
  shows "0 \<le> (x + n sdiv 2) sdiv n" "(x + n sdiv 2) sdiv n \<le> 1000"
    "2 * \<bar>(x + n sdiv 2) sdiv n * n - x\<bar> \<le> (n :: int)"
proof -
  have eq: "(x + n sdiv 2) sdiv n = (x + n div 2) div n"
    using assms by (simp add: sdiv_nonneg)
  define v where "v = (x + n div 2) div n"
  have near: "2 * \<bar>w - x\<bar> \<le> n"
    if "w = x + h - m" "0 \<le> m" "m < n" "2 * h \<le> n" "n \<le> 2 * h + 1" for w h m :: int
    using that by arith
  have "2 * \<bar>v * n - x\<bar> \<le> n"
    using assms(1)
    by (intro near [of _ "n div 2" "(x + n div 2) mod n"]) (simp_all add: v_def minus_mod_eq_div_mult)
  then show "2 * \<bar>(x + n sdiv 2) sdiv n * n - x\<bar> \<le> n" by (simp add: eq v_def)
  show "0 \<le> (x + n sdiv 2) sdiv n" unfolding eq using assms by (intro pos_imp_zdiv_nonneg_iff [THEN iffD2]) auto
  have "(x + n div 2) div n \<le> (n div 2 + 1000 * n) div n" using assms by (intro zdiv_mono1) auto
  also have "\<dots> = 1000" using assms(1) by (simp add: div_mult_self1 div_pos_pos_trivial)
  finally show "(x + n sdiv 2) sdiv n \<le> 1000" unfolding eq by simp
qed

lemma window_sum:
  fixes q :: "nat \<Rightarrow> int"
  assumes "a \<le> n" "\<And>k. 0 \<le> q k \<and> q k \<le> 1000"
  shows "(\<Sum>k<n. q k) - (\<Sum>k<a. q k) = (\<Sum>k = a..<n. q k)"
    "0 \<le> (\<Sum>k = a..<n. q k)" "(\<Sum>k = a..<n. q k) \<le> 1000 * int (n - a)"
proof -
  have "(\<Sum>k<n. q k) = (\<Sum>k<a. q k) + (\<Sum>k = a..<n. q k)"
    using sum.atLeastLessThan_concat [of 0 a n q] assms(1) by (simp add: lessThan_atLeast0)
  then show "(\<Sum>k<n. q k) - (\<Sum>k<a. q k) = (\<Sum>k = a..<n. q k)" by simp
  show "0 \<le> (\<Sum>k = a..<n. q k)" using assms(2) by (intro sum_nonneg) simp
  have "(\<Sum>k = a..<n. q k) \<le> (\<Sum>k = a..<n. 1000)" using assms(2) by (intro sum_mono) simp
  then show "(\<Sum>k = a..<n. q k) \<le> 1000 * int (n - a)" by simp
qed

lemma mean_of_rounded:
  assumes "a < n" "\<And>k. 0 \<le> q k \<and> q k \<le> 1000"
    "d = (\<Sum>k<n. q k) - (\<Sum>k<a. q k)" "m = int n - int a"
  shows "mean_of q a n before ((d + m sdiv 2) sdiv m)"
proof -
  have le: "a \<le> n" using assms(1) by simp
  have m: "m = int (n - a)" "0 < m" using assms(1,4) by auto
  have d: "d = (\<Sum>k = a..<n. q k)" "0 \<le> d" "d \<le> 1000 * m"
    using window_sum [OF le assms(2)] assms(3) m(1) by simp_all
  from rounded_mean [OF m(2) d(2,3)] assms(1) show ?thesis
    by (simp add: mean_of_def m(1) [symmetric] d(1) [symmetric])
qed

text \<open>The state of the exporter after a poll.\<close>

definition tracks :: "(nat \<Rightarrow> nat \<Rightarrow> int) \<Rightarrow> poll \<Rightarrow> air_state \<Rightarrow> bool" where
  "tracks q = (\<lambda>(\<tau>, e, n) s.
     have_base s \<and> base_total s = (\<Sum>k<n. q e k) \<and> base_samples s = int n \<and>
     0 \<le> last_average s \<and> last_average s \<le> 1000)"

lemma air_step_first:
  assumes "\<And>e k. 0 \<le> q e k \<and> q e k \<le> 1000" "0 < n" "\<not> have_base s \<or> int n < base_samples s"
    and s'_def: "s' = air_step s (\<Sum>k<n. q e k) (int n)"
  shows "tracks q (\<tau>, e, n) s' \<and> mean_of (q e) 0 n before (last_average s')"
proof -
  have "last_average s' = ((\<Sum>k<n. q e k) + int n sdiv 2) sdiv int n"
    using assms(3) by (simp add: s'_def air_step_def)
  then have "mean_of (q e) 0 n before (last_average s')"
    using mean_of_rounded [OF assms(2), of "q e" _ "int n"] assms(1) by simp
  moreover from this have "0 \<le> last_average s' \<and> last_average s' \<le> 1000" by (simp add: mean_of_def)
  ultimately show ?thesis using assms(3) by (simp add: tracks_def s'_def air_step_def)
qed

lemma air_step_tracks:
  assumes q: "\<And>e k. 0 \<le> q e k \<and> q e k \<le> 1000" and n: "0 < n'" and s: "tracks q (\<tau>, e, n) s"
    and r: "if e' = e then n \<le> n' else n' < n"
    and s'_def: "s' = air_step s (\<Sum>k<n'. q e' k) (int n')"
  shows "tracks q (\<tau>', e', n') s' \<and>
    mean_of (q e') (if e = e' then n else 0) n' (last_average s) (last_average s')"
proof (cases "e' = e")
  case False
  then have "int n' < base_samples s" using r s by (simp add: tracks_def)
  then have "tracks q (\<tau>', e', n') s' \<and> mean_of (q e') 0 n' (last_average s) (last_average s')"
    using air_step_first [where q = q and e = e' and s = s, OF q n _ s'_def] by blast
  with False show ?thesis by auto
next
  case same: True
  show ?thesis
  proof (cases "n = n'")
    case True
    with s same show ?thesis by (auto simp: tracks_def s'_def air_step_def mean_of_def)
  next
    case False
    with r same have lt: "n < n'" by simp
    have avg: "last_average s' =
        ((\<Sum>k<n'. q e k) - (\<Sum>k<n. q e k) + (int n' - int n) sdiv 2) sdiv (int n' - int n)"
      using s same lt by (simp add: s'_def air_step_def tracks_def Let_def)
    have mean: "mean_of (q e) n n' (last_average s) (last_average s')"
      unfolding avg by (rule mean_of_rounded [OF lt q refl refl])
    then have "0 \<le> last_average s' \<and> last_average s' \<le> 1000" by (simp add: mean_of_def)
    with mean s same lt show ?thesis by (simp add: tracks_def s'_def air_step_def Let_def)
  qed
qed

lemma window_start_Cons:
  "window_start (p # ps) (Suc i) =
     (if fst (snd ((p # ps) ! i)) = fst (snd (ps ! i)) then snd (snd ((p # ps) ! i)) else 0)"
  by (simp add: window_start_def)

lemma air_series_tracks:
  assumes q: "\<And>e k. 0 \<le> q e k \<and> q e k \<le> 1000" and "tracks q p s" "visible_resets (p # ps)"
    "\<forall>p \<in> set ps. 0 < snd (snd p)" "i < length ps"
  shows "right_average q (p # ps) (last_average s # map snd (air_series s (map (counter_value q) ps))) (Suc i)"
  using assms(2-)
proof (induction ps arbitrary: p s i)
  case (Cons p' ps)
  obtain \<tau> e n where p: "p = (\<tau>, e, n)" by (cases p)
  obtain \<tau>' e' n' where p': "p' = (\<tau>', e', n')" by (cases p')
  define s' where "s' = air_step s (\<Sum>k<n'. q e' k) (int n')"
  have r: "if e' = e then n \<le> n' else n' < n" and rest: "visible_resets (p' # ps)"
    using Cons.prems(2) by (simp_all add: p p')
  have "0 < n'" using Cons.prems(3) by (simp add: p')
  from air_step_tracks [OF q this Cons.prems(1) [unfolded p] r s'_def, of \<tau>']
  have step: "tracks q p' s'"
    "mean_of (q e') (if e = e' then n else 0) n' (last_average s) (last_average s')"
    by (simp_all add: p')
  have series: "map snd (air_series s (map (counter_value q) (p' # ps))) =
      last_average s' # map snd (air_series s' (map (counter_value q) ps))"
    by (simp add: p' counter_value_def s'_def Let_def)
  show ?case
  proof (cases i)
    case 0
    with step(2) show ?thesis
      unfolding series by (cases "e = e'") (simp_all add: right_average_def window_start_def p p')
  next
    case (Suc j)
    then have j: "j < length ps" using Cons.prems(4) by simp
    have "right_average q (p' # ps) (last_average s' # map snd (air_series s' (map (counter_value q) ps))) (Suc j)"
      by (rule Cons.IH [OF step(1) rest _ j]) (use Cons.prems(3) in simp)
    then show ?thesis
      unfolding series Suc by (auto simp: right_average_def window_start_Cons split: prod.splits if_splits)
  qed
qed simp

text \<open>All averages of a counter with visible resets are right.\<close>

lemma air_series_right:
  assumes q: "\<And>e k. 0 \<le> q e k \<and> q e k \<le> 1000" and "visible_resets ps"
    "\<forall>p \<in> set ps. 0 < snd (snd p)" "i < length ps"
  shows "right_average q ps (map snd (air_series air_start (map (counter_value q) ps))) i"
proof (cases ps)
  case (Cons p rest)
  obtain \<tau> e n where p: "p = (\<tau>, e, n)" by (cases p)
  define s where "s = air_step air_start (\<Sum>k<n. q e k) (int n)"
  have n: "0 < n" using assms(3) by (simp add: Cons p)
  have first: "tracks q p s" "mean_of (q e) 0 n before (last_average s)" for before
    using air_step_first [where q = q and e = e and s = air_start, OF q n _ s_def]
    by (simp_all add: p air_start_def)
  have series: "map snd (air_series air_start (map (counter_value q) ps)) =
      last_average s # map snd (air_series s (map (counter_value q) rest))"
    by (simp add: Cons p counter_value_def s_def Let_def)
  show ?thesis
  proof (cases i)
    case 0
    with first(2) show ?thesis unfolding series by (simp add: right_average_def window_start_def Cons p)
  next
    case (Suc j)
    have "right_average q (p # rest) (last_average s # map snd (air_series s (map (counter_value q) rest))) (Suc j)"
      by (rule air_series_tracks [OF q first(1)]) (use assms Cons Suc in auto)
    then show ?thesis unfolding series unfolding Cons Suc .
  qed
qed (use assms(4) in simp)

section \<open>The bytes of a matrix row\<close>

lemma filter_key_nth:
  "distinct (map f xs) \<Longrightarrow> i < length xs \<Longrightarrow> filter (\<lambda>x. f x = f (xs ! i)) xs = [xs ! i]"
proof (induction xs arbitrary: i)
  case (Cons x xs)
  show ?case
  proof (cases i)
    case 0
    with Cons.prems show ?thesis by (auto simp: filter_empty_conv image_iff)
  next
    case (Suc j)
    with Cons.prems have "f x \<noteq> f (xs ! j)" by (auto simp: image_iff)
    with Cons Suc show ?thesis by auto
  qed
qed simp

lemma percent_byte:
  assumes "0 \<le> v" "v \<le> 1000"
  shows "uint (word_of_nat (encode_percent_tenths v) :: byte) = (v + 5) div 10 + 1"
proof -
  have r: "0 \<le> (v + 5) div 10" "(v + 5) div 10 \<le> 100" using assms by auto
  have code: "encode_percent_tenths v = nat ((v + 5) div 10) + 1"
    using assms by (simp add: encode_percent_tenths_def)
  then have "unat (word_of_nat (encode_percent_tenths v) :: byte) = encode_percent_tenths v"
    using r by (intro unat_byte) linarith
  then have "uint (word_of_nat (encode_percent_tenths v) :: byte) = int (encode_percent_tenths v)"
    by (simp only: uint_nat)
  with code r show ?thesis by simp
qed

lemma fold_put_average:
  assumes "sorted_wrt (<) rounds" "j < length rounds" "distinct (map fst series)"
    "\<forall>x \<in> set series. 0 \<le> fst x \<and> fst x < 2 ^ 32"
  shows "i < length series \<Longrightarrow> rounds ! j = fst (series ! i) \<Longrightarrow>
      fold (put_average rounds) series (zero_row rounds) ! j = word_of_nat (encode_percent_tenths (snd (series ! i)))"
    and "rounds ! j \<notin> fst ` set series \<Longrightarrow> fold (put_average rounds) series (zero_row rounds) ! j = 0"
proof -
  have put: "put_average rounds =
      (\<lambda>x row. case Some x of None \<Rightarrow> row | Some v \<Rightarrow> put_cell rounds (fst x) (encode_percent_tenths (snd v)) row)"
    by (auto simp: put_average_def)
  have sel: "filter (\<lambda>x. u32 (fst x) = rounds ! j \<and> Some x \<noteq> None) series = filter (\<lambda>x. fst x = rounds ! j) series"
    using assms(4) by (intro filter_cong) (auto simp: u32_def)
  note cell = fold_put_cell [OF assms(1,2), of "zero_row rounds" fst "\<lambda>v. encode_percent_tenths (snd v)"
      Some series, unfolded sel Let_def, folded put]
  show "fold (put_average rounds) series (zero_row rounds) ! j = word_of_nat (encode_percent_tenths (snd (series ! i)))"
    if "i < length series" "rounds ! j = fst (series ! i)"
    using cell filter_key_nth [OF assms(3) that(1)] that(2) by simp
  show "fold (put_average rounds) series (zero_row rounds) ! j = 0" if "rounds ! j \<notin> fst ` set series"
  proof -
    have "filter (\<lambda>x. fst x = rounds ! j) series = []" using that by (force simp: filter_empty_conv)
    then show ?thesis using cell assms(2) by (simp add: zero_row_def)
  qed
qed


text \<open>A poll of 3 readings, a poll without news, 2 more readings, a reset and 1 reading.\<close>

definition sample_readings :: "nat \<Rightarrow> nat \<Rightarrow> int" where
  "sample_readings e k = (if e = 0 then 100 * (int k mod 10) else 400)"

definition sample_polls :: "poll list" where
  "sample_polls = [(10, 0, 3), (40, 0, 3), (70, 0, 5), (100, 1, 1)]"

definition sample_radio :: "int \<times> int \<times> int \<Rightarrow> radio_row" where
  "sample_radio = (\<lambda>(\<tau>, total_tenths, samples).
     \<lparr>rs_observed_at = \<tau>, rs_ap_mac = ''00:11:22:33:44:55'', rs_radio_id = 0, rs_radio_type = Some ''11ng'',
      rs_airtime_total = Some total_tenths, rs_rf_samples = Some samples\<rparr>)"

lemma sample_radio_useful:
  "0 < n \<Longrightarrow> air_useful 0 (sample_radio (\<tau>, v, n))" "poll_of (sample_radio (\<tau>, v, n)) = (\<tau>, v, n)"
  by (auto simp: sample_radio_def air_useful_def poll_of_def is_five_ghz_def bytes_find_def occurs_at_def
      upt_rec)


end
