(* ===== verification/DailyHistory.thy ===== *)
theory DailyHistory
imports DailyRoundTrip
begin

text \<open>
  \<open>history(job)\<close> of \<open>ping-monitor-worker.js\<close>: the browser counts, per device and time bucket, what
  the daily files hold.  A typed array is a list of machine words: a store beyond its end is
  ignored, an addition wraps.  The files come decompressed, in the order of the job; the job asks
  for a range that does not end before it starts and for buckets of at least one second.
\<close>

section \<open>The job and its arrays\<close>

record history_job =
  hj_macs :: "string list"
  hj_start :: nat
  hj_end :: nat
  hj_bucket :: nat
  hj_band_g :: bool

text \<open>\<open>Math.ceil((rangeEnd - rangeStart) / bucketSeconds)\<close>\<close>

definition job_buckets :: "history_job \<Rightarrow> nat" where
  "job_buckets job = (hj_end job - hj_start job + hj_bucket job - 1) div hj_bucket job"

text \<open>\<open>new Map(targetMacs.map((mac, index) => [mac, index]))\<close>: the last index of a MAC wins.\<close>

definition target_index :: "string list \<Rightarrow> string \<Rightarrow> nat option" where
  "target_index macs mac = map_of (rev (zip macs [0..<length macs])) mac"

record history_arrays =
  ha_attempts :: "32 word list"
  ha_replies :: "32 word list"
  ha_latency_sum :: "32 word list"
  ha_latency_max :: "16 word list"
  ha_snr_sum :: "32 word list"
  ha_snr_count :: "16 word list"
  ha_snr_min :: "8 word list"
  ha_associated :: "16 word list"
  ha_associated_at :: "32 word list"
  ha_known :: "16 word list"
  ha_airtime_sum :: "32 word list"
  ha_airtime_count :: "16 word list"
  ha_mesh_snr_min :: "8 word list"

definition empty_arrays :: "nat \<Rightarrow> history_arrays" where
  "empty_arrays cells =
     \<lparr>ha_attempts = replicate cells 0, ha_replies = replicate cells 0,
      ha_latency_sum = replicate cells 0, ha_latency_max = replicate cells 0,
      ha_snr_sum = replicate cells 0, ha_snr_count = replicate cells 0, ha_snr_min = replicate cells 255,
      ha_associated = replicate cells 0, ha_associated_at = replicate cells 0,
      ha_known = replicate cells 0, ha_airtime_sum = replicate cells 0,
      ha_airtime_count = replicate cells 0, ha_mesh_snr_min = replicate cells 255\<rparr>"

text \<open>\<open>array[cell] += v\<close>\<close>

definition bump :: "nat \<Rightarrow> 'a :: len word \<Rightarrow> 'a word list \<Rightarrow> 'a word list" where
  "bump cell v a = a[cell := a ! cell + v]"

section \<open>One observation\<close>

definition job_covers :: "history_job \<Rightarrow> nat \<Rightarrow> bool" where
  "job_covers job timestamp \<longleftrightarrow> \<not> (timestamp < hj_start job \<or> hj_end job \<le> timestamp)"

definition job_cell :: "history_job \<Rightarrow> nat \<Rightarrow> nat \<Rightarrow> nat" where
  "job_cell job target timestamp =
     target * job_buckets job + (timestamp - hj_start job) div hj_bucket job"

definition count_state :: "nat \<Rightarrow> nat \<Rightarrow> nat \<Rightarrow> history_arrays \<Rightarrow> history_arrays" where
  "count_state cell timestamp state A =
     (if state = 0 then A
      else
        let A = A\<lparr>ha_known := bump cell 1 (ha_known A)\<rparr>
        in if state = 1 then
             A\<lparr>ha_associated := bump cell 1 (ha_associated A),
               ha_associated_at := (ha_associated_at A)[cell := word_of_nat timestamp]\<rparr>
           else A)"

definition count_latency :: "nat list \<Rightarrow> nat \<Rightarrow> byte \<Rightarrow> history_arrays \<Rightarrow> history_arrays" where
  "count_latency codebook cell code A =
     (if code = 0 then A
      else
        let A = A\<lparr>ha_attempts := bump cell 1 (ha_attempts A)\<rparr>
        in if code = 255 then A
           else
             let latency = codebook ! (unat code - 1);
                 A = A\<lparr>ha_replies := bump cell 1 (ha_replies A),
                       ha_latency_sum := bump cell (word_of_nat latency) (ha_latency_sum A)\<rparr>
             in if unat (ha_latency_max A ! cell) < latency
                then A\<lparr>ha_latency_max := (ha_latency_max A)[cell := word_of_nat latency]\<rparr> else A)"

definition count_snr :: "nat \<Rightarrow> byte \<Rightarrow> history_arrays \<Rightarrow> history_arrays" where
  "count_snr cell code A =
     (if code = 0 then A
      else
        let snr = unat code - 1;
            A = A\<lparr>ha_snr_sum := bump cell (word_of_nat snr) (ha_snr_sum A),
                  ha_snr_count := bump cell 1 (ha_snr_count A)\<rparr>
        in if snr < unat (ha_snr_min A ! cell)
           then A\<lparr>ha_snr_min := (ha_snr_min A)[cell := word_of_nat snr]\<rparr> else A)"

definition count_target ::
    "history_job \<Rightarrow> day_file \<Rightarrow> nat \<Rightarrow> nat \<Rightarrow> nat \<Rightarrow> history_arrays \<Rightarrow> history_arrays" where
  "count_target job day target source rnd A =
     (let timestamp = df_timestamps day ! rnd
      in if \<not> job_covers job timestamp then A
         else
           let cell = job_cell job target timestamp;
               code = day_byte day (df_samples day) source rnd;
               state = (if df_version day = 1 then (if code \<noteq> 0 then 1 else 0)
                        else unat (day_byte day (tm_state (df_telemetry day)) source rnd));
               A = count_latency (df_codebook day) cell code (count_state cell timestamp state A)
           in if df_version day = 2
              then count_snr cell (day_byte day (tm_snr (df_telemetry day)) source rnd) A else A)"

definition count_ap ::
    "history_job \<Rightarrow> day_file \<Rightarrow> nat \<Rightarrow> nat \<Rightarrow> nat \<Rightarrow> history_arrays \<Rightarrow> history_arrays" where
  "count_ap job day target source rnd A =
     (let timestamp = df_timestamps day ! rnd; tm = df_telemetry day
      in if \<not> job_covers job timestamp then A
         else
           let cell = job_cell job target timestamp;
               air = day_byte day (if hj_band_g job then tm_air24 tm else tm_air5 tm) source rnd;
               mesh = day_byte day (tm_mesh tm) source rnd;
               A = (if air \<noteq> 0 then
                      A\<lparr>ha_airtime_sum := bump cell (word_of_nat (unat air - 1)) (ha_airtime_sum A),
                        ha_airtime_count := bump cell 1 (ha_airtime_count A)\<rparr> else A)
           in if mesh \<noteq> 0 \<and> unat mesh - 1 < unat (ha_mesh_snr_min A ! cell)
              then A\<lparr>ha_mesh_snr_min := (ha_mesh_snr_min A)[cell := word_of_nat (unat mesh - 1)]\<rparr>
              else A)"

section \<open>The loops\<close>

text \<open>One table of devices against all rounds: a device that the job does not show is skipped.\<close>

definition count_table ::
    "history_job \<Rightarrow> (nat \<Rightarrow> nat \<Rightarrow> nat \<Rightarrow> history_arrays \<Rightarrow> history_arrays) \<Rightarrow> nat \<Rightarrow> string list \<Rightarrow>
     history_arrays \<Rightarrow> history_arrays" where
  "count_table job step rounds macs A =
     fold (\<lambda>source A.
             case target_index (hj_macs job) (macs ! source) of
               None \<Rightarrow> A
             | Some target \<Rightarrow> fold (step target source) [0..<rounds] A)
       [0..<length macs] A"

definition count_day :: "history_job \<Rightarrow> day_file \<Rightarrow> history_arrays \<Rightarrow> history_arrays" where
  "count_day job day A =
     (let rounds = length (df_timestamps day);
          A = count_table job (count_target job day) rounds (df_macs day) A
      in if df_version day = 2 then count_table job (count_ap job day) rounds (df_ap_macs day) A else A)"

fun history_files :: "history_job \<Rightarrow> bytes list \<Rightarrow> history_arrays \<Rightarrow> js_error + history_arrays" where
  "history_files job [] A = Inr A"
| "history_files job (file # files) A =
     bindE (parse_day file) (\<lambda>day. history_files job files (count_day job day A))"

definition history :: "history_job \<Rightarrow> bytes list \<Rightarrow> js_error + history_arrays" where
  "history job files = history_files job files (empty_arrays (length (hj_macs job) * job_buckets job))"

section \<open>Tallies\<close>

lemma length_bump [simp]: "length (bump cell v a) = length a"
  by (simp add: bump_def)

lemma nth_bump: "c < length a \<Longrightarrow> bump cell v a ! c = a ! c + (if cell = c then v else 0)"
  by (auto simp: bump_def nth_list_update)

text \<open>
  A loop whose every step adds a value of its own to one cell of an array adds their sum to it.
\<close>

lemma fold_tally:
  assumes "\<And>x A. x \<in> set xs \<Longrightarrow> length (fld A) = n \<Longrightarrow> length (fld (step x A)) = n \<and>
      fld (step x A) ! c = fld A ! c + v x"
    and "length (fld A) = n"
  shows "length (fld (fold step xs A)) = n \<and>
    fld (fold step xs A) ! c = (fld A ! c :: 'w :: len word) + (\<Sum>x\<leftarrow>xs. v x)"
  using assms
proof (induction xs arbitrary: A)
  case (Cons x xs)
  have "length (fld (step x A)) = n" "fld (step x A) ! c = fld A ! c + v x"
    using Cons.prems by simp_all
  with Cons.IH [of "step x A"] Cons.prems(1) show ?case by (simp add: add.assoc)
qed simp

lemma sum_list_upt: "(\<Sum>x\<leftarrow>[0..<n]. v x) = (\<Sum>x<n. v x)"
  by (induction n) simp_all

lemma table_tally:
  assumes "\<And>target source rnd A. length (fld A) = n \<Longrightarrow> length (fld (step target source rnd A)) = n \<and>
      fld (step target source rnd A) ! c = fld A ! c + v target source rnd"
    and "length (fld A) = n"
  shows "length (fld (count_table job step rounds macs A)) = n \<and>
    fld (count_table job step rounds macs A) ! c = (fld A ! c :: 'w :: len word) +
      (\<Sum>source<length macs. case target_index (hj_macs job) (macs ! source) of
                               None \<Rightarrow> 0 | Some target \<Rightarrow> (\<Sum>rnd<rounds. v target source rnd))"
  unfolding count_table_def sum_list_upt [symmetric]
proof (rule fold_tally [where fld = fld])
  show "length (fld A) = n" by (rule assms(2))
next
  fix source A
  assume n: "length (fld A) = n"
  have "length (fld (fold (step target source) [0..<rounds] A)) = n \<and>
      fld (fold (step target source) [0..<rounds] A) ! c =
        fld A ! c + (\<Sum>rnd\<leftarrow>[0..<rounds]. v target source rnd)" for target
    by (rule fold_tally [where fld = fld]) (use assms(1) n in auto)
  with n show "length (fld (case target_index (hj_macs job) (macs ! source) of None \<Rightarrow> A
        | Some target \<Rightarrow> fold (step target source) [0..<rounds] A)) = n \<and>
     fld (case target_index (hj_macs job) (macs ! source) of None \<Rightarrow> A
        | Some target \<Rightarrow> fold (step target source) [0..<rounds] A) ! c =
     fld A ! c + (case target_index (hj_macs job) (macs ! source) of None \<Rightarrow> 0
        | Some target \<Rightarrow> (\<Sum>rnd\<leftarrow>[0..<rounds]. v target source rnd))"
    by (simp split: option.split)
qed

text \<open>The arrays of the access points and those of the devices do not interfere.\<close>

lemma count_ap_fields [simp]:
  "ha_attempts (count_ap job day target source rnd A) = ha_attempts A"
  "ha_replies (count_ap job day target source rnd A) = ha_replies A"
  "ha_latency_sum (count_ap job day target source rnd A) = ha_latency_sum A"
  "ha_known (count_ap job day target source rnd A) = ha_known A"
  "ha_associated (count_ap job day target source rnd A) = ha_associated A"
  by (simp_all add: count_ap_def Let_def)

lemma count_snr_fields [simp]:
  "ha_attempts (count_snr cell code A) = ha_attempts A" "ha_replies (count_snr cell code A) = ha_replies A"
  "ha_latency_sum (count_snr cell code A) = ha_latency_sum A" "ha_known (count_snr cell code A) = ha_known A"
  "ha_associated (count_snr cell code A) = ha_associated A"
  by (simp_all add: count_snr_def Let_def)

lemma count_latency_fields [simp]:
  "ha_known (count_latency cb cell code A) = ha_known A"
  "ha_associated (count_latency cb cell code A) = ha_associated A"
  "ha_attempts (count_latency cb cell code A) =
     (if code = 0 then ha_attempts A else bump cell 1 (ha_attempts A))"
  "ha_replies (count_latency cb cell code A) =
     (if code = 0 \<or> code = 255 then ha_replies A else bump cell 1 (ha_replies A))"
  "ha_latency_sum (count_latency cb cell code A) =
     (if code = 0 \<or> code = 255 then ha_latency_sum A
      else bump cell (word_of_nat (cb ! (unat code - 1))) (ha_latency_sum A))"
  by (simp_all add: count_latency_def Let_def)

lemma count_state_fields [simp]:
  "ha_attempts (count_state cell ts state A) = ha_attempts A"
  "ha_replies (count_state cell ts state A) = ha_replies A"
  "ha_latency_sum (count_state cell ts state A) = ha_latency_sum A"
  "ha_known (count_state cell ts state A) = (if state = 0 then ha_known A else bump cell 1 (ha_known A))"
  "ha_associated (count_state cell ts state A) =
     (if state = 1 then bump cell 1 (ha_associated A) else ha_associated A)"
  by (simp_all add: count_state_def Let_def)

section \<open>One day\<close>

lemma target_index_Some:
  assumes "distinct macs"
  shows "target_index macs m = Some k \<longleftrightarrow> k < length macs \<and> macs ! k = m"
proof -
  have "map fst (rev (zip macs [0..<length macs])) = rev macs" by (simp add: rev_map [symmetric])
  then have d: "distinct (map fst (rev (zip macs [0..<length macs])))" using assms by simp
  have "target_index macs m = Some k \<longleftrightarrow> (m, k) \<in> set (zip macs [0..<length macs])"
    using map_of_eq_Some_iff [OF d] by (simp add: target_index_def)
  also have "\<dots> \<longleftrightarrow> k < length macs \<and> macs ! k = m"
    by (auto simp: in_set_zip)
  finally show ?thesis .
qed

text \<open>The bucket of a time that the job covers is below the number of buckets.\<close>

lemma bucket_less:
  assumes "job_covers job ts" "0 < hj_bucket job"
  shows "(ts - hj_start job) div hj_bucket job < job_buckets job"
proof -
  let ?n = "hj_end job - hj_start job"
  have "ts - hj_start job \<le> ?n - 1" "0 < ?n" using assms(1) by (auto simp: job_covers_def)
  then have "(ts - hj_start job) div hj_bucket job \<le> (?n - 1) div hj_bucket job" by (intro div_le_mono)
  also have "\<dots> < (?n - 1) div hj_bucket job + 1" by simp
  also have "\<dots> = (?n - 1 + hj_bucket job) div hj_bucket job" using assms(2) by simp
  also have "\<dots> = job_buckets job" using \<open>0 < ?n\<close> by (simp add: job_buckets_def)
  finally show ?thesis .
qed

lemma cell_eq_iff:
  "q < n \<Longrightarrow> b < n \<Longrightarrow> t * n + q = k * n + b \<longleftrightarrow> t = k \<and> q = (b :: nat)"
  by (metis add.commute div_mult_self1 div_less add_0 mod_less mod_mult_self1 mult.commute
      less_nat_zero_code)

text \<open>
  What one device and one day add to one cell of a counting array: the weights of the rounds of
  the bucket.
\<close>

definition in_bucket :: "history_job \<Rightarrow> nat \<Rightarrow> nat \<Rightarrow> bool" where
  "in_bucket job b ts \<longleftrightarrow> job_covers job ts \<and> (ts - hj_start job) div hj_bucket job = b"

definition counts :: "(history_arrays \<Rightarrow> 'w :: len word list) \<Rightarrow> (byte \<Rightarrow> byte \<Rightarrow> nat list \<Rightarrow> 'w word) \<Rightarrow> bool" where
  "counts fld weight \<longleftrightarrow>
     (\<forall>job day target source rnd A c.
        length (fld (count_target job day target source rnd A)) = length (fld A) \<and>
        fld (count_ap job day target source rnd A) = fld A \<and>
        (df_version day = 2 \<longrightarrow> c < length (fld A) \<longrightarrow>
         fld (count_target job day target source rnd A) ! c = fld A ! c +
           (if job_covers job (df_timestamps day ! rnd) \<and> job_cell job target (df_timestamps day ! rnd) = c
            then weight (day_byte day (df_samples day) source rnd)
                   (day_byte day (tm_state (df_telemetry day)) source rnd) (df_codebook day) else 0)))"

lemma unat_byte_eq_1: "unat (b :: byte) = Suc 0 \<longleftrightarrow> b = 1"
  by (metis One_nat_def unat_1 word_unat_eq_iff)

lemma counts_arrays:
  "counts ha_attempts (\<lambda>code state cb. of_bool (code \<noteq> 0))"
  "counts ha_replies (\<lambda>code state cb. of_bool (code \<noteq> 0 \<and> code \<noteq> 255))"
  "counts ha_latency_sum
     (\<lambda>code state cb. if code = 0 \<or> code = 255 then 0 else word_of_nat (cb ! (unat code - 1)))"
  "counts ha_known (\<lambda>code state cb. of_bool (state \<noteq> 0))"
  "counts ha_associated (\<lambda>code state cb. of_bool (state = 1))"
  by (auto simp: counts_def count_target_def Let_def nth_bump unat_eq_0 unat_byte_eq_1)

lemma day_tally:
  fixes fld :: "history_arrays \<Rightarrow> 'w :: len word list"
  assumes f: "counts fld weight" and v: "df_version day = 2" and macs: "distinct (hj_macs job)"
    and k: "k < length (hj_macs job)" and b: "b < job_buckets job" and pos: "0 < hj_bucket job"
    and n: "length (fld A) = length (hj_macs job) * job_buckets job"
  shows "length (fld (count_day job day A)) = length (fld A)"
    and "fld (count_day job day A) ! (k * job_buckets job + b) = fld A ! (k * job_buckets job + b) +
      (\<Sum>source<length (df_macs day). if df_macs day ! source = hj_macs job ! k
         then (\<Sum>rnd<length (df_timestamps day). if in_bucket job b (df_timestamps day ! rnd)
                 then weight (day_byte day (df_samples day) source rnd)
                        (day_byte day (tm_state (df_telemetry day)) source rnd) (df_codebook day) else 0)
         else 0)"
proof -
  let ?c = "k * job_buckets job + b" and ?R = "length (df_timestamps day)"
  let ?w = "\<lambda>source rnd. weight (day_byte day (df_samples day) source rnd)
                        (day_byte day (tm_state (df_telemetry day)) source rnd) (df_codebook day)"
  let ?v = "\<lambda>target source rnd. if job_covers job (df_timestamps day ! rnd) \<and>
      job_cell job target (df_timestamps day ! rnd) = ?c then ?w source rnd else 0"
  have "Suc k * job_buckets job \<le> length (hj_macs job) * job_buckets job"
    using k by (intro mult_le_mono1) simp
  then have c: "?c < length (fld A)" unfolding n using b by simp
  let ?A = "count_table job (count_target job day) ?R (df_macs day) A"
  have first: "length (fld ?A) = length (fld A) \<and> fld ?A ! ?c = fld A ! ?c +
      (\<Sum>source<length (df_macs day). case target_index (hj_macs job) (df_macs day ! source) of
         None \<Rightarrow> 0 | Some target \<Rightarrow> (\<Sum>rnd<?R. ?v target source rnd))"
    by (rule table_tally [where fld = fld]) (use f v c in \<open>auto simp: counts_def\<close>)
  have second: "length (fld (count_table job (count_ap job day) ?R (df_ap_macs day) B)) = length (fld B) \<and>
      fld (count_table job (count_ap job day) ?R (df_ap_macs day) B) ! ?c = fld B ! ?c +
      (\<Sum>source<length (df_ap_macs day). case target_index (hj_macs job) (df_ap_macs day ! source) of
         None \<Rightarrow> 0 | Some target \<Rightarrow> (\<Sum>rnd<?R. 0))" for B
    by (rule table_tally [where fld = fld]) (use f in \<open>auto simp: counts_def\<close>)
  have none: "(\<Sum>source<n. case g source of None \<Rightarrow> 0 | Some (t :: nat) \<Rightarrow> (\<Sum>rnd<?R. 0)) = (0 :: 'w word)"
    for n g by (rule sum.neutral) (simp split: option.split)
  have second: "length (fld (count_table job (count_ap job day) ?R (df_ap_macs day) B)) = length (fld B)"
    "fld (count_table job (count_ap job day) ?R (df_ap_macs day) B) ! ?c = fld B ! ?c" for B
    using second [of B] unfolding none by simp_all
  have cell: "?v target source rnd = (if target = k then
      (if in_bucket job b (df_timestamps day ! rnd) then ?w source rnd else 0) else 0)" for target source rnd
    using cell_eq_iff [OF bucket_less [OF _ pos] b] by (auto simp: in_bucket_def job_cell_def)
  have each: "(case target_index (hj_macs job) (df_macs day ! source) of
         None \<Rightarrow> 0 | Some target \<Rightarrow> (\<Sum>rnd<?R. ?v target source rnd)) =
      (if df_macs day ! source = hj_macs job ! k then
         (\<Sum>rnd<?R. if in_bucket job b (df_timestamps day ! rnd) then ?w source rnd else 0) else 0)" for source
  proof (cases "df_macs day ! source = hj_macs job ! k")
    case True
    then have "target_index (hj_macs job) (df_macs day ! source) = Some k"
      using target_index_Some [OF macs] k by simp
    then show ?thesis using True by (simp add: cell)
  next
    case False
    then have "target_index (hj_macs job) (df_macs day ! source) \<noteq> Some k"
      using target_index_Some [OF macs] by simp
    then show ?thesis unfolding cell using False
      by (cases "target_index (hj_macs job) (df_macs day ! source)") simp_all
  qed
  show "length (fld (count_day job day A)) = length (fld A)"
    using first by (simp add: count_day_def v second Let_def)
  show "fld (count_day job day A) ! ?c = fld A ! ?c +
      (\<Sum>source<length (df_macs day). if df_macs day ! source = hj_macs job ! k then
         (\<Sum>rnd<?R. if in_bucket job b (df_timestamps day ! rnd) then ?w source rnd else 0) else 0)"
    using first by (simp add: count_day_def v second Let_def each)
qed

end
