(* ===== verification/DailyTotals.thy ===== *)
theory DailyTotals
imports DailyHistory
begin

text \<open>
  From the database of the controller to the numbers of the browser: what \<open>history\<close> counts over
  exported files, in terms of the results that the database held when each file was written.
\<close>

section \<open>The results that a cell shows\<close>

text \<open>
  For the device with MAC \<open>m\<close> and the bucket \<open>b\<close> of a job: the last result of every round of one
  day that falls into the bucket.
\<close>

definition shown_results :: "ping_db \<Rightarrow> int \<Rightarrow> history_job \<Rightarrow> string \<Rightarrow> nat \<Rightarrow> result_row set" where
  "shown_results db start job m b =
     {p. \<exists>t \<in> set (db_targets db). \<exists>\<tau>. target_mac t = Some m \<and> start \<le> \<tau> \<and> \<tau> < day_end start \<and>
           in_bucket job b (nat \<tau>) \<and> last_result (\<lambda>p. True) db (tg_id t) \<tau> = Some p}"

lemma last_result_Some:
  assumes "last_result P db target \<tau> = Some p"
  shows "p \<in> set (db_results db)" "pr_target p = target" "pr_observed_at p = \<tau>"
proof -
  obtain q qs where f: "filter (\<lambda>p. pr_target p = target \<and> pr_observed_at p = \<tau> \<and> P p) (db_results db) = q # qs"
    and p: "p = last (sort_key pr_id (q # qs))"
    using assms by (auto simp: last_result_def split: list.splits)
  have "p \<in> set (sort_key pr_id (q # qs))" unfolding p by (rule last_in_set) (metis length_sort length_0_conv list.discI)
  then have "p \<in> set (filter (\<lambda>p. pr_target p = target \<and> pr_observed_at p = \<tau> \<and> P p) (db_results db))"
    unfolding f by (simp only: set_sort)
  then show "p \<in> set (db_results db)" "pr_target p = target" "pr_observed_at p = \<tau>" by simp_all
qed

lemma last_result_has_result:
  "last_result P db (tg_id t) \<tau> = Some p \<Longrightarrow> start \<le> \<tau> \<Longrightarrow> \<tau> < finish \<Longrightarrow> has_result db start finish t"
  using last_result_Some [of P db "tg_id t" \<tau> p] by (auto simp: has_result_def in_period_def)

text \<open>With one row per MAC the results are those of one target.\<close>

lemma shown_results_of:
  assumes "distinct (day_devices db start)"
    and t: "t \<in> set (db_targets db)" "has_result db start (day_end start) t" "target_mac t = Some m"
  shows "shown_results db start job m b =
    {p. \<exists>\<tau>. start \<le> \<tau> \<and> \<tau> < day_end start \<and> in_bucket job b (nat \<tau>) \<and>
          last_result (\<lambda>p. True) db (tg_id t) \<tau> = Some p}"
proof -
  have "tg_id u = tg_id t"
    if "u \<in> set (db_targets db)" "target_mac u = Some m" "start \<le> \<tau>" "\<tau> < day_end start"
      "last_result (\<lambda>p. True) db (tg_id u) \<tau> = Some p" for u \<tau> p
    using distinct_device_id [OF assms(1) that(1) last_result_has_result [OF that(5,3,4)] that(2) t] .
  with t show ?thesis unfolding shown_results_def by (metis (lifting))
qed

lemma shown_results_none:
  assumes "m \<notin> {m. \<exists>t \<in> set (db_targets db). has_result db start (day_end start) t \<and> target_mac t = Some m}"
  shows "shown_results db start job m b = {}"
  using assms by (auto simp: shown_results_def dest: last_result_has_result)

section \<open>One day\<close>

text \<open>What one result adds to a cell of a counting array.\<close>

definition result_weight ::
    "(byte \<Rightarrow> byte \<Rightarrow> nat list \<Rightarrow> 'w :: len word) \<Rightarrow> int list \<Rightarrow> result_row \<Rightarrow> 'w word" where
  "result_weight weight codebook p =
     weight (word_of_nat (latency_code codebook p)) (word_of_nat (state_code p)) (map nat codebook)"

lemma sum_nth_set: "distinct xs \<Longrightarrow> (\<Sum>i<length xs. h (xs ! i)) = (\<Sum>x\<in>set xs. h x)"
  using sum_list_distinct_conv_sum_set [of xs h] by (simp add: sum_list_sum_nth atLeast0LessThan)

lemma day_sum:
  fixes weight :: "byte \<Rightarrow> byte \<Rightarrow> nat list \<Rightarrow> 'w :: len word"
  assumes d: "day_matches cell db start d" and s: "0 \<le> start" and dist: "distinct (day_devices db start)"
    and zero: "\<And>cb. weight 0 0 cb = 0"
  shows "(\<Sum>source<length (df_macs d). if df_macs d ! source = m
         then (\<Sum>rnd<length (df_timestamps d). if in_bucket job b (df_timestamps d ! rnd)
                then weight (day_byte d (df_samples d) source rnd)
                       (day_byte d (tm_state (df_telemetry d)) source rnd) (df_codebook d) else 0)
         else 0) = (\<Sum>p\<in>shown_results db start job m b. result_weight weight (make_codebook cell) p)"
    (is "?lhs = _")
proof (cases "m \<in> set (df_macs d)")
  case False
  then have "shown_results db start job m b = {}"
    using d by (intro shown_results_none) (auto simp: day_matches_def)
  moreover have "?lhs = 0" using False by (intro sum.neutral) (auto dest: nth_mem)
  ultimately show ?thesis by simp
next
  case True
  let ?ts = "df_timestamps d"
  obtain i where i: "i < length (df_macs d)" "df_macs d ! i = m" using True by (auto simp: in_set_conv_nth)
  have "distinct (df_macs d)" "distinct ?ts" using d by (auto simp: day_matches_def strict_sorted_iff)
  then have only: "df_macs d ! k = m \<longleftrightarrow> k = i" if "k < length (df_macs d)" for k
    using i that by (auto simp: nth_eq_iff_index_eq)
  obtain t where t: "t \<in> set (db_targets db)" "has_result db start (day_end start) t" "target_mac t = Some m"
    using True d by (auto simp: day_matches_def)
  let ?L = "\<lambda>\<tau>. last_result (\<lambda>p. True) db (tg_id t) \<tau>"
  define h where "h n = (if in_bucket job b n then (case ?L (int n) of None \<Rightarrow> 0
      | Some p \<Rightarrow> result_weight weight (make_codebook cell) p) else 0)" for n
  have book: "df_codebook d = map nat (make_codebook cell)"
  proof -
    have "map int (df_codebook d) = make_codebook cell" using d by (simp add: day_matches_def)
    then show ?thesis by (simp add: o_def flip: \<open>map int (df_codebook d) = make_codebook cell\<close>)
  qed
  have byte: "(if in_bucket job b (?ts ! rnd) then weight (day_byte d (df_samples d) i rnd)
       (day_byte d (tm_state (df_telemetry d)) i rnd) (df_codebook d) else 0) = h (?ts ! rnd)"
    if "rnd < length ?ts" for rnd
  proof -
    have "cell_matches cell db d i rnd" and w: "int (df_start d) = start" "int (df_end d) = day_end start"
      using d i(1) that by (auto simp: day_matches_def)
    then obtain u where u: "u \<in> set (db_targets db)" "has_result db start (day_end start) u"
      "target_mac u = Some m" "day_byte d (df_samples d) i rnd =
        result_code (latency_code (make_codebook cell)) (last_result (\<lambda>p. True) db (tg_id u) (int (?ts ! rnd)))"
      "day_byte d (tm_state (df_telemetry d)) i rnd =
        result_code state_code (last_result (\<lambda>p. True) db (tg_id u) (int (?ts ! rnd)))"
      by (auto simp: cell_matches_def i(2) Let_def)
    have "tg_id u = tg_id t" using distinct_device_id [OF dist u(1-3) t] .
    then show ?thesis
      by (simp add: u(4,5) h_def result_code_def result_weight_def book zero split: option.split)
  qed
  have "?lhs = (\<Sum>k<length (df_macs d). if k = i then (\<Sum>rnd<length ?ts. h (?ts ! rnd)) else 0)"
    by (rule sum.cong) (auto simp: only byte intro!: sum.cong)
  also have "\<dots> = (\<Sum>n\<in>set ?ts. h n)" using i(1) \<open>distinct ?ts\<close> by (simp add: sum_nth_set)
  also have "\<dots> = (\<Sum>n\<in>(\<lambda>p. nat (pr_observed_at p)) ` shown_results db start job m b. h n)"
  proof (rule sum.mono_neutral_right)
    have rounds: "int ` set ?ts =
       {\<tau>. start \<le> \<tau> \<and> \<tau> < day_end start \<and> (\<exists>p \<in> set (db_results db). pr_observed_at p = \<tau>)}"
      using d by (simp add: day_matches_def)
    show "(\<lambda>p. nat (pr_observed_at p)) ` shown_results db start job m b \<subseteq> set ?ts"
    proof
      fix n assume "n \<in> (\<lambda>p. nat (pr_observed_at p)) ` shown_results db start job m b"
      then obtain p \<tau> where p: "n = nat (pr_observed_at p)" "start \<le> \<tau>" "\<tau> < day_end start" "?L \<tau> = Some p"
        unfolding shown_results_of [OF dist t] by blast
      have "\<tau> \<in> int ` set ?ts" unfolding rounds using p last_result_Some [OF p(4)] by auto
      then show "n \<in> set ?ts" using p(1) last_result_Some(3) [OF p(4)] by auto
    qed
    show "\<forall>n \<in> set ?ts - (\<lambda>p. nat (pr_observed_at p)) ` shown_results db start job m b. h n = 0"
    proof (rule ballI, rule ccontr)
      fix n assume n: "n \<in> set ?ts - (\<lambda>p. nat (pr_observed_at p)) ` shown_results db start job m b" "h n \<noteq> 0"
      then obtain p where p: "in_bucket job b n" "?L (int n) = Some p"
        by (auto simp: h_def split: if_splits option.splits)
      have "int n \<in> int ` set ?ts" using n(1) by simp
      then have "p \<in> shown_results db start job m b"
        unfolding rounds shown_results_of [OF dist t] using p by auto
      then show False using n(1) last_result_Some(3) [OF p(2)] by force
    qed
  qed simp
  also have "\<dots> = (\<Sum>p\<in>shown_results db start job m b. result_weight weight (make_codebook cell) p)"
  proof (rule sum.reindex_cong [OF _ refl])
    have unique: "\<exists>\<tau>. pr_observed_at p = \<tau> \<and> 0 \<le> \<tau> \<and> in_bucket job b (nat \<tau>) \<and> ?L \<tau> = Some p"
      if "p \<in> shown_results db start job m b" for p
      using that s last_result_Some(3) unfolding shown_results_of [OF dist t] by fastforce
    show "inj_on (\<lambda>p. nat (pr_observed_at p)) (shown_results db start job m b)"
    proof (rule inj_onI)
      fix p q assume "p \<in> shown_results db start job m b" "q \<in> shown_results db start job m b"
        "nat (pr_observed_at p) = nat (pr_observed_at q)"
      with unique show "p = q" by (metis eq_nat_nat_iff option.inject)
    qed
    fix p assume "p \<in> shown_results db start job m b"
    with unique [OF this] show "h (nat (pr_observed_at p)) = result_weight weight (make_codebook cell) p"
      by (auto simp: h_def)
  qed
  finally show ?thesis .
qed

section \<open>All files of a job\<close>

lemma history_files_fold:
  "map parse_day files = map Inr days \<Longrightarrow>
   history_files job files A = Inr (fold (count_day job) days A)"
  by (induction files arbitrary: days A) (auto simp: Cons_eq_map_conv)

text \<open>Each file was exported from the database of its time.\<close>

definition exported_days :: "(nat \<Rightarrow> int) \<Rightarrow> (ping_db \<times> int) list \<Rightarrow> bytes list \<Rightarrow> bool" where
  "exported_days cell days files \<longleftrightarrow>
     map (\<lambda>(db, start). export_day cell db start) days = map Some files \<and>
     (\<forall>(db, start) \<in> set days.
        0 \<le> start \<and> start + 86400 < 2 ^ 32 \<and> distinct (day_devices db start))"

lemma exported_days_read:
  assumes c: "accurate_cells cell" and e: "exported_days cell days files"
  shows "map parse_day files = map Inr (map (\<lambda>(db, start). decoded (day_contents_of cell db start)) days)"
  using e
proof (induction days arbitrary: files)
  case Nil
  then show ?case by (simp add: exported_days_def)
next
  case (Cons x days)
  obtain db start where x: "x = (db, start)" by (cases x)
  obtain b bs where files: "files = b # bs" "export_day cell db start = Some b"
    using Cons.prems by (auto simp: exported_days_def x Cons_eq_map_conv)
  have "0 \<le> start" "start + 86400 < 2 ^ 32" "distinct (day_devices db start)" "exported_days cell days bs"
    using Cons.prems by (auto simp: exported_days_def x files)
  with Cons.IH [of bs] export_day_reads(3) [OF c _ _ files(2)] show ?case by (simp add: x files(1))
qed

lemma decoded_version: "df_version (decoded c) = 2"
  by (simp add: decoded_def)

lemma history_counts:
  fixes fld :: "history_arrays \<Rightarrow> 'w :: len word list"
  assumes c: "accurate_cells cell" and e: "exported_days cell days files"
    and f: "counts fld weight" and zero: "\<And>cb. weight 0 0 cb = 0" and macs: "distinct (hj_macs job)"
    and k: "k < length (hj_macs job)" and b: "b < job_buckets job" and pos: "0 < hj_bucket job"
    and n: "fld (empty_arrays (length (hj_macs job) * job_buckets job)) =
            replicate (length (hj_macs job) * job_buckets job) 0"
    and A: "history job files = Inr A"
  shows "fld A ! (k * job_buckets job + b) = (\<Sum>(db, start)\<leftarrow>days.
           \<Sum>p\<in>shown_results db start job (hj_macs job ! k) b. result_weight weight (make_codebook cell) p)"
proof -
  let ?n = "length (hj_macs job) * job_buckets job" and ?c = "k * job_buckets job + b"
  let ?day = "\<lambda>(db, start). decoded (day_contents_of cell db start)"
  let ?v = "\<lambda>(db, start). \<Sum>p\<in>shown_results db start job (hj_macs job ! k) b.
      result_weight weight (make_codebook cell) p"
  have "A = fold (\<lambda>x. count_day job (?day x)) days (empty_arrays ?n)"
    using A history_files_fold [OF exported_days_read [OF c e], of job "empty_arrays ?n"]
    by (simp add: history_def fold_map o_def)
  moreover have "length (fld (fold (\<lambda>x. count_day job (?day x)) days (empty_arrays ?n))) = ?n \<and>
      fld (fold (\<lambda>x. count_day job (?day x)) days (empty_arrays ?n)) ! ?c =
        fld (empty_arrays ?n) ! ?c + (\<Sum>x\<leftarrow>days. ?v x)"
  proof (rule fold_tally [where fld = fld])
    fix x B assume x: "x \<in> set days" and B: "length (fld B) = ?n"
    obtain db start where xe: "x = (db, start)" by (cases x)
    have s: "0 \<le> start" "start + 86400 < 2 ^ 32" "distinct (day_devices db start)"
      using e x xe by (auto simp: exported_days_def)
    have "export_day cell db start \<in> set (map (\<lambda>(db, start). export_day cell db start) days)"
      using x xe by force
    then have "export_day cell db start \<in> set (map Some files)"
      using e by (simp only: exported_days_def)
    then obtain bytes where bytes: "export_day cell db start = Some bytes" by auto
    note match = decoded_matches [OF c s(1,2) export_day_reads(1) [OF c s(1,2) bytes] s(3)]
    show "length (fld (count_day job (?day x) B)) = ?n \<and>
        fld (count_day job (?day x) B) ! ?c = fld B ! ?c + ?v x"
      using day_tally [OF f decoded_version macs k b pos B] B
        day_sum [OF match s(1) s(3), where weight = weight, OF zero]
      by (simp add: xe)
  qed (simp add: n)
  moreover have "?c < ?n"
  proof -
    have "Suc k * job_buckets job \<le> ?n" using k by (intro mult_le_mono1) simp
    then show ?thesis using b by simp
  qed
  ultimately show ?thesis by (simp add: n split_def)
qed

section \<open>The numbers of the browser\<close>

definition replied :: "result_row \<Rightarrow> bool" where
  "replied p \<longleftrightarrow> pr_responded p \<noteq> 0 \<and> pr_state p = StateOk"

definition attempted :: "result_row \<Rightarrow> bool" where
  "attempted p \<longleftrightarrow> replied p \<or> pr_state p = StateTimeout"

text \<open>The entry of the code book that stands for the time of a reply.\<close>

definition coded_latency :: "(nat \<Rightarrow> int) \<Rightarrow> result_row \<Rightarrow> nat" where
  "coded_latency cell p =
     nat (make_codebook cell ! (encode_latency (make_codebook cell) (pr_rtt p) - 1))"

definition job_total ::
    "(ping_db \<times> int) list \<Rightarrow> history_job \<Rightarrow> string \<Rightarrow> nat \<Rightarrow> (result_row \<Rightarrow> nat) \<Rightarrow> nat" where
  "job_total days job m b w = (\<Sum>(db, start)\<leftarrow>days. \<Sum>p\<in>shown_results db start job m b. w p)"

lemma job_total_word:
  assumes "\<And>p. v p = (word_of_nat (w p) :: 'w :: len word)"
  shows "(\<Sum>(db, start)\<leftarrow>days. \<Sum>p\<in>shown_results db start job m b. v p) = of_nat (job_total days job m b w)"
  unfolding job_total_def by (induction days) (auto simp: assms)

lemma result_weights:
  assumes c: "accurate_cells cell"
  shows "result_weight (\<lambda>code state cb. of_bool (code \<noteq> 0)) (make_codebook cell) p =
      word_of_nat (of_bool (attempted p))"
    "result_weight (\<lambda>code state cb. of_bool (code \<noteq> 0 \<and> code \<noteq> 255)) (make_codebook cell) p =
      word_of_nat (of_bool (replied p))"
    "result_weight (\<lambda>code state cb. if code = 0 \<or> code = 255 then 0 else word_of_nat (cb ! (unat code - 1)))
      (make_codebook cell) p = word_of_nat (if replied p then coded_latency cell p else 0)"
    "result_weight (\<lambda>code state cb. of_bool (state \<noteq> 0)) cb p =
      word_of_nat (of_bool (pr_state p \<noteq> StateUnknown))"
    "result_weight (\<lambda>code state cb. of_bool (state = 1)) cb p =
      word_of_nat (of_bool (pr_state p \<notin> {StateUnknown, StateNotAssociated}))"
proof -
  let ?code = "encode_latency (make_codebook cell) (pr_rtt p)"
  have r: "1 \<le> ?code" "?code \<le> 254" using encode_latency_range [OF c, of "pr_rtt p"] by simp_all
  then have u: "unat (word_of_nat ?code :: byte) = ?code" by (intro unat_byte) simp
  then have w: "(word_of_nat ?code :: byte) \<noteq> 0" "(word_of_nat ?code :: byte) \<noteq> 255"
    using r by (auto simp: unat_eq_0 [symmetric] dest: arg_cong [where f = unat])
  have n: "?code - 1 < length (make_codebook cell)" using r by (simp add: make_codebook_def CODE_COUNT_def)
  note defs = result_weight_def latency_code_def attempted_def replied_def coded_latency_def
  show "result_weight (\<lambda>code state cb. of_bool (code \<noteq> 0)) (make_codebook cell) p =
      word_of_nat (of_bool (attempted p))"
    using w by (simp add: defs)
  show "result_weight (\<lambda>code state cb. of_bool (code \<noteq> 0 \<and> code \<noteq> 255)) (make_codebook cell) p =
      word_of_nat (of_bool (replied p))"
    using w by (simp add: defs)
  show "result_weight (\<lambda>code state cb. if code = 0 \<or> code = 255 then 0 else word_of_nat (cb ! (unat code - 1)))
      (make_codebook cell) p = word_of_nat (if replied p then coded_latency cell p else 0)"
    using w n by (simp add: defs u)
  show "result_weight (\<lambda>code state cb. of_bool (state \<noteq> 0)) cb p =
      word_of_nat (of_bool (pr_state p \<noteq> StateUnknown))"
    "result_weight (\<lambda>code state cb. of_bool (state = 1)) cb p =
      word_of_nat (of_bool (pr_state p \<notin> {StateUnknown, StateNotAssociated}))"
    by (simp_all add: result_weight_def state_code_def)
qed

text \<open>
  C24. The history that the browser shows is the history of the database: for a job over files
  that the controller exported, each from the database of its time and with one row per MAC, the
  worker succeeds, and in the cell of a device and a time bucket it counts, modulo the width of
  the array, the last results of the rounds of the bucket: the attempts are the replies and the
  timeouts, the replies those that answered, the sum adds for each reply the entry of the code
  book that stands for its time, known and associated count the states.
\<close>

theorem history_counts_exact:
  assumes "accurate_cells cell" "exported_days cell days files"
    and "distinct (hj_macs job)" "0 < hj_bucket job"
    and "k < length (hj_macs job)" "b < job_buckets job"
  shows "\<exists>A. history job files = Inr A \<and>
    (let c = k * job_buckets job + b; total = job_total days job (hj_macs job ! k) b
     in ha_attempts A ! c = of_nat (total (\<lambda>p. of_bool (attempted p))) \<and>
        ha_replies A ! c = of_nat (total (\<lambda>p. of_bool (replied p))) \<and>
        ha_latency_sum A ! c = of_nat (total (\<lambda>p. if replied p then coded_latency cell p else 0)) \<and>
        ha_known A ! c = of_nat (total (\<lambda>p. of_bool (pr_state p \<noteq> StateUnknown))) \<and>
        ha_associated A ! c =
          of_nat (total (\<lambda>p. of_bool (pr_state p \<notin> {StateUnknown, StateNotAssociated}))))"
proof -
  obtain A where A: "history job files = Inr A"
    using history_files_fold [OF exported_days_read [OF assms(1,2)]] by (simp add: history_def)
  note counted = history_counts [OF assms(1,2) _ _ assms(3,5,6,4) _ A]
  note weights = result_weights [OF assms(1)]
  show ?thesis
    using A counted [OF counts_arrays(1)] counted [OF counts_arrays(2)] counted [OF counts_arrays(3)]
      counted [OF counts_arrays(4)] counted [OF counts_arrays(5)]
    by (simp only: Let_def job_total_word [OF weights(1)] job_total_word [OF weights(2)]
        job_total_word [OF weights(3)] job_total_word [OF weights(4)] job_total_word [OF weights(5)])
      (simp add: empty_arrays_def)
qed

text \<open>One client in the sample database, shown in two buckets of half a day.\<close>

definition sample_job :: history_job where
  "sample_job = \<lparr>hj_macs = [''aa:bb:cc:dd:ee:ff''], hj_start = 86400, hj_end = 172800, hj_bucket = 43200,
     hj_band_g = False\<rparr>"

lemma sample_shown:
  "shown_results (sample_db ''AA:BB:CC:DD:EE:FF'') 86400 sample_job ''aa:bb:cc:dd:ee:ff'' 0 =
     {sample_result 1 86410 1 StateOk}"
proof -
  have "target_mac (sample_target 1 KindClient ''AA:BB:CC:DD:EE:FF'') = Some ''aa:bb:cc:dd:ee:ff''"
    "target_mac (sample_target 2 KindAp ''00:11:22:33:44:55'') \<noteq> Some ''aa:bb:cc:dd:ee:ff''"
    by (simp_all add: target_mac_def sample_defs sample_macs)
  moreover have "last_result (\<lambda>p. True) (sample_db ''AA:BB:CC:DD:EE:FF'') 1 \<tau> = Some p \<longleftrightarrow>
      \<tau> = 86410 \<and> p = sample_result 1 86410 1 StateOk" for \<tau> p
    by (auto simp: last_result_def sample_db_def sample_result_def)
  moreover have "in_bucket sample_job 0 86410"
    by (simp add: in_bucket_def job_covers_def sample_job_def)
  ultimately show ?thesis
    by (auto simp: shown_results_def sample_db_def day_end_def sample_target_def)
qed

theorem history_counts_exact_witness:
  "\<exists>b A. export_day rounded_cells (sample_db ''AA:BB:CC:DD:EE:FF'') 86400 = Some b \<and>
         history sample_job [b] = Inr A \<and> ha_attempts A ! 0 = 1 \<and> ha_replies A ! 0 = 1"
proof -
  let ?db = "sample_db ''AA:BB:CC:DD:EE:FF''"
  obtain b where b: "export_day rounded_cells ?db 86400 = Some b" using sample_exports by blast
  have "distinct (day_devices ?db 86400)" by (simp add: day_devices_def day_end_def sample_loads)
  with b have e: "exported_days rounded_cells [(?db, 86400)] [b]" by (simp add: exported_days_def)
  have job: "distinct (hj_macs sample_job)" "0 < hj_bucket sample_job" "0 < length (hj_macs sample_job)"
    "0 < job_buckets sample_job" "hj_macs sample_job ! 0 = ''aa:bb:cc:dd:ee:ff''"
    by (simp_all add: sample_job_def job_buckets_def)
  show ?thesis
    using history_counts_exact [OF rounded_cells_accurate e job(1-4)] b
    by (auto simp: Let_def job(5) job_total_def sample_shown attempted_def replied_def sample_result_def)
qed

end
