(* ===== verification/DailyPublish.thy ===== *)
theory DailyPublish
imports DailyTotals FileStore
begin

text \<open>
  \<open>ping-daily-publish.sh\<close>: after every round the file of the current day is exported again, the
  file of the day before is kept under its date, and old files go.  Paths are relative to
  \<open>$daily_dir\<close>, files of the directory above start with \<open>../\<close>.  A run is the list of the stores
  it passes through, so that a run that is killed is one that ends at any of them.  The exporter
  is \<open>export_day\<close> on the database of the moment; its two JSON reports, the compressor and the
  expansion of the file name pattern are parameters.
\<close>

section \<open>Names\<close>

definition CURRENT :: path where "CURRENT = ''ping-current.bin.gz''"
definition MARKER :: path where "MARKER = ''current-day''"
definition TARGETS :: path where "TARGETS = ''../targets.json''"
definition MANIFEST :: path where "MANIFEST = ''../daily-manifest.json''"

definition completed :: "string \<Rightarrow> path" where
  "completed day = ''ping-'' @ day @ ''.bin.gz''"

definition temporary :: "string \<Rightarrow> nat \<Rightarrow> path" where
  "temporary name pid = name @ ''.'' @ decimal pid"

definition utc_day :: "nat \<Rightarrow> nat" where
  "utc_day now = now div 86400 * 86400"

text \<open>\<open>printf '%s\n' "$day"\<close>, and \<open>$(sed -n '1p' "$marker")\<close> with the check for digits.\<close>

definition day_line :: "nat \<Rightarrow> bytes" where
  "day_line day = map (\<lambda>c. word_of_nat (code_point c)) (decimal day) @ [10]"

definition marker_day :: "store \<Rightarrow> string option" where
  "marker_day s =
     (case s MARKER of
        None \<Rightarrow> None
      | Some b \<Rightarrow>
          let line = map (\<lambda>w. char_of (unat w)) (takeWhile (\<lambda>w. w \<noteq> 10) b)
          in if is_digits line then Some line else None)"

section \<open>Steps\<close>

type_synonym action = "store \<Rightarrow> store"

definition rotate_day :: "nat \<Rightarrow> action" where
  "rotate_day day s =
     (case marker_day s of
        None \<Rightarrow> s
      | Some previous \<Rightarrow>
          if decimal_value previous \<noteq> day \<and> s CURRENT \<noteq> None
          then fs_replace CURRENT (completed previous) s else s)"

text \<open>\<open>case\<close> on the name without \<open>ping-\<close> and \<open>.bin.gz\<close>, for the names the pattern matches.\<close>

definition period_of :: "path \<Rightarrow> string option" where
  "period_of name =
     (if 12 \<le> length name \<and> take 5 name = ''ping-'' \<and> drop (length name - 7) name = ''.bin.gz''
      then Some (drop 5 (take (length name - 7) name)) else None)"

definition expired :: "int \<Rightarrow> path \<Rightarrow> bool" where
  "expired cutoff name \<longleftrightarrow>
     (case period_of name of
        None \<Rightarrow> False
      | Some v \<Rightarrow> is_digits v \<and> int (decimal_value v) < cutoff)"

definition expire :: "int \<Rightarrow> path \<Rightarrow> action" where
  "expire cutoff name s = (if s name \<noteq> None \<and> expired cutoff name then fs_unlink name s else s)"

text \<open>A file written from a pipe is empty first and complete last.\<close>

definition stage :: "path \<Rightarrow> bytes \<Rightarrow> bytes \<Rightarrow> action list" where
  "stage tmp partial b = [fs_put tmp [], fs_put tmp partial, fs_put tmp b]"

fun perform :: "action list \<Rightarrow> store \<Rightarrow> store list" where
  "perform [] s = [s]"
| "perform (a # as) s = s # perform as (a s)"

definition then_do :: "store list \<Rightarrow> (store \<Rightarrow> store list) \<Rightarrow> store list" where
  "then_do states f = butlast states @ f (last states)"

section \<open>A run\<close>

record publish_run =
  pb_now :: nat
  pb_pid :: nat
  pb_db :: ping_db
  pb_fails :: bool
  pb_partial :: bytes
  pb_targets :: "bytes option"
  pb_manifest :: "store \<Rightarrow> bytes option"

record publisher =
  pp_cell :: "nat \<Rightarrow> int"
  pp_gzip :: "bytes \<Rightarrow> bytes"
  pp_listing :: "store \<Rightarrow> path list"

definition run_day :: "publish_run \<Rightarrow> nat" where
  "run_day r = utc_day (pb_now r)"

definition run_export :: "publisher \<Rightarrow> publish_run \<Rightarrow> bytes option" where
  "run_export pub r = (if pb_fails r then None else export_day (pp_cell pub) (pb_db r) (int (run_day r)))"

definition run_cutoff :: "publish_run \<Rightarrow> int" where
  "run_cutoff r = int (run_day r) - 30 * 86400"

definition cleanup :: "nat \<Rightarrow> action list" where
  "cleanup pid = map fs_unlink (map (\<lambda>name. temporary name pid)
     [''.ping-current.bin'', ''.ping-current.bin.gz'', ''.current-day'', ''../.targets.json'',
      ''../.daily-manifest.json''])"

text \<open>
  The reports, at the end of both modes: a command that fails ends the run, and the trap removes
  its files.
\<close>

definition publish_manifest :: "action list \<Rightarrow> action list \<Rightarrow> publish_run \<Rightarrow> store \<Rightarrow> store list" where
  "publish_manifest trap rest r s =
     (let tmp = temporary ''../.daily-manifest.json'' (pb_pid r)
      in case pb_manifest r s of
           None \<Rightarrow> perform (fs_put tmp (pb_partial r) # trap) s
         | Some m \<Rightarrow> perform (stage tmp (pb_partial r) m @ [fs_replace tmp MANIFEST] @ rest) s)"

definition publish_targets :: "action list \<Rightarrow> action list \<Rightarrow> publish_run \<Rightarrow> store \<Rightarrow> store list" where
  "publish_targets trap rest r s =
     (let tmp = temporary ''../.targets.json'' (pb_pid r)
      in case pb_targets r of
           None \<Rightarrow> perform (fs_put tmp (pb_partial r) # trap) s
         | Some t \<Rightarrow> then_do (perform (stage tmp (pb_partial r) t @ [fs_replace tmp TARGETS]) s)
             (publish_manifest trap rest r))"

definition publish_reports :: "publish_run \<Rightarrow> store \<Rightarrow> store list" where
  "publish_reports r = publish_targets (cleanup (pb_pid r)) [fs_unlink (temporary ''.ping-current.bin'' (pb_pid r))] r"

definition stage_day :: "publisher \<Rightarrow> publish_run \<Rightarrow> bytes \<Rightarrow> action list" where
  "stage_day pub r b =
     stage (temporary ''.ping-current.bin'' (pb_pid r)) (pb_partial r) b @
     stage (temporary ''.ping-current.bin.gz'' (pb_pid r)) (pb_partial r) (pp_gzip pub b) @
     stage (temporary ''.current-day'' (pb_pid r)) (pb_partial r) (day_line (run_day r))"

definition publish :: "publisher \<Rightarrow> publish_run \<Rightarrow> store \<Rightarrow> store list" where
  "publish pub r s =
     (case run_export pub r of
        None \<Rightarrow> perform ([rotate_day (run_day r), fs_put (temporary ''.ping-current.bin'' (pb_pid r)) (pb_partial r)]
                  @ cleanup (pb_pid r)) s
      | Some b \<Rightarrow>
          then_do
            (then_do
              (perform ([rotate_day (run_day r)] @ stage_day pub r b @
                 [fs_replace (temporary ''.ping-current.bin.gz'' (pb_pid r)) CURRENT,
                  fs_replace (temporary ''.current-day'' (pb_pid r)) MARKER]) s)
              (\<lambda>s. perform (map (expire (run_cutoff r)) (pp_listing pub s)) s))
            (publish_reports r))"

definition publish_runs :: "publisher \<Rightarrow> publish_run list \<Rightarrow> store \<Rightarrow> store" where
  "publish_runs pub rs s = fold (\<lambda>r s. last (publish pub r s)) rs s"

section \<open>Hidden steps\<close>

text \<open>Temporary files and the reports start with a dot; nothing else the browser reads does.\<close>

definition served :: "path \<Rightarrow> bool" where
  "served p \<longleftrightarrow> p \<noteq> [] \<and> hd p \<noteq> CHR ''.''"

text \<open>A property of stores that a step preserves, and one that all steps outside the served files do.\<close>

definition keeps :: "(store \<Rightarrow> bool) \<Rightarrow> action \<Rightarrow> bool" where
  "keeps I a \<longleftrightarrow> (\<forall>s. I s \<longrightarrow> I (a s))"

definition aside :: "(store \<Rightarrow> bool) \<Rightarrow> bool" where
  "aside I \<longleftrightarrow> (\<forall>t. \<not> served t \<longrightarrow>
     (\<forall>b. keeps I (fs_put t b)) \<and> keeps I (fs_unlink t) \<and> (\<forall>d. \<not> served d \<longrightarrow> keeps I (fs_replace t d)))"

lemma served_names [simp]:
  "served CURRENT" "served MARKER" "served (completed d)"
  by (simp_all add: served_def CURRENT_def MARKER_def completed_def)

lemma unserved_names [simp]:
  "\<not> served TARGETS" "\<not> served MANIFEST" "\<not> served (temporary (CHR ''.'' # name) pid)"
  by (simp_all add: served_def TARGETS_def MANIFEST_def temporary_def)

lemma aside_served: "served p \<Longrightarrow> aside (\<lambda>s. s p = v)"
  by (auto simp: aside_def keeps_def fs_put_def fs_unlink_def fs_replace_def)

lemma finite_steps:
  "keeps (\<lambda>s. finite (dom s)) (fs_put t b)" "keeps (\<lambda>s. finite (dom s)) (fs_unlink t)"
  "keeps (\<lambda>s. finite (dom s)) (fs_replace t d)"
proof -
  show "keeps (\<lambda>s. finite (dom s)) (fs_put t b)" by (simp add: keeps_def fs_put_def)
  show "keeps (\<lambda>s. finite (dom s)) (fs_unlink t)" by (simp add: keeps_def fs_unlink_def)
  have "dom (fs_replace t d s) \<subseteq> insert d (dom s)" for s by (auto simp: fs_replace_def)
  then show "keeps (\<lambda>s. finite (dom s)) (fs_replace t d)"
    unfolding keeps_def by (meson finite_insert finite_subset)
qed

lemma aside_finite: "aside (\<lambda>s. finite (dom s))"
  by (simp add: aside_def finite_steps)

lemma aside_steps:
  assumes "aside I"
  shows "\<not> served t \<Longrightarrow> keeps I (fs_put t b)" "\<not> served t \<Longrightarrow> keeps I (fs_unlink t)"
    "\<not> served t \<Longrightarrow> \<not> served d \<Longrightarrow> keeps I (fs_replace t d)"
    "\<not> served t \<Longrightarrow> list_all (keeps I) (stage t partial b)" "list_all (keeps I) (cleanup pid)"
    "list_all (keeps I) (stage_day pub r b)"
  using assms by (auto simp: aside_def stage_def cleanup_def stage_day_def)

lemma perform_nonempty [simp]: "perform as s \<noteq> []"
  by (cases as) simp_all

lemma last_perform: "last (perform as s) = fold (\<lambda>a. a) as s"
  by (induction as arbitrary: s) simp_all

lemma set_then_do: "states \<noteq> [] \<Longrightarrow> set (then_do states f) \<subseteq> set states \<union> set (f (last states))"
  by (auto simp: then_do_def dest: in_set_butlastD)

lemma last_then_do [simp]: "f (last states) \<noteq> [] \<Longrightarrow> last (then_do states f) = last (f (last states))"
  by (simp add: then_do_def)

lemma then_do_nonempty [simp]: "f (last states) \<noteq> [] \<Longrightarrow> then_do states f \<noteq> []"
  by (simp add: then_do_def)

lemma perform_keeps: "list_all (keeps I) as \<Longrightarrow> I s \<Longrightarrow> st \<in> set (perform as s) \<Longrightarrow> I st"
  by (induction as arbitrary: s) (auto simp: keeps_def)

lemma then_do_keeps:
  assumes "\<And>st. st \<in> set states \<Longrightarrow> I st" "states \<noteq> []" "\<And>s st. I s \<Longrightarrow> st \<in> set (f s) \<Longrightarrow> I st"
    and "st \<in> set (then_do states f)"
  shows "I st"
  using assms set_then_do [of states f] last_in_set [of states] by blast

lemma publish_manifest_nonempty [simp]: "publish_manifest trap rest r s \<noteq> []"
  by (simp add: publish_manifest_def Let_def split: option.split)

lemma publish_targets_nonempty [simp]: "publish_targets trap rest r s \<noteq> []"
  by (simp add: publish_targets_def Let_def split: option.split)

lemma publish_reports_nonempty [simp]: "publish_reports r s \<noteq> []"
  by (simp add: publish_reports_def)

lemma publish_manifest_keeps:
  assumes "aside I" "list_all (keeps I) trap" "list_all (keeps I) rest" "I s"
    and st: "st \<in> set (publish_manifest trap rest r s)"
  shows "I st"
proof -
  define as where "as = (case pb_manifest r s of
        None \<Rightarrow> fs_put (temporary ''../.daily-manifest.json'' (pb_pid r)) (pb_partial r) # trap
      | Some m \<Rightarrow> stage (temporary ''../.daily-manifest.json'' (pb_pid r)) (pb_partial r) m @
          [fs_replace (temporary ''../.daily-manifest.json'' (pb_pid r)) MANIFEST] @ rest)"
  have "publish_manifest trap rest r s = perform as s"
    by (simp add: publish_manifest_def as_def Let_def split: option.split)
  moreover have "list_all (keeps I) as"
    by (simp add: as_def aside_steps [OF assms(1)] assms(2,3) split: option.split)
  ultimately show ?thesis using perform_keeps [where I = I, OF _ assms(4)] st by metis
qed

lemma publish_targets_keeps:
  assumes "aside I" "list_all (keeps I) trap" "list_all (keeps I) rest" "I s"
    and st: "st \<in> set (publish_targets trap rest r s)"
  shows "I st"
proof (cases "pb_targets r")
  case None
  have "list_all (keeps I) (fs_put (temporary ''../.targets.json'' (pb_pid r)) (pb_partial r) # trap)"
    by (simp add: aside_steps [OF assms(1)] assms(2))
  from perform_keeps [where I = I, OF this assms(4)] None st show ?thesis
    by (simp add: publish_targets_def Let_def)
next
  case (Some t)
  let ?as = "stage (temporary ''../.targets.json'' (pb_pid r)) (pb_partial r) t @
      [fs_replace (temporary ''../.targets.json'' (pb_pid r)) TARGETS]"
  have "list_all (keeps I) ?as" by (simp add: aside_steps [OF assms(1)])
  note first = perform_keeps [where I = I, OF this assms(4)]
  from Some st have "st \<in> set (then_do (perform ?as s) (publish_manifest trap rest r))"
    by (simp add: publish_targets_def Let_def)
  then show ?thesis
    using then_do_keeps [where I = I, OF first _ publish_manifest_keeps [where I = I, OF assms(1-3)]] by simp
qed

lemma publish_reports_keeps:
  assumes "aside I" "I s" "st \<in> set (publish_reports r s)"
  shows "I st"
  using publish_targets_keeps [where I = I, OF assms(1) _ _ assms(2) assms(3) [unfolded publish_reports_def]]
  by (simp add: aside_steps [OF assms(1)])

section \<open>The served files after a run\<close>

lemma period_of_completed: "period_of name = Some v \<longleftrightarrow> name = completed v"
proof
  assume "period_of name = Some v"
  then have n: "12 \<le> length name" "take 5 name = ''ping-''" "drop (length name - 7) name = ''.bin.gz''"
    and v: "v = drop 5 (take (length name - 7) name)"
    by (auto simp: period_of_def split: if_splits)
  let ?front = "take (length name - 7) name"
  have "5 \<le> length name - 7" using n(1) by arith
  then have "take 5 ?front = take 5 name" by (simp add: min_absorb1)
  then have "?front = take 5 name @ drop 5 ?front" by (metis append_take_drop_id)
  moreover have "name = ?front @ drop (length name - 7) name" by simp
  ultimately have "name = (take 5 name @ drop 5 ?front) @ drop (length name - 7) name" by metis
  then show "name = completed v" unfolding n(2,3) v [symmetric] by (simp only: completed_def append.assoc)
next
  assume "name = completed v"
  then show "period_of name = Some v" by (simp add: period_of_def completed_def)
qed

lemma fold_expire:
  "fold (\<lambda>a. a) (map (expire cutoff) names) s p =
   (if p \<in> set names \<and> expired cutoff p then None else s p)"
  by (induction names arbitrary: s) (auto simp: expire_def fs_unlink_def)

text \<open>The rotation and the two renames, and what they leave.\<close>

lemma code_point_word: "char_of (unat (word_of_nat (code_point c) :: byte)) = c"
  by (simp add: code_point_def unat_of_nat)

lemma decimal_no_newline: "c \<in> set (decimal n) \<Longrightarrow> (word_of_nat (code_point c) :: byte) \<noteq> 10"
proof
  assume "c \<in> set (decimal n)" "(word_of_nat (code_point c) :: byte) = 10"
  moreover from this(1) have "48 \<le> code_point c" "code_point c < 256"
    using decimal_digits [of n] code_point_bound [of c]
    by (auto simp: is_digits_def list_all_iff is_ascii_digit_def in_range_def)
  moreover have "unat (word_of_nat (code_point c) :: byte) = code_point c"
    using \<open>code_point c < 256\<close> by (rule unat_byte)
  ultimately show False by simp
qed

lemma marker_day_line: "s MARKER = Some (day_line d) \<Longrightarrow> marker_day s = Some (decimal d)"
proof -
  have "takeWhile (\<lambda>w. w \<noteq> 10) (day_line d) = map (\<lambda>c. word_of_nat (code_point c)) (decimal d)"
    unfolding day_line_def by (subst takeWhile_append2) (auto simp: decimal_no_newline)
  then show "s MARKER = Some (day_line d) \<Longrightarrow> marker_day s = Some (decimal d)"
    by (simp add: marker_day_def o_def code_point_word decimal_digits)
qed

lemma completed_decimal [simp]: "completed (decimal d) = completed (decimal e) \<longleftrightarrow> d = e"
  by (metis append_same_eq completed_def decimal_value_decimal same_append_eq)

lemma completed_other [simp]:
  "completed (decimal d) \<noteq> CURRENT" "completed (decimal d) \<noteq> MARKER" "CURRENT \<noteq> MARKER"
  "CURRENT \<noteq> completed (decimal d)" "MARKER \<noteq> completed (decimal d)" "MARKER \<noteq> CURRENT"
proof -
  have "decimal d \<noteq> ''current''"
    using decimal_digits [of d] by (auto simp: is_digits_def is_ascii_digit_def in_range_def code_point_def)
  moreover have "completed ''current'' = CURRENT" by (simp add: completed_def CURRENT_def)
  ultimately show c: "completed (decimal d) \<noteq> CURRENT" by (auto simp: completed_def CURRENT_def)
  show m: "completed (decimal d) \<noteq> MARKER" by (simp add: completed_def MARKER_def)
  show n: "CURRENT \<noteq> MARKER" by (simp add: CURRENT_def MARKER_def)
  show "CURRENT \<noteq> completed (decimal d)" "MARKER \<noteq> completed (decimal d)" "MARKER \<noteq> CURRENT"
    using c m n by metis+
qed

lemma expired_names [simp]:
  "expired cutoff (completed (decimal d)) \<longleftrightarrow> int d < cutoff"
  "\<not> expired cutoff MARKER" "\<not> expired cutoff CURRENT"
proof -
  have "period_of (completed (decimal d)) = Some (decimal d)" by (simp add: period_of_completed)
  then show "expired cutoff (completed (decimal d)) \<longleftrightarrow> int d < cutoff"
    by (simp add: expired_def decimal_digits decimal_value_decimal)
  have "period_of MARKER = None" "period_of CURRENT = Some ''current''"
    by (simp_all add: period_of_def MARKER_def CURRENT_def)
  then show "\<not> expired cutoff MARKER" "\<not> expired cutoff CURRENT"
    by (simp_all add: expired_def is_digits_def is_ascii_digit_def in_range_def code_point_def)
qed

text \<open>The expansion of \<open>ping-*.bin.gz\<close> lists what is there.\<close>

definition lists_files :: "publisher \<Rightarrow> bool" where
  "lists_files pub \<longleftrightarrow> (\<forall>s. finite (dom s) \<longrightarrow> set (pp_listing pub s) = dom s)"

text \<open>The steps of a run, up to the reports.\<close>

definition switch_steps :: "publisher \<Rightarrow> publish_run \<Rightarrow> bytes \<Rightarrow> action list" where
  "switch_steps pub r b = [rotate_day (run_day r)] @ stage_day pub r b @
     [fs_replace (temporary ''.ping-current.bin.gz'' (pb_pid r)) CURRENT,
      fs_replace (temporary ''.current-day'' (pb_pid r)) MARKER]"

definition expire_old :: "publisher \<Rightarrow> publish_run \<Rightarrow> store \<Rightarrow> store list" where
  "expire_old pub r s = perform (map (expire (run_cutoff r)) (pp_listing pub s)) s"

lemma publish_Some:
  "run_export pub r = Some b \<Longrightarrow>
   publish pub r s = then_do (then_do (perform (switch_steps pub r b) s) (expire_old pub r)) (publish_reports r)"
  by (simp add: publish_def switch_steps_def expire_old_def [abs_def])

lemma publish_None:
  "run_export pub r = None \<Longrightarrow>
   publish pub r s = perform ([rotate_day (run_day r), fs_put (temporary ''.ping-current.bin'' (pb_pid r)) (pb_partial r)]
     @ cleanup (pb_pid r)) s"
  by (simp add: publish_def)

lemma expire_old_nonempty [simp]: "expire_old pub r s \<noteq> []"
  by (simp add: expire_old_def)

lemma publish_finite:
  assumes "finite (dom s)" "st \<in> set (publish pub r s)"
  shows "finite (dom st)"
proof -
  let ?I = "\<lambda>s. finite (dom s :: path set)"
  note aside = aside_steps [OF aside_finite]
  have rot: "keeps ?I (rotate_day day)" for day
    using finite_steps(3) by (auto simp: keeps_def rotate_day_def split: option.split)
  have ex: "list_all (keeps ?I) (map (expire cutoff) names)" for cutoff names
    using finite_steps(2) by (auto simp: list_all_iff keeps_def expire_def)
  show ?thesis
  proof (cases "run_export pub r")
    case None
    show ?thesis
      by (rule perform_keeps [where I = ?I, OF _ assms(1) assms(2) [unfolded publish_None [OF None]]])
        (simp add: rot aside finite_steps)
  next
    case (Some b)
    have "list_all (keeps ?I) (switch_steps pub r b)"
      by (simp add: switch_steps_def rot aside finite_steps)
    note switch = perform_keeps [where I = ?I, OF this assms(1)]
    have expire: "?I st" if "?I s" "st \<in> set (expire_old pub r s)" for s st
      using perform_keeps [where I = ?I, OF ex that(1)] that(2) by (simp add: expire_old_def)
    have "?I st" if "st \<in> set (then_do (perform (switch_steps pub r b) s) (expire_old pub r))" for st
      using then_do_keeps [where I = ?I, OF switch _ expire that] by simp
    from then_do_keeps [where I = ?I, OF this _ publish_reports_keeps [OF aside_finite]
        assms(2) [unfolded publish_Some [OF Some]]]
    show ?thesis by simp
  qed
qed

text \<open>What the browser can tell of two stores.\<close>

definition agree :: "store \<Rightarrow> store \<Rightarrow> bool" where
  "agree s st \<longleftrightarrow> (\<forall>p. served p \<longrightarrow> st p = s p)"

lemma agree_trans: "agree s st \<Longrightarrow> agree st su \<Longrightarrow> agree s su"
  by (simp add: agree_def)

lemma agree_aside:
  assumes "\<And>I. aside I \<Longrightarrow> I s \<Longrightarrow> I st"
  shows "agree s st"
  using assms [OF aside_served] by (auto simp: agree_def)

lemma set_perform_append:
  "set (perform (as @ bs) s) = set (perform as s) \<union> set (perform bs (fold (\<lambda>a. a) as s))"
proof (induction as arbitrary: s)
  case Nil
  then show ?case by (cases bs) auto
qed simp

definition switched :: "publisher \<Rightarrow> publish_run \<Rightarrow> bytes \<Rightarrow> store \<Rightarrow> store" where
  "switched pub r b s =
     (rotate_day (run_day r) s)(CURRENT := Some (pp_gzip pub b), MARKER := Some (day_line (run_day r)))"

lemma length_temporary: "length (temporary name pid) = length name + 1 + length (decimal pid)"
  by (simp add: temporary_def)

lemma stage_day_staged:
  "fold (\<lambda>a. a) (stage_day pub r b) s (temporary ''.ping-current.bin.gz'' (pb_pid r)) = Some (pp_gzip pub b)"
  "fold (\<lambda>a. a) (stage_day pub r b) s (temporary ''.current-day'' (pb_pid r)) = Some (day_line (run_day r))"
proof -
  have "temporary ''.ping-current.bin.gz'' pid \<noteq> temporary ''.current-day'' pid'" for pid pid'
    by (simp add: temporary_def)
  then show "fold (\<lambda>a. a) (stage_day pub r b) s (temporary ''.ping-current.bin.gz'' (pb_pid r)) = Some (pp_gzip pub b)"
    "fold (\<lambda>a. a) (stage_day pub r b) s (temporary ''.current-day'' (pb_pid r)) = Some (day_line (run_day r))"
    by (simp_all add: stage_day_def stage_def fs_put_def)
qed

lemma switch_states:
  "st \<in> set (perform (switch_steps pub r b) s) \<Longrightarrow> agree s st \<or> agree (rotate_day (run_day r) s) st \<or>
    agree ((rotate_day (run_day r) s)(CURRENT := Some (pp_gzip pub b))) st \<or> agree (switched pub r b s) st"
  "agree (switched pub r b s) (last (perform (switch_steps pub r b) s))"
proof -
  let ?t2 = "temporary ''.ping-current.bin.gz'' (pb_pid r)" and ?t3 = "temporary ''.current-day'' (pb_pid r)"
  define s1 s2 where "s1 = rotate_day (run_day r) s" and "s2 = fold (\<lambda>a. a) (stage_day pub r b) s1"
  have staged: "agree s1 st'" if "st' \<in> set (perform (stage_day pub r b) s1)" for st'
    by (rule agree_aside) (use that perform_keeps aside_steps(6) in metis)
  have "s2 \<in> set (perform (stage_day pub r b) s1)"
    using last_in_set [of "perform (stage_day pub r b) s1"] by (simp add: last_perform s2_def)
  then have a2: "agree s1 s2" by (rule staged)
  have "?t2 \<noteq> ?t3" by (simp add: temporary_def)
  moreover have "\<not> served ?t2" "\<not> served ?t3" by simp_all
  moreover have "?t2 \<noteq> CURRENT" "?t3 \<noteq> CURRENT" "?t3 \<noteq> MARKER" "?t2 \<noteq> MARKER"
    by (metis calculation(2,3) served_names(1,2))+
  ultimately have a3: "agree (s1(CURRENT := Some (pp_gzip pub b))) (fs_replace ?t2 CURRENT s2)"
    and a4: "agree (switched pub r b s) (fs_replace ?t3 MARKER (fs_replace ?t2 CURRENT s2))"
    using a2 by (auto simp: agree_def fs_replace_def s1_def s2_def switched_def stage_day_staged)
  have states: "set (perform (switch_steps pub r b) s) = {s} \<union> set (perform (stage_day pub r b) s1) \<union>
      {s2, fs_replace ?t2 CURRENT s2, fs_replace ?t3 MARKER (fs_replace ?t2 CURRENT s2)}"
    by (simp add: switch_steps_def set_perform_append s1_def s2_def insert_commute)
  show "st \<in> set (perform (switch_steps pub r b) s) \<Longrightarrow> agree s st \<or> agree (rotate_day (run_day r) s) st \<or>
    agree ((rotate_day (run_day r) s)(CURRENT := Some (pp_gzip pub b))) st \<or> agree (switched pub r b s) st"
    using staged a2 a3 a4 unfolding states s1_def [symmetric] by (auto simp: agree_def)
  show "agree (switched pub r b s) (last (perform (switch_steps pub r b) s))"
    using a4 by (simp add: last_perform switch_steps_def s1_def s2_def)
qed

lemma agree_finite:
  "list_all (keeps (\<lambda>s. finite (dom s))) (switch_steps pub r b)"
  using finite_steps(3) aside_steps(6) [OF aside_finite]
  by (auto simp: switch_steps_def finite_steps keeps_def rotate_day_def split: option.split)

text \<open>A run that exports: the served files are switched, then the expired ones go one by one.\<close>

lemma publish_states:
  assumes b: "run_export pub r = Some b" and st: "st \<in> set (publish pub r s)"
  shows "agree s st \<or> agree (rotate_day (run_day r) s) st \<or>
    agree ((rotate_day (run_day r) s)(CURRENT := Some (pp_gzip pub b))) st \<or>
    (\<forall>p. served p \<longrightarrow> st p = switched pub r b s p \<or> expired (run_cutoff r) p \<and> st p = None)"
proof -
  let ?s1 = "last (perform (switch_steps pub r b) s)"
  let ?gone = "\<lambda>st. \<forall>p. served p \<longrightarrow> st p = switched pub r b s p \<or> expired (run_cutoff r) p \<and> st p = None"
  let ?two = "then_do (perform (switch_steps pub r b) s) (expire_old pub r)"
  have "keeps ?gone (expire (run_cutoff r) name)" for name
    by (auto simp: keeps_def expire_def fs_unlink_def)
  then have keeps: "list_all (keeps ?gone) (map (expire (run_cutoff r)) names)" for names
    by (simp add: list_all_iff)
  have "?gone ?s1" using switch_states(2) [of pub r b s] by (simp add: agree_def)
  then have old: "?gone st" if "st \<in> set (expire_old pub r ?s1)" for st
    using perform_keeps [where I = ?gone, OF keeps] that unfolding expire_old_def by metis
  have "agree s st \<or> agree (rotate_day (run_day r) s) st \<or>
    agree ((rotate_day (run_day r) s)(CURRENT := Some (pp_gzip pub b))) st \<or> ?gone st" if two: "st \<in> set ?two" for st
  proof -
    consider "st \<in> set (perform (switch_steps pub r b) s)" | "st \<in> set (expire_old pub r ?s1)"
      using two set_then_do [of "perform (switch_steps pub r b) s" "expire_old pub r"] by auto
    then show ?thesis
    proof cases
      case 1
      have "agree (switched pub r b s) st \<Longrightarrow> ?gone st" by (simp add: agree_def)
      with switch_states(1) [OF 1] show ?thesis by blast
    next
      case 2
      with old show ?thesis by blast
    qed
  qed
  moreover have "?gone st" if "st \<in> set (publish_reports r (last ?two))" for st
  proof -
    have "?gone (last ?two)" using old [of "last ?two"] by (simp add: last_in_set)
    moreover have "agree (last ?two) st"
      by (rule agree_aside) (use that publish_reports_keeps in metis)
    ultimately show ?thesis by (simp add: agree_def)
  qed
  ultimately show ?thesis
    using st set_then_do [of ?two "publish_reports r"] by (auto simp: publish_Some [OF b])
qed

lemma publish_last:
  assumes b: "run_export pub r = Some b" and l: "lists_files pub" and fin: "finite (dom s)" and p: "served p"
  shows "last (publish pub r s) p = (if expired (run_cutoff r) p then None else switched pub r b s p)"
proof -
  let ?s1 = "last (perform (switch_steps pub r b) s)"
  have "finite (dom ?s1)"
    using perform_keeps [where I = "\<lambda>s. finite (dom s)", OF agree_finite fin, of ?s1 pub r b] by (simp add: last_in_set)
  then have list: "set (pp_listing pub ?s1) = dom ?s1" using l by (simp add: lists_files_def)
  have "last (publish pub r s) p = last (expire_old pub r ?s1) p"
    using publish_reports_keeps [OF aside_served [OF p, of "last (expire_old pub r ?s1) p"],
        where s = "last (expire_old pub r ?s1)" and r = r]
    by (simp add: publish_Some [OF b] last_in_set)
  also have "\<dots> = (if expired (run_cutoff r) p then None else ?s1 p)"
    unfolding expire_old_def last_perform [of "map (expire (run_cutoff r)) (pp_listing pub ?s1)"] fold_expire list
    by auto
  also have "?s1 p = switched pub r b s p" using switch_states(2) [of pub r b s] p by (simp add: agree_def)
  finally show ?thesis .
qed

text \<open>A run whose exporter fails has only rotated.\<close>

lemma publish_failed:
  assumes "run_export pub r = None"
  shows "st \<in> set (publish pub r s) \<Longrightarrow> agree s st \<or> agree (rotate_day (run_day r) s) st"
    and "agree (rotate_day (run_day r) s) (last (publish pub r s))"
proof -
  let ?as = "fs_put (temporary ''.ping-current.bin'' (pb_pid r)) (pb_partial r) # cleanup (pb_pid r)"
  have runs: "publish pub r s = s # perform ?as (rotate_day (run_day r) s)" using assms by (simp add: publish_def)
  have "agree (rotate_day (run_day r) s) st" if "st \<in> set (perform ?as (rotate_day (run_day r) s))" for st
  proof (rule agree_aside)
    fix I assume I: "aside I" "I (rotate_day (run_day r) s)"
    have "list_all (keeps I) ?as" by (simp add: aside_steps [OF I(1)])
    then show "I st" using perform_keeps [where I = I, OF _ I(2)] that by blast
  qed
  then show "st \<in> set (publish pub r s) \<Longrightarrow> agree s st \<or> agree (rotate_day (run_day r) s) st"
    "agree (rotate_day (run_day r) s) (last (publish pub r s))"
    using runs by (auto simp: agree_def last_in_set simp del: perform.simps)
qed

section \<open>Any number of runs\<close>

text \<open>The last run that exported anything, and the last export of one day.\<close>

definition last_done :: "publisher \<Rightarrow> publish_run list \<Rightarrow> publish_run option" where
  "last_done pub rs = find (\<lambda>r. run_export pub r \<noteq> None) (rev rs)"

definition day_export :: "publisher \<Rightarrow> publish_run list \<Rightarrow> nat \<Rightarrow> bytes option" where
  "day_export pub rs d =
     Option.bind (find (\<lambda>r. run_day r = d \<and> run_export pub r \<noteq> None) (rev rs)) (run_export pub)"

lemma last_done_snoc [simp]:
  "last_done pub [] = None"
  "last_done pub (rs @ [r]) = (if run_export pub r \<noteq> None then Some r else last_done pub rs)"
  by (simp_all add: last_done_def)

lemma day_export_snoc [simp]:
  "day_export pub [] d = None"
  "day_export pub (rs @ [r]) d =
     (if run_day r = d \<and> run_export pub r \<noteq> None then run_export pub r else day_export pub rs d)"
  by (auto simp: day_export_def)

lemma day_export_later:
  "\<forall>r \<in> set rs. run_day r < d \<Longrightarrow> day_export pub rs d = None"
  by (induction rs rule: rev_induct) auto

lemma last_done_Some:
  assumes "sorted (map run_day rs)" "last_done pub rs = Some r"
  shows "r \<in> set rs" "run_export pub r \<noteq> None" "day_export pub rs (run_day r) = run_export pub r"
    "run_day r < d \<Longrightarrow> day_export pub rs d = None"
proof -
  have "r \<in> set rs \<and> run_export pub r \<noteq> None \<and> day_export pub rs (run_day r) = run_export pub r \<and>
      (run_day r < d \<longrightarrow> day_export pub rs d = None)"
    using assms
  proof (induction rs rule: rev_induct)
    case (snoc x rs)
    show ?case
    proof (cases "run_export pub x = None")
      case False
      with snoc.prems have "r = x" "\<forall>y \<in> set rs. run_day y \<le> run_day x"
        by (auto simp: sorted_append)
      moreover have "day_export pub rs d = None" if "run_day x < d"
        using calculation(2) that by (intro day_export_later) auto
      ultimately show ?thesis using False by auto
    qed (use snoc in \<open>auto simp: sorted_append\<close>)
  qed simp
  then show "r \<in> set rs" "run_export pub r \<noteq> None" "day_export pub rs (run_day r) = run_export pub r"
    "run_day r < d \<Longrightarrow> day_export pub rs d = None" by auto
qed

lemma last_done_None: "last_done pub rs = None \<Longrightarrow> day_export pub rs d = None"
  by (induction rs rule: rev_induct) (auto split: if_splits)

text \<open>
  What the served files are after the runs \<open>rs\<close>: the marker names the day of the last export, the
  current file is this export unless a later day has begun, and the file of each day before, for
  thirty days, is the last export of that day.
\<close>

definition published :: "publisher \<Rightarrow> publish_run list \<Rightarrow> store \<Rightarrow> bool" where
  "published pub rs s \<longleftrightarrow>
     (case last_done pub rs of
        None \<Rightarrow> s MARKER = None \<and> s CURRENT = None \<and> (\<forall>d. s (completed (decimal d)) = None)
      | Some r \<Rightarrow>
          s MARKER = Some (day_line (run_day r)) \<and>
          s CURRENT = (if run_day (last rs) = run_day r then map_option (pp_gzip pub) (run_export pub r) else None) \<and>
          (\<forall>d. s (completed (decimal d)) =
             (if d < run_day (last rs) \<and> run_cutoff r \<le> int d
              then map_option (pp_gzip pub) (day_export pub rs d) else None)))"

lemma sorted_run_last: "sorted (map run_day rs) \<Longrightarrow> r \<in> set rs \<Longrightarrow> run_day r \<le> run_day (last rs)"
  by (cases rs rule: rev_cases) (auto simp: sorted_append)

lemma run_last_le: "r \<in> set rs \<Longrightarrow> \<forall>x \<in> set rs. run_day x \<le> day \<Longrightarrow> run_day (last rs) \<le> day"
  by (cases rs rule: rev_cases) auto

lemma rotated:
  assumes "published pub rs s" "sorted (map run_day rs)" "\<forall>x \<in> set rs. run_day x \<le> day"
  shows "rotate_day day s MARKER = s MARKER"
    "rotate_day day s CURRENT = (if run_day (last rs) = day then s CURRENT else None)"
    "rotate_day day s (completed (decimal d)) =
      (case last_done pub rs of None \<Rightarrow> None | Some r \<Rightarrow>
         if d < day \<and> run_cutoff r \<le> int d then map_option (pp_gzip pub) (day_export pub rs d) else None)"
proof -
  have "rotate_day day s MARKER = s MARKER \<and>
    rotate_day day s CURRENT = (if run_day (last rs) = day then s CURRENT else None) \<and>
    rotate_day day s (completed (decimal d)) =
      (case last_done pub rs of None \<Rightarrow> None | Some r \<Rightarrow>
         if d < day \<and> run_cutoff r \<le> int d then map_option (pp_gzip pub) (day_export pub rs d) else None)"
  proof (cases "last_done pub rs")
    case None
    with assms(1) show ?thesis by (auto simp: published_def rotate_day_def marker_day_def)
  next
    case (Some r)
    note success = last_done_Some [OF assms(2) Some]
    have le: "run_day (last rs) \<le> day" "run_day r \<le> run_day (last rs)"
      using run_last_le [OF success(1) assms(3)] sorted_run_last [OF assms(2) success(1)] by auto
    have s: "s MARKER = Some (day_line (run_day r))"
      "s CURRENT = (if run_day (last rs) = run_day r then map_option (pp_gzip pub) (run_export pub r) else None)"
      "\<And>d. s (completed (decimal d)) = (if d < run_day (last rs) \<and> run_cutoff r \<le> int d
         then map_option (pp_gzip pub) (day_export pub rs d) else None)"
      using assms(1) by (simp_all add: published_def Some)
    have cutoff: "run_cutoff r \<le> int (run_day r)" by (simp add: run_cutoff_def)
    have later: "day_export pub rs d = None" if "run_day r < d" for d
      using last_done_Some(4) [OF assms(2) Some that] .
    have rot: "rotate_day day s = (if run_day r \<noteq> day \<and> s CURRENT \<noteq> None
        then fs_replace CURRENT (completed (decimal (run_day r))) s else s)"
      by (simp add: rotate_day_def marker_day_line [where s = s, OF s(1)] decimal_value_decimal)
    show ?thesis
    proof (cases "run_day (last rs) = run_day r \<and> run_day r \<noteq> day")
      case True
      then have r: "rotate_day day s = fs_replace CURRENT (completed (decimal (run_day r))) s" "run_day r < day"
        using success(2) le by (auto simp: rot s(2))
      have "rotate_day day s (completed (decimal d)) =
          (if d = run_day r then map_option (pp_gzip pub) (run_export pub r) else s (completed (decimal d)))"
        using True by (simp add: r(1) fs_replace_def s(2))
      also have "\<dots> = (if d < day \<and> run_cutoff r \<le> int d then map_option (pp_gzip pub) (day_export pub rs d) else None)"
        using True r(2) cutoff success(3) later [of d] by (auto simp: s(3))
      finally show ?thesis using True by (simp add: Some r(1) fs_replace_def)
    next
      case False
      then have r: "rotate_day day s = s" by (auto simp: rot s(2))
      have "s (completed (decimal d)) =
          (if d < day \<and> run_cutoff r \<le> int d then map_option (pp_gzip pub) (day_export pub rs d) else None)"
        using False le later [of d] by (auto simp: s(3))
      then show ?thesis using False le by (auto simp: r Some s(2))
    qed
  qed
  then show "rotate_day day s MARKER = s MARKER"
    "rotate_day day s CURRENT = (if run_day (last rs) = day then s CURRENT else None)"
    "rotate_day day s (completed (decimal d)) =
      (case last_done pub rs of None \<Rightarrow> None | Some r \<Rightarrow>
         if d < day \<and> run_cutoff r \<le> int d then map_option (pp_gzip pub) (day_export pub rs d) else None)"
    by auto
qed

lemma published_snoc:
  assumes pub: "published pub rs s" and days: "sorted (map run_day (rs @ [r]))"
    and l: "lists_files pub" and fin: "finite (dom s)"
  shows "published pub (rs @ [r]) (last (publish pub r s))"
proof -
  let ?st = "last (publish pub r s)"
  have sorted: "sorted (map run_day rs)" "\<forall>x \<in> set rs. run_day x \<le> run_day r"
    using days by (auto simp: sorted_append)
  note rot = rotated [OF pub sorted]
  have cutoff: "run_cutoff x \<le> run_cutoff r" if "last_done pub rs = Some x" for x
    using last_done_Some(1) [OF sorted(1) that] sorted(2) by (simp add: run_cutoff_def)
  show ?thesis
  proof (cases "run_export pub r")
    case (Some b)
    note last = publish_last [OF Some l fin]
    have "?st MARKER = Some (day_line (run_day r))" "?st CURRENT = Some (pp_gzip pub b)"
      by (simp_all add: last switched_def)
    moreover have "?st (completed (decimal d)) = (if d < run_day r \<and> run_cutoff r \<le> int d
        then map_option (pp_gzip pub) (day_export pub (rs @ [r]) d) else None)" for d
      using cutoff last_done_None [of pub rs d]
      by (auto simp: last switched_def rot(3) split: option.split)
    ultimately show ?thesis by (simp add: published_def Some)
  next
    case None
    have st: "?st p = rotate_day (run_day r) s p" if "served p" for p
      using publish_failed(2) [OF None] that by (simp add: agree_def)
    show ?thesis
    proof (cases "last_done pub rs")
      case None
      with pub rot \<open>run_export pub r = None\<close> show ?thesis by (simp add: published_def st)
    next
      case (Some x)
      have "run_day x \<le> run_day (last rs)" "run_day (last rs) \<le> run_day r"
        using sorted_run_last [OF sorted(1)] run_last_le [OF _ sorted(2)] last_done_Some(1) [OF sorted(1) Some]
        by auto
      with pub rot \<open>run_export pub r = None\<close> Some show ?thesis by (auto simp: published_def st)
    qed
  qed
qed

lemma publish_runs_published:
  assumes "lists_files pub" "finite (dom s)" "\<forall>p. served p \<longrightarrow> s p = None" "sorted (map run_day rs)"
  shows "published pub rs (publish_runs pub rs s) \<and> finite (dom (publish_runs pub rs s))"
  using assms(4)
proof (induction rs rule: rev_induct)
  case Nil
  show ?case using assms(2,3) by (simp add: publish_runs_def published_def)
next
  case (snoc r rs)
  let ?s = "publish_runs pub rs s"
  have ih: "published pub rs ?s" "finite (dom ?s)" using snoc by (auto simp: sorted_append)
  have "publish pub r ?s \<noteq> []"
    by (cases "run_export pub r") (simp_all add: publish_Some publish_None)
  then have "finite (dom (last (publish pub r ?s)))" using publish_finite [OF ih(2) last_in_set] by blast
  with published_snoc [OF ih(1) snoc.prems assms(1) ih(2)] show ?case by (simp add: publish_runs_def)
qed

lemma day_export_Some:
  "day_export pub rs d = Some b \<Longrightarrow> \<exists>r \<in> set rs. run_day r = d \<and> run_export pub r = Some b"
  by (induction rs rule: rev_induct) (auto split: if_splits)

text \<open>
  C26. The archive of the days: after any number of undisturbed publisher runs in the order of time,
  each over its own database and each with an exporter that may fail, the current file is the last
  export of the day of the marker, every earlier day of the last thirty is served as the last
  export of that day under its own date, and older files are gone; and every file that is served
  under a date decompresses to one that the browser either reads as that very day or rejects for
  the order of its targets.
\<close>

theorem archive_keeps_last_exports:
  assumes "lists_files pub" "finite (dom s)" "\<forall>p. served p \<longrightarrow> s p = None"
    and "sorted (map pb_now rs)" "\<forall>r \<in> set rs. pb_now r + 86400 < 2 ^ 32"
    and "accurate_cells (pp_cell pub)" "\<And>b. gunzip (pp_gzip pub b) = b"
  shows "published pub rs (publish_runs pub rs s) \<and>
    (\<forall>d c. publish_runs pub rs s (completed (decimal d)) = Some c \<longrightarrow>
       (case parse_day (gunzip c) of Inl e \<Rightarrow> e = target_order_error | Inr f \<Rightarrow> df_start f = d))"
proof -
  have "mono (\<lambda>n. utc_day n)" by (auto simp: utc_day_def intro!: monoI mult_le_mono1 div_le_mono)
  then have days: "sorted (map run_day rs)"
    using assms(4) by (auto simp: run_day_def sorted_wrt_map sorted_map elim!: sorted_wrt_mono_rel [rotated]
        intro: monoD)
  have pub: "published pub rs (publish_runs pub rs s)"
    using publish_runs_published [OF assms(1-3) days] by simp
  have "case parse_day (gunzip c) of Inl e \<Rightarrow> e = target_order_error | Inr f \<Rightarrow> df_start f = d"
    if c: "publish_runs pub rs s (completed (decimal d)) = Some c" for d c
  proof -
    obtain b where b: "c = pp_gzip pub b" "day_export pub rs d = Some b"
      using pub c by (auto simp: published_def split: option.splits if_splits)
    obtain r where r: "r \<in> set rs" "run_day r = d" "run_export pub r = Some b"
      using day_export_Some [OF b(2)] by blast
    have "d \<le> pb_now r" using r(2) by (auto simp: run_day_def utc_day_def)
    then have "int d + 86400 < 2 ^ 32" using assms(5) r(1) by fastforce
    moreover have "export_day (pp_cell pub) (pb_db r) (int d) = Some b"
      using r(2,3) by (simp add: run_export_def split: if_splits)
    ultimately show ?thesis
      using export_day_reads(3) [OF assms(6), of "int d" "pb_db r" b]
      by (simp add: b(1) assms(7) decoded_def day_contents_of_def Let_def)
  qed
  with pub show ?thesis by blast
qed

text \<open>A publisher with a visible compressor, one good run and one on the next day that fails.\<close>

definition sample_publisher :: publisher where
  "sample_publisher =
     \<lparr>pp_cell = rounded_cells, pp_gzip = (\<lambda>b. 31 # b), pp_listing = (\<lambda>s. sorted_list_of_set (dom s))\<rparr>"

definition sample_run :: "nat \<Rightarrow> bool \<Rightarrow> publish_run" where
  "sample_run now fails =
     \<lparr>pb_now = now, pb_pid = 7, pb_db = sample_db ''AA:BB:CC:DD:EE:FF'', pb_fails = fails, pb_partial = [],
      pb_targets = Some [], pb_manifest = (\<lambda>s. Some [])\<rparr>"

lemma sample_publisher_lists: "lists_files sample_publisher"
  by (simp add: lists_files_def sample_publisher_def)

lemma sample_run_export:
  "run_export sample_publisher (sample_run 86500 False) =
     export_day rounded_cells (sample_db ''AA:BB:CC:DD:EE:FF'') 86400"
  "run_export sample_publisher (sample_run now True) = None"
  "run_day (sample_run 86500 False) = 86400" "run_day (sample_run 172900 b) = 172800"
  by (simp_all add: run_export_def sample_publisher_def sample_run_def run_day_def utc_day_def)

theorem archive_keeps_last_exports_witness:
  "\<exists>b. export_day rounded_cells (sample_db ''AA:BB:CC:DD:EE:FF'') 86400 = Some b \<and>
     publish_runs sample_publisher [sample_run 86500 False, sample_run 172900 True] (\<lambda>_. None)
       (completed (decimal 86400)) = Some (31 # b)"
proof -
  let ?rs = "[sample_run 86500 False, sample_run 172900 True]"
  obtain b where b: "export_day rounded_cells (sample_db ''AA:BB:CC:DD:EE:FF'') 86400 = Some b"
    using sample_exports by blast
  have "published sample_publisher ?rs (publish_runs sample_publisher ?rs (\<lambda>_. None))"
    using archive_keeps_last_exports [of sample_publisher "\<lambda>_. None" ?rs tl, OF sample_publisher_lists]
    by (simp add: sample_publisher_def rounded_cells_accurate sample_run_def)
  moreover have "last_done sample_publisher ?rs = Some (sample_run 86500 False)"
    "day_export sample_publisher ?rs 86400 = Some b"
    by (simp_all add: last_done_def day_export_def sample_run_export b)
  ultimately show ?thesis
    by (simp add: published_def b sample_run_export run_cutoff_def) (simp add: sample_publisher_def)
qed

section \<open>Runs that are killed\<close>

text \<open>
  The archive tells the truth about a relation between days and exports when every dated file is
  an export of its day, and the current file one of the day of the marker.
\<close>

definition truthful :: "publisher \<Rightarrow> (nat \<Rightarrow> bytes \<Rightarrow> bool) \<Rightarrow> store \<Rightarrow> bool" where
  "truthful pub X s \<longleftrightarrow>
     (\<forall>d c. s (completed (decimal d)) = Some c \<longrightarrow> (\<exists>b. X d b \<and> c = pp_gzip pub b)) \<and>
     (\<forall>c. s CURRENT = Some c \<longrightarrow> (\<exists>d b. s MARKER = Some (day_line d) \<and> X d b \<and> c = pp_gzip pub b))"

lemma truthful_agree: "truthful pub X s \<Longrightarrow> agree s st \<Longrightarrow> truthful pub X st"
  by (simp add: truthful_def agree_def)

lemma truthful_rotate:
  assumes "truthful pub X s"
  shows "truthful pub X (rotate_day day s)"
proof (cases "s CURRENT")
  case None
  then show ?thesis using assms by (simp add: rotate_day_def split: option.split)
next
  case (Some c)
  then obtain d b where d: "s MARKER = Some (day_line d)" "X d b" "c = pp_gzip pub b"
    using assms by (auto simp: truthful_def)
  have "rotate_day day s = (if d \<noteq> day then fs_replace CURRENT (completed (decimal d)) s else s)"
    using Some by (simp add: rotate_day_def marker_day_line [where s = s, OF d(1)] decimal_value_decimal)
  then show ?thesis using assms Some d by (auto simp: truthful_def fs_replace_def)
qed

text \<open>
  C29. A run of the publisher may be killed at every moment but one: in every store it passes
  through, unless the current file is already the new one while the marker still names another
  day, each dated file is an export of its date and the current file one of the marker's day.
\<close>

theorem killed_publish_truthful:
  assumes "truthful pub X s" "\<And>b. run_export pub r = Some b \<Longrightarrow> X (run_day r) b"
    and st: "st \<in> set (publish pub r s)"
    and "st CURRENT \<noteq> None \<longrightarrow> st CURRENT = map_option (pp_gzip pub) (run_export pub r) \<longrightarrow>
         st MARKER = Some (day_line (run_day r))"
  shows "truthful pub X st"
proof (cases "run_export pub r")
  case None
  show ?thesis
    using publish_failed(1) [OF None st] truthful_agree [OF assms(1)] truthful_agree [OF truthful_rotate [OF assms(1)]]
    by blast
next
  case (Some b)
  have X: "X (run_day r) b" using assms(2) Some .
  note rot = truthful_rotate [OF assms(1), of "run_day r"]
  consider "agree s st" | "agree (rotate_day (run_day r) s) st"
    | "agree ((rotate_day (run_day r) s)(CURRENT := Some (pp_gzip pub b))) st"
    | "\<forall>p. served p \<longrightarrow> st p = switched pub r b s p \<or> expired (run_cutoff r) p \<and> st p = None"
    using publish_states [OF Some st] by blast
  then show ?thesis
  proof cases
    case 3
    then have "st CURRENT = Some (pp_gzip pub b)" by (simp add: agree_def)
    then have "st MARKER = Some (day_line (run_day r))" using assms(4) Some by simp
    with 3 rot X show ?thesis by (auto simp: truthful_def agree_def)
  next
    case 4
    have "st p = switched pub r b s p" if "p \<in> {CURRENT, MARKER}" for p
      using 4 that expired_names(2,3) served_names(1,2) by blast
    then have "st CURRENT = Some (pp_gzip pub b)" "st MARKER = Some (day_line (run_day r))"
      by (simp_all add: switched_def)
    moreover have "rotate_day (run_day r) s (completed (decimal d)) = Some c"
      if "st (completed (decimal d)) = Some c" for d c
    proof -
      have "switched pub r b s (completed (decimal d)) = Some c"
        using 4 [rule_format, of "completed (decimal d)"] that by auto
      then show ?thesis by (simp add: switched_def)
    qed
    ultimately show ?thesis using rot X by (auto simp: truthful_def)
  qed (use assms(1) rot truthful_agree in blast)+
qed

theorem killed_publish_truthful_witness:
  "\<exists>st \<in> set (publish sample_publisher (sample_run 86500 False) (\<lambda>_. None)).
     st CURRENT \<noteq> None \<and>
     truthful sample_publisher (\<lambda>d b. export_day rounded_cells (sample_db ''AA:BB:CC:DD:EE:FF'') (int d) = Some b) st"
proof -
  let ?r = "sample_run 86500 False"
  obtain b where b: "run_export sample_publisher ?r = Some b" using sample_exports by (auto simp: sample_run_export)
  define st where "st = last (publish sample_publisher ?r (\<lambda>_. None))"
  have st: "st \<in> set (publish sample_publisher ?r (\<lambda>_. None))"
    unfolding st_def by (rule last_in_set) (simp add: publish_Some [OF b])
  have served: "st CURRENT = Some (pp_gzip sample_publisher b)" "st MARKER = Some (day_line (run_day ?r))"
    using publish_last [OF b sample_publisher_lists, of "\<lambda>_. None"] by (simp_all add: st_def switched_def)
  have "truthful sample_publisher
      (\<lambda>d b. export_day rounded_cells (sample_db ''AA:BB:CC:DD:EE:FF'') (int d) = Some b) st"
    by (rule killed_publish_truthful [OF _ _ st]) (simp_all add: truthful_def sample_run_export served)
  with st served(1) show ?thesis by auto
qed

lemma butlast_perform: "butlast (perform (as @ [a]) s) = perform as s"
  by (induction as arbitrary: s) simp_all

lemma hidden_names:
  "temporary (CHR ''.'' # name) pid \<noteq> CURRENT" "MARKER \<noteq> temporary (CHR ''.'' # name) pid"
  "CURRENT \<noteq> temporary (CHR ''.'' # name) pid" "temporary (CHR ''.'' # name) pid \<noteq> MARKER"
  using unserved_names(3) [of name pid] served_names(1,2) by metis+

lemma set_butlast_then_do:
  "f (last states) \<noteq> [] \<Longrightarrow> set (butlast states) \<subseteq> set (butlast (then_do states f))"
  by (auto simp: then_do_def butlast_append)

text \<open>
  That moment exists at the beginning of every day: a run that is killed between the two renames
  makes the next one file the new day under the date of the old one, whose last export is lost.
\<close>

theorem killed_rollover_misfiles:
  assumes l: "lists_files pub" and fin: "finite (dom s)"
    and s: "s MARKER = Some (day_line d)" "s CURRENT \<noteq> None" "d \<noteq> run_day r"
    and r: "run_export pub r = Some b"
    and n: "run_export pub next_run = Some b'" "run_day next_run = run_day r" "run_cutoff next_run \<le> int d"
  shows "\<exists>st \<in> set (publish pub r s).
    last (publish pub next_run st) (completed (decimal d)) = Some (pp_gzip pub b)"
proof -
  let ?t2 = "temporary ''.ping-current.bin.gz'' (pb_pid r)" and ?t3 = "temporary ''.current-day'' (pb_pid r)"
  let ?as = "[rotate_day (run_day r)] @ stage_day pub r b @ [fs_replace ?t2 CURRENT]"
  define st where "st = last (perform ?as s)"
  have switch: "switch_steps pub r b = ?as @ [fs_replace ?t3 MARKER]" by (simp add: switch_steps_def)
  have "st \<in> set (butlast (perform (switch_steps pub r b) s))"
    unfolding switch butlast_perform st_def by (rule last_in_set) simp
  then have st: "st \<in> set (publish pub r s)"
    unfolding publish_Some [OF r]
    by (meson expire_old_nonempty publish_reports_nonempty in_set_butlastD set_butlast_then_do subsetD)
  obtain c where c: "s CURRENT = Some c" using s(2) by auto
  have rot: "rotate_day (run_day r) s = fs_replace CURRENT (completed (decimal d)) s"
    using s c by (simp add: rotate_day_def marker_day_line [where s = s, OF s(1)] decimal_value_decimal)
  have "agree (rotate_day (run_day r) s) (fold (\<lambda>a. a) (stage_day pub r b) (rotate_day (run_day r) s))"
    by (rule agree_aside)
      (metis aside_steps(6) last_in_set last_perform perform_keeps perform_nonempty)
  then have cur: "st CURRENT = Some (pp_gzip pub b)" and mark: "st MARKER = Some (day_line d)"
    unfolding st_def last_perform
    using hidden_names by (auto simp: agree_def fs_replace_def stage_day_staged rot s(1))
  have "rotate_day (run_day next_run) st = fs_replace CURRENT (completed (decimal d)) st"
    using cur s(3) n(2) by (simp add: rotate_day_def marker_day_line [where s = st, OF mark] decimal_value_decimal)
  then have "last (publish pub next_run st) (completed (decimal d)) = Some (pp_gzip pub b)"
    using publish_last [OF n(1) l publish_finite [OF fin st]] n(3) by (simp add: switched_def cur fs_replace_def)
  with st show ?thesis by blast
qed

end
