(* ===== verification/DailyBackfill.thy ===== *)
theory DailyBackfill
imports DailyPublish
begin

text \<open>
  The \<open>backfill\<close> mode of \<open>ping-daily-publish.sh\<close>: once, the thirty days before the current one are
  exported from the database, and days without observations are not kept.  The time is taken to
  be at least thirty days after the epoch.
\<close>

section \<open>The mode\<close>

definition BACKFILL_MARKER :: path where "BACKFILL_MARKER = ''.backfill-v2''"

definition backfill_days :: "publish_run \<Rightarrow> nat list" where
  "backfill_days r = map (\<lambda>i. run_day r - 30 * 86400 + i * 86400) [0..<30]"

definition backfill_export :: "publisher \<Rightarrow> publish_run \<Rightarrow> (nat \<Rightarrow> bool) \<Rightarrow> nat \<Rightarrow> bytes option" where
  "backfill_export pub r fails d =
     (if fails d then None else export_day (pp_cell pub) (pb_db r) (int d))"

definition backfill_raw :: "publish_run \<Rightarrow> nat \<Rightarrow> path" where
  "backfill_raw r d = temporary (''.ping-'' @ decimal d @ ''.bin'') (pb_pid r)"

definition backfill_gz :: "publish_run \<Rightarrow> nat \<Rightarrow> path" where
  "backfill_gz r d = temporary (''.ping-'' @ decimal d @ ''.bin.gz'') (pb_pid r)"

definition backfill_file :: "publisher \<Rightarrow> publish_run \<Rightarrow> nat \<Rightarrow> bytes \<Rightarrow> action list" where
  "backfill_file pub r d b =
     stage (backfill_raw r d) (pb_partial r) b @
     (if 640 < length b
      then stage (backfill_gz r d) (pb_partial r) (pp_gzip pub b) @
           [fs_replace (backfill_gz r d) (completed (decimal d))]
      else [fs_unlink (completed (decimal d))]) @
     [fs_unlink (backfill_raw r d), fs_unlink (backfill_gz r d)]"

fun backfill_loop ::
    "publisher \<Rightarrow> publish_run \<Rightarrow> (nat \<Rightarrow> bool) \<Rightarrow> (store \<Rightarrow> store list) \<Rightarrow> nat list \<Rightarrow> store \<Rightarrow> store list" where
  "backfill_loop pub r fails rest [] s = rest s"
| "backfill_loop pub r fails rest (d # ds) s =
     (case backfill_export pub r fails d of
        None \<Rightarrow> perform [fs_put (backfill_raw r d) (pb_partial r), fs_unlink (backfill_raw r d),
                        fs_unlink (backfill_gz r d)] s
      | Some b \<Rightarrow> then_do (perform (backfill_file pub r d b) s) (backfill_loop pub r fails rest ds))"

definition backfill_reports :: "publish_run \<Rightarrow> store \<Rightarrow> store list" where
  "backfill_reports r = publish_targets
     (map fs_unlink [temporary ''../.targets.json'' (pb_pid r), temporary ''../.daily-manifest.json'' (pb_pid r)])
     [] r"

definition backfill :: "publisher \<Rightarrow> publish_run \<Rightarrow> (nat \<Rightarrow> bool) \<Rightarrow> store \<Rightarrow> store list" where
  "backfill pub r fails s =
     (if s BACKFILL_MARKER \<noteq> None then backfill_reports r s
      else backfill_loop pub r fails
             (\<lambda>s. then_do (perform [fs_put BACKFILL_MARKER []] s) (backfill_reports r)) (backfill_days r) s)"

section \<open>A file with only a header is a day without results\<close>

lemma no_rounds:
  assumes "load_rounds db start finish = []"
  shows "load_targets db start finish = []" "load_ap_targets db start finish = []"
proof -
  have "length (load_rounds db start finish) =
      length (remdups (map pr_observed_at (filter (\<lambda>p. in_period start finish (pr_observed_at p)) (db_results db))))"
    by (simp add: load_rounds_def)
  then have "\<not> has_result db start finish t" for t
    using assms by (auto simp: has_result_def filter_empty_conv)
  then show "load_targets db start finish = []" "load_ap_targets db start finish = []"
    by (simp_all add: load_targets_def load_ap_targets_def)
qed

lemma day_file_length:
  assumes "accurate_cells cell" "0 \<le> start" "start + 86400 < 2 ^ 32" "export_day cell db start = Some b"
  shows "640 < length b \<longleftrightarrow> load_rounds db start (day_end start) \<noteq> []"
proof -
  let ?c = "day_contents_of cell db start" and ?f = "day_end start"
  have e: "u32 (start + 86400) = ?f" using assms(2,3) by (intro u32_day_end) auto
  have w: "well_sized ?c" and b: "b = concat (day_sections ?c)"
    using export_day_reads(1,2) [OF assms] by (simp_all add: readable_def)
  have "length b = file_end (layout_day (length (load_rounds db start ?f)) (length (load_targets db start ?f))
      (length (load_ap_targets db start ?f)))"
    using section_lengths(12) [OF w] by (simp add: b contents_layout_day e del: length_concat)
  moreover have ge: "640 + 4 * R \<le> file_end (layout_day R T A)" for R T A
    using align4_ge [of "640 + R * 4 + T * 6"] align4_ge [of "align4 (640 + R * 4 + T * 6) + T * R + T * R + T * R"]
      align4_ge [of "align4 (align4 (640 + R * 4 + T * 6) + T * R + T * R + T * R) + A * 6"]
    by (simp add: layout_day_def DAY_HEADER_SIZE_def Let_def)
  moreover have "file_end (layout_day 0 0 0) = 640"
    by (simp add: layout_day_def DAY_HEADER_SIZE_def Let_def align4_def)
  ultimately show ?thesis
  proof (cases "load_rounds db start ?f = []")
    case False
    then have "640 < 640 + 4 * length (load_rounds db start ?f)" by simp
    also have "\<dots> \<le> length b" unfolding \<open>length b = _\<close> by (rule ge)
    finally show ?thesis using False by simp
  qed (simp add: no_rounds)
qed

section \<open>What the backfill leaves\<close>

lemma backfill_names [simp]: "\<not> served (backfill_raw r d)" "\<not> served (backfill_gz r d)" "\<not> served BACKFILL_MARKER"
  by (simp_all add: backfill_raw_def backfill_gz_def served_def temporary_def BACKFILL_MARKER_def)

lemma backfill_file_last:
  assumes "served p"
  shows "last (perform (backfill_file pub r d b) s) p =
    (if p = completed (decimal d) then (if 640 < length b then Some (pp_gzip pub b) else None) else s p)"
proof -
  have "backfill_raw r d \<noteq> p" "backfill_gz r d \<noteq> p" "backfill_gz r d \<noteq> completed (decimal d)"
    using assms backfill_names(1,2) [of r d] served_names(3) by metis+
  moreover have "backfill_raw r d \<noteq> completed (decimal d)"
    using backfill_names(1) [of r d] served_names(3) by metis
  ultimately show ?thesis
    by (auto simp: last_perform backfill_file_def stage_def fs_put_def fs_unlink_def fs_replace_def)
qed

lemma backfill_loop_last:
  assumes "\<forall>d \<in> set ds. backfill_export pub r fails d = Some (e d)" "distinct ds" "\<And>s. rest s \<noteq> []"
  shows "backfill_loop pub r fails rest ds s \<noteq> [] \<and> (\<exists>s'. last (backfill_loop pub r fails rest ds s) = last (rest s') \<and>
    (\<forall>d \<in> set ds. s' (completed (decimal d)) = (if 640 < length (e d) then Some (pp_gzip pub (e d)) else None)) \<and>
    (\<forall>p. served p \<longrightarrow> p \<notin> (\<lambda>d. completed (decimal d)) ` set ds \<longrightarrow> s' p = s p))"
  using assms(1,2)
proof (induction ds arbitrary: s)
  case Nil
  then show ?case using assms(3) by auto
next
  case (Cons d ds)
  let ?s = "last (perform (backfill_file pub r d (e d)) s)"
  have loop: "backfill_loop pub r fails rest (d # ds) s =
      then_do (perform (backfill_file pub r d (e d)) s) (backfill_loop pub r fails rest ds)"
    using Cons.prems(1) by simp
  have ih: "backfill_loop pub r fails rest ds ?s \<noteq> []"
    "\<exists>s'. last (backfill_loop pub r fails rest ds ?s) = last (rest s') \<and>
      (\<forall>d \<in> set ds. s' (completed (decimal d)) = (if 640 < length (e d) then Some (pp_gzip pub (e d)) else None)) \<and>
      (\<forall>p. served p \<longrightarrow> p \<notin> (\<lambda>d. completed (decimal d)) ` set ds \<longrightarrow> s' p = ?s p)"
    using Cons.IH [of ?s] Cons.prems by auto
  then obtain s' where s': "last (backfill_loop pub r fails rest ds ?s) = last (rest s')"
    "\<forall>d \<in> set ds. s' (completed (decimal d)) = (if 640 < length (e d) then Some (pp_gzip pub (e d)) else None)"
    "\<forall>p. served p \<longrightarrow> p \<notin> (\<lambda>d. completed (decimal d)) ` set ds \<longrightarrow> s' p = ?s p" by blast
  have "s' (completed (decimal d)) = (if 640 < length (e d) then Some (pp_gzip pub (e d)) else None)"
    using s'(3) [rule_format, of "completed (decimal d)"] Cons.prems(2) by (simp add: backfill_file_last image_iff)
  moreover have "s' p = s p" if "served p" "p \<notin> (\<lambda>d. completed (decimal d)) ` set (d # ds)" for p
    using s'(3) that by (simp add: backfill_file_last)
  ultimately show ?case unfolding loop using ih(1) s'(1,2) by auto
qed

lemma backfill_reports_agree: "agree s (last (backfill_reports r s)) \<and> backfill_reports r s \<noteq> []"
proof -
  have "agree s (last (backfill_reports r s))"
  proof (rule agree_aside)
    fix I assume I: "aside I" "I s"
    show "I (last (backfill_reports r s))"
      unfolding backfill_reports_def
      by (rule publish_targets_keeps [where I = I, OF I(1) _ _ I(2) last_in_set [OF publish_targets_nonempty]])
        (simp_all add: aside_steps [OF I(1)])
  qed
  then show ?thesis by (simp add: backfill_reports_def)
qed

text \<open>
  The first backfill serves each of the thirty days before the current one as its export when the
  database has a result of the day, and not at all when it has none; it touches no other served
  file, and once its marker exists it touches none.
\<close>

theorem backfill_materialises:
  assumes "accurate_cells (pp_cell pub)" "30 * 86400 \<le> run_day r" "run_day r < 2 ^ 32"
    and "\<forall>d \<in> set (backfill_days r). \<not> fails d \<and> export_day (pp_cell pub) (pb_db r) (int d) \<noteq> None"
  shows "let st = last (backfill pub r fails s) in
    if s BACKFILL_MARKER \<noteq> None then (\<forall>p. served p \<longrightarrow> st p = s p)
    else (\<forall>d \<in> set (backfill_days r). st (completed (decimal d)) =
            (if load_rounds (pb_db r) (int d) (day_end (int d)) = [] then None
             else map_option (pp_gzip pub) (export_day (pp_cell pub) (pb_db r) (int d)))) \<and>
         (\<forall>p. served p \<longrightarrow> p \<notin> (\<lambda>d. completed (decimal d)) ` set (backfill_days r) \<longrightarrow> st p = s p)"
proof (cases "s BACKFILL_MARKER")
  case (Some m)
  then show ?thesis using backfill_reports_agree [of s r] by (simp add: backfill_def agree_def)
next
  case None
  let ?e = "\<lambda>d. the (export_day (pp_cell pub) (pb_db r) (int d))"
  let ?rest = "\<lambda>s. then_do (perform [fs_put BACKFILL_MARKER []] s) (backfill_reports r)"
  have ex: "\<forall>d \<in> set (backfill_days r). backfill_export pub r fails d = Some (?e d)"
    using assms(4) by (auto simp: backfill_export_def)
  have "distinct (backfill_days r)" by (simp add: backfill_days_def distinct_map inj_on_def)
  from backfill_loop_last [OF ex this, of ?rest s] backfill_reports_agree obtain s' where
    s': "last (backfill pub r fails s) = last (?rest s')"
    "\<forall>d \<in> set (backfill_days r). s' (completed (decimal d)) =
       (if 640 < length (?e d) then Some (pp_gzip pub (?e d)) else None)"
    "\<forall>p. served p \<longrightarrow> p \<notin> (\<lambda>d. completed (decimal d)) ` set (backfill_days r) \<longrightarrow> s' p = s p"
    by (auto simp: backfill_def None)
  have st: "last (backfill pub r fails s) p = s' p" if "served p" for p
  proof -
    have "BACKFILL_MARKER \<noteq> p" using that by auto
    then show ?thesis
      using backfill_reports_agree [of "fs_put BACKFILL_MARKER [] s'" r] that
      by (simp add: s'(1) agree_def fs_put_def)
  qed
  have "last (backfill pub r fails s) (completed (decimal d)) =
      (if load_rounds (pb_db r) (int d) (day_end (int d)) = [] then None
       else map_option (pp_gzip pub) (export_day (pp_cell pub) (pb_db r) (int d)))"
    if d: "d \<in> set (backfill_days r)" for d
  proof -
    obtain i where "i < 30" "d = run_day r - 30 * 86400 + i * 86400"
      using d by (auto simp: backfill_days_def)
    then have "int d + 86400 < 2 ^ 32" using assms(2,3) by simp
    moreover obtain b where b: "export_day (pp_cell pub) (pb_db r) (int d) = Some b" using assms(4) d by blast
    ultimately have "640 < length b \<longleftrightarrow> load_rounds (pb_db r) (int d) (day_end (int d)) \<noteq> []"
      using day_file_length [OF assms(1)] by simp
    with s'(2) d show ?thesis by (simp add: st b)
  qed
  then show ?thesis using s'(3) None by (simp add: st)
qed

end
