(* ===== verification/VendorXml.thy ===== *)
theory VendorXml
imports PingStore
begin

text \<open>
  How \<open>zd1200-ping-monitor.c\<close> reads the vendor's XML: it searches tags and attributes in the text,
  a pointer into the text being a position.  A text is the part of the file before any NUL.
  Allocation is taken to succeed.  Below the list of access points and the view of the clients.
\<close>

section \<open>Functions of the C library\<close>

text \<open>\<open>atoi\<close>, for values that an \<open>int\<close> holds.\<close>

definition c_isspace :: "char \<Rightarrow> bool" where
  "c_isspace c \<longleftrightarrow> c = CHR '' '' \<or> in_range 9 13 c"

definition atoi :: "string \<Rightarrow> int" where
  "atoi s =
     (let s = dropWhile c_isspace s
      in case s of
           [] \<Rightarrow> 0
         | c # cs \<Rightarrow>
             if c = CHR ''-'' then - int (decimal_value (takeWhile is_ascii_digit cs))
             else if c = CHR ''+'' then int (decimal_value (takeWhile is_ascii_digit cs))
             else int (decimal_value (takeWhile is_ascii_digit s)))"

text \<open>\<open>inet_pton(AF_INET, ...)\<close>: four decimal numbers below 256 without leading zeros.\<close>

definition inet_octet :: "string \<Rightarrow> bool" where
  "inet_octet p \<longleftrightarrow> is_digits p \<and> (hd p \<noteq> CHR ''0'' \<or> p = ''0'') \<and> decimal_value p \<le> 255"

definition inet_pton :: "string \<Rightarrow> nat list option" where
  "inet_pton s =
     (let parts = split_on (CHR ''.'') s
      in if length parts = 4 \<and> list_all inet_octet parts then Some (map decimal_value parts) else None)"

section \<open>Tags and attributes\<close>

definition attr :: "string \<Rightarrow> nat \<Rightarrow> nat \<Rightarrow> string \<Rightarrow> string option" where
  "attr text tag finish name =
     (let needle = '' '' @ name @ ''='' @ [CHR 0x22]
      in case bytes_find text needle tag of
           None \<Rightarrow> None
         | Some a \<Rightarrow>
             if finish \<le> a then None
             else let a = a + length needle
                  in case bytes_find text [CHR 0x22] a of
                       None \<Rightarrow> None
                     | Some b \<Rightarrow> if finish < b then None else Some (take (b - a) (drop a text)))"

text \<open>The tags from a position on, as their positions and those of their \<open>>\<close>.\<close>

function scan_tags :: "string \<Rightarrow> string \<Rightarrow> nat \<Rightarrow> (nat \<times> nat) list" where
  "scan_tags text opening pos =
     (case bytes_find text opening pos of
        None \<Rightarrow> []
      | Some tag \<Rightarrow>
          (case bytes_find text ''>'' tag of
             None \<Rightarrow> []
           | Some finish \<Rightarrow> (tag, finish) # scan_tags text opening (finish + 1)))"
  by pat_completeness auto
termination
  by (relation "measure (\<lambda>(text, opening, pos). length text - pos)") (auto simp: bytes_find_Some_iff)

declare scan_tags.simps [simp del]

definition valid_mac_text :: "string \<Rightarrow> bool" where
  "valid_mac_text mac \<longleftrightarrow> length mac = 17 \<and>
     (\<forall>i < 17. if i mod 3 = 2 then mac ! i = CHR '':'' else hex_value (mac ! i) \<noteq> None)"

text \<open>A missing or empty attribute falls back to the next one.\<close>

definition or_else :: "string option \<Rightarrow> string option \<Rightarrow> string option" where
  "or_else a b = (case a of None \<Rightarrow> b | Some v \<Rightarrow> if v = [] then b else Some v)"

definition optional_int :: "string option \<Rightarrow> int option" where
  "optional_int v = (case v of None \<Rightarrow> None | Some s \<Rightarrow> if s = [] then None else Some (atoi s))"

section \<open>The access points\<close>

record ap_entry =
  ae_id :: string
  ae_name :: string
  ae_ip :: string

definition ap_of_tag :: "string \<Rightarrow> nat \<times> nat \<Rightarrow> ap_entry option" where
  "ap_of_tag text = (\<lambda>(tag, finish).
     case (attr text tag finish ''mac'',
           or_else (or_else (attr text tag finish ''name'') (attr text tag finish ''ap-name''))
             (attr text tag finish ''devname''),
           attr text tag finish ''ip'') of
       (Some i, Some name, Some ip) \<Rightarrow>
         if inet_pton ip \<noteq> None then Some \<lparr>ae_id = i, ae_name = name, ae_ip = ip\<rparr> else None
     | _ \<Rightarrow> None)"

text \<open>New entries go to the head of the list.\<close>

definition read_aps :: "string option \<Rightarrow> ap_entry list" where
  "read_aps xml =
     (case xml of
        None \<Rightarrow> []
      | Some text \<Rightarrow> rev (List.map_filter (ap_of_tag text) (scan_tags text ''<ap '' 0)))"

section \<open>The clients\<close>

record client =
  cl_mac :: string
  cl_ip :: "string option"
  cl_name :: "string option"
  cl_snr :: "int option"

record client_view =
  cv_items :: "client list"
  cv_valid :: bool

definition client_of_tag :: "string \<Rightarrow> nat \<times> nat \<Rightarrow> client option" where
  "client_of_tag text = (\<lambda>(tag, finish).
     let mac = attr text tag finish ''mac'';
         name = or_else (or_else (attr text tag finish ''hostname'') (attr text tag finish ''user'')) mac
     in case mac of
          None \<Rightarrow> None
        | Some m \<Rightarrow>
            if valid_mac_text m
            then Some \<lparr>cl_mac = m, cl_ip = attr text tag finish ''ip'', cl_name = name,
                       cl_snr = optional_int (attr text tag finish ''rssi'')\<rparr>
            else None)"

text \<open>\<open>qsort\<close> with \<open>strcasecmp\<close>; entries that compare equal may come in any order.\<close>

definition parse_client_view :: "string option \<Rightarrow> client_view" where
  "parse_client_view xml =
     (case xml of
        None \<Rightarrow> \<lparr>cv_items = [], cv_valid = False\<rparr>
      | Some text \<Rightarrow>
          \<lparr>cv_items = sort_key (\<lambda>c. nocase (cl_mac c))
             (List.map_filter (client_of_tag text) (scan_tags text ''<client '' 0)),
           cv_valid = True\<rparr>)"

text \<open>The loop of \<open>client_present\<close> and \<open>find_client\<close>.\<close>

function search_client :: "client list \<Rightarrow> string \<Rightarrow> nat \<Rightarrow> nat \<Rightarrow> nat option" where
  "search_client items mac low high =
     (if low < high then
        let middle = low + (high - low) div 2; key = nocase mac; item = nocase (cl_mac (items ! middle))
        in if key = item then Some middle
           else if key < item then search_client items mac low middle
           else search_client items mac (middle + 1) high
      else None)"
  by pat_completeness auto
termination
  by (relation "measure (\<lambda>(items, mac, low, high). high - low)") (auto simp: Let_def)

declare search_client.simps [simp del]

definition client_present :: "client_view \<Rightarrow> string option \<Rightarrow> bool" where
  "client_present view mac =
     (case mac of
        None \<Rightarrow> False
      | Some m \<Rightarrow> search_client (cv_items view) m 0 (length (cv_items view)) \<noteq> None)"

definition find_client :: "client_view \<Rightarrow> string option \<Rightarrow> client option" where
  "find_client view mac =
     (case mac of
        None \<Rightarrow> None
      | Some m \<Rightarrow> map_option (\<lambda>i. cv_items view ! i)
          (search_client (cv_items view) m 0 (length (cv_items view))))"

text \<open>
  The search keeps the matching entries, if there are any, between its bounds, so it finds one
  exactly when there is one.
\<close>

lemma search_client_done: "\<not> low < high \<Longrightarrow> search_client items mac low high = None"
  by (subst search_client.simps) simp

lemma search_client_step:
  "low < high \<Longrightarrow> m = low + (high - low) div 2 \<Longrightarrow> search_client items mac low high =
     (if nocase mac = nocase (cl_mac (items ! m)) then Some m
      else if nocase mac < nocase (cl_mac (items ! m)) then search_client items mac low m
      else search_client items mac (m + 1) high)"
  by (subst search_client.simps) (simp add: Let_def)

lemma search_client_found:
  "search_client items mac low high = Some i \<Longrightarrow>
   low \<le> i \<and> i < high \<and> nocase (cl_mac (items ! i)) = nocase mac"
proof (induction items mac low high rule: search_client.induct)
  case (1 items mac low high)
  show ?case
  proof (cases "low < high")
    case True
    define m where "m = low + (high - low) div 2"
    have m: "low \<le> m" "m < high" using True by (auto simp: m_def)
    show ?thesis
      using 1(1) [OF True m_def refl refl] 1(2) [OF True m_def refl refl] 1(3) m
      unfolding search_client_step [OF True m_def] by (auto split: if_splits)
  qed (use 1(3) in \<open>simp add: search_client_done\<close>)
qed

lemma search_client_complete:
  assumes "sorted (map (\<lambda>c. nocase (cl_mac c)) items)" "high \<le> length items" "low \<le> i" "i < high"
    and "nocase (cl_mac (items ! i)) = nocase mac"
  shows "search_client items mac low high \<noteq> None"
  using assms
proof (induction items mac low high rule: search_client.induct)
  case (1 items mac low high)
  have low: "low < high" using 1(5,6) by simp
  define m where "m = low + (high - low) div 2"
  have m: "low \<le> m" "m < high" using low by (auto simp: m_def)
  have mono: "nocase (cl_mac (items ! j)) \<le> nocase (cl_mac (items ! k))" if "j \<le> k" "k < length items" for j k
    using sorted_nth_mono [OF 1(3), of j k] that by simp
  show ?case
  proof (cases "nocase mac = nocase (cl_mac (items ! m))")
    case True
    then show ?thesis unfolding search_client_step [OF low m_def] by simp
  next
    case differ: False
    show ?thesis
    proof (cases "nocase mac < nocase (cl_mac (items ! m))")
      case less: True
      have "i < m" using mono [of m i] 1(4,6,7) less by (metis leD le_trans linorder_not_le less_le_trans)
      with 1(1) [OF low m_def refl refl differ less 1(3) _ 1(5) _ 1(7)] 1(4) m differ less
      show ?thesis unfolding search_client_step [OF low m_def] by simp
    next
      case greater: False
      have "m < i" using mono [of i m] 1(4,7) m differ greater
        by (metis antisym_conv3 leI less_le_trans linorder_not_le)
      with 1(2) [OF low m_def refl refl differ greater 1(3,4) _ 1(6,7)] differ greater
      show ?thesis unfolding search_client_step [OF low m_def] by simp
    qed
  qed
qed

text \<open>A view is sorted, so both functions are exact up to case.\<close>

lemma client_view_sorted: "sorted (map (\<lambda>c. nocase (cl_mac c)) (cv_items (parse_client_view xml)))"
  by (simp add: parse_client_view_def split: option.split)

theorem client_search_exact:
  shows "client_present (parse_client_view xml) (Some mac) \<longleftrightarrow>
      (\<exists>c \<in> set (cv_items (parse_client_view xml)). nocase (cl_mac c) = nocase mac)"
    and "find_client (parse_client_view xml) (Some mac) = Some c \<Longrightarrow>
      c \<in> set (cv_items (parse_client_view xml)) \<and> nocase (cl_mac c) = nocase mac"
    and "find_client (parse_client_view xml) mac' = None \<longleftrightarrow> \<not> client_present (parse_client_view xml) mac'"
proof -
  let ?items = "cv_items (parse_client_view xml)"
  have "search_client ?items mac 0 (length ?items) \<noteq> None \<longleftrightarrow> (\<exists>c \<in> set ?items. nocase (cl_mac c) = nocase mac)"
    using search_client_found [of ?items mac 0 "length ?items"]
      search_client_complete [OF client_view_sorted [of xml] order_refl, of 0 _ mac]
    by (fastforce simp: in_set_conv_nth)
  then show "client_present (parse_client_view xml) (Some mac) \<longleftrightarrow>
      (\<exists>c \<in> set ?items. nocase (cl_mac c) = nocase mac)"
    by (simp add: client_present_def)
  show "find_client (parse_client_view xml) (Some mac) = Some c \<Longrightarrow>
      c \<in> set ?items \<and> nocase (cl_mac c) = nocase mac"
    using search_client_found [of ?items mac 0 "length ?items"] by (auto simp: find_client_def)
  show "find_client (parse_client_view xml) mac' = None \<longleftrightarrow> \<not> client_present (parse_client_view xml) mac'"
    by (simp add: find_client_def client_present_def split: option.split)
qed

end
