(* ===== verification/PingRound.thy ===== *)
theory PingRound
imports VendorXml
begin

text \<open>
  One round of \<open>zd1200-ping-monitor.c\<close>: \<open>tick\<close> brings the targets up to date, pings them and stores
  the results and the telemetry.  The network is an argument: which echo requests can be sent and
  which packets arrive while a batch waits.  A transaction is a function from the database to the
  changed database, or none when a statement fails; a statement fails when it violates a
  constraint of the schema.  The columns of the tables that \<open>PingStore\<close> does not have are left out.
\<close>

section \<open>The targets\<close>

text \<open>The key of an inserted row, for an \<open>INTEGER PRIMARY KEY\<close>.\<close>

definition next_id :: "int list \<Rightarrow> int" where
  "next_id ids = (if ids = [] then 1 else Max (set ids) + 1)"

text \<open>\<open>INSERT OR IGNORE INTO target\<close>, with the two unique columns.\<close>

definition insert_target ::
    "target_kind \<Rightarrow> string \<Rightarrow> string option \<Rightarrow> string option \<Rightarrow> string \<Rightarrow> ping_db \<Rightarrow> ping_db" where
  "insert_target kind ip mac ap name db =
     (if \<exists>t \<in> set (db_targets db). mac \<noteq> None \<and> tg_client_mac t = mac \<or> ap \<noteq> None \<and> tg_ap_id t = ap then db
      else db\<lparr>db_targets := db_targets db @
             [\<lparr>tg_id = next_id (map tg_id (db_targets db)), tg_kind = kind, tg_ip = ip, tg_client_mac = mac,
               tg_ap_id = ap, tg_name = name, tg_enabled = True\<rparr>]\<rparr>)"

definition seed :: "ap_entry list \<Rightarrow> ping_db \<Rightarrow> ping_db" where
  "seed aps db = fold (\<lambda>ap. insert_target KindAp (ae_ip ap) None (Some (ae_id ap)) (ae_name ap)) aps db"

definition legacy_ap :: "string \<Rightarrow> target_row \<Rightarrow> bool" where
  "legacy_ap ip t \<longleftrightarrow> tg_kind t = KindAp \<and> tg_ip t = ip \<and>
     (case tg_ap_id t of None \<Rightarrow> False | Some i \<Rightarrow> length i \<noteq> 17)"

definition merge_ap :: "ap_entry \<Rightarrow> ping_db \<Rightarrow> ping_db option" where
  "merge_ap ap db =
     (let ids = map tg_id (filter (legacy_ap (ae_ip ap)) (db_targets db));
          kept = filter (\<lambda>t. \<not> legacy_ap (ae_ip ap) t) (db_targets db)
      in case find (\<lambda>t. tg_kind t = KindAp \<and> tg_ap_id t = Some (ae_id ap)) (db_targets db) of
           None \<Rightarrow> if \<exists>p \<in> set (db_results db). pr_target p \<in> set ids then None else Some (db\<lparr>db_targets := kept\<rparr>)
         | Some t \<Rightarrow> Some (db\<lparr>db_targets := kept,
             db_results := map (\<lambda>p. if pr_target p \<in> set ids then p\<lparr>pr_target := tg_id t\<rparr> else p) (db_results db)\<rparr>))"

fun merge_legacy_aps :: "ap_entry list \<Rightarrow> ping_db \<Rightarrow> ping_db option" where
  "merge_legacy_aps [] db = Some db"
| "merge_legacy_aps (ap # aps) db = Option.bind (merge_ap ap db) (merge_legacy_aps aps)"

definition sync_client :: "client \<Rightarrow> ping_db \<Rightarrow> ping_db" where
  "sync_client c db =
     (case (cl_ip c, cl_name c) of
        (Some ip, Some name) \<Rightarrow>
          if inet_pton ip = None then db
          else
            let db = insert_target KindClient ip (Some (cl_mac c)) None name db
            in db\<lparr>db_targets := map (\<lambda>t. if tg_kind t = KindClient \<and> tg_client_mac t = Some (cl_mac c)
                    then t\<lparr>tg_ip := ip, tg_name := name, tg_enabled := True\<rparr> else t) (db_targets db)\<rparr>
      | _ \<Rightarrow> db)"

definition sync_clients :: "client_view \<Rightarrow> ping_db \<Rightarrow> ping_db" where
  "sync_clients view db = fold sync_client (cv_items view) db"

section \<open>The measurements\<close>

definition TIMEOUT_MS :: int where "TIMEOUT_MS = 1000"
definition PING_BATCH_SIZE :: nat where "PING_BATCH_SIZE = 512"
definition ICMP_MAGIC :: nat where "ICMP_MAGIC = 0x5a443132"
definition RETENTION_SECONDS :: int where "RETENTION_SECONDS = 30 * 24 * 60 * 60"

record measurement =
  ms_id :: int
  ms_address :: "nat list"
  ms_state :: ping_state
  ms_rtt :: int
  ms_responded :: int
  ms_pingable :: bool
  ms_snr :: "int option"

definition load_measurement :: "client_view \<Rightarrow> target_row \<Rightarrow> measurement" where
  "load_measurement view t =
     (let client = (tg_kind t = KindClient); address = inet_pton (tg_ip t);
          found = (if client then find_client view (tg_client_mac t) else None);
          item = \<lparr>ms_id = tg_id t, ms_address = [0, 0, 0, 0], ms_state = StateUnknown, ms_rtt = TIMEOUT_MS,
                  ms_responded = 0, ms_pingable = False,
                  ms_snr = (case found of None \<Rightarrow> None | Some c \<Rightarrow> cl_snr c)\<rparr>
      in if client \<and> \<not> cv_valid view then item
         else if client \<and> \<not> client_present view (tg_client_mac t) then item\<lparr>ms_state := StateNotAssociated\<rparr>
         else case address of
                Some a \<Rightarrow> item\<lparr>ms_address := a, ms_state := StateTimeout, ms_pingable := True\<rparr>
              | None \<Rightarrow> item)"

definition load_measurements :: "client_view \<Rightarrow> ping_db \<Rightarrow> measurement list" where
  "load_measurements view db = map (load_measurement view) (sort_key tg_id (filter tg_enabled (db_targets db)))"

text \<open>
  A packet that arrives: whether it is long enough, its source, and the fields the code reads;
  \<open>ec_elapsed\<close> is the time since the request of its position was sent, by the clock of the host.
\<close>

record echo =
  ec_complete :: bool
  ec_source :: "nat list"
  ec_reply :: bool
  ec_id :: nat
  ec_magic :: nat
  ec_index :: nat
  ec_elapsed :: int

record network =
  nw_socket :: bool
  nw_identifier :: nat
  nw_sent :: "nat \<Rightarrow> bool"
  nw_received :: "nat \<Rightarrow> echo list"

definition send_probe :: "measurement \<Rightarrow> measurement" where
  "send_probe item = item\<lparr>ms_state := StateTimeout, ms_rtt := TIMEOUT_MS\<rparr>"

definition accepts :: "nat \<Rightarrow> nat list \<Rightarrow> nat \<Rightarrow> nat \<Rightarrow> measurement list \<Rightarrow> echo \<Rightarrow> bool" where
  "accepts identifier indices start finish items e \<longleftrightarrow>
     ec_complete e \<and> ec_reply e \<and> ec_id e = identifier \<and> ec_magic e = ICMP_MAGIC \<and>
     start \<le> ec_index e \<and> ec_index e < finish \<and>
     (let item = items ! (indices ! ec_index e)
      in ms_responded item = 0 \<and> ec_source e = ms_address item)"

definition record_reply :: "echo \<Rightarrow> measurement \<Rightarrow> measurement" where
  "record_reply e item =
     item\<lparr>ms_rtt := (if ec_elapsed e < 0 then 0 else if TIMEOUT_MS < ec_elapsed e then TIMEOUT_MS else ec_elapsed e),
          ms_responded := 1, ms_state := StateOk\<rparr>"

text \<open>The packets of one wait; the list ends at the deadline.\<close>

fun receive ::
    "nat \<Rightarrow> nat list \<Rightarrow> nat \<Rightarrow> nat \<Rightarrow> nat \<Rightarrow> echo list \<Rightarrow> measurement list \<Rightarrow> measurement list" where
  "receive identifier indices start finish pending [] items = items"
| "receive identifier indices start finish pending (e # es) items =
     (if pending = 0 then items
      else if accepts identifier indices start finish items e
      then receive identifier indices start finish (pending - 1) es
             (items[indices ! ec_index e := record_reply e (items ! (indices ! ec_index e))])
      else receive identifier indices start finish pending es items)"

definition probe_batch :: "network \<Rightarrow> nat list \<Rightarrow> nat \<Rightarrow> measurement list \<Rightarrow> measurement list" where
  "probe_batch net indices start items =
     (let finish = min (start + PING_BATCH_SIZE) (length indices);
          items = fold (\<lambda>i items. items[indices ! i := send_probe (items ! (indices ! i))]) [start..<finish] items;
          pending = length (filter (nw_sent net) [start..<finish])
      in receive (nw_identifier net) indices start finish pending (nw_received net start) items)"

definition parallel_ping :: "network \<Rightarrow> measurement list \<Rightarrow> measurement list option" where
  "parallel_ping net items =
     (let indices = filter (\<lambda>i. ms_pingable (items ! i)) [0..<length items]
      in if \<not> nw_socket net then None
         else Some (fold (\<lambda>k. probe_batch net indices (k * PING_BATCH_SIZE))
                [0..<(length indices + PING_BATCH_SIZE - 1) div PING_BATCH_SIZE] items))"

section \<open>The rows\<close>

text \<open>\<open>INSERT INTO ping_result\<close>, with the checks of the table.\<close>

definition insert_result :: "int \<Rightarrow> measurement \<Rightarrow> ping_db \<Rightarrow> ping_db option" where
  "insert_result now item db =
     (if 0 \<le> ms_rtt item \<and> ms_rtt item \<le> 1000 \<and> ms_responded item \<in> {0, 1}
      then Some (db\<lparr>db_results := db_results db @
             [\<lparr>pr_id = next_id (map pr_id (db_results db)), pr_observed_at = now, pr_target = ms_id item,
               pr_rtt = ms_rtt item, pr_responded = ms_responded item, pr_state = ms_state item,
               pr_snr = ms_snr item\<rparr>]\<rparr>)
      else None)"

fun insert_results :: "int \<Rightarrow> measurement list \<Rightarrow> ping_db \<Rightarrow> ping_db option" where
  "insert_results now [] db = Some db"
| "insert_results now (item # items) db = Option.bind (insert_result now item db) (insert_results now items)"

text \<open>\<open>INSERT OR REPLACE\<close> on the primary keys of the two tables of telemetry.\<close>

definition put_radio :: "radio_row \<Rightarrow> ping_db \<Rightarrow> ping_db" where
  "put_radio r db = db\<lparr>db_radios := filter (\<lambda>q. \<not> (rs_observed_at q = rs_observed_at r \<and>
     rs_ap_mac q = rs_ap_mac r \<and> rs_radio_id q = rs_radio_id r)) (db_radios db) @ [r]\<rparr>"

definition put_link :: "link_row \<Rightarrow> ping_db \<Rightarrow> ping_db" where
  "put_link l db = db\<lparr>db_links := filter (\<lambda>q. \<not> (ml_observed_at q = ml_observed_at l \<and>
     ml_ap_mac q = ml_ap_mac l \<and> ml_peer_mac q = ml_peer_mac l \<and> ml_direction q = ml_direction l)) (db_links db) @ [l]\<rparr>"

text \<open>A radio without an id violates its \<open>NOT NULL\<close> column.\<close>

definition ingest_radio :: "string \<Rightarrow> string \<Rightarrow> int \<Rightarrow> nat \<times> nat \<Rightarrow> ping_db \<Rightarrow> ping_db option" where
  "ingest_radio text mac now = (\<lambda>(tag, finish) db.
     case optional_int (attr text tag finish ''radio-id'') of
       None \<Rightarrow> None
     | Some i \<Rightarrow> Some (put_radio
         \<lparr>rs_observed_at = now, rs_ap_mac = mac, rs_radio_id = i,
          rs_radio_type = attr text tag finish ''radio-type'',
          rs_airtime_total = optional_int (attr text tag finish ''airtime-total''),
          rs_rf_samples = optional_int (attr text tag finish ''rf-samples'')\<rparr> db))"

definition next_link :: "string \<Rightarrow> nat \<Rightarrow> nat \<Rightarrow> (link_direction \<times> nat) option" where
  "next_link text cursor ap_end =
     (let up = bytes_find text ''<uplink-ap '' cursor; down = bytes_find text ''<downlink-ap '' cursor;
          up_first = (case up of None \<Rightarrow> False
                      | Some u \<Rightarrow> u < ap_end \<and> (case down of None \<Rightarrow> True | Some d \<Rightarrow> u < d))
      in if up_first then map_option (Pair Uplink) up
         else case down of None \<Rightarrow> None | Some d \<Rightarrow> if d < ap_end then Some (Downlink, d) else None)"

lemma next_link_ge: "next_link text cursor ap_end = Some (direction, tag) \<Longrightarrow> cursor \<le> tag"
  by (auto simp: next_link_def Let_def bytes_find_Some_iff split: if_splits option.splits)

lemma scan_links_advance:
  assumes "next_link text cursor ap_end = Some (direction, tag)" "bytes_find text ''>'' tag = Some finish"
  shows "length text - (finish + 1) < length text - cursor"
  using next_link_ge [OF assms(1)] assms(2) by (auto simp: bytes_find_Some_iff)

function scan_links :: "string \<Rightarrow> nat \<Rightarrow> nat \<Rightarrow> (link_direction \<times> nat \<times> nat) list" where
  "scan_links text cursor ap_end =
     (if \<not> cursor < ap_end then []
      else case next_link text cursor ap_end of
             None \<Rightarrow> []
           | Some (direction, tag) \<Rightarrow>
               (case bytes_find text ''>'' tag of
                  None \<Rightarrow> []
                | Some finish \<Rightarrow>
                    if ap_end < finish then []
                    else (direction, tag, finish) # scan_links text (finish + 1) ap_end))"
  by pat_completeness auto
termination
  by (relation "measure (\<lambda>(text, cursor, ap_end). length text - cursor)")
    (auto intro: scan_links_advance simp del: One_nat_def add_Suc_right)

declare scan_links.simps [simp del]

definition ingest_link :: "string \<Rightarrow> string \<Rightarrow> int \<Rightarrow> link_direction \<times> nat \<times> nat \<Rightarrow> ping_db \<Rightarrow> ping_db" where
  "ingest_link text mac now = (\<lambda>(direction, tag, finish) db.
     case attr text tag finish ''ap'' of
       None \<Rightarrow> db
     | Some peer \<Rightarrow>
         if valid_mac_text peer
         then put_link \<lparr>ml_observed_at = now, ml_ap_mac = mac, ml_peer_mac = peer, ml_direction = direction,
                        ml_snr = optional_int (attr text tag finish ''rssi'')\<rparr> db
         else db)"

fun ingest_radios :: "string \<Rightarrow> string \<Rightarrow> int \<Rightarrow> (nat \<times> nat) list \<Rightarrow> ping_db \<Rightarrow> ping_db option" where
  "ingest_radios text mac now [] db = Some db"
| "ingest_radios text mac now (tag # tags) db =
     Option.bind (ingest_radio text mac now tag db) (ingest_radios text mac now tags)"

definition ingest_ap :: "string \<Rightarrow> int \<Rightarrow> nat \<times> nat \<times> nat \<Rightarrow> ping_db \<Rightarrow> ping_db option" where
  "ingest_ap text now = (\<lambda>(tag, head_end, ap_end) db.
     case attr text tag head_end ''mac'' of
       None \<Rightarrow> Some db
     | Some mac \<Rightarrow>
         if \<not> valid_mac_text mac then Some db
         else map_option (fold (ingest_link text mac now) (scan_links text (head_end + 1) ap_end))
           (ingest_radios text mac now
             (takeWhile (\<lambda>(tag, finish). tag < ap_end \<and> finish \<le> ap_end)
               (scan_tags text ''<radio '' (head_end + 1))) db))"

function ingest_aps :: "string \<Rightarrow> int \<Rightarrow> nat \<Rightarrow> ping_db \<Rightarrow> ping_db option" where
  "ingest_aps text now pos db =
     (case bytes_find text ''<ap '' pos of
        None \<Rightarrow> Some db
      | Some tag \<Rightarrow>
          (case bytes_find text ''>'' tag of
             None \<Rightarrow> Some db
           | Some head_end \<Rightarrow>
               (case bytes_find text ''</ap>'' head_end of
                  None \<Rightarrow> Some db
                | Some ap_end \<Rightarrow>
                    (case ingest_ap text now (tag, head_end, ap_end) db of
                       None \<Rightarrow> None
                     | Some db \<Rightarrow> ingest_aps text now (ap_end + 5) db))))"
  by pat_completeness auto
termination
  by (relation "measure (\<lambda>(text, now, pos, db). length text - pos)") (auto simp: bytes_find_Some_iff)

declare ingest_aps.simps [simp del]

definition ingest_ap_detail :: "string option \<Rightarrow> int \<Rightarrow> ping_db \<Rightarrow> ping_db option" where
  "ingest_ap_detail detail now db = (case detail of None \<Rightarrow> Some db | Some text \<Rightarrow> ingest_aps text now 0 db)"

definition prune :: "int \<Rightarrow> ping_db \<Rightarrow> ping_db" where
  "prune now db =
     db\<lparr>db_results := filter (\<lambda>p. \<not> pr_observed_at p < now - RETENTION_SECONDS) (db_results db),
        db_radios := filter (\<lambda>r. \<not> rs_observed_at r < now - RETENTION_SECONDS) (db_radios db),
        db_links := filter (\<lambda>l. \<not> ml_observed_at l < now - RETENTION_SECONDS) (db_links db)\<rparr>"

section \<open>The round\<close>

text \<open>Both transactions, each undone as a whole when a statement of it fails.\<close>

definition sync_targets :: "ap_entry list \<Rightarrow> client_view \<Rightarrow> ping_db \<Rightarrow> ping_db option" where
  "sync_targets aps view db =
     map_option (if cv_valid view then sync_clients view else id) (merge_legacy_aps aps (seed aps db))"

definition store_round :: "string option \<Rightarrow> int \<Rightarrow> measurement list \<Rightarrow> ping_db \<Rightarrow> ping_db option" where
  "store_round detail now items db =
     Option.bind (insert_results now items db) (\<lambda>db. map_option (prune now) (ingest_ap_detail detail now db))"

definition tick ::
    "network \<Rightarrow> string option \<Rightarrow> string option \<Rightarrow> string option \<Rightarrow> int \<Rightarrow> ping_db \<Rightarrow> bool \<times> ping_db" where
  "tick net ap_list client_xml detail now db =
     (let view = parse_client_view client_xml
      in case sync_targets (read_aps ap_list) view db of
           None \<Rightarrow> (False, db)
         | Some db \<Rightarrow>
             (case parallel_ping net (load_measurements view db) of
                None \<Rightarrow> (False, db)
              | Some items \<Rightarrow>
                  (case store_round detail now items db of
                     None \<Rightarrow> (False, db)
                   | Some db' \<Rightarrow> (True, db'))))"

end
