(* ===== verification/PingProbes.thy ===== *)
theory PingProbes
imports PingRound
begin

text \<open>
  What a round stores: one row for each enabled target, whose state is that of the view of the
  clients and of the packets that answered the very probe of the target.
\<close>

section \<open>The packets of a batch\<close>

text \<open>A packet that answers the probe of position \<open>i\<close>.\<close>

definition answers :: "network \<Rightarrow> echo \<Rightarrow> nat \<Rightarrow> measurement \<Rightarrow> bool" where
  "answers net e i item \<longleftrightarrow> ec_complete e \<and> ec_reply e \<and> ec_id e = nw_identifier net \<and> ec_magic e = ICMP_MAGIC \<and>
     ec_index e = i \<and> ec_source e = ms_address item"

lemma accepts_iff:
  "accepts (nw_identifier net) indices start finish items e \<longleftrightarrow>
     start \<le> ec_index e \<and> ec_index e < finish \<and> ms_responded (items ! (indices ! ec_index e)) = 0 \<and>
     answers net e (ec_index e) (items ! (indices ! ec_index e))"
  by (auto simp: accepts_def answers_def Let_def)

lemma record_reply_simps [simp]:
  "ms_responded (record_reply e item) = 1" "ms_address (record_reply e item) = ms_address item"
  "ms_id (record_reply e item) = ms_id item" "ms_state (record_reply e item) = StateOk"
  "ms_pingable (record_reply e item) = ms_pingable item" "ms_snr (record_reply e item) = ms_snr item"
  "0 \<le> ms_rtt (record_reply e item)" "ms_rtt (record_reply e item) \<le> 1000"
  by (auto simp: record_reply_def TIMEOUT_MS_def)

lemma send_probe_simps [simp]:
  "ms_responded (send_probe item) = ms_responded item" "ms_address (send_probe item) = ms_address item"
  "ms_id (send_probe item) = ms_id item" "ms_state (send_probe item) = StateTimeout"
  "ms_pingable (send_probe item) = ms_pingable item" "ms_snr (send_probe item) = ms_snr item"
  "ms_rtt (send_probe item) = 1000"
  by (auto simp: send_probe_def TIMEOUT_MS_def)

lemma answers_send_probe [simp]: "answers net e i (send_probe item) \<longleftrightarrow> answers net e i item"
  by (simp add: answers_def)

lemma nth_index_range: "set indices \<subseteq> {..<n} \<Longrightarrow> k < length indices \<Longrightarrow> indices ! k < n"
  by (meson lessThan_iff nth_mem subsetD)

text \<open>A wait changes only positions of its batch, and each at most once, by a packet that answers it.\<close>

lemma receive_effect:
  assumes "distinct indices" "set indices \<subseteq> {..<length items}" "finish \<le> length indices"
  shows "let items' = receive (nw_identifier net) indices start finish pending es items in
    length items' = length items \<and>
    (\<forall>j. j \<notin> (!) indices ` {start..<finish} \<longrightarrow> items' ! j = items ! j) \<and>
    (\<forall>i \<in> {start..<finish}. items' ! (indices ! i) = items ! (indices ! i) \<or>
       ms_responded (items ! (indices ! i)) = 0 \<and>
       (\<exists>e \<in> set es. answers net e i (items ! (indices ! i)) \<and>
          items' ! (indices ! i) = record_reply e (items ! (indices ! i))))"
  unfolding Let_def using assms(2)
proof (induction es arbitrary: pending items)
  case Nil
  then show ?case by simp
next
  case (Cons e es)
  let ?id = "nw_identifier net" and ?k = "ec_index e"
  consider "pending = 0" | "pending \<noteq> 0" "\<not> accepts ?id indices start finish items e"
    | "pending \<noteq> 0" "accepts ?id indices start finish items e" by blast
  then show ?case
  proof cases
    case 1
    then show ?thesis by simp
  next
    case 2
    then show ?thesis using Cons.IH [OF Cons.prems, of pending] by fastforce
  next
    case 3
    define upd where "upd = items[indices ! ?k := record_reply e (items ! (indices ! ?k))]"
    have k: "start \<le> ?k" "?k < finish" "ms_responded (items ! (indices ! ?k)) = 0"
      "answers net e ?k (items ! (indices ! ?k))"
      using 3(2) by (simp_all add: accepts_iff)
    have r: "receive ?id indices start finish pending (e # es) items =
        receive ?id indices start finish (pending - 1) es upd"
      using 3 by (simp add: upd_def)
    have ih: "length (receive ?id indices start finish (pending - 1) es upd) = length items"
      "\<And>j. j \<notin> (!) indices ` {start..<finish} \<Longrightarrow> receive ?id indices start finish (pending - 1) es upd ! j = upd ! j"
      "\<And>i. i \<in> {start..<finish} \<Longrightarrow> receive ?id indices start finish (pending - 1) es upd ! (indices ! i) = upd ! (indices ! i) \<or>
         ms_responded (upd ! (indices ! i)) = 0 \<and> (\<exists>e \<in> set es. answers net e i (upd ! (indices ! i)) \<and>
          receive ?id indices start finish (pending - 1) es upd ! (indices ! i) = record_reply e (upd ! (indices ! i)))"
      using Cons.IH [of upd "pending - 1"] Cons.prems by (simp_all add: upd_def)
    have range: "indices ! ?k < length items" using nth_index_range [OF Cons.prems] k(2) assms(3) by simp
    have upd_nth: "upd ! (indices ! i) =
        (if i = ?k then record_reply e (items ! (indices ! ?k)) else items ! (indices ! i))"
      if "i < finish" for i
      using that k(2) assms(1,3) range by (auto simp: upd_def nth_list_update nth_eq_iff_index_eq)
    have outside: "upd ! j = items ! j" if "j \<notin> (!) indices ` {start..<finish}" for j
    proof -
      have "indices ! ?k \<in> (!) indices ` {start..<finish}" using k(1,2) by simp
      then have "indices ! ?k \<noteq> j" using that by metis
      then show ?thesis by (simp add: upd_def)
    qed
    show ?thesis
      unfolding r
    proof (intro conjI allI ballI impI)
      fix i assume i: "i \<in> {start..<finish}"
      show "receive ?id indices start finish (pending - 1) es upd ! (indices ! i) = items ! (indices ! i) \<or>
          ms_responded (items ! (indices ! i)) = 0 \<and> (\<exists>e' \<in> set (e # es). answers net e' i (items ! (indices ! i)) \<and>
          receive ?id indices start finish (pending - 1) es upd ! (indices ! i) = record_reply e' (items ! (indices ! i)))"
        using ih(3) [OF i] upd_nth [of i] i k(3,4) by (cases "i = ?k") auto
    qed (use ih(1,2) outside in simp_all)
  qed
qed

lemma receive_position:
  assumes "distinct indices" "set indices \<subseteq> {..<length items}" "finish \<le> length indices" "start \<le> i" "i < finish"
  shows "receive (nw_identifier net) indices start finish pending es items ! (indices ! i) = items ! (indices ! i) \<or>
       ms_responded (items ! (indices ! i)) = 0 \<and>
       (\<exists>e \<in> set es. answers net e i (items ! (indices ! i)) \<and>
          receive (nw_identifier net) indices start finish pending es items ! (indices ! i) =
            record_reply e (items ! (indices ! i)))"
  using receive_effect [OF assms(1-3), of net start pending es] assms(4,5) by (simp add: Let_def)

lemma receive_kept:
  fixes net :: network
  assumes "distinct indices" "set indices \<subseteq> {..<length items}" "finish \<le> length indices" "start \<le> i" "i < finish"
    and "ms_responded (items ! (indices ! i)) = 1"
  shows "ms_responded (receive (nw_identifier net) indices start finish pending es items ! (indices ! i)) = 1"
  using receive_position [OF assms(1-5), of net pending es] assms(6) by auto

text \<open>
  When only probes that were sent are answered, the count of open probes never ends a wait too
  early: every probe with an answer is recorded.
\<close>

lemma receive_complete:
  assumes "distinct indices" "set indices \<subseteq> {..<length items}" "finish \<le> length indices"
    and "\<And>e i. e \<in> set es \<Longrightarrow> start \<le> i \<Longrightarrow> i < finish \<Longrightarrow> answers net e i (items ! (indices ! i)) \<Longrightarrow> sent i"
    and "\<And>i. start \<le> i \<Longrightarrow> i < finish \<Longrightarrow> ms_responded (items ! (indices ! i)) \<in> {0, 1}"
    and "pending = card {i. start \<le> i \<and> i < finish \<and> sent i \<and> ms_responded (items ! (indices ! i)) = 0}"
    and "start \<le> i" "i < finish" "e \<in> set es" "answers net e i (items ! (indices ! i))"
  shows "ms_responded (receive (nw_identifier net) indices start finish pending es items ! (indices ! i)) = 1"
  using assms(2,4-)
proof (induction es arbitrary: pending items e)
  case (Cons x es)
  let ?id = "nw_identifier net" and ?k = "ec_index x"
  let ?open = "{i. start \<le> i \<and> i < finish \<and> sent i \<and> ms_responded (items ! (indices ! i)) = 0}"
  have fin: "finite ?open" by (rule finite_subset [of _ "{..<finish}"]) auto
  have sent: "sent i" using Cons.prems(2) [OF Cons.prems(7,5,6,8)] .
  show ?case
  proof (cases "pending = 0")
    case True
    then have "ms_responded (items ! (indices ! i)) \<noteq> 0" using Cons.prems(4,5,6) sent fin by auto
    then show ?thesis using True Cons.prems(3) [OF Cons.prems(5,6)] by simp
  next
    case pending: False
    show ?thesis
    proof (cases "accepts ?id indices start finish items x")
      case False
      then have r: "receive ?id indices start finish pending (x # es) items =
          receive ?id indices start finish pending es items" using pending by simp
      show ?thesis
      proof (cases "e \<in> set es")
        case True
        have "\<And>e i. e \<in> set es \<Longrightarrow> start \<le> i \<Longrightarrow> i < finish \<Longrightarrow> answers net e i (items ! (indices ! i)) \<Longrightarrow> sent i"
          by (rule Cons.prems(2)) (rule list.set_intros(2))
        from Cons.IH [OF Cons.prems(1) this Cons.prems(3,4,5,6) True Cons.prems(8)] show ?thesis
          unfolding r by simp
      next
        case e: False
        then have "ms_responded (items ! (indices ! i)) = 1"
          using False Cons.prems(3) [OF Cons.prems(5,6)] Cons.prems(5-8) by (auto simp: accepts_iff answers_def)
        then show ?thesis
          unfolding r by (rule receive_kept [OF assms(1) Cons.prems(1) assms(3) Cons.prems(5,6)])
      qed
    next
      case True
      define upd where "upd = items[indices ! ?k := record_reply x (items ! (indices ! ?k))]"
      have k: "start \<le> ?k" "?k < finish" "ms_responded (items ! (indices ! ?k)) = 0"
        "answers net x ?k (items ! (indices ! ?k))"
        using True by (simp_all add: accepts_iff)
      have r: "receive ?id indices start finish pending (x # es) items =
          receive ?id indices start finish (pending - 1) es upd"
        using True pending by (simp add: upd_def)
      have range: "indices ! ?k < length items" using nth_index_range [OF Cons.prems(1)] k(2) assms(3) by simp
      have upd_nth: "upd ! (indices ! i) =
          (if i = ?k then record_reply x (items ! (indices ! ?k)) else items ! (indices ! i))"
        if "i < finish" for i
        using that k(2) assms(1,3) range by (auto simp: upd_def nth_list_update nth_eq_iff_index_eq)
      have len: "set indices \<subseteq> {..<length upd}" using Cons.prems(1) by (simp add: upd_def)
      show ?thesis
      proof (cases "i = ?k")
        case True
        have "ms_responded (upd ! (indices ! i)) = 1" using upd_nth [OF Cons.prems(6)] True by simp
        then show ?thesis
          unfolding r by (rule receive_kept [OF assms(1) len assms(3) Cons.prems(5,6)])
      next
        case False
        then have "e \<in> set es" using Cons.prems(7,8) by (auto simp: answers_def)
        moreover have "{i. start \<le> i \<and> i < finish \<and> sent i \<and> ms_responded (upd ! (indices ! i)) = 0} = ?open - {?k}"
          by (auto simp: upd_nth split: if_splits)
        moreover have "?k \<in> ?open"
          using k Cons.prems(2) [of x ?k] by simp
        ultimately show ?thesis
          unfolding r
          using Cons.IH [OF len, of "pending - 1" e] Cons.prems(2-6,8) upd_nth False fin
          by (auto simp: answers_def split: if_splits)
      qed
    qed
  qed
qed simp

section \<open>All batches\<close>

text \<open>The packets that arrive while the batch of position \<open>i\<close> waits.\<close>

definition batch_packets :: "network \<Rightarrow> nat \<Rightarrow> echo set" where
  "batch_packets net i = set (nw_received net (i div PING_BATCH_SIZE * PING_BATCH_SIZE))"

text \<open>
  What the round makes of the item of position \<open>i\<close>: a probe without an answer, or one with the reply of
  a packet that answers it; and a reply, if any packet does and nobody answers what was not sent.
\<close>

definition probed :: "network \<Rightarrow> nat \<Rightarrow> measurement \<Rightarrow> measurement \<Rightarrow> bool" where
  "probed net i item item' \<longleftrightarrow>
     (item' = send_probe item \<or>
      (\<exists>e \<in> batch_packets net i. answers net e i item \<and> item' = record_reply e (send_probe item)))"

definition only_sent_answered :: "network \<Rightarrow> nat list \<Rightarrow> measurement list \<Rightarrow> bool" where
  "only_sent_answered net indices items \<longleftrightarrow>
     (\<forall>i < length indices. \<forall>e \<in> batch_packets net i. answers net e i (items ! (indices ! i)) \<longrightarrow> nw_sent net i)"

lemma fold_probes:
  assumes "distinct indices" "set indices \<subseteq> {..<length items}" "finish \<le> length indices" "start \<le> finish"
  shows "let items' = fold (\<lambda>i items. items[indices ! i := send_probe (items ! (indices ! i))]) [start..<finish] items in
    length items' = length items \<and>
    (\<forall>j. j \<notin> (!) indices ` {start..<finish} \<longrightarrow> items' ! j = items ! j) \<and>
    (\<forall>i \<in> {start..<finish}. items' ! (indices ! i) = send_probe (items ! (indices ! i)))"
  using assms(3,4)
proof (induction finish)
  case (Suc finish)
  show ?case
  proof (cases "start = Suc finish")
    case False
    let ?f = "fold (\<lambda>i items. items[indices ! i := send_probe (items ! (indices ! i))]) [start..<finish] items"
    have ih: "length ?f = length items" "\<And>j. j \<notin> (!) indices ` {start..<finish} \<Longrightarrow> ?f ! j = items ! j"
      "\<And>i. i \<in> {start..<finish} \<Longrightarrow> ?f ! (indices ! i) = send_probe (items ! (indices ! i))"
      using Suc.IH Suc.prems False by (simp_all add: Let_def)
    have range: "indices ! finish < length items" using nth_index_range [OF assms(2)] Suc.prems(1) by simp
    have new: "indices ! finish \<notin> (!) indices ` {start..<finish}"
      using assms(1) Suc.prems(1) by (auto simp: nth_eq_iff_index_eq)
    have "[start..<Suc finish] = [start..<finish] @ [finish]" using False Suc.prems(2) by simp
    moreover have "{start..<Suc finish} = insert finish {start..<finish}" using False Suc.prems(2) by auto
    ultimately show ?thesis
      using ih range new by (auto simp: Let_def nth_list_update)
  qed simp
qed simp

lemma probe_batch_effect:
  assumes d: "distinct indices" "set indices \<subseteq> {..<length items}"
    and k: "start = k * PING_BATCH_SIZE" "start < length indices"
    and fresh: "\<forall>i. start \<le> i \<longrightarrow> i < length indices \<longrightarrow> ms_responded (items ! (indices ! i)) = 0"
  shows "length (probe_batch net indices start items) = length items"
    and "j \<notin> (!) indices ` {start..<min (start + PING_BATCH_SIZE) (length indices)} \<Longrightarrow>
      probe_batch net indices start items ! j = items ! j"
    and "i \<in> {start..<min (start + PING_BATCH_SIZE) (length indices)} \<Longrightarrow>
      probed net i (items ! (indices ! i)) (probe_batch net indices start items ! (indices ! i)) \<and>
      (only_sent_answered net indices items \<longrightarrow> e \<in> batch_packets net i \<longrightarrow> answers net e i (items ! (indices ! i)) \<longrightarrow>
       ms_responded (probe_batch net indices start items ! (indices ! i)) = 1)"
proof -
  define finish where "finish = min (start + PING_BATCH_SIZE) (length indices)"
  define sent where "sent = fold (\<lambda>i items. items[indices ! i := send_probe (items ! (indices ! i))]) [start..<finish] items"
  let ?es = "nw_received net start" and ?p = "length (filter (nw_sent net) [start..<finish])"
  have f: "finish \<le> length indices" "start \<le> finish" using k(2) by (auto simp: finish_def PING_BATCH_SIZE_def)
  have sent: "length sent = length items" "\<And>j. j \<notin> (!) indices ` {start..<finish} \<Longrightarrow> sent ! j = items ! j"
    "\<And>i. i \<in> {start..<finish} \<Longrightarrow> sent ! (indices ! i) = send_probe (items ! (indices ! i))"
    using fold_probes [OF d f] by (simp_all add: sent_def Let_def)
  have d': "set indices \<subseteq> {..<length sent}" using d(2) sent(1) by simp
  have batch: "probe_batch net indices start items = receive (nw_identifier net) indices start finish ?p ?es sent"
    by (simp add: probe_batch_def finish_def sent_def Let_def)
  have packets: "batch_packets net i = set ?es" if "i \<in> {start..<finish}" for i
  proof -
    have "i div PING_BATCH_SIZE = k"
      using that unfolding finish_def k(1) by (intro div_nat_eqI) (auto simp: PING_BATCH_SIZE_def)
    then show ?thesis by (simp add: batch_packets_def k(1))
  qed
  note effect = receive_effect [OF d(1) d' f(1), of net start ?p ?es, unfolded Let_def]
  show "length (probe_batch net indices start items) = length items"
    using effect sent(1) by (simp add: batch)
  show "probe_batch net indices start items ! j = items ! j"
    if "j \<notin> (!) indices ` {start..<min (start + PING_BATCH_SIZE) (length indices)}"
    using effect sent(2) that by (simp add: batch finish_def)
  have open_count: "?p = card {i. start \<le> i \<and> i < finish \<and> nw_sent net i \<and> ms_responded (sent ! (indices ! i)) = 0}"
  proof -
    have "?p = card (set (filter (nw_sent net) [start..<finish]))" by (rule distinct_card [symmetric]) simp
    also have "set (filter (nw_sent net) [start..<finish]) =
        {i. start \<le> i \<and> i < finish \<and> nw_sent net i \<and> ms_responded (sent ! (indices ! i)) = 0}"
      using sent(3) fresh f(1) by auto
    finally show ?thesis .
  qed
  show "probed net i (items ! (indices ! i)) (probe_batch net indices start items ! (indices ! i)) \<and>
      (only_sent_answered net indices items \<longrightarrow> e \<in> batch_packets net i \<longrightarrow> answers net e i (items ! (indices ! i)) \<longrightarrow>
       ms_responded (probe_batch net indices start items ! (indices ! i)) = 1)"
    if "i \<in> {start..<min (start + PING_BATCH_SIZE) (length indices)}"
  proof
    have i: "start \<le> i" "i < finish" and range: "i \<in> {start..<finish}" using that by (auto simp: finish_def)
    show "probed net i (items ! (indices ! i)) (probe_batch net indices start items ! (indices ! i))"
      using receive_position [OF d(1) d' f(1) i, of net ?p ?es]
      by (auto simp: probed_def batch packets [OF range] sent(3) [OF range])
    show "only_sent_answered net indices items \<longrightarrow> e \<in> batch_packets net i \<longrightarrow>
      answers net e i (items ! (indices ! i)) \<longrightarrow>
      ms_responded (probe_batch net indices start items ! (indices ! i)) = 1"
    proof (intro impI)
      assume o: "only_sent_answered net indices items" and e: "e \<in> batch_packets net i"
        "answers net e i (items ! (indices ! i))"
      show "ms_responded (probe_batch net indices start items ! (indices ! i)) = 1"
        unfolding batch
      proof (rule receive_complete [OF d(1) d' f(1) _ _ open_count i, where e = e])
        show "nw_sent net j" if "e' \<in> set ?es" "start \<le> j" "j < finish" "answers net e' j (sent ! (indices ! j))" for e' j
        proof -
          have "j < length indices" "e' \<in> batch_packets net j" "answers net e' j (items ! (indices ! j))"
            using that f(1) packets [of j] sent(3) [of j] by simp_all
          then show ?thesis using o unfolding only_sent_answered_def by blast
        qed
        show "ms_responded (sent ! (indices ! j)) \<in> {0, 1}" if "start \<le> j" "j < finish" for j
          using fresh f(1) that sent(3) [of j] by simp
      qed (use e packets [OF range] sent(3) [OF range] in simp_all)
    qed
  qed
qed

lemma probe_batches:
  assumes d: "distinct indices" "set indices \<subseteq> {..<length items}"
    and fresh: "\<forall>i < length indices. ms_responded (items ! (indices ! i)) = 0"
  shows "let items' = fold (\<lambda>k. probe_batch net indices (k * PING_BATCH_SIZE)) [0..<K] items in
    length items' = length items \<and>
    (\<forall>j. j \<notin> (!) indices ` {..<min (K * PING_BATCH_SIZE) (length indices)} \<longrightarrow> items' ! j = items ! j) \<and>
    (\<forall>i < min (K * PING_BATCH_SIZE) (length indices). probed net i (items ! (indices ! i)) (items' ! (indices ! i)) \<and>
      (only_sent_answered net indices items \<longrightarrow> (\<exists>e \<in> batch_packets net i. answers net e i (items ! (indices ! i))) \<longrightarrow>
       ms_responded (items' ! (indices ! i)) = 1))"
proof (induction K)
  case (Suc K)
  let ?N = PING_BATCH_SIZE and ?n = "length indices"
  let ?f = "fold (\<lambda>k. probe_batch net indices (k * ?N)) [0..<K] items"
  have ih: "length ?f = length items"
    "\<And>j. j \<notin> (!) indices ` {..<min (K * ?N) ?n} \<Longrightarrow> ?f ! j = items ! j"
    "\<And>i. i < min (K * ?N) ?n \<Longrightarrow> probed net i (items ! (indices ! i)) (?f ! (indices ! i)) \<and>
      (only_sent_answered net indices items \<longrightarrow> (\<exists>e \<in> batch_packets net i. answers net e i (items ! (indices ! i))) \<longrightarrow>
       ms_responded (?f ! (indices ! i)) = 1)"
    using Suc by (simp_all add: Let_def)
  show ?case
  proof (cases "K * ?N < ?n")
    case False
    then have n: "min (K * ?N) ?n = ?n" "min (Suc K * ?N) ?n = ?n" by simp_all
    have "probe_batch net indices (K * ?N) ?f = ?f"
      using False by (simp add: probe_batch_def Let_def) (cases "nw_received net (K * ?N)"; simp)
    then have same: "fold (\<lambda>k. probe_batch net indices (k * ?N)) [0..<Suc K] items = ?f" by simp
    show ?thesis using ih unfolding Let_def same n by blast
  next
    case True
    have todo: "?f ! (indices ! i) = items ! (indices ! i)" if "K * ?N \<le> i" "i < ?n" for i
      using that d(1) by (intro ih(2)) (auto simp: nth_eq_iff_index_eq)
    have d': "set indices \<subseteq> {..<length ?f}" using d(2) ih(1) by simp
    have fresh': "\<forall>i. K * ?N \<le> i \<longrightarrow> i < ?n \<longrightarrow> ms_responded (?f ! (indices ! i)) = 0"
      using fresh todo by simp
    note batch = probe_batch_effect [OF d(1) d' refl True fresh', where net = net]
    define finish where "finish = min (K * ?N + ?N) ?n"
    have split: "{..<min (Suc K * ?N) ?n} = {..<min (K * ?N) ?n} \<union> {K * ?N..<finish}"
      using True by (auto simp: finish_def)
    have only: "only_sent_answered net indices ?f \<longleftrightarrow> only_sent_answered net indices items"
    proof -
      have "answers net e i (?f ! (indices ! i)) \<longleftrightarrow> answers net e i (items ! (indices ! i))" if "i < ?n" for e i
        using ih(3) [of i] todo [of i] that by (cases "i < K * ?N") (auto simp: probed_def answers_def)
      then show ?thesis by (simp add: only_sent_answered_def)
    qed
    have settled: "probe_batch net indices (K * ?N) ?f ! (indices ! i) = ?f ! (indices ! i)" if "i < min (K * ?N) ?n" for i
      using that True d(1) by (intro batch(2)) (auto simp: nth_eq_iff_index_eq)
    show ?thesis
      unfolding Let_def upt_Suc_append [OF le0] fold_append comp_apply fold.simps id_apply split
    proof (intro conjI allI impI)
      fix i assume "i < min (Suc K * ?N) ?n"
      then consider "i < min (K * ?N) ?n" | "K * ?N \<le> i" "i < finish" using split by fastforce
      then have "probed net i (items ! (indices ! i)) (probe_batch net indices (K * ?N) ?f ! (indices ! i)) \<and>
        (only_sent_answered net indices items \<longrightarrow> (\<exists>e \<in> batch_packets net i. answers net e i (items ! (indices ! i))) \<longrightarrow>
         ms_responded (probe_batch net indices (K * ?N) ?f ! (indices ! i)) = 1)"
      proof cases
        case 1
        then show ?thesis using ih(3) [OF 1] settled by simp
      next
        case 2
        then have "?f ! (indices ! i) = items ! (indices ! i)" by (intro todo) (auto simp: finish_def)
        with 2 show ?thesis using batch(3) [of i] only by (auto simp: finish_def)
      qed
      then show "probed net i (items ! (indices ! i)) (probe_batch net indices (K * ?N) ?f ! (indices ! i))"
        "only_sent_answered net indices items \<Longrightarrow> \<exists>e \<in> batch_packets net i. answers net e i (items ! (indices ! i)) \<Longrightarrow>
         ms_responded (probe_batch net indices (K * ?N) ?f ! (indices ! i)) = 1" by blast+
    next
      fix j assume "j \<notin> (!) indices ` ({..<min (K * ?N) ?n} \<union> {K * ?N..<finish})"
      then show "probe_batch net indices (K * ?N) ?f ! j = items ! j"
        using batch(2) [of j] ih(2) [of j] by (simp add: finish_def image_Un)
    qed (use batch(1) ih(1) in simp)
  qed
qed simp

text \<open>The positions are those of the pingable items in their order.\<close>

definition probe_positions :: "measurement list \<Rightarrow> nat list" where
  "probe_positions items = filter (\<lambda>j. ms_pingable (items ! j)) [0..<length items]"

lemma parallel_ping_effect:
  assumes p: "parallel_ping net items = Some items'"
    and fresh: "\<forall>item \<in> set items. ms_responded item = 0"
  shows "length items' = length items"
    and "j < length items \<Longrightarrow> \<not> ms_pingable (items ! j) \<Longrightarrow> items' ! j = items ! j"
    and "j < length items \<Longrightarrow> ms_pingable (items ! j) \<Longrightarrow>
      \<exists>i < length (probe_positions items). probe_positions items ! i = j \<and> probed net i (items ! j) (items' ! j) \<and>
        (only_sent_answered net (probe_positions items) items \<longrightarrow> (\<exists>e \<in> batch_packets net i. answers net e i (items ! j)) \<longrightarrow>
         ms_responded (items' ! j) = 1)"
proof -
  let ?ix = "probe_positions items" and ?N = PING_BATCH_SIZE
  let ?K = "(length ?ix + ?N - 1) div ?N"
  have d: "distinct ?ix" "set ?ix \<subseteq> {..<length items}" by (auto simp: probe_positions_def)
  have f: "\<forall>i < length ?ix. ms_responded (items ! (?ix ! i)) = 0"
    using fresh nth_index_range [OF d(2)] by auto
  have items': "items' = fold (\<lambda>k. probe_batch net ?ix (k * ?N)) [0..<?K] items"
    using p by (simp add: parallel_ping_def probe_positions_def Let_def split: if_splits)
  have all: "min (?K * ?N) (length ?ix) = length ?ix"
  proof -
    have "length ?ix \<le> ?K * ?N"
      using div_mult_mod_eq [of "length ?ix + ?N - 1" ?N] mod_less_divisor [of ?N "length ?ix + ?N - 1"]
      unfolding PING_BATCH_SIZE_def by linarith
    then show ?thesis by simp
  qed
  note batches = probe_batches [OF d f, of net ?K, folded items', unfolded Let_def all, simplified]
  show "length items' = length items" using batches by simp
  have image: "(!) ?ix ` {..<length ?ix} = set ?ix" by (auto simp: set_conv_nth)
  show "items' ! j = items ! j" if "j < length items" "\<not> ms_pingable (items ! j)"
    using batches that image by (auto simp: probe_positions_def)
  show "\<exists>i < length ?ix. ?ix ! i = j \<and> probed net i (items ! j) (items' ! j) \<and>
        (only_sent_answered net ?ix items \<longrightarrow> (\<exists>e \<in> batch_packets net i. answers net e i (items ! j)) \<longrightarrow>
         ms_responded (items' ! j) = 1)" if "j < length items" "ms_pingable (items ! j)"
  proof -
    have "j \<in> set ?ix" using that by (simp add: probe_positions_def)
    then obtain i where "i < length ?ix" "?ix ! i = j" by (auto simp: in_set_conv_nth)
    with batches show ?thesis by blast
  qed
qed

section \<open>The rows of a round\<close>

lemma next_id_greater: "i \<in> set ids \<Longrightarrow> i < next_id ids"
  by (auto simp: next_id_def le_imp_less_Suc dest: Max_ge [OF finite_set])

lemma insert_results_rows:
  assumes "\<forall>item \<in> set items. 0 \<le> ms_rtt item \<and> ms_rtt item \<le> 1000 \<and> ms_responded item \<in> {0, 1}"
  shows "\<exists>rows. insert_results now items db = Some (db\<lparr>db_results := db_results db @ rows\<rparr>) \<and>
    list_all2 (\<lambda>item p. pr_observed_at p = now \<and> pr_target p = ms_id item \<and> pr_rtt p = ms_rtt item \<and>
      pr_responded p = ms_responded item \<and> pr_state p = ms_state item \<and> pr_snr p = ms_snr item) items rows \<and>
    (\<forall>p \<in> set (db_results db). \<forall>q \<in> set rows. pr_id p < pr_id q) \<and> sorted_wrt (<) (map pr_id rows)"
  using assms
proof (induction items arbitrary: db)
  case (Cons item items)
  define row where "row = \<lparr>pr_id = next_id (map pr_id (db_results db)), pr_observed_at = now, pr_target = ms_id item,
      pr_rtt = ms_rtt item, pr_responded = ms_responded item, pr_state = ms_state item, pr_snr = ms_snr item\<rparr>"
  let ?db = "db\<lparr>db_results := db_results db @ [row]\<rparr>"
  have first: "insert_result now item db = Some ?db"
    using Cons.prems by (simp add: insert_result_def row_def)
  obtain rows where rows: "insert_results now items ?db = Some (?db\<lparr>db_results := db_results ?db @ rows\<rparr>)"
    "list_all2 (\<lambda>item p. pr_observed_at p = now \<and> pr_target p = ms_id item \<and> pr_rtt p = ms_rtt item \<and>
      pr_responded p = ms_responded item \<and> pr_state p = ms_state item \<and> pr_snr p = ms_snr item) items rows"
    "\<forall>p \<in> set (db_results ?db). \<forall>q \<in> set rows. pr_id p < pr_id q" "sorted_wrt (<) (map pr_id rows)"
    using Cons.IH [of ?db] Cons.prems by auto
  have "\<forall>p \<in> set (db_results db). pr_id p < pr_id row"
    using next_id_greater [of _ "map pr_id (db_results db)"] by (simp add: row_def)
  with rows first show ?case
    by (intro exI [of _ "row # rows"]) (auto simp: row_def)
qed simp

lemma bind_Some_iff: "Option.bind m f = Some y \<longleftrightarrow> (\<exists>x. m = Some x \<and> f x = Some y)"
  by (cases m) auto

text \<open>The telemetry leaves the other two tables alone.\<close>

lemma ingest_radios_tables:
  "ingest_radios xml mac now tags db = Some db' \<Longrightarrow> db_results db' = db_results db \<and> db_targets db' = db_targets db"
  by (induction tags arbitrary: db)
    (fastforce simp: bind_Some_iff ingest_radio_def put_radio_def split: option.splits prod.splits)+

lemma ingest_links_tables:
  "db_results (fold (ingest_link xml mac now) tags db) = db_results db \<and>
   db_targets (fold (ingest_link xml mac now) tags db) = db_targets db"
  by (induction tags arbitrary: db)
    (simp_all add: ingest_link_def put_link_def split: option.split prod.split)

lemma ingest_ap_tables:
  "ingest_ap xml now tags db = Some db' \<Longrightarrow> db_results db' = db_results db \<and> db_targets db' = db_targets db"
  using ingest_links_tables
  by (auto simp: ingest_ap_def dest!: ingest_radios_tables split: option.splits prod.splits if_splits)

lemma ingest_aps_tables:
  "ingest_aps xml now pos db = Some db' \<Longrightarrow> db_results db' = db_results db \<and> db_targets db' = db_targets db"
proof (induction xml now pos db rule: ingest_aps.induct)
  case (1 xml now pos db)
  show ?case
  proof (cases "\<exists>tag head_end ap_end. bytes_find xml ''<ap '' pos = Some tag \<and>
      bytes_find xml ''>'' tag = Some head_end \<and> bytes_find xml ''</ap>'' head_end = Some ap_end")
    case False
    then show ?thesis using 1(2) by (subst (asm) ingest_aps.simps) (auto split: option.splits)
  next
    case True
    then obtain tag head_end ap_end where t: "bytes_find xml ''<ap '' pos = Some tag"
      "bytes_find xml ''>'' tag = Some head_end" "bytes_find xml ''</ap>'' head_end = Some ap_end" by blast
    obtain mid where mid: "ingest_ap xml now (tag, head_end, ap_end) db = Some mid"
      "ingest_aps xml now (ap_end + 5) mid = Some db'"
      using 1(2) t by (subst (asm) ingest_aps.simps) (auto split: option.splits)
    show ?thesis using 1(1) [OF t mid] ingest_ap_tables [OF mid(1)] by simp
  qed
qed

lemma insert_target_tables [simp]:
  "db_results (insert_target kind ip mac ap name db) = db_results db"
  "db_radios (insert_target kind ip mac ap name db) = db_radios db"
  "db_links (insert_target kind ip mac ap name db) = db_links db"
  by (simp_all add: insert_target_def)

text \<open>Merging moves results to another target and changes nothing else of them.\<close>

definition untargeted :: "result_row \<Rightarrow> result_row" where
  "untargeted p = p\<lparr>pr_target := 0\<rparr>"

lemma untargeted_simps [simp]: "pr_id (untargeted p) = pr_id p" "pr_observed_at (untargeted p) = pr_observed_at p"
  "untargeted (p\<lparr>pr_target := t\<rparr>) = untargeted p"
  by (simp_all add: untargeted_def)

lemma sync_targets_tables:
  assumes "sync_targets aps view db = Some db'"
  shows "map untargeted (db_results db') = map untargeted (db_results db) \<and> db_radios db' = db_radios db \<and>
    db_links db' = db_links db"
proof -
  have seed: "db_results (seed aps db) = db_results db \<and> db_radios (seed aps db) = db_radios db \<and>
      db_links (seed aps db) = db_links db" for aps db
    unfolding seed_def by (induction aps arbitrary: db) auto
  have merge: "map untargeted (db_results db') = map untargeted (db_results db) \<and> db_radios db' = db_radios db \<and>
      db_links db' = db_links db" if "merge_legacy_aps aps db = Some db'" for aps db db'
    using that
  proof (induction aps arbitrary: db)
    case (Cons ap aps)
    then obtain mid where mid: "merge_ap ap db = Some mid" "merge_legacy_aps aps mid = Some db'"
      by (auto simp: bind_Some_iff)
    have "map untargeted (db_results mid) = map untargeted (db_results db) \<and> db_radios mid = db_radios db \<and>
        db_links mid = db_links db"
      using mid(1) by (auto simp: merge_ap_def Let_def split: option.splits if_splits)
    with Cons.IH [OF mid(2)] show ?case by simp
  qed simp
  have client: "db_results (sync_client c db) = db_results db \<and> db_radios (sync_client c db) = db_radios db \<and>
      db_links (sync_client c db) = db_links db" for c db
    by (simp add: sync_client_def Let_def split: option.split)
  have clients: "db_results (fold sync_client cs db) = db_results db \<and> db_radios (fold sync_client cs db) = db_radios db \<and>
      db_links (fold sync_client cs db) = db_links db" for cs db
    by (induction cs arbitrary: db) (simp_all add: client)
  show ?thesis
    using assms seed [of aps db] merge [of aps "seed aps db"] clients
    by (auto simp: sync_targets_def sync_clients_def split: if_splits)
qed

text \<open>A target is pinged when it has an address and, for a client, is in the view.\<close>

definition pinged :: "client_view \<Rightarrow> target_row \<Rightarrow> bool" where
  "pinged view t \<longleftrightarrow> inet_pton (tg_ip t) \<noteq> None \<and>
     (tg_kind t = KindClient \<longrightarrow> cv_valid view \<and> client_present view (tg_client_mac t))"

text \<open>
  The row of the target \<open>t\<close>, the \<open>i\<close>-th that is pinged: without a probe, the state tells why; with
  one, a reply needs a packet that came from the target's address, carries the identifier and the
  mark of the round and the target's own number.
\<close>

definition row_matches :: "network \<Rightarrow> client_view \<Rightarrow> int \<Rightarrow> nat \<Rightarrow> target_row \<Rightarrow> result_row \<Rightarrow> bool" where
  "row_matches net view now i t p \<longleftrightarrow>
     pr_target p = tg_id t \<and> pr_observed_at p = now \<and> 0 \<le> pr_rtt p \<and> pr_rtt p \<le> 1000 \<and>
     (if \<not> pinged view t
      then pr_responded p = 0 \<and> pr_rtt p = 1000 \<and>
           pr_state p = (if tg_kind t = KindClient \<and> cv_valid view \<and> \<not> client_present view (tg_client_mac t)
                         then StateNotAssociated else StateUnknown)
      else pr_responded p = 0 \<and> pr_rtt p = 1000 \<and> pr_state p = StateTimeout \<or>
           pr_responded p = 1 \<and> pr_state p = StateOk \<and>
           (\<exists>e \<in> batch_packets net i. ec_complete e \<and> ec_reply e \<and> ec_id e = nw_identifier net \<and>
              ec_magic e = ICMP_MAGIC \<and> ec_index e = i \<and> inet_pton (tg_ip t) = Some (ec_source e)))"

lemma load_measurement_simps:
  "ms_id (load_measurement view t) = tg_id t" "ms_responded (load_measurement view t) = 0"
  "ms_rtt (load_measurement view t) = 1000" "ms_pingable (load_measurement view t) \<longleftrightarrow> pinged view t"
  "pinged view t \<Longrightarrow> inet_pton (tg_ip t) = Some (ms_address (load_measurement view t))"
  "\<not> pinged view t \<Longrightarrow> ms_state (load_measurement view t) =
     (if tg_kind t = KindClient \<and> cv_valid view \<and> \<not> client_present view (tg_client_mac t)
      then StateNotAssociated else StateUnknown)"
  by (auto simp: load_measurement_def pinged_def Let_def TIMEOUT_MS_def split: option.splits)

lemma measured_row:
  assumes p: "parallel_ping net (load_measurements view db) = Some items"
  defines "ts \<equiv> sort_key tg_id (filter tg_enabled (db_targets db))"
  shows "length items = length ts"
    and "j < length ts \<Longrightarrow> 0 \<le> ms_rtt (items ! j) \<and> ms_rtt (items ! j) \<le> 1000 \<and> ms_responded (items ! j) \<in> {0, 1}"
    and "j < length ts \<Longrightarrow> pr_observed_at row = now \<Longrightarrow> pr_target row = ms_id (items ! j) \<Longrightarrow>
      pr_rtt row = ms_rtt (items ! j) \<Longrightarrow> pr_responded row = ms_responded (items ! j) \<Longrightarrow> pr_state row = ms_state (items ! j) \<Longrightarrow>
      \<exists>i. row_matches net view now i (ts ! j) row \<and>
        (pinged view (ts ! j) \<longrightarrow> filter (\<lambda>j. pinged view (ts ! j)) [0..<length ts] ! i = j)"
proof -
  let ?items = "load_measurements view db"
  have items: "?items = map (load_measurement view) ts" by (simp add: load_measurements_def ts_def)
  have fresh: "\<forall>item \<in> set ?items. ms_responded item = 0" by (auto simp: items load_measurement_simps)
  note effect = parallel_ping_effect [OF p fresh]
  show "length items = length ts" using effect(1) by (simp add: items)
  have positions: "probe_positions ?items = filter (\<lambda>j. pinged view (ts ! j)) [0..<length ts]"
    unfolding probe_positions_def items by (rule filter_cong) (simp_all add: load_measurement_simps)
  have out: "items ! j = load_measurement view (ts ! j)" if "j < length ts" "\<not> pinged view (ts ! j)" for j
    using effect(2) [of j] that by (simp add: items load_measurement_simps)
  have inn: "\<exists>i. filter (\<lambda>j. pinged view (ts ! j)) [0..<length ts] ! i = j \<and>
      probed net i (load_measurement view (ts ! j)) (items ! j)" if "j < length ts" "pinged view (ts ! j)" for j
    using effect(3) [of j] that by (auto simp: positions, auto simp: items load_measurement_simps)
  show "0 \<le> ms_rtt (items ! j) \<and> ms_rtt (items ! j) \<le> 1000 \<and> ms_responded (items ! j) \<in> {0, 1}" if "j < length ts"
    using out [OF that] inn [OF that]
    by (cases "pinged view (ts ! j)") (auto simp: probed_def load_measurement_simps)
  show "\<exists>i. row_matches net view now i (ts ! j) row \<and>
        (pinged view (ts ! j) \<longrightarrow> filter (\<lambda>j. pinged view (ts ! j)) [0..<length ts] ! i = j)"
    if j: "j < length ts" and row: "pr_observed_at row = now" "pr_target row = ms_id (items ! j)"
      "pr_rtt row = ms_rtt (items ! j)" "pr_responded row = ms_responded (items ! j)" "pr_state row = ms_state (items ! j)"
  proof (cases "pinged view (ts ! j)")
    case False
    with out [OF j] row show ?thesis
      by (intro exI [of _ 0]) (simp add: row_matches_def load_measurement_simps)
  next
    case True
    then obtain i where i: "filter (\<lambda>j. pinged view (ts ! j)) [0..<length ts] ! i = j"
      "probed net i (load_measurement view (ts ! j)) (items ! j)" using inn [OF j] by blast
    then have "row_matches net view now i (ts ! j) row"
      using True row by (auto simp: row_matches_def probed_def answers_def load_measurement_simps)
    with i(1) show ?thesis by blast
  qed
qed

lemma ingest_ap_detail_tables:
  "ingest_ap_detail detail now db = Some db' \<Longrightarrow> db_results db' = db_results db \<and> db_targets db' = db_targets db"
  by (auto simp: ingest_ap_detail_def dest: ingest_aps_tables split: option.splits)

lemma store_round_rows:
  assumes p: "parallel_ping net (load_measurements view mid) = Some items"
    and st: "store_round detail now items mid = Some db'"
  defines "ts \<equiv> sort_key tg_id (filter tg_enabled (db_targets mid))"
  shows "db_targets db' = db_targets mid \<and>
    (\<exists>rows. db_results db' = filter (\<lambda>p. now - RETENTION_SECONDS \<le> pr_observed_at p) (db_results mid) @ rows \<and>
       length rows = length ts \<and> (\<forall>p \<in> set (db_results mid). \<forall>q \<in> set rows. pr_id p < pr_id q) \<and>
       sorted_wrt (<) (map pr_id rows) \<and>
       (\<forall>j < length ts. \<exists>i. row_matches net view now i (ts ! j) (rows ! j) \<and>
          (pinged view (ts ! j) \<longrightarrow> filter (\<lambda>j. pinged view (ts ! j)) [0..<length ts] ! i = j)))"
proof -
  note row = measured_row [OF p, folded ts_def]
  have check: "\<forall>item \<in> set items. 0 \<le> ms_rtt item \<and> ms_rtt item \<le> 1000 \<and> ms_responded item \<in> {0, 1}"
    using row(1,2) by (metis in_set_conv_nth)
  obtain rows where rows: "insert_results now items mid = Some (mid\<lparr>db_results := db_results mid @ rows\<rparr>)"
    "list_all2 (\<lambda>item p. pr_observed_at p = now \<and> pr_target p = ms_id item \<and> pr_rtt p = ms_rtt item \<and>
      pr_responded p = ms_responded item \<and> pr_state p = ms_state item \<and> pr_snr p = ms_snr item) items rows"
    "\<forall>p \<in> set (db_results mid). \<forall>q \<in> set rows. pr_id p < pr_id q" "sorted_wrt (<) (map pr_id rows)"
    using insert_results_rows [OF check, of now mid] by blast
  obtain tele where tele: "ingest_ap_detail detail now (mid\<lparr>db_results := db_results mid @ rows\<rparr>) = Some tele"
    "db' = prune now tele"
    using st rows(1) by (auto simp: store_round_def)
  have new: "\<forall>p \<in> set rows. now - RETENTION_SECONDS \<le> pr_observed_at p"
    using rows(2) by (auto simp: list_all2_conv_all_nth in_set_conv_nth RETENTION_SECONDS_def)
  have results: "db_results db' = filter (\<lambda>p. now - RETENTION_SECONDS \<le> pr_observed_at p) (db_results mid) @ rows"
    using ingest_ap_detail_tables [OF tele(1)] new by (simp add: tele(2) prune_def not_less filter_id_conv)
  have targets: "db_targets db' = db_targets mid"
    using ingest_ap_detail_tables [OF tele(1)] by (simp add: tele(2) prune_def)
  have len: "length rows = length ts" using rows(2) row(1) by (simp add: list_all2_conv_all_nth)
  have "\<exists>i. row_matches net view now i (ts ! j) (rows ! j) \<and>
      (pinged view (ts ! j) \<longrightarrow> filter (\<lambda>j. pinged view (ts ! j)) [0..<length ts] ! i = j)" if "j < length ts" for j
    using row(3) [OF that, of "rows ! j" now] rows(2) that row(1) by (auto simp: list_all2_conv_all_nth)
  with results targets rows(3,4) len show ?thesis by blast
qed


text \<open>An answer is never lost: a pinged item counts as responded exactly when a packet answers its probe.\<close>

theorem answered_probe_is_recorded:
  assumes "parallel_ping net items = Some items'" "\<forall>item \<in> set items. ms_responded item = 0"
    and "only_sent_answered net (probe_positions items) items" "i < length (probe_positions items)"
  shows "ms_responded (items' ! (probe_positions items ! i)) = 1 \<longleftrightarrow>
    (\<exists>e \<in> batch_packets net i. answers net e i (items ! (probe_positions items ! i)))"
proof -
  let ?j = "probe_positions items ! i"
  have "?j \<in> set (probe_positions items)" using assms(4) by simp
  then have j: "?j < length items" "ms_pingable (items ! ?j)" by (auto simp: probe_positions_def)
  obtain k where k: "k < length (probe_positions items)" "probe_positions items ! k = ?j"
    "probed net k (items ! ?j) (items' ! ?j)"
    "(\<exists>e \<in> batch_packets net k. answers net e k (items ! ?j)) \<longrightarrow> ms_responded (items' ! ?j) = 1"
    using parallel_ping_effect(3) [OF assms(1,2) j] assms(3) by blast
  have "distinct (probe_positions items)" by (simp add: probe_positions_def)
  then have "k = i" using k(1,2) assms(4) by (simp add: nth_eq_iff_index_eq)
  moreover have "ms_responded (items ! ?j) = 0" using assms(2) j(1) by simp
  ultimately show ?thesis using k(3,4) by (auto simp: probed_def)
qed

text \<open>One access point whose probe is answered after 7 milliseconds, with a stray packet before.\<close>

definition sample_ap :: target_row where
  "sample_ap = \<lparr>tg_id = 1, tg_kind = KindAp, tg_ip = ''10.0.0.1'', tg_client_mac = None,
     tg_ap_id = Some ''00:11:22:33:44:55'', tg_name = ''hall'', tg_enabled = True\<rparr>"

definition sample_ap_db :: ping_db where
  "sample_ap_db = \<lparr>db_targets = [sample_ap], db_results = [], db_radios = [], db_links = []\<rparr>"

definition sample_echo :: "nat list \<Rightarrow> echo" where
  "sample_echo source = \<lparr>ec_complete = True, ec_source = source, ec_reply = True, ec_id = 9, ec_magic = ICMP_MAGIC,
     ec_index = 0, ec_elapsed = 7\<rparr>"

definition sample_network :: network where
  "sample_network = \<lparr>nw_socket = True, nw_identifier = 9, nw_sent = (\<lambda>_. True),
     nw_received = (\<lambda>_. [sample_echo [10, 0, 0, 2], sample_echo [10, 0, 0, 1]])\<rparr>"

lemma sample_address: "inet_pton ''10.0.0.1'' = Some [10, 0, 0, 1]"
  by (simp add: inet_pton_def inet_octet_def is_digits_def is_ascii_digit_def in_range_def decimal_value_def
      code_point_def)

lemma sample_tick:
  "tick sample_network None None None 86500 sample_ap_db =
     (True, sample_ap_db\<lparr>db_results := [\<lparr>pr_id = 1, pr_observed_at = 86500, pr_target = 1, pr_rtt = 7,
        pr_responded = 1, pr_state = StateOk, pr_snr = None\<rparr>]\<rparr>)"
  by (simp add: tick_def sync_targets_def read_aps_def parse_client_view_def seed_def sample_ap_db_def sample_ap_def
      load_measurements_def load_measurement_def sample_address parallel_ping_def sample_network_def probe_batch_def
      PING_BATCH_SIZE_def accepts_def sample_echo_def send_probe_def record_reply_def store_round_def insert_result_def
      next_id_def ingest_ap_detail_def prune_def TIMEOUT_MS_def RETENTION_SECONDS_def)


section \<open>What goes wrong\<close>

text \<open>
  The address of an access point is never refreshed: whatever the controller's list says, a target
  with a MAC of the usual length keeps its row, and is probed at the address it was first seen with.
\<close>

theorem access_point_address_is_kept:
  assumes "t \<in> set (db_targets db)" "tg_kind t = KindAp" "tg_ap_id t = Some i" "length i = 17"
    and "sync_targets aps view db = Some db'"
  shows "t \<in> set (db_targets db')"
proof -
  have seed: "t \<in> set (db_targets (seed aps db))" if "t \<in> set (db_targets db)" for db
    unfolding seed_def using that by (induction aps arbitrary: db) (auto simp: insert_target_def)
  have merge: "t \<in> set (db_targets db'')" if "t \<in> set (db_targets db)" "merge_legacy_aps aps db = Some db''" for aps db db''
    using that
  proof (induction aps arbitrary: db)
    case (Cons ap aps)
    then obtain mid where mid: "merge_ap ap db = Some mid" "merge_legacy_aps aps mid = Some db''"
      by (auto simp: bind_Some_iff)
    have "\<not> legacy_ap (ae_ip ap) t" using assms(3,4) by (simp add: legacy_ap_def)
    then have "t \<in> set (db_targets mid)"
      using mid(1) Cons.prems(1) by (auto simp: merge_ap_def Let_def split: option.splits if_splits)
    then show ?case using Cons.IH mid(2) by blast
  qed simp
  have client: "t \<in> set (db_targets (sync_client c db))" if "t \<in> set (db_targets db)" for c db
    using that assms(2)
    by (auto simp: sync_client_def Let_def insert_target_def image_iff split: option.split)
  have "t \<in> set (db_targets (fold sync_client cs db))" if "t \<in> set (db_targets db)" for cs db
    using that by (induction cs arbitrary: db) (simp_all add: client)
  then show ?thesis
    using assms(5) merge [OF seed [OF assms(1)]]
    by (auto simp: sync_targets_def sync_clients_def split: if_splits)
qed

text \<open>
  A radio without an id makes the whole round fail: its row violates a \<open>NOT NULL\<close> column, the
  transaction is undone, and with it every result of the round.
\<close>

definition radio_xml :: string where
  "radio_xml = ''<ap mac='' @ [CHR 0x22] @ ''00:11:22:33:44:55'' @ [CHR 0x22] @ ''><radio ></ap>''"

lemma radio_xml_tags:
  "bytes_find radio_xml ''<ap '' 0 = Some 0" "bytes_find radio_xml ''>'' 0 = Some 27"
  "bytes_find radio_xml ''</ap>'' 27 = Some 36" "bytes_find radio_xml ''<radio '' 28 = Some 28"
  "bytes_find radio_xml ''>'' 28 = Some 35"
  by (simp_all add: radio_xml_def bytes_find_def occurs_at_def upt_rec)

lemma radio_xml_attributes:
  "attr radio_xml 0 27 ''mac'' = Some ''00:11:22:33:44:55''" "attr radio_xml 28 35 ''radio-id'' = None"
proof -
  have "bytes_find radio_xml (CHR '' '' # ''mac='' @ [CHR 0x22]) 0 = Some 3"
    "bytes_find radio_xml [CHR 0x22] 9 = Some 26"
    "bytes_find radio_xml (CHR '' '' # ''radio-id='' @ [CHR 0x22]) 28 = None"
    by (simp_all add: radio_xml_def bytes_find_def occurs_at_def upt_rec)
  then show "attr radio_xml 0 27 ''mac'' = Some ''00:11:22:33:44:55''" "attr radio_xml 28 35 ''radio-id'' = None"
    by (simp_all add: attr_def) (simp add: radio_xml_def)
qed

lemma radio_xml_mac: "valid_mac_text ''00:11:22:33:44:55''"
proof -
  have all_below: "(\<forall>i < 17. P i) \<longleftrightarrow> (\<forall>i \<in> set [0..<17]. P i)" for P :: "nat \<Rightarrow> bool" by auto
  show ?thesis
    unfolding valid_mac_text_def all_below by (simp add: hex_value_def in_range_def code_point_def upt_rec)
qed

theorem radio_without_id_loses_round: "fst (tick net ap_list client_xml (Some radio_xml) now db) = False"
proof -
  have "ingest_radios radio_xml mac now
      (takeWhile (\<lambda>(tag, finish). tag < 36 \<and> finish \<le> 36) (scan_tags radio_xml ''<radio '' 28)) db = None" for mac db
    by (subst scan_tags.simps)
      (simp add: radio_xml_tags ingest_radio_def radio_xml_attributes optional_int_def)
  then have "ingest_ap_detail (Some radio_xml) now db = None" for db
    by (subst ingest_ap_detail_def, simp, subst ingest_aps.simps)
      (simp add: radio_xml_tags ingest_ap_def radio_xml_attributes radio_xml_mac)
  then show ?thesis
    by (simp add: tick_def store_round_def Let_def bind_eq_None_conv split: option.split)
qed

end
