(* ===== verification/Spec2Isabelle.thy ===== *)
theory Spec2Isabelle
imports PatchSpec CommandLines RootSsh Hygiene Digest Recovery DailyAirtime DailyBackfill PingProbes
begin

text \<open>
  A verification library for the tools of the ZD1200 local lab: the Python programs that take a vendor
  firmware download of a Ruckus ZoneDirector 1200, verify it, decrypt it, patch the controller kernel and
  the access-point payload in it, and pack everything into a bundle, and the programs that give the
  emulated controller its identity, its disk and its CPU limit; and the path of the measured ping history
  from the database of the controller to the browser.

  \<^bold>\<open>The parts and how they interact.\<close>  \<open>build_zd1200_bundle.py\<close> is the composition.  It selects a release
  (\<open>release_manifest.py\<close>), decrypts a TAC input (\<open>ruckus_tac_decrypt.py\<close>), verifies the archive
  (\<open>verify_release_archive.py\<close>), patches the kernel with the artifact container and the engine of
  \<open>patch_binary_artifact.py\<close> under the rules of \<open>binary_patch_catalog.py\<close>, patches the AP images with
  \<open>patch_r600_bl7.py\<close> over the image format of \<open>ruckus_bl7.py\<close>, and publishes a ZIP file.  At run time
  \<open>zd_identity.py\<close> keeps a serial number and a MAC, \<open>make-synthetic-cf.py\<close> makes the disk image,
  \<open>write-boarddata.py\<close> writes the identity into it, \<open>limit-process-cpu.py\<close> throttles the emulator and
  \<open>zd_root_ssh.py\<close> checks a public key; \<open>run-zd1200-web.sh\<close> composes them at every start, after running
  the patch command on the bundled kernel once more.  \<open>check_repository_hygiene.py\<close> guards the repository itself.
  Inside the controller \<open>zd1200-ping-monitor.c\<close> pings the access points and clients in rounds and stores
  what it finds in a database; \<open>analytics/ping-daily-publish.sh\<close> has \<open>zd1200-ping-export.c\<close> write the ping history
  of a day into a binary file, keeps thirty such files, and \<open>ping-monitor-worker.js\<close> decodes them in the
  browser and counts them into the cells of a chart.

  \<^bold>\<open>The theories.\<close>
  \<^item> \<open>Prelude\<close>: exceptions as values, \<open>exn + 'a\<close> results and their sequencing, Python slices.
  \<^item> \<open>ByteCodec\<close>: bytes, slices of them, big and little endian integers; the locale \<open>fixed_codec\<close> states
    the contract of a fixed-width codec and is interpreted on both byte orders.
  \<^item> \<open>PyText\<close>, \<open>Json\<close>, \<open>PosixPath\<close>: the text, JSON and path operations of Python the sources use.
  \<^item> \<open>FileStore\<close>: a file system as a map, with the locale \<open>atomic_store\<close> for write-then-rename clients;
    \<open>DiskImage\<close>: a disk image with the locale \<open>block_device\<close>.
  \<^item> \<open>MaskedPattern\<close>, \<open>PatchCatalog\<close>, \<open>PatchEngine\<close>, \<open>PatchProperties\<close>, \<open>Artifact\<close>: masked byte patterns and
    the anchored search (locale \<open>occurrence_search\<close>), the catalog loader, the patch engine, what it
    guarantees, and the gzip member inside the kernel image with the command around it.
  \<^item> \<open>PatchSpec\<close>: the order-free specification of a patch run (\<open>patch_spec\<close>, \<open>patchable\<close>) over the set of its
    rules, which the engine refines; \<open>Repatch\<close>: patching an image that was patched before.
  \<^item> \<open>Tac\<close>: the word stream, the chunk loop and the atomic file command of the decryption.
  \<^item> \<open>Bl7\<close>, \<open>R600Patch\<close>: the AP image format, and the patcher of one image.
  \<^item> \<open>Manifest\<close>, \<open>ArchiveVerify\<close>: the release manifest and the verification of an archive.
  \<^item> \<open>Payload\<close>, \<open>Scorpion\<close>, \<open>Bundle\<close>, \<open>BundleProperties\<close>: the release payload, the shared AP payload, the
    builder from its options to the published ZIP file, and its properties.
  \<^item> \<open>Recovery\<close>: runs that are killed and repeated, with the locales \<open>atomic_writer\<close> and its extension
    \<open>restartable_writer\<close>, interpreted on the builder and on the image patcher; \<open>BuilderErrors\<close>: a calculus of
    the exceptions a program can raise (\<open>raises\<close>), applied to every module below the builder.
  \<^item> \<open>Digest\<close>: hashing a file in blocks, with the locale \<open>incremental_digest\<close>, which makes no difference; the
    other theories speak of the digest of a whole file.
  \<^item> \<open>ShippedData\<close>: the catalog and the manifest of the repository themselves, loaded by the modelled loaders.
  \<^item> \<open>Identity\<close>, \<open>BoardData\<close>, \<open>SyntheticCf\<close>, \<open>CpuLimiter\<close>, \<open>RootSsh\<close>, \<open>Hygiene\<close>: one theory for each of the
    remaining programs.
  \<^item> \<open>RuntimeKernel\<close>, \<open>Provisioning\<close>: one start of the controller over a bundle and a state volume, as
    \<open>run-zd1200-web.sh\<close> puts the programs together, and the relation of any number of starts.
  \<^item> \<open>PingStore\<close>: the tables of the ping database and the binary search of the C programs; \<open>DailyExport\<close>:
    \<open>export_day\<close> of the exporter; \<open>DailyReader\<close>: \<open>parseDay\<close> of the browser; \<open>DailyFormat\<close>: the file as a list of
    sections, which the one writes and the other finds; \<open>DailyCodes\<close>: the logarithmic code book;
    \<open>DailyRoundTrip\<close>: a decoded file against the database; \<open>DailyAirtime\<close>: the airtime matrix against the
    readings behind the counters.
  \<^item> \<open>VendorXml\<close>: how the monitor reads XML, its lists of access points and clients and the search in them;
    \<open>PingRound\<close>: \<open>tick\<close>, the targets, the probes and the two transactions of one round; \<open>PingProbes\<close>: what a
    round records.
  \<^item> \<open>DailyPublish\<close>, \<open>DailyBackfill\<close>: the two modes of the publishing script as the stores they pass through;
    \<open>DailyHistory\<close>: \<open>history\<close> of the worker; \<open>DailyTotals\<close>: its counters against the database.
  \<^item> \<open>CommandLines\<close>: the options of the programs with their defaults, required arguments and choices.

  A function of the source is the definition of the same name; \<open>main\<close> is prefixed with its program.  The
  parts of a long function are definitions of their own, composed in its order.  A dataclass is a record,
  a \<open>dict\<close> an association list, since order and duplicates are observable, a raised exception an \<open>Inl\<close>
  with the constant part of its message, and a program that writes files returns the stores it passes
  through, the last one first, so that its intermediate states can be spoken of.

  \<^bold>\<open>What the lemmas show.\<close>
  \<^item> Engine: only the expected bytes of a uniquely matching rule change, each replacement is written in full,
    the closing check leaves no unpatched site, jumps keep their targets, and a second run changes
    nothing; the search is equal to its positional specification.  The engine succeeds exactly when the
    rules resolve and their windows are apart, with the one result the specification allows, so their order
    does not matter.
  \<^item> Container and images: the kernel file keeps its size and all bytes outside its gzip member; an AP
    image is split without loss and rebuilt into one the parser accepts; decryption inverts the encryption
    of the tests, for every chunk size.
  \<^item> Bundle: a report is returned only for a verified input; the kernel in the bundle is the vendor kernel
    with every rule settled; the files of a bundle are exactly the listed ones; the options are decided by
    a table; errors become usage errors and leave the store alone; with loaded data no key, index, overflow
    or unforeseen assertion error leaves the builder.
  \<^item> Publication: in each of the four programs that publish a file by renaming every intermediate state has the old
    or the complete new contents, whichever system calls fail; a build or an image patch that was killed any
    number of times and is repeated ends as if nothing had happened.
  \<^item> Loaders: what the manifest and catalog loaders return is well formed, and selection is exact.
  \<^item> Shipped data: with the catalog of the repository patching is final for every file, and its manifest
    selects releases without ambiguity and requires every file the builder uses.
  \<^item> Run time: the kernel of a bundle is a fixed point of the patch command; a start writes the board data of
    exactly the identity it reports, and later starts, whatever happened between, report it again and bring
    the volume back to the same bytes; the board data reads back, the disk
    layout is sound, a limiter that returns leaves its target running, and it returns once the target is
    gone.
  \<^item> Ping round: a round is stored as a whole or not at all, with one row for each enabled target, and a
    reply is recorded only for a packet that answers the probe of that target in that round; a client is
    found exactly when the view has it.
  \<^item> Ping history: the browser reads back, for every device and round, the codes of the last result in the
    database, each latency as the nearest entry of the code book; an airtime byte is the mean of the readings
    between two polls; the cells of a chart are the exact counts of the results of their device and time;
    the published files are the last exports of their days, and a run of the script may be killed at any
    moment but one.
  \<^item> Some theorems prove flaws: among them that the bundle lacks files its own build instructions need, that
    a generated identity can be refused later, that a terminated limiter leaves its target stopped,
    that one duplicate identity hides all devices of a day, that a killed publication files a day under
    the date of the day before, that an access point is probed for ever at the address it was first seen
    with, and that one radio without an id loses a whole round.

  \<^bold>\<open>Parameters.\<close>  Code that is not part of the repository is an argument: the zlib and gzip codecs, MD5 and
  SHA-256, base64 and UTF-8 decoding, the TAR reader and the TAR, ZIP and JSON writers, the SquashFS tools,
  the boot initramfs script, \<open>git\<close>, the random source, the \<open>pow\<close> and \<open>lround\<close> of the C library, the
  gzip of the publishing script and the expansion of its file name pattern, and the network of a ping round
  (\<open>network\<close>: which requests can be sent and which packets arrive while a batch waits).  Where a theorem needs a law of one of them, the
  law is a named hypothesis (decompression undoes compression and ignores what follows; the SquashFS
  tools invert each other; the initramfs script only adds its image; \<open>accurate_cells\<close>, that the C library
  computes the powers of the code book to a thousandth before it rounds them; the expansion lists the files
  that exist), and its witness has an instance.
  Failing system calls are decided by a predicate on the steps of the program.

  \<^bold>\<open>Loops.\<close>  All loops of the sources but one end, and are total functions here: structural recursion, or a
  measure (the distance to the end of the data for the searches and the chunk loop, the value of the sum
  for the carry of the checksum, the interval of a binary search).  The one that does not is the limiter's, which is a step relation.

  \<^bold>\<open>Not modelled.\<close>  How \<open>argparse\<close> splits a command line, except which words it takes as values
  (\<open>option_value\<close>, as in Python 3.11); the wording of printed lines; file modes, directories and links, except where a
  check is about them; the wording of messages beyond their constant part; floating-point sleeping times
  (the exact values are used); the shell scripts but for the publishing script and the part of
  \<open>run-zd1200-web.sh\<close> before the emulator starts.  Under \<open>analytics\<close>: the
  commands of \<open>zd1200-ping-monitor.c\<close> beside \<open>tick\<close>, its migration of old databases and the columns that
  nothing modelled reads, the collectors, which talk to the vendor programs, the
  JSON reports of the exporter, failing allocations and SQLite calls, the overflow of airtime counters, and
  the page that draws the charts.  Also the
  container configuration, the host helpers and the tests, except for the encryption the tests define.
\<close>

end
